(* ===== verification/Prelude.thy ===== *)
theory Prelude
  imports Main "HOL-Library.Word" "HOL-Library.Sublist"
begin

text \<open>
  Shared vocabulary of the development: the result type of Rust code that may panic, the
  fixed-width integers, and the operations of the Rust standard library on strings, slices
  and integers that the crates use (\<open>strip_prefix\<close>, \<open>find\<close>, \<open>contains\<close>, \<open>trim\<close>,
  \<open>to_ascii_lowercase\<close>, \<open>from_str_radix\<close>, \<open>saturating_add\<close>, ...).

  A Rust \<open>str\<close> is a \<open>string\<close>, its list of UTF-8 code units, so that \<open>length\<close> is Rust's
  \<open>len()\<close> and slicing is by byte index. A byte slice is a list of 8-bit words.
\<close>

section \<open>Collections of facts\<close>

named_theorems str_simps \<open>characteristic equations of the string operations\<close>
named_theorems sat_simps \<open>values of the saturating operations\<close>

section \<open>Machine integers\<close>

type_synonym u8 = "8 word"
type_synonym u64 = "64 word"
type_synonym u128 = "128 word"

text \<open>\<open>saturating_sub\<close>, \<open>saturating_add\<close> and \<open>saturating_mul\<close> of \<open>u64\<close> and \<open>usize\<close> (64 bits).\<close>

definition saturating_sub :: "u64 \<Rightarrow> u64 \<Rightarrow> u64" where
  "saturating_sub a b = (if a < b then 0 else a - b)"

definition saturating_add :: "u64 \<Rightarrow> u64 \<Rightarrow> u64" where
  "saturating_add a b = (if unat a + unat b < 2 ^ 64 then a + b else 0xFFFFFFFFFFFFFFFF)"

definition saturating_mul :: "u64 \<Rightarrow> u64 \<Rightarrow> u64" where
  "saturating_mul a b = (if unat a * unat b < 2 ^ 64 then a * b else 0xFFFFFFFFFFFFFFFF)"

lemma unat_u64_lt: "unat (a :: u64) < 2 ^ 64"
  using unsigned_less [of a, where ?'a = nat] by simp

lemma unat_saturating_sub [sat_simps]: "unat (saturating_sub a b) = unat a - unat b"
  by (auto simp: saturating_sub_def unat_sub word_less_nat_alt word_le_nat_alt not_less)

lemma unat_saturating_add [sat_simps]:
  "unat (saturating_add a b) = min (unat a + unat b) (2 ^ 64 - 1)"
  by (auto simp: saturating_add_def unat_word_ariths min_def)

lemma unat_saturating_mul [sat_simps]:
  "unat (saturating_mul a b) = min (unat a * unat b) (2 ^ 64 - 1)"
  by (auto simp: saturating_mul_def unat_word_ariths min_def)

lemma unat_add_no_overflow:
  "unat (a :: u64) + unat b < 2 ^ 64 \<Longrightarrow> unat (a + b) = unat a + unat b"
  by (simp add: unat_word_ariths)

text \<open>\<open>x as i64\<close> for \<open>x : u64\<close> reinterprets the bits; it is the identity below \<open>2 ^ 63\<close>.\<close>

definition as_i64 :: "u64 \<Rightarrow> int" where
  "as_i64 x = sint x"

lemma as_i64_small:
  assumes "unat x < 2 ^ 63"
  shows "as_i64 x = int (unat x)"
proof -
  have "int (unat x) < int (2 ^ 63)"
    using assms by (simp only: of_nat_less_iff)
  then have "uint x < 2 ^ 63"
    by simp
  then have "signed_take_bit 63 (uint x) = uint x"
    by (intro signed_take_bit_int_eq_self order.trans [OF _ uint_ge_0]) auto
  then show ?thesis
    by (simp add: as_i64_def sint_uint)
qed

text \<open>\<open>x as u64\<close> for \<open>x : i64\<close>.\<close>

definition as_u64 :: "int \<Rightarrow> u64" where
  "as_u64 i = word_of_int i"

lemma unat_as_u64: "0 \<le> i \<Longrightarrow> i < 2 ^ 64 \<Longrightarrow> int (unat (as_u64 i)) = i"
  by (simp add: as_u64_def uint_nat [symmetric] uint_word_of_int_eq take_bit_int_eq_self)

section \<open>Results\<close>

text \<open>
  A Rust function that returns \<open>Result\<close> and may panic: \<open>Ret\<close> is \<open>Ok\<close>, \<open>Err\<close> is \<open>Err\<close>,
  \<open>Panic\<close> is an arithmetic overflow, a failed slice or an \<open>unwrap\<close> on \<open>None\<close>. Functions that
  cannot panic use the sum type, with \<open>Inl\<close> for the error.
\<close>

datatype ('e, 'a) outcome = Ret 'a | Err 'e | Panic

text \<open>The \<open>?\<close> operator on sums.\<close>

definition bind_res :: "'e + 'a \<Rightarrow> ('a \<Rightarrow> 'e + 'b) \<Rightarrow> 'e + 'b" where
  "bind_res r f = (case r of Inl e \<Rightarrow> Inl e | Inr x \<Rightarrow> f x)"

lemma bind_res_simps [simp]:
  "bind_res (Inl e) f = Inl e"
  "bind_res (Inr x) f = f x"
  by (simp_all add: bind_res_def)

lemma bind_res_Inr_iff:
  "bind_res r f = Inr y \<longleftrightarrow> (\<exists>x. r = Inr x \<and> f x = Inr y)"
  by (cases r) auto

section \<open>Invariants of transition systems\<close>

text \<open>The contract of an inductive invariant and what it gives for reachable states.\<close>

locale invariant_system =
  fixes step :: "'s \<Rightarrow> 's \<Rightarrow> bool"
    and inv :: "'s \<Rightarrow> bool"
  assumes preserved: "inv s \<Longrightarrow> step s s' \<Longrightarrow> inv s'"
begin

lemma reachable_inv: "step\<^sup>*\<^sup>* s s' \<Longrightarrow> inv s \<Longrightarrow> inv s'"
  by (induction rule: rtranclp_induct) (auto intro: preserved)

end

section \<open>Strings\<close>

fun strip_prefix :: "string \<Rightarrow> string \<Rightarrow> string option" where
  "strip_prefix [] s = Some s"
| "strip_prefix (p # ps) [] = None"
| "strip_prefix (p # ps) (c # cs) = (if p = c then strip_prefix ps cs else None)"

lemma strip_prefix_Some_iff [str_simps]: "strip_prefix p s = Some r \<longleftrightarrow> s = p @ r"
  by (induction p s rule: strip_prefix.induct) auto

lemma strip_prefix_None_iff: "strip_prefix p s = None \<longleftrightarrow> \<not> prefix p s"
  by (induction p s rule: strip_prefix.induct) auto

lemma strip_prefix_append [simp]: "strip_prefix p (p @ r) = Some r"
  by (simp add: strip_prefix_Some_iff)

definition starts_with :: "string \<Rightarrow> string \<Rightarrow> bool" where
  "starts_with s p = (strip_prefix p s \<noteq> None)"

lemma starts_with_prefix [str_simps]: "starts_with s p \<longleftrightarrow> prefix p s"
  using strip_prefix_None_iff [of p s] by (auto simp: starts_with_def)

definition ends_with :: "string \<Rightarrow> string \<Rightarrow> bool" where
  "ends_with s p = (strip_prefix (rev p) (rev s) \<noteq> None)"

lemma ends_with_suffix [str_simps]: "ends_with s p \<longleftrightarrow> suffix p s"
  using strip_prefix_None_iff [of "rev p" "rev s"] by (auto simp: ends_with_def suffix_to_prefix)

definition strip_suffix :: "string \<Rightarrow> string \<Rightarrow> string option" where
  "strip_suffix p s = map_option rev (strip_prefix (rev p) (rev s))"

lemma strip_suffix_Some_iff [str_simps]: "strip_suffix p s = Some r \<longleftrightarrow> s = r @ p"
proof -
  have "strip_suffix p s = Some r \<longleftrightarrow> strip_prefix (rev p) (rev s) = Some (rev r)"
    by (auto simp: strip_suffix_def)
  also have "\<dots> \<longleftrightarrow> rev s = rev (r @ p)"
    by (simp add: strip_prefix_Some_iff)
  finally show ?thesis
    by (simp only: rev_is_rev_conv)
qed

text \<open>\<open>str::find\<close> with a string pattern: the byte index of the first occurrence.\<close>

fun str_find :: "string \<Rightarrow> string \<Rightarrow> nat option" where
  "str_find pat [] = (if pat = [] then Some 0 else None)"
| "str_find pat (c # cs) =
     (if starts_with (c # cs) pat then Some 0 else map_option Suc (str_find pat cs))"

lemma str_find_Some:
  "str_find pat s = Some i \<Longrightarrow> i \<le> length s \<and> prefix pat (drop i s)"
  by (induction pat s arbitrary: i rule: str_find.induct)
    (auto simp: str_simps split: if_splits)

lemma str_find_first: "str_find pat s = Some i \<Longrightarrow> j < i \<Longrightarrow> \<not> prefix pat (drop j s)"
proof (induction pat s arbitrary: i j rule: str_find.induct)
  case (1 pat)
  then show ?case by (auto split: if_splits)
next
  case (2 pat c cs)
  then show ?case by (cases j) (auto simp: str_simps split: if_splits)
qed

lemma str_find_None: "str_find pat s = None \<longleftrightarrow> \<not> sublist pat s"
  by (induction pat s rule: str_find.induct) (auto simp: str_simps sublist_Cons_right)

definition contains :: "string \<Rightarrow> string \<Rightarrow> bool" where
  "contains s pat = (str_find pat s \<noteq> None)"

lemma contains_sublist [str_simps]: "contains s pat \<longleftrightarrow> sublist pat s"
  using str_find_None [of pat s] by (auto simp: contains_def)

lemma contains_trans: "contains s p \<Longrightarrow> contains p q \<Longrightarrow> contains s q"
  by (auto simp: contains_sublist intro: sublist_order.order.trans)

text \<open>\<open>find\<close> with a character predicate.\<close>

fun find_idx :: "('a \<Rightarrow> bool) \<Rightarrow> 'a list \<Rightarrow> nat option" where
  "find_idx P [] = None"
| "find_idx P (x # xs) = (if P x then Some 0 else map_option Suc (find_idx P xs))"

lemma find_idx_Some:
  "find_idx P xs = Some i \<Longrightarrow> i < length xs \<and> P (xs ! i) \<and> (\<forall>j<i. \<not> P (xs ! j))"
proof (induction xs arbitrary: i)
  case (Cons x xs)
  then show ?case
    by (auto split: if_splits simp: nth_Cons less_Suc_eq_0_disj split: nat.splits)
qed simp

lemma find_idx_None: "find_idx P xs = None \<longleftrightarrow> (\<forall>x\<in>set xs. \<not> P x)"
  by (induction xs) auto

text \<open>\<open>rfind\<close> with a character predicate: the index of the last match.\<close>

definition rfind_idx :: "('a \<Rightarrow> bool) \<Rightarrow> 'a list \<Rightarrow> nat option" where
  "rfind_idx P xs = map_option (\<lambda>i. length xs - 1 - i) (find_idx P (rev xs))"

lemma rfind_idx_Some:
  assumes "rfind_idx P xs = Some i"
  shows "i < length xs \<and> P (xs ! i) \<and> (\<forall>j. i < j \<and> j < length xs \<longrightarrow> \<not> P (xs ! j))"
proof -
  from assms obtain k where k: "find_idx P (rev xs) = Some k" and i: "i = length xs - 1 - k"
    by (auto simp: rfind_idx_def)
  from find_idx_Some [OF k] have k1: "k < length xs" and k2: "P (rev xs ! k)"
    and k3: "\<forall>j<k. \<not> P (rev xs ! j)"
    by auto
  have "\<not> P (xs ! j)" if "i < j" "j < length xs" for j
    using that k3 [rule_format, of "length xs - 1 - j"] k1 i by (simp add: rev_nth)
  with k1 k2 i show ?thesis
    by (simp add: rev_nth)
qed

section \<open>ASCII classes, trimming, case\<close>

definition char_code :: "char \<Rightarrow> nat" where
  "char_code c = of_char c"

definition is_ascii_whitespace :: "char \<Rightarrow> bool" where
  "is_ascii_whitespace c = (char_code c \<in> {9, 10, 12, 13, 32})"

definition ascii_lower_char :: "char \<Rightarrow> char" where
  "ascii_lower_char c =
     (if 65 \<le> char_code c \<and> char_code c \<le> 90 then char_of (char_code c + 32) else c)"

definition to_ascii_lowercase :: "string \<Rightarrow> string" where
  "to_ascii_lowercase s = map ascii_lower_char s"

definition is_ascii_hexdigit :: "char \<Rightarrow> bool" where
  "is_ascii_hexdigit c =
     (let n = char_code c in
      48 \<le> n \<and> n \<le> 57 \<or> 65 \<le> n \<and> n \<le> 70 \<or> 97 \<le> n \<and> n \<le> 102)"

lemma length_to_ascii_lowercase [simp]: "length (to_ascii_lowercase s) = length s"
  by (simp add: to_ascii_lowercase_def)

lemma ascii_lower_char_idem [simp]: "ascii_lower_char (ascii_lower_char c) = ascii_lower_char c"
  by (auto simp: ascii_lower_char_def char_code_def)

lemma to_ascii_lowercase_idem [simp]:
  "to_ascii_lowercase (to_ascii_lowercase s) = to_ascii_lowercase s"
  by (simp add: to_ascii_lowercase_def)

text \<open>
  \<open>str::trim\<close> removes the characters with the Unicode property \<open>White_Space\<close> at both ends;
  these are their UTF-8 encodings.
\<close>

definition white_space :: "string list" where
  "white_space =
     map (\<lambda>n. [char_of (n :: nat)]) [9, 10, 11, 12, 13, 32] @
     [[CHR 0xC2, CHR 0x85], [CHR 0xC2, CHR 0xA0], [CHR 0xE1, CHR 0x9A, CHR 0x80]] @
     map (\<lambda>n. [CHR 0xE2, CHR 0x80, char_of (n :: nat)])
       [128, 129, 130, 131, 132, 133, 134, 135, 136, 137, 138, 168, 169, 175] @
     [[CHR 0xE2, CHR 0x81, CHR 0x9F], [CHR 0xE3, CHR 0x80, CHR 0x80]]"

definition ws_at_start :: "string \<Rightarrow> string option" where
  "ws_at_start s = find (\<lambda>w. starts_with s w) white_space"

definition ws_at_end :: "string \<Rightarrow> string option" where
  "ws_at_end s = find (\<lambda>w. ends_with s w) white_space"

lemma white_space_nonempty: "w \<in> set white_space \<Longrightarrow> w \<noteq> []"
  by (auto simp: white_space_def)

lemma ws_at_start_pos: "ws_at_start s = Some w \<Longrightarrow> length s - length w < length s"
  by (auto simp: ws_at_start_def find_Some_iff str_simps dest!: white_space_nonempty
      prefix_length_le dest: nth_mem intro!: diff_less)

lemma ws_at_end_pos: "ws_at_end s = Some w \<Longrightarrow> length s - length w < length s"
  by (auto simp: ws_at_end_def find_Some_iff str_simps dest!: white_space_nonempty
      suffix_length_le dest: nth_mem intro!: diff_less)

function str_trim_start :: "string \<Rightarrow> string" where
  "str_trim_start s =
     (case ws_at_start s of None \<Rightarrow> s | Some w \<Rightarrow> str_trim_start (drop (length w) s))"
  by pat_completeness auto
termination
  by (relation "measure length") (auto dest: ws_at_start_pos)

function str_trim_end :: "string \<Rightarrow> string" where
  "str_trim_end s =
     (case ws_at_end s of None \<Rightarrow> s | Some w \<Rightarrow> str_trim_end (take (length s - length w) s))"
  by pat_completeness auto
termination
  by (relation "measure length") (auto dest: ws_at_end_pos)

declare str_trim_start.simps [simp del] str_trim_end.simps [simp del]

definition str_trim :: "string \<Rightarrow> string" where
  "str_trim s = str_trim_end (str_trim_start s)"

end
