(* ===== verification/Bytes.thy ===== *)
theory Bytes
  imports Prelude
begin

text \<open>
  Numbers and bytes as text, the way the Rust standard library reads and prints them:
  decimal \<open>to_string\<close>, hexadecimal digits, \<open>from_str_radix\<close>, and \<open>String::from_utf8_lossy\<close>
  with the substitution of maximal ill-formed prefixes by U+FFFD.
\<close>

section \<open>Digits\<close>

definition hex_char :: "nat \<Rightarrow> char" where
  "hex_char n = (if n < 10 then char_of (48 + n) else char_of (87 + n))"

definition digit_value :: "char \<Rightarrow> nat option" where
  "digit_value c =
     (let n = char_code c in
      if 48 \<le> n \<and> n \<le> 57 then Some (n - 48)
      else if 65 \<le> n \<and> n \<le> 70 then Some (n - 55)
      else if 97 \<le> n \<and> n \<le> 102 then Some (n - 87)
      else None)"

lemma char_code_char_of [simp]: "n < 256 \<Longrightarrow> char_code (char_of n) = n"
  by (simp add: char_code_def)

lemma digit_value_hex_char [simp]: "n < 16 \<Longrightarrow> digit_value (hex_char n) = Some n"
  by (auto simp: digit_value_def hex_char_def Let_def)

lemma hex_char_hexdigit: "n < 16 \<Longrightarrow> is_ascii_hexdigit (hex_char n)"
  by (auto simp: is_ascii_hexdigit_def hex_char_def Let_def)

text \<open>\<open>n.to_string()\<close> of an unsigned integer.\<close>

fun nat_to_dec :: "nat \<Rightarrow> string" where
  "nat_to_dec n =
     (if n < 10 then [hex_char n] else nat_to_dec (n div 10) @ [hex_char (n mod 10)])"

declare nat_to_dec.simps [simp del]

definition int_to_dec :: "int \<Rightarrow> string" where
  "int_to_dec i = (if i < 0 then CHR ''-'' # nat_to_dec (nat (- i)) else nat_to_dec (nat i))"

text \<open>
  \<open>from_str_radix\<close> of an unsigned integer with \<open>bits\<close> bits: an optional \<open>+\<close>, then at least
  one digit of the radix; \<open>None\<close> stands for any \<open>ParseIntError\<close>. The value grows with every
  digit, so testing the overflow at the end is the same as testing it at every digit.
\<close>

fun digits_value :: "nat \<Rightarrow> nat \<Rightarrow> string \<Rightarrow> nat option" where
  "digits_value radix acc [] = Some acc"
| "digits_value radix acc (c # cs) =
     (case digit_value c of
        None \<Rightarrow> None
      | Some d \<Rightarrow> if d < radix then digits_value radix (acc * radix + d) cs else None)"

definition from_str_radix :: "nat \<Rightarrow> nat \<Rightarrow> string \<Rightarrow> nat option" where
  "from_str_radix bits radix s =
     (let ds = (case s of [] \<Rightarrow> [] | c # cs \<Rightarrow> if c = CHR ''+'' then cs else s) in
      if ds = [] then None
      else case digits_value radix 0 ds of
             None \<Rightarrow> None
           | Some n \<Rightarrow> if n < 2 ^ bits then Some n else None)"

lemma from_str_radix_bound: "from_str_radix bits radix s = Some n \<Longrightarrow> n < 2 ^ bits"
  by (auto simp: from_str_radix_def Let_def split: if_splits option.splits)

lemma digits_value_append:
  "digits_value radix acc (xs @ ys) =
     (case digits_value radix acc xs of None \<Rightarrow> None | Some a \<Rightarrow> digits_value radix a ys)"
  by (induction xs arbitrary: acc) (auto split: option.splits)

lemma digits_value_dec: "digits_value 10 0 (nat_to_dec n) = Some n"
proof (induction n rule: nat_to_dec.induct)
  case (1 n)
  show ?case
  proof (cases "n < 10")
    case True
    then show ?thesis by (simp add: nat_to_dec.simps [of n])
  next
    case False
    have "n mod 10 < 10" by simp
    then have "digit_value (hex_char (n mod 10)) = Some (n mod 10)" by simp
    with False "1.IH" show ?thesis
      by (simp add: nat_to_dec.simps [of n] digits_value_append)
  qed
qed

lemma nat_to_dec_nonempty [simp]: "nat_to_dec n \<noteq> []"
  by (subst nat_to_dec.simps) simp

lemma hd_nat_to_dec: "\<exists>d<10. hd (nat_to_dec n) = hex_char d"
proof (induction n rule: nat_to_dec.induct)
  case (1 n)
  then show ?case
    by (cases "n < 10") (auto simp: nat_to_dec.simps [of n])
qed

lemma hex_char_not_plus: "d < 16 \<Longrightarrow> hex_char d \<noteq> CHR ''+''"
  by (auto simp: hex_char_def char_code_def dest!: arg_cong [where f = char_code]
      split: if_splits)
  
text \<open>Printing and parsing a decimal number that fits is the identity.\<close>

lemma from_str_radix_nat_to_dec:
  assumes "n < 2 ^ bits"
  shows "from_str_radix bits 10 (nat_to_dec n) = Some n"
proof -
  obtain c cs where s: "nat_to_dec n = c # cs"
    by (cases "nat_to_dec n") auto
  with hd_nat_to_dec [of n] obtain d where "d < 10" "c = hex_char d"
    by auto
  then have "c \<noteq> CHR ''+''"
    by (simp add: hex_char_not_plus)
  with s assms digits_value_dec [of n] show ?thesis
    by (simp add: from_str_radix_def)
qed

section \<open>UTF-8\<close>

definition bytes_to_string :: "u8 list \<Rightarrow> string" where
  "bytes_to_string bs = map (\<lambda>b. char_of (unat b)) bs"

definition string_to_bytes :: "string \<Rightarrow> u8 list" where
  "string_to_bytes s = map (\<lambda>c. word_of_nat (char_code c)) s"

lemma char_code_lt: "char_code c < 256"
  using of_char_mod_256 [of c, where ?'a = nat] by (simp add: char_code_def)

lemma bytes_to_string_inverse [simp]: "bytes_to_string (string_to_bytes s) = s"
  using char_code_lt
  by (induction s)
    (auto simp: bytes_to_string_def string_to_bytes_def unat_of_nat char_code_def)

definition is_cont :: "u8 \<Rightarrow> bool" where
  "is_cont b = (0x80 \<le> b \<and> b \<le> 0xBF)"

text \<open>The byte at index \<open>i\<close>, 0 past the end (\<open>safe_get\<close> of the lossy decoder).\<close>

definition byte_at :: "u8 list \<Rightarrow> nat \<Rightarrow> u8" where
  "byte_at bs i = (if i < length bs then bs ! i else 0)"

text \<open>Whether \<open>b2\<close> may follow the lead byte \<open>b1\<close> of a sequence of three or four bytes.\<close>

definition second_ok :: "u8 \<Rightarrow> u8 \<Rightarrow> bool" where
  "second_ok b1 b2 =
     (if b1 = 0xE0 then 0xA0 \<le> b2 \<and> b2 \<le> 0xBF
      else if b1 = 0xED then 0x80 \<le> b2 \<and> b2 \<le> 0x9F
      else if b1 = 0xF0 then 0x90 \<le> b2 \<and> b2 \<le> 0xBF
      else if b1 = 0xF4 then 0x80 \<le> b2 \<and> b2 \<le> 0x8F
      else is_cont b2)"

text \<open>
  One step of the decoder on a non-empty list: the number of bytes it consumes and whether
  they are one well-formed character.
\<close>

definition utf8_step :: "u8 list \<Rightarrow> nat \<times> bool" where
  "utf8_step bs =
     (let b = byte_at bs 0 in
      if b < 0x80 then (1, True)
      else if 0xC2 \<le> b \<and> b \<le> 0xDF then
        (if is_cont (byte_at bs 1) then (2, True) else (1, False))
      else if 0xE0 \<le> b \<and> b \<le> 0xEF then
        (if \<not> second_ok b (byte_at bs 1) then (1, False)
         else if \<not> is_cont (byte_at bs 2) then (2, False) else (3, True))
      else if 0xF0 \<le> b \<and> b \<le> 0xF4 then
        (if \<not> second_ok b (byte_at bs 1) then (1, False)
         else if \<not> is_cont (byte_at bs 2) then (2, False)
         else if \<not> is_cont (byte_at bs 3) then (3, False) else (4, True))
      else (1, False))"

lemma utf8_step_pos: "0 < fst (utf8_step bs)"
  by (simp add: utf8_step_def Let_def)

lemma utf8_step_shrinks: "bs \<noteq> [] \<Longrightarrow> length bs - fst (utf8_step bs) < length bs"
  by (intro diff_less utf8_step_pos) simp

definition replacement :: "u8 list" where
  "replacement = [0xEF, 0xBF, 0xBD]"

function utf8_lossy :: "u8 list \<Rightarrow> u8 list" where
  "utf8_lossy bs =
     (if bs = [] then []
      else (if snd (utf8_step bs) then take (fst (utf8_step bs)) bs else replacement)
           @ utf8_lossy (drop (fst (utf8_step bs)) bs))"
  by pat_completeness auto
termination
  by (relation "measure length") (auto simp: utf8_step_shrinks)

function valid_utf8 :: "u8 list \<Rightarrow> bool" where
  "valid_utf8 bs =
     (if bs = [] then True
      else if snd (utf8_step bs) then valid_utf8 (drop (fst (utf8_step bs)) bs) else False)"
  by pat_completeness auto
termination
  by (relation "measure length") (auto simp: utf8_step_shrinks)

declare utf8_lossy.simps [simp del] valid_utf8.simps [simp del]

lemma utf8_lossy_Nil [simp]: "utf8_lossy [] = []"
  by (subst utf8_lossy.simps) simp

lemma valid_utf8_Nil [simp]: "valid_utf8 []"
  by (subst valid_utf8.simps) simp

text \<open>\<open>String::from_utf8_lossy(bytes).to_string()\<close>\<close>

definition from_utf8_lossy :: "u8 list \<Rightarrow> string" where
  "from_utf8_lossy bs = bytes_to_string (utf8_lossy bs)"

lemma utf8_lossy_valid_id: "valid_utf8 bs \<Longrightarrow> utf8_lossy bs = bs"
proof (induction bs rule: utf8_lossy.induct)
  case (1 bs)
  show ?case
  proof (cases "bs = []")
    case True
    then show ?thesis by simp
  next
    case False
    with "1.prems" have s: "snd (utf8_step bs)"
      and v: "valid_utf8 (drop (fst (utf8_step bs)) bs)"
      by (auto simp: valid_utf8.simps [of bs] split: if_splits)
    from "1.IH" [OF False v] False s show ?thesis
      by (simp add: utf8_lossy.simps [of bs])
  qed
qed

lemma ascii_valid_utf8: "(\<forall>b\<in>set bs. b < 0x80) \<Longrightarrow> valid_utf8 bs"
proof (induction bs)
  case Nil
  then show ?case by simp
next
  case (Cons b bs)
  then have "utf8_step (b # bs) = (1, True)"
    by (simp add: utf8_step_def byte_at_def)
  with Cons show ?case
    by (simp add: valid_utf8.simps [of "b # bs"])
qed

end
