(* ===== verification/Models.thy ===== *)
theory Models
  imports Bytes
begin

text \<open>
  The data model of the \<open>db\<close> crate (\<open>src/crates/db/src/models.rs\<close>, \<open>error.rs\<close>): the
  PostgreSQL enums with their wire strings, and one record per table row that the indexer,
  the alert dispatcher and the API exchange. Integers of type \<open>i16\<close>, \<open>i32\<close> and \<open>i64\<close> are
  \<open>int\<close>; a \<open>BigDecimal\<close> whose column is \<open>NUMERIC(p,0)\<close> always holds an integer and is an
  \<open>int\<close>, any other is a \<open>numeric\<close>; a timestamp is its number of microseconds since the epoch.
\<close>

section \<open>Enums and their wire strings\<close>

text \<open>
  The contract of an enum with a text form: the parser accepts exactly the strings the
  printer produces.
\<close>

locale wire_codec =
  fixes enc :: "'c \<Rightarrow> string"
    and dec :: "string \<Rightarrow> unit + 'c"
  assumes dec_enc: "dec (enc c) = Inr c"
    and enc_dec: "dec s = Inr c \<Longrightarrow> enc c = s"
begin

lemma enc_inject: "enc c = enc d \<longleftrightarrow> c = d"
  using dec_enc by (metis sum.inject(2))

lemma dec_Inr_iff: "dec s = Inr c \<longleftrightarrow> s = enc c"
  using dec_enc enc_dec by auto

lemma dec_Inl_iff: "dec s = Inl () \<longleftrightarrow> s \<notin> range enc"
  by (metis (full_types) dec_Inr_iff old.unit.exhaust rangeE rangeI sum.exhaust_sel sum.simps(4))

end

datatype error_category =
    InsufficientBalance
  | InsufficientAllowance
  | SlippageExceeded
  | SlippageAmountOut
  | SlippageAmountIn
  | SlippagePriceImpact
  | DeadlineExpired
  | Unauthorized
  | TransferFailed
  | Unknown

definition error_category_from_str :: "string \<Rightarrow> unit + error_category" where
  "error_category_from_str s =
     (if s = ''INSUFFICIENT_BALANCE'' then Inr InsufficientBalance
      else if s = ''INSUFFICIENT_ALLOWANCE'' then Inr InsufficientAllowance
      else if s = ''SLIPPAGE_EXCEEDED'' then Inr SlippageExceeded
      else if s = ''SLIPPAGE_AMOUNT_OUT'' then Inr SlippageAmountOut
      else if s = ''SLIPPAGE_AMOUNT_IN'' then Inr SlippageAmountIn
      else if s = ''SLIPPAGE_PRICE_IMPACT'' then Inr SlippagePriceImpact
      else if s = ''DEADLINE_EXPIRED'' then Inr DeadlineExpired
      else if s = ''UNAUTHORIZED'' then Inr Unauthorized
      else if s = ''TRANSFER_FAILED'' then Inr TransferFailed
      else if s = ''UNKNOWN'' then Inr Unknown
      else Inl ())"

fun as_wire :: "error_category \<Rightarrow> string" where
  "as_wire InsufficientBalance = ''INSUFFICIENT_BALANCE''"
| "as_wire InsufficientAllowance = ''INSUFFICIENT_ALLOWANCE''"
| "as_wire SlippageExceeded = ''SLIPPAGE_EXCEEDED''"
| "as_wire SlippageAmountOut = ''SLIPPAGE_AMOUNT_OUT''"
| "as_wire SlippageAmountIn = ''SLIPPAGE_AMOUNT_IN''"
| "as_wire SlippagePriceImpact = ''SLIPPAGE_PRICE_IMPACT''"
| "as_wire DeadlineExpired = ''DEADLINE_EXPIRED''"
| "as_wire Unauthorized = ''UNAUTHORIZED''"
| "as_wire TransferFailed = ''TRANSFER_FAILED''"
| "as_wire Unknown = ''UNKNOWN''"

text \<open>The second copy of the table, in \<open>queries.rs\<close>.\<close>

fun error_category_to_sql :: "error_category \<Rightarrow> string" where
  "error_category_to_sql InsufficientBalance = ''INSUFFICIENT_BALANCE''"
| "error_category_to_sql InsufficientAllowance = ''INSUFFICIENT_ALLOWANCE''"
| "error_category_to_sql SlippageExceeded = ''SLIPPAGE_EXCEEDED''"
| "error_category_to_sql SlippageAmountOut = ''SLIPPAGE_AMOUNT_OUT''"
| "error_category_to_sql SlippageAmountIn = ''SLIPPAGE_AMOUNT_IN''"
| "error_category_to_sql SlippagePriceImpact = ''SLIPPAGE_PRICE_IMPACT''"
| "error_category_to_sql DeadlineExpired = ''DEADLINE_EXPIRED''"
| "error_category_to_sql Unauthorized = ''UNAUTHORIZED''"
| "error_category_to_sql TransferFailed = ''TRANSFER_FAILED''"
| "error_category_to_sql Unknown = ''UNKNOWN''"

datatype time_bucket = Hour | Day | Week

fun as_pg :: "time_bucket \<Rightarrow> string" where
  "as_pg Hour = ''hour''"
| "as_pg Day = ''day''"
| "as_pg Week = ''week''"

definition time_bucket_from_str :: "string \<Rightarrow> unit + time_bucket" where
  "time_bucket_from_str s =
     (if s = ''hour'' then Inr Hour
      else if s = ''day'' then Inr Day
      else if s = ''week'' then Inr Week
      else Inl ())"

datatype liquidity_event_type = Mint | Burn

fun liquidity_type_to_sql :: "liquidity_event_type \<Rightarrow> string" where
  "liquidity_type_to_sql Mint = ''MINT''"
| "liquidity_type_to_sql Burn = ''BURN''"

datatype snapshot_interval =
    OneMinute | FiveMinutes | FifteenMinutes | OneHour | FourHours | OneDay

fun snapshot_interval_to_sql :: "snapshot_interval \<Rightarrow> string" where
  "snapshot_interval_to_sql OneMinute = ''1m''"
| "snapshot_interval_to_sql FiveMinutes = ''5m''"
| "snapshot_interval_to_sql FifteenMinutes = ''15m''"
| "snapshot_interval_to_sql OneHour = ''1h''"
| "snapshot_interval_to_sql FourHours = ''4h''"
| "snapshot_interval_to_sql OneDay = ''1d''"

interpretation category_wire: wire_codec as_wire error_category_from_str
proof
  show "error_category_from_str (as_wire c) = Inr c" for c
    by (cases c) (simp_all add: error_category_from_str_def)
  show "as_wire c = s" if "error_category_from_str s = Inr c" for s c
    using that by (auto simp: error_category_from_str_def split: if_splits)
qed

interpretation bucket_wire: wire_codec as_pg time_bucket_from_str
proof
  show "time_bucket_from_str (as_pg c) = Inr c" for c
    by (cases c) (simp_all add: time_bucket_from_str_def)
  show "as_pg c = s" if "time_bucket_from_str s = Inr c" for s c
    using that by (auto simp: time_bucket_from_str_def split: if_splits)
qed

lemma to_sql_eq_as_wire: "error_category_to_sql c = as_wire c"
  by (cases c) simp_all

section \<open>Errors of the crate\<close>

datatype db_error =
    Sqlx string
  | Migration string
  | DbNotFound string
  | DbDuplicate string

section \<open>Table rows\<close>

type_synonym timestamp = int

definition seconds :: "int \<Rightarrow> timestamp" where
  "seconds n = n * 1000000"

record block =
  blk_number :: int
  blk_timestamp :: timestamp
  blk_gas_used :: int
  blk_hash :: "string option"
  blk_parent_hash :: "string option"

record token =
  tok_address :: string
  tok_symbol :: string
  tok_name :: string
  tok_decimals :: int

record transaction =
  tx_hash :: string
  tx_from_addr :: string
  tx_to_addr :: "string option"
  tx_block_number :: int
  tx_gas_used :: int
  tx_gas_price :: int
  tx_value :: int
  tx_status :: int
  tx_input_data :: "string option"

record pool =
  pool_address :: string
  pool_pair_name :: string
  pool_token0_address :: string
  pool_token1_address :: string
  pool_fee_tier :: int
  pool_created_at :: timestamp

record swap_event =
  sw_pool_address :: string
  sw_tx_hash :: string
  sw_sender :: string
  sw_recipient :: string
  sw_amount0 :: int
  sw_amount1 :: int
  sw_amount_in :: int
  sw_amount_out :: int
  sw_sqrt_price_x96 :: int
  sw_liquidity :: int
  sw_tick :: int
  sw_log_index :: int
  sw_timestamp :: timestamp
  sw_event_id :: int

record liquidity_event =
  le_event_type :: liquidity_event_type
  le_pool_address :: string
  le_tx_hash :: string
  le_provider :: string
  le_token0_amount :: int
  le_token1_amount :: int
  le_tick_lower :: int
  le_tick_upper :: int
  le_liquidity :: int
  le_log_index :: int
  le_timestamp :: timestamp
  le_event_id :: int

record token_transfer =
  tt_tx_hash :: string
  tt_token_address :: string
  tt_from_addr :: string
  tt_to_addr :: string
  tt_amount :: int
  tt_log_index :: int
  tt_timestamp :: timestamp
  tt_transfer_id :: int

record failed_transaction =
  ft_tx_hash :: string
  ft_error_category :: error_category
  ft_revert_reason :: "string option"
  ft_failing_function :: "string option"
  ft_gas_used :: int
  ft_timestamp :: timestamp

record trace_log =
  tl_tx_hash :: string
  tl_call_depth :: int
  tl_call_type :: string
  tl_from_addr :: string
  tl_to_addr :: "string option"
  tl_value :: int
  tl_gas_used :: int
  tl_input :: "string option"
  tl_output :: "string option"
  tl_error :: "string option"
  tl_trace_id :: int

text \<open>A number with decimal places: its unscaled value and their number.\<close>

datatype numeric = Numeric int nat

fun unscaled :: "numeric \<Rightarrow> int" where
  "unscaled (Numeric u s) = u"

fun places :: "numeric \<Rightarrow> nat" where
  "places (Numeric u s) = s"

record price_snapshot =
  ps_pool_address :: string
  ps_price :: numeric
  ps_tick :: int
  ps_liquidity :: numeric
  ps_snapshot_ts :: timestamp
  ps_interval_type :: snapshot_interval
  ps_snapshot_id :: int

record user_profile =
  up_user_address :: string
  up_label :: "string option"
  up_first_seen :: timestamp
  up_last_seen :: timestamp
  up_total_swaps :: int
  up_total_volume_usd :: numeric

record alert_subscription =
  sub_id :: int
  sub_error_category :: "error_category option"
  sub_to_addr :: "string option"
  sub_webhook_url :: string
  sub_signing_secret :: string
  sub_active :: bool
  sub_created_at :: timestamp
  sub_type :: string
  sub_threshold_count :: "int option"
  sub_threshold_window_secs :: "int option"
  sub_debounce_secs :: "int option"

record alert_match =
  am_subscription_id :: int
  am_tx_hash :: string
  am_webhook_url :: string
  am_signing_secret :: string

record rate_alert_match =
  rm_subscription_id :: int
  rm_webhook_url :: string
  rm_signing_secret :: string
  rm_match_count :: int
  rm_threshold_count :: int
  rm_threshold_window_secs :: int

record contract_label =
  cl_address :: string
  cl_label :: string
  cl_owner_id :: "string option"
  cl_created_at :: timestamp

record failed_tx_by_label_point =
  bl_label :: string
  bl_address :: string
  bl_total_failures :: int
  bl_by_category :: "string \<rightharpoonup> int"

record function_signature =
  fs_selector :: string
  fs_name :: string
  fs_signature :: string
  fs_source :: "string option"
  fs_created_at :: timestamp

record category_diagnosis =
  cd_error_category :: string
  cd_message :: string
  cd_recommended_action :: "string option"
  cd_source :: "string option"
  cd_created_at :: timestamp

record diagnosis =
  dg_message :: string
  dg_recommended_action :: "string option"
  dg_source :: "string option"

definition diagnosis_from :: "category_diagnosis \<Rightarrow> diagnosis" where
  "diagnosis_from cd =
     \<lparr>dg_message = cd_message cd,
      dg_recommended_action = cd_recommended_action cd,
      dg_source = cd_source cd\<rparr>"

end
