(* ===== verification/Classifier.thy ===== *)
theory Classifier
  imports Models
begin

text \<open>
  \<open>src/crates/decoder/src/classifier.rs\<close>: the mapping of a decoded revert reason to the wire
  string of an error category. \<open>lc\<close> stands for \<open>str::to_lowercase\<close>, whose Unicode case tables
  are not part of the program.
\<close>

section \<open>The code\<close>

definition classify_error :: "(string \<Rightarrow> string) \<Rightarrow> string \<Rightarrow> string" where
  "classify_error lc revert_reason =
     (let lower = lc revert_reason in
      if contains lower ''allowance'' then ''INSUFFICIENT_ALLOWANCE''
      else if contains lower ''stf''
        \<or> contains lower ''insufficient''
        \<or> contains lower ''balance''
        \<or> contains lower ''exceeds balance''
        \<or> contains lower ''not enough'' then ''INSUFFICIENT_BALANCE''
      else if contains lower ''too little received'' then ''SLIPPAGE_AMOUNT_OUT''
      else if contains lower ''too much requested'' then ''SLIPPAGE_AMOUNT_IN''
      else if contains lower ''price slipped'' \<or> contains lower ''amount out''
        then ''SLIPPAGE_PRICE_IMPACT''
      else if contains lower ''slippage'' then ''SLIPPAGE_EXCEEDED''
      else if contains lower ''deadline''
        \<or> contains lower ''too old''
        \<or> contains lower ''expired''
        \<or> contains lower ''transaction too old'' then ''DEADLINE_EXPIRED''
      else if contains lower ''unauthorized''
        \<or> contains lower ''ownable''
        \<or> contains lower ''not owner''
        \<or> contains lower ''forbidden''
        \<or> contains lower ''access denied'' then ''UNAUTHORIZED''
      else if contains lower ''transfer failed''
        \<or> contains lower ''transfer_failed''
        \<or> contains lower ''safe transfer''
        \<or> contains lower ''safetransferfrom'' then ''TRANSFER_FAILED''
      else ''UNKNOWN'')"

section \<open>The rule table\<close>

text \<open>
  The specification: an ordered table of keywords, the first keyword that occurs decides.
  The code's two redundant keywords (\<open>exceeds balance\<close>, \<open>transaction too old\<close>) are not in it.
\<close>

definition keyword_rules :: "(string \<times> error_category) list" where
  "keyword_rules =
     [(''allowance'', InsufficientAllowance),
      (''stf'', InsufficientBalance), (''insufficient'', InsufficientBalance),
      (''balance'', InsufficientBalance), (''not enough'', InsufficientBalance),
      (''too little received'', SlippageAmountOut),
      (''too much requested'', SlippageAmountIn),
      (''price slipped'', SlippagePriceImpact), (''amount out'', SlippagePriceImpact),
      (''slippage'', SlippageExceeded),
      (''deadline'', DeadlineExpired), (''too old'', DeadlineExpired),
      (''expired'', DeadlineExpired),
      (''unauthorized'', Unauthorized), (''ownable'', Unauthorized),
      (''not owner'', Unauthorized), (''forbidden'', Unauthorized),
      (''access denied'', Unauthorized),
      (''transfer failed'', TransferFailed), (''transfer_failed'', TransferFailed),
      (''safe transfer'', TransferFailed), (''safetransferfrom'', TransferFailed)]"

definition first_match :: "(string \<times> error_category) list \<Rightarrow> string \<Rightarrow> error_category" where
  "first_match rules s =
     (case find (\<lambda>(k, c). contains s k) rules of None \<Rightarrow> Unknown | Some (k, c) \<Rightarrow> c)"

lemma first_match_simps [simp]:
  "first_match [] s = Unknown"
  "first_match ((k, c) # rules) s = (if contains s k then c else first_match rules s)"
  by (simp_all add: first_match_def)

lemma contains_redundant:
  "contains s ''exceeds balance'' \<Longrightarrow> contains s ''balance''"
  "contains s ''transaction too old'' \<Longrightarrow> contains s ''too old''"
  by (erule contains_trans, code_simp)+

lemma classify_error_table: "classify_error lc s = as_wire (first_match keyword_rules (lc s))"
  using contains_redundant [of "lc s"]
  by (auto simp: classify_error_def Let_def keyword_rules_def)

lemma classify_error_category: "error_category_from_str (classify_error lc s) =
    Inr (first_match keyword_rules (lc s))"
  by (simp add: classify_error_table category_wire.dec_enc)

lemma first_match_Unknown_iff:
  "Unknown \<notin> snd ` set rules \<Longrightarrow>
   first_match rules s = Unknown \<longleftrightarrow> (\<forall>(k, c)\<in>set rules. \<not> contains s k)"
  by (induction rules) (auto split: if_splits)

lemma Unknown_not_keyword: "Unknown \<notin> snd ` set keyword_rules"
  by (simp add: keyword_rules_def)

text \<open>The documented behaviour of \<open>to_lowercase\<close> on ASCII text.\<close>

definition is_ascii :: "string \<Rightarrow> bool" where
  "is_ascii s = list_all (\<lambda>c. char_code c < 128) s"

definition lowercase_ok :: "(string \<Rightarrow> string) \<Rightarrow> bool" where
  "lowercase_ok lc = (\<forall>s. is_ascii s \<longrightarrow> lc s = to_ascii_lowercase s)"

lemma lowercase_ok_ascii: "lowercase_ok to_ascii_lowercase"
  by (simp add: lowercase_ok_def)

lemma is_ascii_lower: "is_ascii s \<Longrightarrow> is_ascii (to_ascii_lowercase s)"
  by (auto simp: is_ascii_def to_ascii_lowercase_def list_all_iff ascii_lower_char_def)

lemma classify_error_case_insensitive:
  "lowercase_ok lc \<Longrightarrow> is_ascii s \<Longrightarrow>
   classify_error lc (to_ascii_lowercase s) = classify_error lc s"
  by (simp add: classify_error_table lowercase_ok_def is_ascii_lower)

section \<open>Properties\<close>

text \<open>The classifier's chain of tests is the ordered rule table: the first keyword that occurs
  in the lower-cased reason decides the category (so "allowance" beats "insufficient" and
  "balance", the specific slippage phrases beat the generic one), the result is always the wire
  string of a category, and it is \<open>UNKNOWN\<close> exactly when no keyword occurs.\<close>

theorem classify_error_first_rule:
  "classify_error lc s = as_wire (first_match keyword_rules (lc s)) \<and>
   error_category_from_str (classify_error lc s) = Inr (first_match keyword_rules (lc s)) \<and>
   (classify_error lc s = ''UNKNOWN'' \<longleftrightarrow>
    list_all (\<lambda>(k, c). \<not> contains (lc s) k) keyword_rules)"
proof -
  have "classify_error lc s = ''UNKNOWN'' \<longleftrightarrow> first_match keyword_rules (lc s) = Unknown"
    using category_wire.enc_inject [of _ Unknown] by (simp add: classify_error_table)
  then show ?thesis
    using first_match_Unknown_iff [OF Unknown_not_keyword]
    by (simp add: classify_error_category list_all_iff) (simp add: classify_error_table)
qed

end
