(* ===== verification/Trace.thy ===== *)
theory Trace
  imports Classifier
begin

text \<open>
  \<open>src/crates/decoder/src/trace.rs\<close> and \<open>error.rs\<close>: the \<open>callTracer\<close> JSON of
  \<open>debug_traceTransaction\<close> is parsed into a tree of call frames, the tree is flattened in
  pre-order with the depth of every frame, and the output of the root frame is decoded into
  a revert reason.

  \<open>lc\<close> stands for \<open>str::to_lowercase\<close>. Gas is a \<open>u64\<close>, kept as a 64-bit word; a depth is an
  \<open>int\<close> (the recursion it counts exhausts the stack long before \<open>i32::MAX\<close>).
\<close>

section \<open>Errors\<close>

datatype decode_error =
    UnknownTopic string
  | AbiDecode string
  | MissingField string
  | InvalidDataLength nat nat
  | TraceParse string
  | JsonError string

section \<open>JSON values\<close>

text \<open>\<open>serde_json::Value\<close>; a number keeps its text, an object its members.\<close>

datatype json =
    JNull
  | JBool bool
  | JNum string
  | JStr string
  | JArr "json list"
  | JObj "(string \<times> json) list"

fun json_get :: "string \<Rightarrow> json \<Rightarrow> json option" where
  "json_get k (JObj ms) = map_of ms k"
| "json_get k _ = None"

fun as_str :: "json \<Rightarrow> string option" where
  "as_str (JStr s) = Some s"
| "as_str _ = None"

fun as_array :: "json \<Rightarrow> json list option" where
  "as_array (JArr xs) = Some xs"
| "as_array _ = None"

definition get_str :: "string \<Rightarrow> json \<Rightarrow> string option" where
  "get_str k j = Option.bind (json_get k j) as_str"

definition get_array :: "string \<Rightarrow> json \<Rightarrow> json list option" where
  "get_array k j = Option.bind (json_get k j) as_array"

lemma map_of_size:
  "map_of ms k = Some j \<Longrightarrow> size j < Suc (size_list (size_prod (\<lambda>_. 0) size) ms)"
  by (induction ms) (auto split: if_splits)

lemma get_array_size: "get_array k j = Some xs \<Longrightarrow> size_list size xs < size j"
proof -
  assume "get_array k j = Some xs"
  then obtain ms where "j = JObj ms" "map_of ms k = Some (JArr xs)"
    by (cases j) (auto simp: get_array_def bind_eq_Some_conv elim!: as_array.elims)
  then show ?thesis
    using map_of_size [of ms k "JArr xs"] by simp
qed

section \<open>Frames\<close>

datatype call_frame = CallFrame
  (cf_call_type: string)
  (cf_from: string)
  (cf_to: "string option")
  (cf_value: "string option")
  (cf_gas_used: u64)
  (cf_input: "string option")
  (cf_output: "string option")
  (cf_error: "string option")
  (cf_calls: "call_frame list")

record flat_frame =
  ff_depth :: int
  ff_call_type :: string
  ff_from :: string
  ff_to :: "string option"
  ff_value :: string
  ff_gas_used :: int
  ff_input :: "string option"
  ff_output :: "string option"
  ff_error :: "string option"

record flattened_trace =
  fl_tx_hash :: string
  fl_frames :: "flat_frame list"

section \<open>Parsing\<close>

definition strip_0x :: "string \<Rightarrow> string" where
  "strip_0x s = (case strip_prefix ''0x'' s of None \<Rightarrow> s | Some r \<Rightarrow> r)"

definition parse_gas :: "json \<Rightarrow> u64" where
  "parse_gas j =
     (case get_str ''gasUsed'' j of
        None \<Rightarrow> 0
      | Some s \<Rightarrow> (case from_str_radix 64 16 (strip_0x s) of
                   None \<Rightarrow> 0
                 | Some n \<Rightarrow> word_of_nat n))"

function (sequential) parse_call_frame :: "(string \<Rightarrow> string) \<Rightarrow> json \<Rightarrow> decode_error + call_frame"
  and parse_calls :: "(string \<Rightarrow> string) \<Rightarrow> json list \<Rightarrow> call_frame list" where
  "parse_call_frame lc j =
     (case get_str ''type'' j of
        None \<Rightarrow> Inl (TraceParse ''missing 'type' field'')
      | Some call_type \<Rightarrow>
          Inr (CallFrame call_type
            (lc (case get_str ''from'' j of
                   None \<Rightarrow> ''0x0000000000000000000000000000000000000000''
                 | Some s \<Rightarrow> s))
            (map_option lc (get_str ''to'' j))
            (get_str ''value'' j)
            (parse_gas j)
            (get_str ''input'' j)
            (get_str ''output'' j)
            (get_str ''error'' j)
            (case get_array ''calls'' j of None \<Rightarrow> [] | Some arr \<Rightarrow> parse_calls lc arr)))"
| "parse_calls lc [] = []"
| "parse_calls lc (c # cs) =
     (case parse_call_frame lc c of
        Inl e \<Rightarrow> parse_calls lc cs
      | Inr f \<Rightarrow> f # parse_calls lc cs)"
  by pat_completeness auto
termination
  by (relation "measure (case_sum (\<lambda>(lc, j). size j) (\<lambda>(lc, js). size_list size js))")
    (auto dest: get_array_size)

declare parse_call_frame.simps [simp del]

section \<open>Flattening\<close>

definition value_decimal :: "call_frame \<Rightarrow> string" where
  "value_decimal f =
     (case cf_value f of
        None \<Rightarrow> ''0''
      | Some v \<Rightarrow> (case from_str_radix 128 16 (strip_0x v) of
                   None \<Rightarrow> ''0''
                 | Some n \<Rightarrow> nat_to_dec n))"

definition flat_of :: "call_frame \<Rightarrow> int \<Rightarrow> flat_frame" where
  "flat_of f depth =
     \<lparr>ff_depth = depth, ff_call_type = cf_call_type f, ff_from = cf_from f, ff_to = cf_to f,
      ff_value = value_decimal f, ff_gas_used = as_i64 (cf_gas_used f),
      ff_input = cf_input f, ff_output = cf_output f, ff_error = cf_error f\<rparr>"

text \<open>\<open>out\<close> is the vector that the recursion appends to.\<close>

fun flatten_call_frame :: "call_frame \<Rightarrow> int \<Rightarrow> flat_frame list \<Rightarrow> flat_frame list"
  and flatten_calls :: "call_frame list \<Rightarrow> int \<Rightarrow> flat_frame list \<Rightarrow> flat_frame list" where
  "flatten_call_frame (CallFrame ct fr to v g i ou er calls) depth out =
     flatten_calls calls (depth + 1)
       (out @ [flat_of (CallFrame ct fr to v g i ou er calls) depth])"
| "flatten_calls [] depth out = out"
| "flatten_calls (c # cs) depth out = flatten_calls cs depth (flatten_call_frame c depth out)"

definition parse_trace ::
    "(string \<Rightarrow> string) \<Rightarrow> string \<Rightarrow> json \<Rightarrow> decode_error + flattened_trace" where
  "parse_trace lc tx trace_json =
     bind_res (parse_call_frame lc trace_json)
       (\<lambda>root. Inr \<lparr>fl_tx_hash = tx, fl_frames = flatten_call_frame root 0 []\<rparr>)"

section \<open>Revert reasons\<close>

definition byte_hex :: "u8 \<Rightarrow> string" where
  "byte_hex b = [hex_char (unat b div 16), hex_char (unat b mod 16)]"

definition bytes_to_hex :: "u8 list \<Rightarrow> string" where
  "bytes_to_hex bs = concat (map byte_hex bs)"

text \<open>\<open>u64::from_be_bytes\<close> of the given bytes.\<close>

definition u64_from_be_bytes :: "u8 list \<Rightarrow> u64" where
  "u64_from_be_bytes bs = foldl (\<lambda>acc b. acc * 256 + ucast b) 0 bs"

text \<open>
  The sum \<open>str_start + len\<close> is over \<open>usize\<close>: in a debug build its overflow panics, in a release
  build it wraps. A wrapped sum is smaller than \<open>str_start\<close>, so the slice \<open>data[str_start..str_end]\<close>
  panics then: the model wraps and lets the slice fail, which is a panic in both builds.
\<close>

definition decode_abi_string :: "u8 list \<Rightarrow> (decode_error, string) outcome" where
  "decode_abi_string data =
     (if length data < 64 then Err (AbiDecode ''ABI string data too short'')
      else
        let len = u64_from_be_bytes (take 8 (drop 56 data));
            str_start = (64 :: u64);
            str_end = str_start + len
        in if unat str_end > length data then Err (AbiDecode ''string length exceeds data'')
           else if str_end < str_start then Panic
           else Ret (from_utf8_lossy (take (unat (str_end - str_start)) (drop (unat str_start) data))))"

definition decode_revert_reason :: "u8 list \<Rightarrow> (decode_error, string) outcome" where
  "decode_revert_reason output =
     (if length output < 4 then Ret (''0x'' @ bytes_to_hex output)
      else
        let selector = take 4 output in
        if selector = [0x08, 0xc3, 0x79, 0xa0] then decode_abi_string (drop 4 output)
        else if selector = [0x4e, 0x48, 0x7b, 0x71] \<and> length output \<ge> 36 then
          Ret (''Panic(0x'' @ byte_hex (output ! 35) @ '')'')
        else Ret (''0x'' @ bytes_to_hex output))"


section \<open>The rows determine the call tree\<close>

text \<open>The vector passed as \<open>out\<close> is only appended to.\<close>

fun pre_frame :: "call_frame \<Rightarrow> int \<Rightarrow> flat_frame list"
  and pre_calls :: "call_frame list \<Rightarrow> int \<Rightarrow> flat_frame list" where
  "pre_frame (CallFrame ct fr to v g i ou er calls) d =
     flat_of (CallFrame ct fr to v g i ou er calls) d # pre_calls calls (d + 1)"
| "pre_calls [] d = []"
| "pre_calls (c # cs) d = pre_frame c d @ pre_calls cs d"

lemma flatten_pre:
  "flatten_call_frame f d out = out @ pre_frame f d"
  "flatten_calls cs d out = out @ pre_calls cs d"
  by (induction f d out and cs d out rule: flatten_call_frame_flatten_calls.induct) auto

text \<open>The call tree with its flat rows as labels, and its reconstruction from the row list.\<close>

datatype row_tree = RowNode flat_frame "row_tree list"

fun tree_of_frame :: "call_frame \<Rightarrow> int \<Rightarrow> row_tree"
  and trees_of_calls :: "call_frame list \<Rightarrow> int \<Rightarrow> row_tree list" where
  "tree_of_frame (CallFrame ct fr to v g i ou er calls) d =
     RowNode (flat_of (CallFrame ct fr to v g i ou er calls) d) (trees_of_calls calls (d + 1))"
| "trees_of_calls [] d = []"
| "trees_of_calls (c # cs) d = tree_of_frame c d # trees_of_calls cs d"

function rebuild :: "int \<Rightarrow> flat_frame list \<Rightarrow> row_tree list" where
  "rebuild d [] = []"
| "rebuild d (x # xs) =
     RowNode x (rebuild (d + 1) (takeWhile (\<lambda>y. d < ff_depth y) xs)) #
     rebuild d (dropWhile (\<lambda>y. d < ff_depth y) xs)"
  by pat_completeness auto
termination
  by (relation "measure (\<lambda>(d, xs). length xs)")
    (auto simp: le_imp_less_Suc length_takeWhile_le length_dropWhile_le)

lemma pre_depths:
  "x \<in> set (pre_frame f d) \<Longrightarrow> d \<le> ff_depth x"
  "x \<in> set (pre_calls cs d) \<Longrightarrow> d \<le> ff_depth x"
  by (induction f d and cs d rule: pre_frame_pre_calls.induct) (auto simp: flat_of_def)

lemma pre_calls_stop: "ys = [] \<or> ff_depth (hd ys) \<le> d \<Longrightarrow>
    takeWhile (\<lambda>y. d < ff_depth y) (pre_calls cs (d + 1) @ ys) = pre_calls cs (d + 1) \<and>
    dropWhile (\<lambda>y. d < ff_depth y) (pre_calls cs (d + 1) @ ys) = ys"
proof -
  assume ys: "ys = [] \<or> ff_depth (hd ys) \<le> d"
  have "\<forall>x\<in>set (pre_calls cs (d + 1)). d < ff_depth x"
    using pre_depths(2) by fastforce
  with ys show ?thesis
    by (cases ys) (auto simp: takeWhile_append2 dropWhile_append2)
qed

lemma pre_calls_hd: "pre_calls cs d = [] \<or> ff_depth (hd (pre_calls cs d)) = d"
proof (cases cs)
  case (Cons c cs')
  then show ?thesis by (cases c) (simp add: flat_of_def)
qed simp

lemma rebuild_pre:
  "rebuild d (pre_frame f d @ pre_calls es d) = tree_of_frame f d # rebuild d (pre_calls es d)"
  "rebuild d (pre_calls cs d) = trees_of_calls cs d"
proof (induction f d and cs d arbitrary: es rule: tree_of_frame_trees_of_calls.induct)
  case (1 ct fr to v g i ou er calls d)
  have "pre_calls es d = [] \<or> ff_depth (hd (pre_calls es d)) \<le> d"
    using pre_calls_hd [of es d] by auto
  note pre_calls_stop [OF this, of calls]
  with 1 show ?case by simp
next
  case (2 d)
  then show ?case by simp
next
  case (3 c cs d)
  then show ?case by simp
qed

section \<open>What is parsed and what is dropped\<close>

text \<open>The JSON nodes that become frames: a node without a string \<open>type\<close> is dropped with its subtree.\<close>

function (sequential) typed_nodes :: "json \<Rightarrow> nat" and typed_nodes_list :: "json list \<Rightarrow> nat" where
  "typed_nodes j =
     (if get_str ''type'' j = None then 0
      else 1 + (case get_array ''calls'' j of None \<Rightarrow> 0 | Some arr \<Rightarrow> typed_nodes_list arr))"
| "typed_nodes_list [] = 0"
| "typed_nodes_list (c # cs) = typed_nodes c + typed_nodes_list cs"
  by pat_completeness auto
termination
  by (relation "measure (case_sum size (size_list size))") (auto dest: get_array_size)

declare typed_nodes.simps [simp del]

fun frame_count :: "call_frame \<Rightarrow> nat" and frame_count_list :: "call_frame list \<Rightarrow> nat" where
  "frame_count (CallFrame ct fr to v g i ou er calls) = Suc (frame_count_list calls)"
| "frame_count_list [] = 0"
| "frame_count_list (c # cs) = frame_count c + frame_count_list cs"

lemma parse_frame_count:
  "case parse_call_frame lc j of Inl e \<Rightarrow> typed_nodes j = 0
     | Inr f \<Rightarrow> frame_count f = typed_nodes j \<and> 0 < typed_nodes j"
  "frame_count_list (parse_calls lc cs) = typed_nodes_list cs"
proof (induction lc j and lc cs rule: parse_call_frame_parse_calls.induct)
  case (1 lc j)
  then show ?case
    by (auto simp: parse_call_frame.simps [of lc j] typed_nodes.simps [of j] split: option.splits)
next
  case (2 lc)
  then show ?case by simp
next
  case (3 lc c cs)
  then show ?case by (auto split: sum.splits)
qed

lemma length_pre:
  "length (pre_frame f d) = frame_count f"
  "length (pre_calls cs d) = frame_count_list cs"
  by (induction f d and cs d rule: pre_frame_pre_calls.induct) auto

lemma parse_call_frame_Inl_iff:
  "parse_call_frame lc j = Inl e \<longleftrightarrow>
   get_str ''type'' j = None \<and> e = TraceParse ''missing 'type' field''"
  by (auto simp: parse_call_frame.simps [of lc j] split: option.splits)

section \<open>ABI-encoded strings\<close>

lemma decode_abi_string_Panic_iff:
  "decode_abi_string data = Panic \<longleftrightarrow>
   64 \<le> length data \<and> 2 ^ 64 - 64 \<le> unat (u64_from_be_bytes (take 8 (drop 56 data)))"
proof -
  let ?len = "u64_from_be_bytes (take 8 (drop 56 data))"
  have s: "unat (64 + ?len) = (64 + unat ?len) mod 2 ^ 64"
    by (simp add: unat_word_ariths)
  have l: "unat ?len < 2 ^ 64" by (rule unat_u64_lt)
  show ?thesis
  proof (cases "2 ^ 64 - 64 \<le> unat ?len")
    case True
    with l s have "unat (64 + ?len) = unat ?len - (2 ^ 64 - 64)"
      by (simp add: mod_if)
    with True l show ?thesis
      by (auto simp: decode_abi_string_def Let_def word_less_nat_alt)
  next
    case False
    with s have "unat (64 + ?len) = 64 + unat ?len"
      by simp
    with False show ?thesis
      by (auto simp: decode_abi_string_def Let_def word_less_nat_alt)
  qed
qed

definition be_byte :: "nat \<Rightarrow> nat \<Rightarrow> u8" where
  "be_byte n i = word_of_nat (n div 256 ^ i)"

definition u64_to_be_bytes :: "nat \<Rightarrow> u8 list" where
  "u64_to_be_bytes n = map (be_byte n) [7, 6, 5, 4, 3, 2, 1, 0]"

lemma be_step: "word_of_nat (n div 256 ^ Suc k) * 256 + ucast (be_byte n k) =
    (word_of_nat (n div 256 ^ k) :: u64)"
proof -
  let ?m = "n div 256 ^ k"
  have "n div 256 ^ Suc k = ?m div 256"
    by (simp add: div_mult2_eq [symmetric] mult.commute)
  moreover have "ucast (be_byte n k) = (word_of_nat (?m mod 256) :: u64)"
    by (simp add: be_byte_def unsigned_of_nat take_bit_eq_mod)
  moreover have "(word_of_nat (?m div 256 * 256 + ?m mod 256) :: u64) =
      word_of_nat (?m div 256) * 256 + word_of_nat (?m mod 256)"
    by (simp only: of_nat_add of_nat_mult of_nat_numeral)
  ultimately show ?thesis
    by (simp only: div_mult_mod_eq)
qed

lemma foldl_be_bytes:
  "foldl (\<lambda>acc b. acc * 256 + ucast b) (word_of_nat (n div 256 ^ k)) (map (be_byte n) (rev [0..<k]))
   = (word_of_nat n :: u64)"
proof (induction k)
  case (Suc k)
  then show ?case by (simp only: upt_Suc_append rev_append foldl_Cons list.map append_Cons append_Nil rev.simps be_step zero_le)
qed simp

lemma u64_be_bytes_inverse:
  assumes "n < 2 ^ 64"
  shows "u64_from_be_bytes (u64_to_be_bytes n) = word_of_nat n"
proof -
  have "n div 256 ^ 8 = 0"
    using assms by simp
  moreover have "[7, 6, 5, 4, 3, 2, 1, 0] = rev [0..<8]"
    by code_simp
  ultimately show ?thesis
    using foldl_be_bytes [of n 8] by (simp add: u64_from_be_bytes_def u64_to_be_bytes_def)
qed

text \<open>The calldata of \<open>revert(s)\<close>: selector, offset word, length word, the bytes, padding.\<close>

definition encode_error_string :: "u8 list \<Rightarrow> u8 list \<Rightarrow> u8 list" where
  "encode_error_string s padding =
     [0x08, 0xc3, 0x79, 0xa0] @ replicate 31 0 @ [0x20] @
     replicate 24 0 @ u64_to_be_bytes (length s) @ s @ padding"

lemma decode_encode_error_string:
  assumes "length s < 2 ^ 64 - 64"
  shows "decode_revert_reason (encode_error_string s padding) = Ret (from_utf8_lossy s)"
proof -
  let ?data = "replicate 31 0 @ [0x20 :: u8] @ replicate 24 0 @ u64_to_be_bytes (length s) @ s @ padding"
  have l8: "length (u64_to_be_bytes (length s)) = 8"
    by (simp add: u64_to_be_bytes_def)
  have len: "u64_from_be_bytes (take 8 (drop 56 ?data)) = word_of_nat (length s)"
    using assms l8 by (simp add: u64_be_bytes_inverse)
  have end64: "unat (64 + word_of_nat (length s) :: u64) = 64 + length s"
    using assms by (simp add: unat_word_ariths unat_of_nat)
  have diff: "unat (word_of_nat (length s) :: u64) = length s"
    using assms by (simp add: unat_of_nat)
  have "decode_abi_string ?data = Ret (from_utf8_lossy s)"
    using len end64 l8 diff
    by (simp add: decode_abi_string_def Let_def word_less_nat_alt)
  then show ?thesis
    by (simp add: decode_revert_reason_def encode_error_string_def Let_def)
qed

section \<open>Properties\<close>

text \<open>C35. Flattening loses no structure: from the list of flat frames alone, in the order in which
  they are produced and stored, the call tree with every row at its node is reconstructed by
  grouping each row with the deeper rows that follow it. This is what makes \<open>trace_id ASC\<close>
  together with \<open>call_depth\<close> a faithful representation of the tree.\<close>

theorem call_tree_from_rows:
  "rebuild 0 (flatten_call_frame f 0 []) = [tree_of_frame f 0]"
  using rebuild_pre(1) [of 0 f "[]"] by (simp add: flatten_pre)

text \<open>\<open>parse_trace\<close> fails exactly when the root has no string field \<open>type\<close>, with that error;
  otherwise it returns the pre-order rows of the parsed tree, one for every JSON node that has a
  \<open>type\<close> itself and whose ancestors all have one: a nested call without \<open>type\<close> disappears
  silently with its whole subtree.\<close>

theorem parse_trace_outcome:
  "case parse_trace lc tx j of
     Inl e \<Rightarrow> typed_nodes j = 0 \<and> get_str ''type'' j = None
             \<and> e = TraceParse ''missing 'type' field''
   | Inr t \<Rightarrow> fl_tx_hash t = tx \<and> length (fl_frames t) = typed_nodes j
             \<and> (\<exists>f. parse_call_frame lc j = Inr f \<and> fl_frames t = pre_frame f 0)"
proof (cases "parse_call_frame lc j")
  case (Inl e)
  moreover from Inl have "get_str ''type'' j = None \<and> e = TraceParse ''missing 'type' field''"
    by (simp only: parse_call_frame_Inl_iff)
  moreover from Inl have "typed_nodes j = 0"
    using parse_frame_count(1) [where lc = lc and j = j] by simp
  ultimately show ?thesis
    by (simp add: parse_trace_def)
next
  case (Inr f)
  then show ?thesis
    using parse_frame_count(1) [where lc = lc and j = j]
    by (simp add: parse_trace_def flatten_pre length_pre)
qed

text \<open>C36. The revert reason of \<open>revert(s)\<close>: for any well-formed UTF-8 bytes \<open>s\<close> that fit the
  address space, decoding the ABI encoding of \<open>Error(string)\<close> (selector, offset, length, bytes,
  any padding) gives back exactly \<open>s\<close>.\<close>

theorem revert_reason_roundtrip:
  "valid_utf8 s \<Longrightarrow> length s < 2 ^ 64 - 64 \<Longrightarrow>
   decode_revert_reason (encode_error_string s padding) = Ret (bytes_to_string s)"
  by (simp add: decode_encode_error_string from_utf8_lossy_def utf8_lossy_valid_id)

theorem revert_reason_roundtrip_witness:
  "valid_utf8 [0x53, 0x54, 0x46] \<and>
   decode_revert_reason (encode_error_string [0x53, 0x54, 0x46] (replicate 29 0)) = Ret ''STF''"
proof -
  have v: "valid_utf8 [0x53, 0x54, 0x46]" by code_simp
  have "bytes_to_string [0x53, 0x54, 0x46] = ''STF''" by code_simp
  with v revert_reason_roundtrip [OF v, of "replicate 29 0"] show ?thesis by simp
qed

text \<open>C37. \<open>decode_revert_reason\<close> panics on contract-controlled data, and exactly when the output
  carries the selector of \<open>Error(string)\<close>, at least 64 further bytes, and a declared string
  length within 64 of \<open>2 ^ 64\<close>: the bound check \<open>str_end > data.len()\<close> is made after the sum
  \<open>64 + len\<close> has overflowed.\<close>

theorem revert_reason_panics_iff:
  "decode_revert_reason output = Panic \<longleftrightarrow>
   68 \<le> length output \<and> take 4 output = [0x08, 0xc3, 0x79, 0xa0] \<and>
   2 ^ 64 - 64 \<le> unat (u64_from_be_bytes (take 8 (drop 60 output)))"
  using decode_abi_string_Panic_iff [of "drop 4 output"]
  by (auto simp: decode_revert_reason_def Let_def)

end
