(* ===== verification/Abi.thy ===== *)
theory Abi
  imports Trace
begin

text \<open>
  \<open>src/crates/decoder/src/abi.rs\<close>: decoding of call arguments against a signature string. The
  \<open>hex\<close> and \<open>alloy\<close> crates are parameters, collected in the record \<open>abi_ext\<close>; their value type
  \<open>DynSolValue\<close> is a datatype with the variants the source matches on.
\<close>

section \<open>External crates\<close>

datatype dyn_sol_value =
    SolAddress "u8 list"
  | SolUint nat nat
  | SolInt int nat
  | SolBool bool
  | SolBytes "u8 list"
  | SolFixedBytes "u8 list" nat
  | SolString string
  | SolArray "dyn_sol_value list"
  | SolFixedArray "dyn_sol_value list"
  | SolTuple "dyn_sol_value list"
  | SolOther

record 'ty abi_ext =
  hex_decode :: "string \<Rightarrow> string + u8 list"
  hex_encode :: "u8 list \<Rightarrow> string"
  uint_to_string :: "nat \<Rightarrow> string"
  int_to_string :: "int \<Rightarrow> string"
  sol_type_parse :: "string \<Rightarrow> string + 'ty"
  abi_decode_params :: "'ty \<Rightarrow> u8 list \<Rightarrow> string + dyn_sol_value"

section \<open>The code\<close>

definition SELECTOR_BYTES :: nat where
  "SELECTOR_BYTES = 4"

datatype abi_decode_error =
    InvalidSignature string
  | InvalidHex string
  | InputTooShort
  | Decode string

record decoded_arg =
  arg_ty :: string
  arg_value :: json

text \<open>\<open>&signature[open + 1..close]\<close>\<close>

definition extract_param_list :: "string \<Rightarrow> string option" where
  "extract_param_list signature =
     (case find_idx (\<lambda>c. c = CHR ''('') signature of
        None \<Rightarrow> None
      | Some op \<Rightarrow>
          (case rfind_idx (\<lambda>c. c = CHR '')'') signature of
             None \<Rightarrow> None
           | Some cl \<Rightarrow>
               if cl \<le> op then None
               else Some (take (cl - (op + 1)) (drop (op + 1) signature))))"

text \<open>The loop over the bytes, with its three variables and the index \<open>i\<close> of the next byte.\<close>

fun split_loop :: "string \<Rightarrow> string \<Rightarrow> nat \<Rightarrow> string list \<Rightarrow> int \<Rightarrow> nat \<Rightarrow> string list" where
  "split_loop types_str [] i out depth start = out @ [str_trim (drop start types_str)]"
| "split_loop types_str (b # bs) i out depth start =
     (if b = CHR ''('' then split_loop types_str bs (i + 1) out (depth + 1) start
      else if b = CHR '')'' then split_loop types_str bs (i + 1) out (depth - 1) start
      else if b = CHR '','' \<and> depth = 0 then
        split_loop types_str bs (i + 1)
          (out @ [str_trim (take (i - start) (drop start types_str))]) depth (i + 1)
      else split_loop types_str bs (i + 1) out depth start)"

definition split_top_level :: "string \<Rightarrow> string list" where
  "split_top_level types_str =
     (if types_str = [] then [] else split_loop types_str types_str 0 [] 0 0)"

fun dynsol_to_json :: "'ty abi_ext \<Rightarrow> dyn_sol_value \<Rightarrow> json" where
  "dynsol_to_json X (SolAddress a) = JStr (''0x'' @ hex_encode X a)"
| "dynsol_to_json X (SolUint n bits) = JStr (uint_to_string X n)"
| "dynsol_to_json X (SolInt n bits) = JStr (int_to_string X n)"
| "dynsol_to_json X (SolBool b) = JBool b"
| "dynsol_to_json X (SolBytes b) = JStr (''0x'' @ hex_encode X b)"
| "dynsol_to_json X (SolFixedBytes w n) = JStr (''0x'' @ hex_encode X w)"
| "dynsol_to_json X (SolString s) = JStr s"
| "dynsol_to_json X (SolArray items) = JArr (map (dynsol_to_json X) items)"
| "dynsol_to_json X (SolFixedArray items) = JArr (map (dynsol_to_json X) items)"
| "dynsol_to_json X (SolTuple items) = JArr (map (dynsol_to_json X) items)"
| "dynsol_to_json X SolOther = JNull"

definition decode_args ::
    "'ty abi_ext \<Rightarrow> string \<Rightarrow> string \<Rightarrow> abi_decode_error + decoded_arg list" where
  "decode_args X signature input_hex =
     (case extract_param_list signature of
        None \<Rightarrow> Inl (InvalidSignature signature)
      | Some types_str \<Rightarrow>
     (case hex_decode X (strip_0x input_hex) of
        Inl e \<Rightarrow> Inl (InvalidHex e)
      | Inr bytes \<Rightarrow>
          if length bytes < SELECTOR_BYTES then Inl InputTooShort
          else
     (case sol_type_parse X (''('' @ types_str @ '')'') of
        Inl e \<Rightarrow> Inl (Decode (''signature parse: '' @ e))
      | Inr seq_ty \<Rightarrow>
     (case abi_decode_params X seq_ty (drop SELECTOR_BYTES bytes) of
        Inl e \<Rightarrow> Inl (Decode e)
      | Inr decoded \<Rightarrow>
          let values = (case decoded of SolTuple vs \<Rightarrow> vs | other \<Rightarrow> [other]);
              top_types = split_top_level types_str
          in Inr (map (\<lambda>(v, ty). \<lparr>arg_ty = ty, arg_value = dynsol_to_json X v\<rparr>)
                   (zip values top_types))))))"

section \<open>Splitting a parameter list\<close>

text \<open>
  The specification: the pieces between the commas that are outside all parentheses, as
  characters are consumed, before trimming.
\<close>

fun raw_split :: "int \<Rightarrow> string \<Rightarrow> string \<Rightarrow> string list" where
  "raw_split depth acc [] = [acc]"
| "raw_split depth acc (b # bs) =
     (if b = CHR ''('' then raw_split (depth + 1) (acc @ [b]) bs
      else if b = CHR '')'' then raw_split (depth - 1) (acc @ [b]) bs
      else if b = CHR '','' \<and> depth = 0 then acc # raw_split depth [] bs
      else raw_split depth (acc @ [b]) bs)"

lemma split_loop_raw:
  assumes "start \<le> length pre"
  shows "split_loop (pre @ bs) bs (length pre) out depth start =
         out @ map str_trim (raw_split depth (drop start pre) bs)"
  using assms
proof (induction bs arbitrary: pre out depth start)
  case Nil
  then show ?case by simp
next
  case (Cons b bs)
  have step: "split_loop ((pre @ [b]) @ bs) bs (length (pre @ [b])) out' depth' start' =
      out' @ map str_trim (raw_split depth' (drop start' (pre @ [b])) bs)"
    if "start' \<le> length (pre @ [b])" for out' depth' start'
    using Cons.IH [OF that] .
  show ?case
    using Cons.prems step [of start] step [of "Suc (length pre)"] by auto
qed

lemma split_top_level_raw:
  "s \<noteq> [] \<Longrightarrow> split_top_level s = map str_trim (raw_split 0 [] s)"
  using split_loop_raw [of 0 "[]" s "[]" 0] by (simp add: split_top_level_def)

text \<open>Joining with commas.\<close>

fun join_commas :: "string list \<Rightarrow> string" where
  "join_commas [] = []"
| "join_commas [p] = p"
| "join_commas (p # q # ps) = p @ CHR '','' # join_commas (q # ps)"

lemma raw_split_nonempty [simp]: "raw_split depth acc s \<noteq> []"
  by (induction s arbitrary: depth acc) auto

lemma join_commas_Cons: "ps \<noteq> [] \<Longrightarrow> join_commas (p # ps) = p @ CHR '','' # join_commas ps"
  by (cases ps) auto

lemma join_raw_split: "join_commas (raw_split depth acc s) = acc @ s"
  by (induction s arbitrary: depth acc) (auto simp: join_commas_Cons)

text \<open>
  A type expression: parentheses balanced, never negative, and no comma outside them.
  \<open>nesting\<close> is the depth after a prefix, \<open>None\<close> once a top-level comma or an unmatched
  parenthesis was seen.
\<close>

fun nesting :: "nat \<Rightarrow> string \<Rightarrow> nat option" where
  "nesting d [] = Some d"
| "nesting d (b # bs) =
     (if b = CHR ''('' then nesting (Suc d) bs
      else if b = CHR '')'' then (case d of 0 \<Rightarrow> None | Suc d' \<Rightarrow> nesting d' bs)
      else if b = CHR '','' \<and> d = 0 then None
      else nesting d bs)"

definition is_type_expr :: "string \<Rightarrow> bool" where
  "is_type_expr p = (nesting 0 p = Some 0 \<and> str_trim p = p \<and> p \<noteq> [])"

lemma raw_split_type:
  "nesting d p = Some d' \<Longrightarrow> raw_split (int d) acc (p @ s) = raw_split (int d') (acc @ p) s"
proof (induction d p arbitrary: acc rule: nesting.induct)
  case (1 d)
  then show ?case by simp
next
  case (2 d b bs)
  consider "b = CHR ''(''" | d0 where "b = CHR '')''" "d = Suc d0" | "b = CHR '','' \<and> 0 < d"
    | "b \<noteq> CHR ''('' \<and> b \<noteq> CHR '')'' \<and> b \<noteq> CHR '',''"
    using "2.prems" by (auto split: if_splits nat.splits)
  then show ?case
    using "2.IH" "2.prems" by cases (auto simp: algebra_simps)
qed

lemma raw_split_join:
  "list_all (\<lambda>p. nesting 0 p = Some 0) ps \<Longrightarrow> ps \<noteq> [] \<Longrightarrow> raw_split 0 [] (join_commas ps) = ps"
proof (induction ps rule: join_commas.induct)
  case (2 p)
  then show ?case
    using raw_split_type [of 0 p 0 "[]" "[]"] by simp
next
  case (3 p q ps)
  then show ?case
    using raw_split_type [of 0 p 0 "[]" "CHR '','' # join_commas (q # ps)"] by simp
qed simp

section \<open>Lowering\<close>

text \<open>Whether a JSON number occurs anywhere in a value.\<close>

fun has_number :: "json \<Rightarrow> bool" where
  "has_number (JNum n) = True"
| "has_number (JArr xs) = list_ex has_number xs"
| "has_number (JObj ms) = list_ex (\<lambda>(k, v). has_number v) ms"
| "has_number _ = False"

lemma no_number_lowered: "\<not> has_number (dynsol_to_json X v)"
  by (induction X v rule: dynsol_to_json.induct) (auto simp: list_ex_iff)

section \<open>Signatures\<close>

lemma find_idx_skip: "\<forall>x\<in>set xs. \<not> P x \<Longrightarrow> P y \<Longrightarrow> find_idx P (xs @ y # ys) = Some (length xs)"
  by (induction xs) auto

lemma rfind_idx_last: "P y \<Longrightarrow> rfind_idx P (xs @ [y]) = Some (length xs)"
  by (simp add: rfind_idx_def)

lemma extract_param_list_signature:
  assumes "CHR ''('' \<notin> set name"
  shows "extract_param_list (name @ ''('' @ types @ '')'') = Some types"
proof -
  have "find_idx (\<lambda>c. c = CHR ''('') (name @ CHR ''('' # types @ '')'') = Some (length name)"
    using assms by (intro find_idx_skip) auto
  moreover have "rfind_idx (\<lambda>c. c = CHR '')'') ((name @ CHR ''('' # types) @ [CHR '')'']) =
      Some (length (name @ CHR ''('' # types))"
    by (intro rfind_idx_last) simp
  ultimately show ?thesis
    by (simp add: extract_param_list_def)
qed

lemma split_join_types:
  assumes "list_all is_type_expr ts" "ts \<noteq> []"
  shows "split_top_level (join_commas ts) = ts"
proof -
  have ne: "join_commas ts \<noteq> []"
    using assms by (cases ts rule: join_commas.cases) (auto simp: is_type_expr_def)
  have "raw_split 0 [] (join_commas ts) = ts"
    using assms by (intro raw_split_join) (auto simp: list_all_iff is_type_expr_def)
  moreover have "map str_trim ts = ts"
    using assms by (intro map_idI) (auto simp: list_all_iff is_type_expr_def)
  ultimately show ?thesis
    using ne by (simp add: split_top_level_raw)
qed

section \<open>Properties\<close>

text \<open>Splitting a parameter list is exact: every string is the comma-join of the raw pieces,
  the reported pieces are these, trimmed, and for a list of type expressions (balanced
  parentheses, commas only inside them, no outer white space) joining and splitting is the
  identity, so nested tuple types are never cut.\<close>

theorem split_top_level_exact:
  "(s \<noteq> [] \<longrightarrow> split_top_level s = map str_trim (raw_split 0 [] s) \<and>
     join_commas (raw_split 0 [] s) = s) \<and>
   (list_all is_type_expr ts \<and> ts \<noteq> [] \<longrightarrow> split_top_level (join_commas ts) = ts)"
  by (simp add: split_top_level_raw join_raw_split split_join_types)

theorem split_top_level_exact_witness:
  "split_top_level ''address,(address,uint24,uint256),bytes'' =
   [''address'', ''(address,uint24,uint256)'', ''bytes'']"
proof -
  let ?ts = "[''address'', ''(address,uint24,uint256)'', ''bytes'']"
  have "list_all is_type_expr ?ts \<and> ?ts \<noteq> []" by code_simp
  with split_top_level_exact [of "''x''" ?ts] have "split_top_level (join_commas ?ts) = ?ts" by blast
  then show ?thesis by simp
qed

text \<open>Decoding the calldata of a function with parameter types \<open>ts\<close>: when the signature is
  \<open>name(t1,...,tn)\<close>, the input is hex of at least a selector and the ABI library decodes the
  remaining bytes to one value per type, the result pairs every value, lowered to JSON, with its
  type exactly as written in the signature, in order.\<close>

theorem decode_args_pairs_types:
  assumes "CHR ''('' \<notin> set name" "list_all is_type_expr ts" "ts \<noteq> []"
    and "hex_decode X (strip_0x input_hex) = Inr bytes" "4 \<le> length bytes"
    and "sol_type_parse X (''('' @ join_commas ts @ '')'') = Inr ty"
    and "abi_decode_params X ty (drop 4 bytes) = Inr (SolTuple vs)" "length vs = length ts"
  shows "\<exists>args. decode_args X (name @ ''('' @ join_commas ts @ '')'') input_hex = Inr args \<and>
    map arg_ty args = ts \<and> map arg_value args = map (dynsol_to_json X) vs"
proof -
  have "decode_args X (name @ ''('' @ join_commas ts @ '')'') input_hex =
      Inr (map (\<lambda>(v, t). \<lparr>arg_ty = t, arg_value = dynsol_to_json X v\<rparr>) (zip vs ts))"
    using assms extract_param_list_signature [of name "join_commas ts"]
    by (simp add: decode_args_def SELECTOR_BYTES_def split_join_types)
  moreover have "map arg_ty (map (\<lambda>(v, t). \<lparr>arg_ty = t, arg_value = dynsol_to_json X v\<rparr>) (zip vs ts)) = ts"
    using assms(8) by (induction vs ts rule: list_induct2) auto
  moreover have "map arg_value (map (\<lambda>(v, t). \<lparr>arg_ty = t, arg_value = dynsol_to_json X v\<rparr>) (zip vs ts))
      = map (dynsol_to_json X) vs"
    using assms(8) by (induction vs ts rule: list_induct2) auto
  ultimately show ?thesis by blast
qed

text \<open>A library that decodes every input to the pair of an address and an amount.\<close>

definition sample_abi :: "unit abi_ext" where
  "sample_abi =
     \<lparr>hex_decode = (\<lambda>s. Inr [0xa9, 0x05, 0x9c, 0xbb]), hex_encode = bytes_to_hex,
      uint_to_string = nat_to_dec, int_to_string = int_to_dec,
      sol_type_parse = (\<lambda>s. Inr ()),
      abi_decode_params = (\<lambda>ty bs. Inr (SolTuple [SolAddress [0xab], SolUint 42 256]))\<rparr>"

theorem decode_args_pairs_types_witness:
  "\<exists>args. decode_args sample_abi ''transfer(address,uint256)'' ''0xa9059cbb'' = Inr args \<and>
     map arg_ty args = [''address'', ''uint256''] \<and>
     map arg_value args = [JStr ''0xab'', JStr ''42'']"
proof -
  have ts: "list_all is_type_expr [''address'', ''uint256'']" by code_simp
  have v: "map (dynsol_to_json sample_abi) [SolAddress [0xab], SolUint 42 256] =
      [JStr ''0xab'', JStr ''42'']" by code_simp
  show ?thesis
    using decode_args_pairs_types [of "''transfer''" "[''address'', ''uint256'']" sample_abi
        "''0xa9059cbb''" "[0xa9, 0x05, 0x9c, 0xbb]" "()" "[SolAddress [0xab], SolUint 42 256]"]
      ts v
    by (simp add: sample_abi_def)
qed

text \<open>No integer of the decoded arguments is ever emitted as a JSON number: in a successful
  result every value, at any nesting depth, is built from strings, booleans, arrays and null,
  and the reported types are a prefix of the signature's parameter list.\<close>

theorem decode_args_no_numbers:
  "case decode_args X signature input_hex of
     Inl e \<Rightarrow> True
   | Inr args \<Rightarrow> list_all (\<lambda>a. \<not> has_number (arg_value a)) args \<and>
       (case extract_param_list signature of
          None \<Rightarrow> False
        | Some types \<Rightarrow> prefix (map arg_ty args) (split_top_level types))"
proof -
  have n: "list_all (\<lambda>a. \<not> has_number (arg_value a))
      (map (\<lambda>(v, t). \<lparr>arg_ty = t, arg_value = dynsol_to_json X v\<rparr>) (zip vs ts))" for vs ts
    by (induction vs ts rule: list_induct2') (auto simp: no_number_lowered)
  have p: "prefix (map arg_ty (map (\<lambda>(v, t). \<lparr>arg_ty = t, arg_value = dynsol_to_json X v\<rparr>) (zip vs ts))) ts"
    for vs and ts :: "string list"
    by (induction vs ts rule: list_induct2') auto
  show ?thesis
    by (simp add: decode_args_def Let_def n p del: map_map split: option.split sum.split)
qed

end
