(* ===== verification/Events.thy ===== *)
theory Events
  imports Trace
begin

text \<open>
  \<open>src/crates/decoder/src/events.rs\<close>: raw logs are dispatched on their first topic to the
  decoders of the Uniswap V3 events \<open>Swap\<close>, \<open>Mint\<close>, \<open>Burn\<close> and the ERC-20 \<open>Transfer\<close>. The
  code the \<open>sol!\<close> macro generates (topic hashes, \<open>decode_raw_log\<close>), the printing of addresses
  and big integers and \<open>BigDecimal::from_str\<close> belong to crates and are parameters, collected in
  \<open>event_ext\<close>; the event structs are those declared inside the macro.
\<close>

section \<open>Events and the external crates\<close>

type_synonym b256 = "256 word"
type_synonym address = "160 word"

record swap_log =
  swl_sender :: address
  swl_recipient :: address
  swl_amount0 :: int
  swl_amount1 :: int
  swl_sqrtPriceX96 :: int
  swl_liquidity :: int
  swl_tick :: int

record mint_log =
  mnl_sender :: address
  mnl_owner :: address
  mnl_tickLower :: int
  mnl_tickUpper :: int
  mnl_amount :: int
  mnl_amount0 :: int
  mnl_amount1 :: int

record burn_log =
  bnl_owner :: address
  bnl_tickLower :: int
  bnl_tickUpper :: int
  bnl_amount :: int
  bnl_amount0 :: int
  bnl_amount1 :: int

record transfer_log =
  tfl_from :: address
  tfl_to :: address
  tfl_value :: int

record event_ext =
  swap_signature_hash :: b256
  mint_signature_hash :: b256
  burn_signature_hash :: b256
  transfer_signature_hash :: b256
  swap_decode_raw_log :: "b256 list \<Rightarrow> u8 list \<Rightarrow> string + swap_log"
  mint_decode_raw_log :: "b256 list \<Rightarrow> u8 list \<Rightarrow> string + mint_log"
  burn_decode_raw_log :: "b256 list \<Rightarrow> u8 list \<Rightarrow> string + burn_log"
  transfer_decode_raw_log :: "b256 list \<Rightarrow> u8 list \<Rightarrow> string + transfer_log"
  address_to_string :: "address \<Rightarrow> string"
  b256_to_string :: "b256 \<Rightarrow> string"
  bigint_to_string :: "int \<Rightarrow> string"
  big_decimal_from_str :: "string \<Rightarrow> string + int"
  ev_lowercase :: "string \<Rightarrow> string"

section \<open>Decoded events\<close>

record decoded_swap =
  ds_pool_address :: string
  ds_tx_hash :: string
  ds_sender :: string
  ds_recipient :: string
  ds_amount0 :: int
  ds_amount1 :: int
  ds_amount_in :: int
  ds_amount_out :: int
  ds_sqrt_price_x96 :: int
  ds_liquidity :: int
  ds_tick :: int
  ds_log_index :: int
  ds_timestamp :: timestamp

record decoded_liquidity =
  dl_event_type :: string
  dl_pool_address :: string
  dl_tx_hash :: string
  dl_provider :: string
  dl_token0_amount :: int
  dl_token1_amount :: int
  dl_tick_lower :: int
  dl_tick_upper :: int
  dl_liquidity :: int
  dl_log_index :: int
  dl_timestamp :: timestamp

record decoded_transfer =
  dt_tx_hash :: string
  dt_token_address :: string
  dt_from_addr :: string
  dt_to_addr :: string
  dt_amount :: int
  dt_log_index :: int
  dt_timestamp :: timestamp

datatype decoded_event =
    DecodedSwap decoded_swap
  | DecodedLiquidity decoded_liquidity
  | DecodedTransfer decoded_transfer

section \<open>The code\<close>

definition bd_from_str :: "event_ext \<Rightarrow> string \<Rightarrow> decode_error + int" where
  "bd_from_str X s =
     (case big_decimal_from_str X s of Inl e \<Rightarrow> Inl (AbiDecode e) | Inr n \<Rightarrow> Inr n)"

text \<open>\<open>s.parse::<i32>()\<close>: an optional sign, then decimal digits, in the range of \<open>i32\<close>.\<close>

definition parse_i32 :: "string \<Rightarrow> int option" where
  "parse_i32 s =
     (case s of
        [] \<Rightarrow> None
      | c # cs \<Rightarrow>
          let (neg, ds) = (if c = CHR ''-'' then (True, cs)
                           else if c = CHR ''+'' then (False, cs) else (False, s))
          in if ds = [] then None
             else case digits_value 10 0 ds of
                    None \<Rightarrow> None
                  | Some n \<Rightarrow>
                      let i = (if neg then - int n else int n)
                      in if - (2 ^ 31) \<le> i \<and> i < 2 ^ 31 then Some i else None)"

definition i32_from_str :: "string \<Rightarrow> decode_error + int" where
  "i32_from_str s =
     (case parse_i32 s of None \<Rightarrow> Inl (AbiDecode ''ParseIntError'') | Some n \<Rightarrow> Inr n)"

definition decode_swap ::
    "event_ext \<Rightarrow> b256 list \<Rightarrow> u8 list \<Rightarrow> string \<Rightarrow> string \<Rightarrow> int \<Rightarrow> timestamp
     \<Rightarrow> decode_error + decoded_event" where
  "decode_swap X topics data pool tx log_index ts =
     (case swap_decode_raw_log X topics data of
        Inl e \<Rightarrow> Inl (AbiDecode e)
      | Inr decoded \<Rightarrow>
          bind_res (bd_from_str X (bigint_to_string X (swl_amount0 decoded))) (\<lambda>amount0.
          bind_res (bd_from_str X (bigint_to_string X (swl_amount1 decoded))) (\<lambda>amount1.
          let (amount_in, amount_out) =
                (if amount0 \<ge> 0 then (amount0, abs amount1) else (amount1, abs amount0)) in
          bind_res (bd_from_str X (bigint_to_string X (swl_sqrtPriceX96 decoded))) (\<lambda>price.
          bind_res (bd_from_str X (bigint_to_string X (swl_liquidity decoded))) (\<lambda>liq.
          bind_res (i32_from_str (bigint_to_string X (swl_tick decoded))) (\<lambda>tick.
          Inr (DecodedSwap
            \<lparr>ds_pool_address = pool, ds_tx_hash = tx,
             ds_sender = ev_lowercase X (address_to_string X (swl_sender decoded)),
             ds_recipient = ev_lowercase X (address_to_string X (swl_recipient decoded)),
             ds_amount0 = amount0, ds_amount1 = amount1,
             ds_amount_in = amount_in, ds_amount_out = amount_out,
             ds_sqrt_price_x96 = price, ds_liquidity = liq, ds_tick = tick,
             ds_log_index = log_index, ds_timestamp = ts\<rparr>)))))))"

definition decode_mint ::
    "event_ext \<Rightarrow> b256 list \<Rightarrow> u8 list \<Rightarrow> string \<Rightarrow> string \<Rightarrow> int \<Rightarrow> timestamp
     \<Rightarrow> decode_error + decoded_event" where
  "decode_mint X topics data pool tx log_index ts =
     (case mint_decode_raw_log X topics data of
        Inl e \<Rightarrow> Inl (AbiDecode e)
      | Inr decoded \<Rightarrow>
          bind_res (bd_from_str X (bigint_to_string X (mnl_amount0 decoded))) (\<lambda>token0.
          bind_res (bd_from_str X (bigint_to_string X (mnl_amount1 decoded))) (\<lambda>token1.
          bind_res (i32_from_str (bigint_to_string X (mnl_tickLower decoded))) (\<lambda>lower.
          bind_res (i32_from_str (bigint_to_string X (mnl_tickUpper decoded))) (\<lambda>upper.
          bind_res (bd_from_str X (bigint_to_string X (mnl_amount decoded))) (\<lambda>liq.
          Inr (DecodedLiquidity
            \<lparr>dl_event_type = ''MINT'', dl_pool_address = pool, dl_tx_hash = tx,
             dl_provider = ev_lowercase X (address_to_string X (mnl_owner decoded)),
             dl_token0_amount = token0, dl_token1_amount = token1,
             dl_tick_lower = lower, dl_tick_upper = upper, dl_liquidity = liq,
             dl_log_index = log_index, dl_timestamp = ts\<rparr>)))))))"

definition decode_burn ::
    "event_ext \<Rightarrow> b256 list \<Rightarrow> u8 list \<Rightarrow> string \<Rightarrow> string \<Rightarrow> int \<Rightarrow> timestamp
     \<Rightarrow> decode_error + decoded_event" where
  "decode_burn X topics data pool tx log_index ts =
     (case burn_decode_raw_log X topics data of
        Inl e \<Rightarrow> Inl (AbiDecode e)
      | Inr decoded \<Rightarrow>
          bind_res (bd_from_str X (bigint_to_string X (bnl_amount0 decoded))) (\<lambda>token0.
          bind_res (bd_from_str X (bigint_to_string X (bnl_amount1 decoded))) (\<lambda>token1.
          bind_res (i32_from_str (bigint_to_string X (bnl_tickLower decoded))) (\<lambda>lower.
          bind_res (i32_from_str (bigint_to_string X (bnl_tickUpper decoded))) (\<lambda>upper.
          bind_res (bd_from_str X (bigint_to_string X (bnl_amount decoded))) (\<lambda>liq.
          Inr (DecodedLiquidity
            \<lparr>dl_event_type = ''BURN'', dl_pool_address = pool, dl_tx_hash = tx,
             dl_provider = ev_lowercase X (address_to_string X (bnl_owner decoded)),
             dl_token0_amount = token0, dl_token1_amount = token1,
             dl_tick_lower = lower, dl_tick_upper = upper, dl_liquidity = liq,
             dl_log_index = log_index, dl_timestamp = ts\<rparr>)))))))"

definition decode_transfer ::
    "event_ext \<Rightarrow> b256 list \<Rightarrow> u8 list \<Rightarrow> string \<Rightarrow> string \<Rightarrow> int \<Rightarrow> timestamp
     \<Rightarrow> decode_error + decoded_event" where
  "decode_transfer X topics data token_addr tx log_index ts =
     (case transfer_decode_raw_log X topics data of
        Inl e \<Rightarrow> Inl (AbiDecode e)
      | Inr decoded \<Rightarrow>
          bind_res (bd_from_str X (bigint_to_string X (tfl_value decoded))) (\<lambda>amount.
          Inr (DecodedTransfer
            \<lparr>dt_tx_hash = tx, dt_token_address = token_addr,
             dt_from_addr = ev_lowercase X (address_to_string X (tfl_from decoded)),
             dt_to_addr = ev_lowercase X (address_to_string X (tfl_to decoded)),
             dt_amount = amount, dt_log_index = log_index, dt_timestamp = ts\<rparr>)))"

definition decode_log ::
    "event_ext \<Rightarrow> b256 list \<Rightarrow> u8 list \<Rightarrow> string \<Rightarrow> string \<Rightarrow> int \<Rightarrow> timestamp
     \<Rightarrow> decode_error + decoded_event" where
  "decode_log X topics data pool tx log_index ts =
     (case topics of
        [] \<Rightarrow> Inl (MissingField ''topic0'')
      | topic0 # _ \<Rightarrow>
          if topic0 = swap_signature_hash X then decode_swap X topics data pool tx log_index ts
          else if topic0 = mint_signature_hash X then decode_mint X topics data pool tx log_index ts
          else if topic0 = burn_signature_hash X then decode_burn X topics data pool tx log_index ts
          else if topic0 = transfer_signature_hash X then
            decode_transfer X topics data pool tx log_index ts
          else Inl (UnknownTopic (b256_to_string X topic0)))"

section \<open>The laws of the libraries\<close>

text \<open>
  What the code relies on: an integer is printed in decimal, and \<open>BigDecimal::from_str\<close> reads
  that text back.
\<close>

definition event_ext_ok :: "event_ext \<Rightarrow> bool" where
  "event_ext_ok X = (\<forall>i. bigint_to_string X i = int_to_dec i \<and>
                         big_decimal_from_str X (int_to_dec i) = Inr i)"

lemma bd_roundtrip: "event_ext_ok X \<Longrightarrow> bd_from_str X (bigint_to_string X i) = Inr i"
  by (simp add: event_ext_ok_def bd_from_str_def)

lemma nat_to_dec_hd_not_sign:
  assumes "nat_to_dec n = c # cs"
  shows "c \<noteq> CHR ''-'' \<and> c \<noteq> CHR ''+''"
proof -
  from hd_nat_to_dec [of n] assms obtain d where "d < 10" "c = hex_char d" by auto
  then show ?thesis
    by (auto simp: hex_char_def char_code_def dest!: arg_cong [where f = char_code])
qed

lemma parse_i32_int_to_dec:
  assumes "- (2 ^ 31) \<le> i" "i < 2 ^ 31"
  shows "parse_i32 (int_to_dec i) = Some i"
proof (cases "i < 0")
  case True
  with assms show ?thesis
    by (simp add: parse_i32_def int_to_dec_def digits_value_dec)
next
  case False
  obtain c cs where s: "nat_to_dec (nat i) = c # cs"
    by (cases "nat_to_dec (nat i)") auto
  with nat_to_dec_hd_not_sign [OF s] digits_value_dec [of "nat i"] False assms show ?thesis
    by (simp add: parse_i32_def int_to_dec_def)
qed

lemma i32_roundtrip:
  "event_ext_ok X \<Longrightarrow> - (2 ^ 31) \<le> i \<Longrightarrow> i < 2 ^ 31 \<Longrightarrow>
   i32_from_str (bigint_to_string X i) = Inr i"
  by (simp add: i32_from_str_def event_ext_ok_def parse_i32_int_to_dec)


lemmas decode_defs = decode_swap_def decode_mint_def decode_burn_def decode_transfer_def

text \<open>No decoder of a recognised event reports the unknown topic or the missing field.\<close>

lemma bd_from_str_error: "bd_from_str X s = Inl e \<Longrightarrow> \<exists>m. e = AbiDecode m"
  by (auto simp: bd_from_str_def split: sum.splits)

lemma i32_from_str_error: "i32_from_str s = Inl e \<Longrightarrow> \<exists>m. e = AbiDecode m"
  by (auto simp: i32_from_str_def split: option.splits)

lemma bind_res_Inl_iff: "bind_res r f = Inl e \<longleftrightarrow> r = Inl e \<or> (\<exists>x. r = Inr x \<and> f x = Inl e)"
  by (cases r) auto

lemma decoders_error_is_abi:
  "decode_swap X topics data pool tx li ts = Inl e \<Longrightarrow> \<exists>m. e = AbiDecode m"
  "decode_mint X topics data pool tx li ts = Inl e \<Longrightarrow> \<exists>m. e = AbiDecode m"
  "decode_burn X topics data pool tx li ts = Inl e \<Longrightarrow> \<exists>m. e = AbiDecode m"
  "decode_transfer X topics data pool tx li ts = Inl e \<Longrightarrow> \<exists>m. e = AbiDecode m"
  by (auto simp: decode_defs Let_def bind_res_Inl_iff split: sum.splits prod.splits
      dest: bd_from_str_error i32_from_str_error)

definition recognised :: "event_ext \<Rightarrow> b256 \<Rightarrow> bool" where
  "recognised X t = (t \<in> {swap_signature_hash X, mint_signature_hash X,
                           burn_signature_hash X, transfer_signature_hash X})"

lemma decode_log_recognised_error:
  "recognised X t \<Longrightarrow> decode_log X (t # rest) data pool tx li ts = Inl e \<Longrightarrow> \<exists>m. e = AbiDecode m"
  by (auto simp: decode_log_def recognised_def dest: decoders_error_is_abi split: if_splits)

section \<open>Properties\<close>

text \<open>Dispatch: a log without topics is a missing field, a first topic that is none of the four
  event hashes is the unknown-topic error (which the worker drops silently), and every other failure
  is an ABI decoding error (which the worker logs), so no recognised event is dropped silently.\<close>

theorem decode_log_errors:
  "decode_log X topics data pool tx li ts = Inl e \<longleftrightarrow>
     (topics = [] \<and> e = MissingField ''topic0'') \<or>
     (\<exists>t rest. topics = t # rest \<and> \<not> recognised X t \<and> e = UnknownTopic (b256_to_string X t)) \<or>
     (\<exists>t rest m. topics = t # rest \<and> recognised X t \<and> e = AbiDecode m \<and>
        decode_log X (t # rest) data pool tx li ts = Inl (AbiDecode m))"
proof (cases topics)
  case Nil
  then show ?thesis by (auto simp: decode_log_def)
next
  case (Cons t rest)
  show ?thesis
  proof (cases "recognised X t")
    case True
    with Cons show ?thesis
      by (auto dest: decode_log_recognised_error)
  next
    case False
    with Cons show ?thesis
      by (auto simp: decode_log_def recognised_def)
  qed
qed

text \<open>A swap whose raw log decodes is always decoded (the decimal texts parse back), keeps both
  signed amounts, and its input and output are the positive and the negated negative pool delta:
  with deltas of opposite sign, \<open>amount_in\<close> is the larger and \<open>amount_out\<close> the negation of the
  smaller one - except when \<open>amount0\<close> is zero and \<open>amount1\<close> positive, where the code reports
  input zero and the paid \<open>amount1\<close> as the output.\<close>

theorem decode_swap_amounts:
  assumes ok: "event_ext_ok X"
    and raw: "swap_decode_raw_log X (swap_signature_hash X # rest) data = Inr d"
    and tick: "- (2 ^ 23) \<le> swl_tick d" "swl_tick d < 2 ^ 23"
    and signs: "swl_amount0 d * swl_amount1 d \<le> 0"
  shows "\<exists>s. decode_log X (swap_signature_hash X # rest) data pool tx li ts = Inr (DecodedSwap s) \<and>
     ds_amount0 s = swl_amount0 d \<and> ds_amount1 s = swl_amount1 d \<and> ds_tick s = swl_tick d \<and>
     ds_liquidity s = swl_liquidity d \<and> ds_sqrt_price_x96 s = swl_sqrtPriceX96 d \<and>
     (ds_amount_in s, ds_amount_out s) =
       (if swl_amount0 d = 0 \<and> 0 < swl_amount1 d then (0, swl_amount1 d)
        else (max (swl_amount0 d) (swl_amount1 d), - min (swl_amount0 d) (swl_amount1 d)))"
proof -
  have t: "i32_from_str (bigint_to_string X (swl_tick d)) = Inr (swl_tick d)"
    using ok tick by (intro i32_roundtrip) auto
  from signs have "swl_amount0 d \<le> 0 \<and> 0 \<le> swl_amount1 d \<or> 0 \<le> swl_amount0 d \<and> swl_amount1 d \<le> 0"
    by (auto simp: mult_le_0_iff)
  then show ?thesis
    by (auto simp: decode_log_def decode_swap_def raw bd_roundtrip [OF ok] t Let_def)
qed

definition sample_swap :: swap_log where
  "sample_swap = \<lparr>swl_sender = 1, swl_recipient = 2, swl_amount0 = - 5, swl_amount1 = 7,
     swl_sqrtPriceX96 = 11, swl_liquidity = 13, swl_tick = - 17\<rparr>"

definition sample_event_ext :: event_ext where
  "sample_event_ext = \<lparr>swap_signature_hash = 1, mint_signature_hash = 2, burn_signature_hash = 3,
     transfer_signature_hash = 4, swap_decode_raw_log = (\<lambda>_ _. Inr sample_swap),
     mint_decode_raw_log = (\<lambda>_ _. Inl ''e''), burn_decode_raw_log = (\<lambda>_ _. Inl ''e''),
     transfer_decode_raw_log = (\<lambda>_ _. Inr \<lparr>tfl_from = 1, tfl_to = 2, tfl_value = 3\<rparr>),
     address_to_string = (\<lambda>a. nat_to_dec (unat a)), b256_to_string = (\<lambda>h. nat_to_dec (unat h)),
     bigint_to_string = int_to_dec,
     big_decimal_from_str = (\<lambda>s. case s of [] \<Rightarrow> Inl ''empty'' | c # cs \<Rightarrow>
       if c = CHR ''-'' then (case digits_value 10 0 cs of None \<Rightarrow> Inl ''digit'' | Some n \<Rightarrow> Inr (- int n))
       else (case digits_value 10 0 s of None \<Rightarrow> Inl ''digit'' | Some n \<Rightarrow> Inr (int n))),
     ev_lowercase = to_ascii_lowercase\<rparr>"

lemma sample_event_ext_ok: "event_ext_ok sample_event_ext"
proof -
  have "big_decimal_from_str sample_event_ext (int_to_dec i) = Inr i" for i
  proof (cases "i < 0")
    case True
    then show ?thesis by (simp add: sample_event_ext_def int_to_dec_def digits_value_dec)
  next
    case False
    obtain c cs where s: "nat_to_dec (nat i) = c # cs"
      by (cases "nat_to_dec (nat i)") auto
    with nat_to_dec_hd_not_sign [OF s] digits_value_dec [of "nat i"] False show ?thesis
      by (simp add: sample_event_ext_def int_to_dec_def)
  qed
  then show ?thesis
    by (simp add: event_ext_ok_def) (simp add: sample_event_ext_def)
qed

lemma decode_swap_amounts_witness:
  "\<exists>s. decode_log sample_event_ext [1] [] ''p'' ''t'' 0 0 = Inr (DecodedSwap s) \<and>
       ds_amount_in s = 7 \<and> ds_amount_out s = 5 \<and> ds_tick s = - 17"
  using decode_swap_amounts [OF sample_event_ext_ok, of "[]" "[]" sample_swap "''p''" "''t''" 0 0]
  by (auto simp: sample_event_ext_def sample_swap_def)

end
