(* ===== verification/Ranges.thy ===== *)
theory Ranges
  imports Bytes
begin

text \<open>
  The pure range decisions of the indexer: \<open>cap_range_to\<close>, \<open>next_target\<close> and the trigger mode of
  \<open>src/crates/indexer/src/worker.rs\<close>, the chunking loop of \<open>WorkerPool::index_range\<close>
  (\<open>(from..=to).step_by(batch_size)\<close>), and the resume decision and configuration of
  \<open>src/crates/indexer/src/main.rs\<close> and \<open>config.rs\<close>. Block numbers are \<open>u64\<close> words; the laws are
  stated on their values, so that wrap-around and saturation are visible.
\<close>

section \<open>Capping a range\<close>

definition follow_cycle_block_cap :: u64 where
  "follow_cycle_block_cap = 500"

definition reorg_scan_cap :: int where
  "reorg_scan_cap = 4096"

definition cap_range_to :: "u64 \<Rightarrow> u64 \<Rightarrow> u64 \<Rightarrow> u64 \<times> u64" where
  "cap_range_to from_b to_b cap_blocks =
     (if cap_blocks = 0 \<or> to_b < from_b then (from_b, to_b)
      else let span = saturating_add (saturating_sub to_b from_b) 1 in
           if span \<le> cap_blocks then (from_b, to_b)
           else (from_b, saturating_sub (saturating_add from_b cap_blocks) 1))"

section \<open>The next range to follow\<close>

definition i64_max0_as_u64 :: "int \<Rightarrow> u64" where
  "i64_max0_as_u64 c = as_u64 (max c 0)"

definition next_target :: "u64 \<Rightarrow> u64 \<Rightarrow> int option \<Rightarrow> (u64 \<times> u64) option" where
  "next_target head confirmations checkpoint =
     (let safe = saturating_sub head confirmations;
          resume = (case checkpoint of
                      Some c \<Rightarrow> saturating_add (i64_max0_as_u64 c) 1
                    | None \<Rightarrow> safe)
      in if resume > safe then None else Some (resume, safe))"

section \<open>Chunks\<close>

text \<open>
  \<open>(from..=to).step_by(n)\<close>: the successive starts, computed by the iterator without overflow
  (it stops when the next start would leave the range). A step of zero panics.
\<close>

function chunk_starts :: "nat \<Rightarrow> nat \<Rightarrow> nat \<Rightarrow> nat list" where
  "chunk_starts step from_b to_b =
     (if step = 0 \<or> to_b < from_b then [] else from_b # chunk_starts step (from_b + step) to_b)"
  by pat_completeness auto
termination
  by (relation "measure (\<lambda>(step, f, t). Suc t - f)") auto

declare chunk_starts.simps [simp del]

text \<open>
  \<open>chunk_end = (chunk_start + batch_size as u64 - 1).min(to_block)\<close>: the addition panics when the
  sum does not fit in \<open>u64\<close> and overflow is checked (a debug build; a release build would wrap).
  The laws below exclude that case.
\<close>

definition chunk_end :: "u64 \<Rightarrow> u64 \<Rightarrow> u64 \<Rightarrow> u64 option" where
  "chunk_end chunk_start batch_size to_block =
     (if unat chunk_start + unat batch_size \<ge> 2 ^ 64 then None
      else Some (min (chunk_start + batch_size - 1) to_block))"

text \<open>The chunks \<open>index_range\<close> processes in order when no cancellation and no error occurs;
  \<open>Panic\<close> where the code panics, after the chunks before it.\<close>

fun chunks_from :: "u64 \<Rightarrow> u64 \<Rightarrow> nat list \<Rightarrow> (unit, (u64 \<times> u64) list) outcome" where
  "chunks_from batch_size to_block [] = Ret []"
| "chunks_from batch_size to_block (s # ss) =
     (case chunk_end (word_of_nat s) batch_size to_block of
        None \<Rightarrow> Panic
      | Some e \<Rightarrow>
          (case chunks_from batch_size to_block ss of
             Ret cs \<Rightarrow> Ret ((word_of_nat s, e) # cs)
           | Err u \<Rightarrow> Err u
           | Panic \<Rightarrow> Panic))"

definition range_chunks :: "u64 \<Rightarrow> u64 \<Rightarrow> u64 \<Rightarrow> (unit, (u64 \<times> u64) list) outcome" where
  "range_chunks batch_size from_block to_block =
     (if batch_size = 0 then Panic
      else chunks_from batch_size to_block
             (chunk_starts (unat batch_size) (unat from_block) (unat to_block)))"

section \<open>Trigger mode\<close>

datatype trigger_mode = Polling | Subscribe string

fun trigger_label :: "trigger_mode \<Rightarrow> string" where
  "trigger_label Polling = ''polling''"
| "trigger_label (Subscribe _) = ''subscribe''"

definition resolve_trigger_mode :: "bool \<Rightarrow> string option \<Rightarrow> trigger_mode" where
  "resolve_trigger_mode subscribe ws_url =
     (case (subscribe, map_option str_trim ws_url) of
        (True, Some u) \<Rightarrow> if u \<noteq> [] then Subscribe u else Polling
      | _ \<Rightarrow> Polling)"

section \<open>Start-up of a fixed range\<close>

text \<open>The resume decision of \<open>main\<close>: from the checkpoint when it is not below the requested start.\<close>

definition resume_from :: "int option \<Rightarrow> u64 \<Rightarrow> u64" where
  "resume_from checkpoint from_block =
     (case checkpoint of
        Some last_b \<Rightarrow> if last_b \<ge> as_i64 from_block then as_u64 (last_b + 1) else from_block
      | None \<Rightarrow> from_block)"

definition batch_range :: "int option \<Rightarrow> u64 \<Rightarrow> u64 option \<Rightarrow> (u64 \<times> u64) option" where
  "batch_range checkpoint cfg_from cfg_to =
     (let from_block = resume_from checkpoint cfg_from;
          to_block = (case cfg_to of Some t \<Rightarrow> t | None \<Rightarrow> from_block)
      in if from_block > to_block then None else Some (from_block, to_block))"

datatype run_mode = DispatchAlerts | Follow | FixedRange

text \<open>The argument checks of \<open>main\<close>: \<open>Inl\<close> is the \<open>bail!\<close> message.\<close>

definition select_mode :: "bool \<Rightarrow> bool \<Rightarrow> u64 option \<Rightarrow> string + run_mode" where
  "select_mode dispatch_alerts follow from_block =
     (if dispatch_alerts \<and> (follow \<or> from_block \<noteq> None)
        then Inl ''--dispatch-alerts is mutually exclusive with --follow / --from-block''
      else if \<not> dispatch_alerts \<and> \<not> follow \<and> from_block = None
        then Inl ''specify one of: --from-block, --follow, --dispatch-alerts''
      else if dispatch_alerts then Inr DispatchAlerts
      else if follow then Inr Follow
      else Inr FixedRange)"

record config =
  cfg_database_url :: string
  cfg_rpc_url :: string
  cfg_ws_url :: "string option"
  cfg_from_block :: u64
  cfg_to_block :: "u64 option"
  cfg_follow :: bool
  cfg_poll_interval_secs :: u64
  cfg_confirmations :: u64
  cfg_subscribe :: bool
  cfg_max_concurrent_blocks :: u64
  cfg_batch_size :: u64
  cfg_max_db_connections :: "32 word"

text \<open>\<open>env::var(key).ok().and_then(|v| v.parse().ok()).unwrap_or(dflt)\<close> for an unsigned type.\<close>

definition env_uint :: "nat \<Rightarrow> (string \<rightharpoonup> string) \<Rightarrow> string \<Rightarrow> nat \<Rightarrow> nat" where
  "env_uint bits env key dflt =
     (case env key of
        None \<Rightarrow> dflt
      | Some v \<Rightarrow> (case from_str_radix bits 10 v of None \<Rightarrow> dflt | Some n \<Rightarrow> n))"

definition config_from_env :: "(string \<rightharpoonup> string) \<Rightarrow> string + config" where
  "config_from_env env =
     (case env ''DATABASE_URL'' of
        None \<Rightarrow> Inl ''DATABASE_URL environment variable is required''
      | Some database_url \<Rightarrow>
          (case env ''RPC_URL'' of
             None \<Rightarrow> Inl ''RPC_URL environment variable is required''
           | Some rpc_url \<Rightarrow>
               Inr \<lparr>cfg_database_url = database_url, cfg_rpc_url = rpc_url,
                    cfg_ws_url = env ''WS_URL'',
                    cfg_from_block = 0, cfg_to_block = None, cfg_follow = False,
                    cfg_poll_interval_secs = 12, cfg_confirmations = 12, cfg_subscribe = False,
                    cfg_max_concurrent_blocks =
                      word_of_nat (env_uint 64 env ''MAX_CONCURRENT_BLOCKS'' 10),
                    cfg_batch_size = word_of_nat (env_uint 64 env ''BATCH_SIZE'' 100),
                    cfg_max_db_connections =
                      word_of_nat (env_uint 32 env ''MAX_DB_CONNECTIONS'' 10)\<rparr>))"

definition with_block_range :: "config \<Rightarrow> u64 \<Rightarrow> u64 option \<Rightarrow> config" where
  "with_block_range c from_b to_b = c\<lparr>cfg_from_block := from_b, cfg_to_block := to_b\<rparr>"

definition with_follow_opts :: "config \<Rightarrow> bool \<Rightarrow> u64 \<Rightarrow> u64 \<Rightarrow> bool \<Rightarrow> config" where
  "with_follow_opts c follow poll confirmations subscribe =
     c\<lparr>cfg_follow := follow, cfg_poll_interval_secs := poll,
       cfg_confirmations := confirmations, cfg_subscribe := subscribe\<rparr>"

section \<open>Laws\<close>

lemma unat_i64_max0:
  "c < 2 ^ 63 \<Longrightarrow> int (unat (i64_max0_as_u64 c)) = max c 0"
  unfolding i64_max0_as_u64_def by (rule unat_as_u64) auto

lemma unat_i64_max0_nat: "c < 2 ^ 63 \<Longrightarrow> unat (i64_max0_as_u64 c) = nat c"
  using unat_i64_max0 [of c] by linarith

lemma unat_next_of_checkpoint:
  "c < 2 ^ 63 \<Longrightarrow> unat (saturating_add (i64_max0_as_u64 c) 1) = nat c + 1"
  by (simp add: sat_simps unat_i64_max0_nat)

lemma word_of_nat_chunk: "s \<le> unat (t :: u64) \<Longrightarrow> unat (word_of_nat s :: u64) = s"
  using unat_u64_lt [of t] by (simp add: unat_of_nat take_bit_nat_eq_self)

lemma chunk_starts_le: "s \<in> set (chunk_starts b f t) \<Longrightarrow> s \<le> t"
  by (induction b f t rule: chunk_starts.induct)
    (subst (asm) (2) chunk_starts.simps, auto split: if_splits)

lemma chunk_end_value:
  assumes "0 < unat b" "unat t + unat b < 2 ^ 64" "s \<le> unat t"
  shows "\<exists>e. chunk_end (word_of_nat s) b t = Some e \<and> unat e = min (s + unat b - 1) (unat t)"
proof -
  have s: "unat (word_of_nat s :: u64) = s"
    using assms(3) by (rule word_of_nat_chunk)
  have sb: "unat (word_of_nat s + b) = s + unat b"
    using assms s by (subst unat_add_no_overflow) auto
  then have "(1 :: u64) \<le> word_of_nat s + b"
    using assms by (simp add: word_le_nat_alt)
  then have "unat (word_of_nat s + b - 1) = s + unat b - 1"
    using sb by (simp add: unat_sub)
  then show ?thesis
    using assms s by (auto simp: chunk_end_def min_def word_le_nat_alt)
qed

definition chunk_blocks :: "u64 \<times> u64 \<Rightarrow> nat list" where
  "chunk_blocks c = [unat (fst c)..<Suc (unat (snd c))]"

lemma chunks_from_partition:
  assumes "0 < unat b" "unat t + unat b < 2 ^ 64"
  shows "\<exists>cs. chunks_from b t (chunk_starts (unat b) f (unat t)) = Ret cs \<and>
     concat (map chunk_blocks cs) = [f..<Suc (unat t)] \<and>
     (\<forall>c\<in>set cs. fst c \<le> snd c \<and> unat (snd c) - unat (fst c) < unat b)"
proof (induction "unat b" f "unat t" rule: chunk_starts.induct)
  case (1 f)
  show ?case
  proof (cases "unat t < f")
    case True
    then show ?thesis by (subst chunk_starts.simps) simp
  next
    case False
    with 1 assms obtain cs where cs:
        "chunks_from b t (chunk_starts (unat b) (f + unat b) (unat t)) = Ret cs"
        "concat (map chunk_blocks cs) = [f + unat b..<Suc (unat t)]"
        "\<forall>c\<in>set cs. fst c \<le> snd c \<and> unat (snd c) - unat (fst c) < unat b"
      by auto
    from False chunk_end_value [OF assms, of f] obtain e where e:
        "chunk_end (word_of_nat f) b t = Some e" "unat e = min (f + unat b - 1) (unat t)"
      by auto
    have f: "unat (word_of_nat f :: u64) = f"
      using False by (intro word_of_nat_chunk [of _ t]) auto
    have "[f..<Suc (unat e)] @ [f + unat b..<Suc (unat t)] = [f..<Suc (unat t)]"
    proof (cases "f + unat b \<le> unat t")
      case True
      then have "Suc (unat e) = f + unat b"
        using e assms by simp
      with True show ?thesis
        using upt_add_eq_append [of f "f + unat b" "Suc (unat t) - (f + unat b)"]
        by (simp del: upt_Suc)
    next
      case False
      then have "unat e = unat t"
        using e by simp
      with False show ?thesis by (simp del: upt_Suc)
    qed
    with False cs e f assms show ?thesis
      by (subst chunk_starts.simps)
        (auto simp: chunk_blocks_def word_le_nat_alt simp del: upt_Suc)
  qed
qed

lemma next_target_iff:
  assumes cp: "\<And>c. cp = Some c \<Longrightarrow> c < 2 ^ 63"
  shows "next_target head conf cp = Some (f, t) \<longleftrightarrow>
      unat t = unat head - unat conf \<and>
      unat f = (case cp of None \<Rightarrow> unat head - unat conf | Some c \<Rightarrow> nat c + 1) \<and>
      unat f \<le> unat t"
proof -
  define r where "r = (case cp of Some c \<Rightarrow> saturating_add (i64_max0_as_u64 c) 1
                               | None \<Rightarrow> saturating_sub head conf)"
  have r: "unat r = (case cp of None \<Rightarrow> unat head - unat conf | Some c \<Rightarrow> nat c + 1)"
    using cp by (auto simp: r_def unat_next_of_checkpoint unat_saturating_sub split: option.splits)
  have "next_target head conf cp =
      (if unat r > unat head - unat conf then None else Some (r, saturating_sub head conf))"
    by (simp add: next_target_def r_def Let_def word_less_nat_alt unat_saturating_sub
        split: option.splits)
  then show ?thesis
    by (auto simp: r [symmetric] word_unat_eq_iff unat_saturating_sub)
qed

lemma cap_range_to_bounds:
  assumes "f \<le> t"
  shows "fst (cap_range_to f t cap) = f \<and> snd (cap_range_to f t cap) \<le> t"
proof (cases "cap = 0 \<or> saturating_add (saturating_sub t f) 1 \<le> cap")
  case False
  then have "unat cap < min (unat t - unat f + 1) (2 ^ 64 - 1)"
    by (simp add: word_le_nat_alt sat_simps)
  then have "unat (saturating_sub (saturating_add f cap) 1) \<le> unat t"
    using assms unat_u64_lt [of t] by (simp add: sat_simps word_le_nat_alt)
  with False assms show ?thesis
    by (auto simp: cap_range_to_def Let_def word_le_nat_alt)
qed (auto simp: cap_range_to_def Let_def)

section \<open>Properties\<close>

text \<open>\<open>next_target\<close> resumes exactly after the checkpoint (after block 0 for a negative one) and
  ends exactly at the confirmed head, never touches an unconfirmed block, returns a range iff one
  is left, and once its range has been indexed there is nothing left for the same head.\<close>

theorem next_target_exact:
  assumes cp: "\<And>c. cp = Some c \<Longrightarrow> c < 2 ^ 63" and head: "unat head < 2 ^ 63"
  shows "(next_target head conf cp = Some (f, t) \<longleftrightarrow>
            unat t = unat head - unat conf \<and>
            unat f = (case cp of None \<Rightarrow> unat head - unat conf | Some c \<Rightarrow> nat c + 1) \<and>
            unat f \<le> unat t) \<and>
         (next_target head conf cp = Some (f, t) \<longrightarrow>
            next_target head conf (Some (as_i64 t)) = None)"
proof (rule conjI)
  show iff: "next_target head conf cp = Some (f, t) \<longleftrightarrow>
      unat t = unat head - unat conf \<and>
      unat f = (case cp of None \<Rightarrow> unat head - unat conf | Some c \<Rightarrow> nat c + 1) \<and>
      unat f \<le> unat t"
    using cp by (rule next_target_iff)
  show "next_target head conf cp = Some (f, t) \<longrightarrow>
      next_target head conf (Some (as_i64 t)) = None"
  proof
    assume "next_target head conf cp = Some (f, t)"
    then have t: "unat t = unat head - unat conf"
      using iff by simp
    then have "as_i64 t = int (unat t)"
      using head by (intro as_i64_small) simp
    then have "unat (saturating_add (i64_max0_as_u64 (as_i64 t)) 1) = unat t + 1"
      using head t by (subst unat_next_of_checkpoint) auto
    then show "next_target head conf (Some (as_i64 t)) = None"
      using t by (simp add: next_target_def Let_def word_less_nat_alt sat_simps)
  qed
qed

lemma next_target_exact_witness:
  "next_target 100 12 (Some 80) = Some (81, 88) \<and> next_target 100 12 (Some (as_i64 88)) = None"
  using next_target_exact [of "Some 80" 100 12 81 88] by simp

text \<open>Capping keeps the start, never extends the range, and yields exactly the shorter of the
  range and the cap: \<open>min (to - from + 1) cap\<close> blocks, for every range but the one of all
  \<open>2 ^ 64\<close> numbers, whose span saturates.\<close>

theorem cap_range_to_exact:
  assumes "f \<le> t" "0 < cap" "unat t - unat f < 2 ^ 64 - 1"
  shows "fst (cap_range_to f t cap) = f \<and> f \<le> snd (cap_range_to f t cap) \<and>
         snd (cap_range_to f t cap) \<le> t \<and>
         unat (snd (cap_range_to f t cap)) - unat f + 1 = min (unat t - unat f + 1) (unat cap)"
proof -
  have cap: "1 \<le> unat cap" "unat t < 2 ^ 64" "unat f \<le> unat t"
    using assms unat_u64_lt [of t] by (auto simp: word_less_nat_alt word_le_nat_alt)
  have span: "unat (saturating_add (saturating_sub t f) 1) = unat t - unat f + 1"
    using assms(3) by (simp add: sat_simps)
  show ?thesis
  proof (cases "saturating_add (saturating_sub t f) 1 \<le> cap")
    case True
    then have "cap_range_to f t cap = (f, t)"
      by (simp add: cap_range_to_def Let_def)
    with True span assms show ?thesis
      by (simp add: word_le_nat_alt)
  next
    case False
    with assms have r: "cap_range_to f t cap = (f, saturating_sub (saturating_add f cap) 1)"
      by (auto simp: cap_range_to_def Let_def)
    from False span have lt: "unat cap < unat t - unat f + 1"
      by (simp add: word_le_nat_alt)
    with cap have "unat (saturating_sub (saturating_add f cap) 1) = unat f + unat cap - 1"
      by (simp add: sat_simps)
    with r lt cap show ?thesis
      by (auto simp: word_le_nat_alt)
  qed
qed

lemma cap_range_to_exact_witness:
  "snd (cap_range_to 100 5000 500) \<le> 5000 \<and>
   unat (snd (cap_range_to 100 5000 500)) - unat (100 :: u64) + 1 = 500"
  using cap_range_to_exact [of 100 5000 500] by simp

text \<open>The chunks of \<open>index_range\<close> cover the range: as long as no chunk end overflows, their
  blocks, in order, are exactly the blocks from \<open>from\<close> to \<open>to\<close> without repetition or gap, and no
  chunk has more than \<open>batch_size\<close> blocks. A batch size of zero panics.\<close>

theorem range_chunks_partition:
  assumes "unat t + unat b < 2 ^ 64"
  shows "(0 < b \<longrightarrow> (\<exists>cs. range_chunks b f t = Ret cs \<and>
            concat (map chunk_blocks cs) = [unat f..<Suc (unat t)] \<and>
            (\<forall>c\<in>set cs. fst c \<le> snd c \<and> unat (snd c) - unat (fst c) + 1 \<le> unat b))) \<and>
         (b = 0 \<longrightarrow> range_chunks b f t = Panic)"
  using chunks_from_partition [of b t "unat f"] assms
  by (auto simp: range_chunks_def word_less_nat_alt Suc_le_eq simp del: upt_Suc)

lemma range_chunks_partition_witness:
  "\<exists>cs. range_chunks 100 5 250 = Ret cs \<and> concat (map chunk_blocks cs) = [5..<251]"
  using range_chunks_partition [of 250 100 5] by (auto simp: word_less_nat_alt simp del: upt_Suc)

text \<open>The fixed-range mode starts after the checkpoint whenever the checkpoint is not below the
  requested start: a requested range that lies wholly at or below the checkpoint is skipped,
  whether or not its blocks were ever indexed, and without an upper bound exactly one block is
  indexed.\<close>

theorem batch_range_exact:
  assumes "\<And>c. cp = Some c \<Longrightarrow> -1 \<le> c \<and> c < 2 ^ 63 - 1" "unat f < 2 ^ 63"
  shows "batch_range cp f to_b =
     (let start = (case cp of Some c \<Rightarrow> if int (unat f) \<le> c then nat (c + 1) else unat f
                            | None \<Rightarrow> unat f);
          last_b = (case to_b of Some t \<Rightarrow> unat t | None \<Rightarrow> start)
      in if last_b < start then None else Some (word_of_nat start, word_of_nat last_b))"
proof -
  have f: "as_i64 f = int (unat f)"
    using assms(2) by (rule as_i64_small)
  define start where "start = (case cp of Some c \<Rightarrow> if int (unat f) \<le> c then nat (c + 1)
                                       else unat f | None \<Rightarrow> unat f)"
  have r: "resume_from cp f = word_of_nat start"
    using assms(1) by (auto simp: start_def resume_from_def f as_u64_def split: option.splits)
  have "unat (word_of_nat start :: u64) = start"
    using assms by (auto simp: start_def unat_of_nat take_bit_nat_eq_self split: option.splits)
  then show ?thesis
    unfolding start_def [symmetric]
    by (auto simp: batch_range_def Let_def r word_less_nat_alt split: option.splits)
qed

lemma batch_range_exact_witness:
  "batch_range (Some 1000) 10 (Some 900) = None \<and> batch_range (Some 5) 10 None = Some (10, 10)"
  using batch_range_exact [of "Some 1000" 10 "Some 900"] batch_range_exact [of "Some 5" 10 None]
  by simp

end
