(* ===== verification/Fork.thy ===== *)
theory Fork
  imports Prelude
begin

text \<open>
  Reorg detection of \<open>src/crates/indexer/src/worker.rs\<close>: the pure scan \<open>classify_fork\<close>, the
  window growth \<open>next_scan_depth\<close>, and the lazy loop of \<open>detect_fork\<close>, whose chain look-ups are
  the argument \<open>rpc\<close> (\<open>Inl\<close> an RPC failure after the retries, \<open>Inr None\<close> an absent block).
  Local hashes are a list of height and hash, tip first.
\<close>

section \<open>The pure scan\<close>

datatype fork_scan = NoReorg | ForkAt u64 | Inconclusive | NeedDeeper

fun scan_heights ::
    "(u64 \<Rightarrow> string option) \<Rightarrow> u64 option \<Rightarrow> (u64 \<times> string) list \<Rightarrow> fork_scan + u64 option" where
  "scan_heights chain_hash_at last_mismatch [] = Inr last_mismatch"
| "scan_heights chain_hash_at last_mismatch ((height, local_hash) # rest) =
     (case chain_hash_at height of
        None \<Rightarrow> Inl Inconclusive
      | Some chain_hash \<Rightarrow>
          if chain_hash = local_hash
          then Inl (case last_mismatch of Some f \<Rightarrow> ForkAt f | None \<Rightarrow> NoReorg)
          else scan_heights chain_hash_at (Some height) rest)"

definition classify_fork ::
    "(u64 \<times> string) list \<Rightarrow> (u64 \<Rightarrow> string option) \<Rightarrow> nat \<Rightarrow> fork_scan" where
  "classify_fork local chain_hash_at depth =
     (let n = min depth (length local) in
      if n = 0 then NoReorg
      else case scan_heights chain_hash_at None (take n local) of
             Inl r \<Rightarrow> r
           | Inr last_mismatch \<Rightarrow>
               if n < length local then NeedDeeper
               else (case last_mismatch of Some f \<Rightarrow> ForkAt f | None \<Rightarrow> NoReorg))"

text \<open>\<open>usize\<close> depths, multiplication saturating at the largest \<open>usize\<close>.\<close>

definition next_scan_depth :: "nat \<Rightarrow> nat \<Rightarrow> nat" where
  "next_scan_depth current mx =
     (if current \<ge> mx then mx
      else min mx (max (current + 1) (min (current * 4) (2 ^ 64 - 1))))"

lemma next_scan_depth_progress: "current < mx \<Longrightarrow> current < next_scan_depth current mx"
  by (simp add: next_scan_depth_def)

lemma next_scan_depth_le: "next_scan_depth current mx \<le> mx"
  by (simp add: next_scan_depth_def)

lemma scan_heights_not_deeper: "scan_heights chain lm xs \<noteq> Inl NeedDeeper"
  by (induction chain lm xs rule: scan_heights.induct) (auto split: option.splits)

lemma classify_NeedDeeper: "classify_fork local chain depth = NeedDeeper \<Longrightarrow> depth < length local"
  using scan_heights_not_deeper
  by (fastforce simp: classify_fork_def Let_def min_def split: if_splits sum.splits option.splits)

section \<open>The lazy loop\<close>

type_synonym hash_rpc = "u64 \<Rightarrow> string + string option"

fun fetch_missing ::
    "hash_rpc \<Rightarrow> (u64 \<rightharpoonup> string) \<Rightarrow> (u64 \<times> string) list \<Rightarrow> (u64 \<rightharpoonup> string) option" where
  "fetch_missing rpc chain [] = Some chain"
| "fetch_missing rpc chain ((height, h) # rest) =
     (if chain height \<noteq> None then fetch_missing rpc chain rest
      else case rpc height of
             Inr (Some chain_hash) \<Rightarrow> fetch_missing rpc (chain(height \<mapsto> chain_hash)) rest
           | _ \<Rightarrow> None)"

function detect_loop ::
    "hash_rpc \<Rightarrow> (u64 \<times> string) list \<Rightarrow> (u64 \<rightharpoonup> string) \<Rightarrow> nat \<Rightarrow> u64 option" where
  "detect_loop rpc local chain depth =
     (case fetch_missing rpc chain (take (min depth (length local)) local) of
        None \<Rightarrow> None
      | Some chain' \<Rightarrow>
          (case classify_fork local chain' depth of
             NoReorg \<Rightarrow> None
           | Inconclusive \<Rightarrow> None
           | ForkAt f \<Rightarrow> Some f
           | NeedDeeper \<Rightarrow>
               let nxt = next_scan_depth depth (length local) in
               if nxt = depth then Some (fst (local ! (length local - 1)))
               else detect_loop rpc local chain' nxt))"
  by pat_completeness auto
termination
proof (relation "measure (\<lambda>(rpc, local, chain, depth). length local - depth)", simp, clarsimp)
  fix local :: "(u64 \<times> string) list" and depth chain'
  assume "classify_fork local chain' depth = NeedDeeper"
  then have "depth < length local"
    by (rule classify_NeedDeeper)
  then show "length local - next_scan_depth depth (length local) < length local - depth"
    using next_scan_depth_progress [of depth "length local"] next_scan_depth_le by auto
qed

declare detect_loop.simps [simp del]

definition detect_fork :: "hash_rpc \<Rightarrow> (u64 \<times> string) list \<Rightarrow> u64 option" where
  "detect_fork rpc local = (if local = [] then None else detect_loop rpc local Map.empty 1)"

section \<open>The specification\<close>

definition available :: "hash_rpc \<Rightarrow> u64 \<Rightarrow> bool" where
  "available rpc h = (case rpc h of Inr (Some _) \<Rightarrow> True | _ \<Rightarrow> False)"

definition differs :: "hash_rpc \<Rightarrow> u64 \<times> string \<Rightarrow> bool" where
  "differs rpc p = (rpc (fst p) \<noteq> Inr (Some (snd p)))"

text \<open>The reference scan: the lowest height of the run of blocks, from the tip down, that are not
  on the chain.\<close>

definition full_scan :: "hash_rpc \<Rightarrow> (u64 \<times> string) list \<Rightarrow> u64 option" where
  "full_scan rpc local =
     (let bad = takeWhile (differs rpc) local in
      if bad = [] then None else Some (fst (last bad)))"

definition agrees :: "hash_rpc \<Rightarrow> (u64 \<rightharpoonup> string) \<Rightarrow> bool" where
  "agrees rpc chain = (\<forall>h c. chain h = Some c \<longrightarrow> rpc h = Inr (Some c))"

lemma availableE: "available rpc h \<Longrightarrow> (\<And>c. rpc h = Inr (Some c) \<Longrightarrow> Q) \<Longrightarrow> Q"
  by (auto simp: available_def split: sum.splits option.splits)

lemma fetch_missing_Some:
  assumes "fetch_missing rpc chain xs = Some chain'" "agrees rpc chain"
  shows "agrees rpc chain' \<and> (\<forall>p\<in>set xs. chain' (fst p) \<noteq> None) \<and>
         (\<forall>h. chain h \<noteq> None \<longrightarrow> chain' h \<noteq> None)"
  using assms
proof (induction rpc chain xs rule: fetch_missing.induct)
  case (2 rpc chain height h rest)
  show ?case
  proof (cases "chain height")
    case None
    with "2.prems" obtain c where c: "rpc height = Inr (Some c)"
        "fetch_missing rpc (chain(height \<mapsto> c)) rest = Some chain'"
      by (auto split: sum.splits option.splits)
    have "agrees rpc (chain(height \<mapsto> c))"
      using "2.prems" c by (auto simp: agrees_def)
    then have ih: "agrees rpc chain' \<and> (\<forall>p\<in>set rest. chain' (fst p) \<noteq> None) \<and>
        (\<forall>x. (chain(height \<mapsto> c)) x \<noteq> None \<longrightarrow> chain' x \<noteq> None)"
      using "2.IH"(2) [of "Some c" c] None c by (simp del: fun_upd_apply)
    then have "chain' x \<noteq> None" if "x = height \<or> chain x \<noteq> None" for x
      using that by (auto simp: fun_upd_apply split: if_splits)
    with ih show ?thesis by auto
  next
    case (Some c)
    with 2 show ?thesis by auto
  qed
qed simp

lemma fetch_missing_available:
  "\<forall>p\<in>set xs. available rpc (fst p) \<Longrightarrow> fetch_missing rpc chain xs \<noteq> None"
  by (induction rpc chain xs rule: fetch_missing.induct)
    (auto elim!: availableE split: sum.splits option.splits)

lemma scan_heights_takeWhile:
  assumes "agrees rpc chain" "\<forall>p\<in>set xs. chain (fst p) \<noteq> None"
  shows "scan_heights chain lm xs =
    (let bad = takeWhile (differs rpc) xs;
         lm' = (if bad = [] then lm else Some (fst (last bad)))
     in if bad = xs then Inr lm'
        else Inl (case lm' of Some f \<Rightarrow> ForkAt f | None \<Rightarrow> NoReorg))"
  using assms(2)
proof (induction xs arbitrary: lm)
  case (Cons p rest)
  obtain height lh where p: "p = (height, lh)" by (cases p)
  with Cons obtain c where c: "chain height = Some c" by auto
  then have "rpc height = Inr (Some c)"
    using assms(1) by (simp add: agrees_def)
  then have "differs rpc p \<longleftrightarrow> c \<noteq> lh"
    by (simp add: differs_def p)
  with Cons c show ?case
    by (cases "takeWhile (differs rpc) rest = []") (auto simp: p Let_def takeWhile_eq_all_conv [THEN iffD2])
qed simp

lemma takeWhile_take_full: "takeWhile P (take n xs) \<noteq> take n xs \<Longrightarrow> takeWhile P xs = takeWhile P (take n xs)"
  by (metis append_take_drop_id takeWhile_append1 takeWhile_eq_all_conv)

lemma available_agrees: "agrees rpc chain \<Longrightarrow> chain h \<noteq> None \<Longrightarrow> available rpc h"
  by (auto simp: agrees_def available_def)

text \<open>What \<open>classify_fork\<close> sees in its window, all of whose hashes are known.\<close>

lemma classify_window:
  assumes "agrees rpc chain" "w = take (min depth (length local)) local" "\<forall>p\<in>set w. chain (fst p) \<noteq> None"
    and "0 < depth" "local \<noteq> []"
  shows "classify_fork local chain depth = (let b = takeWhile (differs rpc) w in
     if b \<noteq> w then (if b = [] then NoReorg else ForkAt (fst (last b)))
     else if depth < length local then NeedDeeper else ForkAt (fst (last local)))"
proof -
  note scan = scan_heights_takeWhile [OF assms(1,3), of None]
  have n: "min depth (length local) \<noteq> 0" "w \<noteq> []" using assms(2,4,5) by auto
  show ?thesis
  proof (cases "takeWhile (differs rpc) w = w")
    case True
    have "scan_heights chain None w = Inr (Some (fst (last w)))"
      using n(2) unfolding scan Let_def True by simp
    then have "classify_fork local chain depth =
        (if min depth (length local) < length local then NeedDeeper else ForkAt (fst (last w)))"
      using n(1) by (simp only: classify_fork_def Let_def assms(2) if_False sum.case option.case)
    moreover have "\<not> depth < length local \<Longrightarrow> w = local" using assms(2) by simp
    ultimately show ?thesis using True by (simp add: min_def split: if_splits)
  next
    case False
    then show ?thesis
      using n assms(2) scan by (auto simp: classify_fork_def Let_def min_def)
  qed
qed

lemma detect_loop_result:
  assumes "agrees rpc chain" "0 < depth" "local \<noteq> []"
  shows "(detect_loop rpc local chain depth = None \<or>
           takeWhile (differs rpc) local \<noteq> [] \<and>
           (\<forall>p\<in>set (takeWhile (differs rpc) local). available rpc (fst p)) \<and>
           detect_loop rpc local chain depth = full_scan rpc local) \<and>
         ((\<forall>p\<in>set local. available rpc (fst p)) \<longrightarrow>
           detect_loop rpc local chain depth = full_scan rpc local)"
  using assms
proof (induction rpc local chain depth rule: detect_loop.induct)
  case (1 rpc local chain depth)
  let ?w = "take (min depth (length local)) local"
  let ?bad = "takeWhile (differs rpc) local" and ?b = "takeWhile (differs rpc) ?w"
  show ?case
  proof (cases "fetch_missing rpc chain ?w")
    case None
    then have "\<not> (\<forall>p\<in>set local. available rpc (fst p))"
      using fetch_missing_available [of ?w rpc chain] by (auto dest: in_set_takeD)
    moreover have "detect_loop rpc local chain depth = None" using None by (simp add: detect_loop.simps)
    ultimately show ?thesis by blast
  next
    case (Some chain')
    note f = fetch_missing_Some [OF Some "1.prems"(1)]
    then have ag: "agrees rpc chain'" and got: "\<forall>p\<in>set ?w. chain' (fst p) \<noteq> None" by auto
    then have av: "\<forall>p\<in>set ?w. available rpc (fst p)" using available_agrees [OF ag] by blast
    note win = classify_window [OF ag refl got "1.prems"(2,3), unfolded Let_def]
    note unfold = detect_loop.simps [of rpc local chain depth, unfolded Some option.case]
    consider (here) "?b \<noteq> ?w" | (deeper) "?b = ?w" "depth < length local" | (all) "?b = ?w" "\<not> depth < length local"
      by blast
    then show ?thesis
    proof cases
      case here
      then have bad: "?bad = ?b" by (rule takeWhile_take_full)
      have "detect_loop rpc local chain depth = full_scan rpc local"
        using here unfolding unfold win full_scan_def Let_def bad by simp
      moreover have "full_scan rpc local = None \<or> ?bad \<noteq> [] \<and> (\<forall>p\<in>set ?bad. available rpc (fst p))"
        using av bad by (auto simp: full_scan_def Let_def dest: set_takeWhileD)
      ultimately show ?thesis by auto
    next
      case deeper
      let ?nxt = "next_scan_depth depth (length local)"
      have nd: "classify_fork local chain' depth = NeedDeeper" using deeper win by simp
      have nxt: "depth < ?nxt" using deeper(2) by (rule next_scan_depth_progress)
      then have "detect_loop rpc local chain depth = detect_loop rpc local chain' ?nxt"
        using unfold nd by (simp add: Let_def)
      moreover have "0 < ?nxt" "?nxt \<noteq> depth" using nxt by auto
      ultimately show ?thesis using "1.IH" [OF Some nd refl] ag "1.prems"(3) by presburger
    next
      case all
      then have w: "?w = local" and bad: "?bad = local" by simp_all
      have "detect_loop rpc local chain depth = full_scan rpc local"
        using all(2) "1.prems"(3) unfolding unfold win full_scan_def Let_def w bad by simp
      moreover have "?bad \<noteq> []" "\<forall>p\<in>set ?bad. available rpc (fst p)"
        using av "1.prems"(3) unfolding w bad by blast+
      ultimately show ?thesis by blast
    qed
  qed
qed

section \<open>Properties\<close>

text \<open>C22. A reported fork is justified by the chain itself: the local blocks from the tip down to the
  fork height all have an available, different hash on the chain, and the block below the fork
  (if one is stored) is on the chain. So no rollback happens while the tip matches, or while a
  block that would have to be compared is unavailable.\<close>

theorem detect_fork_sound:
  assumes "detect_fork rpc local = Some f"
  shows "\<exists>bad good. local = bad @ good \<and> bad \<noteq> [] \<and> fst (last bad) = f \<and>
           list_all (\<lambda>(h, x). \<exists>c. rpc h = Inr (Some c) \<and> c \<noteq> x) bad \<and>
           (good = [] \<or> rpc (fst (hd good)) = Inr (Some (snd (hd good))))"
proof -
  let ?bad = "takeWhile (differs rpc) local"
  let ?good = "dropWhile (differs rpc) local"
  from assms have "local \<noteq> []" and "detect_loop rpc local Map.empty 1 = Some f"
    by (auto simp: detect_fork_def split: if_splits)
  with detect_loop_result [of rpc Map.empty 1 local]
  have bad: "?bad \<noteq> []" "\<forall>p\<in>set ?bad. available rpc (fst p)" "full_scan rpc local = Some f"
    by (auto simp: agrees_def)
  have "list_all (\<lambda>(h, x). \<exists>c. rpc h = Inr (Some c) \<and> c \<noteq> x) ?bad"
    using bad(2) by (fastforce simp: list_all_iff differs_def elim!: availableE dest: set_takeWhileD)
  moreover have "?good = [] \<or> rpc (fst (hd ?good)) = Inr (Some (snd (hd ?good)))"
    using hd_dropWhile [of "differs rpc" local] by (auto simp: differs_def)
  ultimately show ?thesis
    using bad by (intro exI [of _ ?bad] exI [of _ ?good]) (auto simp: full_scan_def Let_def)
qed

definition sample_local :: "(u64 \<times> string) list" where
  "sample_local = [(9, ''a''), (8, ''b''), (7, ''c''), (6, ''d'')]"

definition sample_hash_rpc :: hash_rpc where
  "sample_hash_rpc h = (if h = 9 then Inr (Some ''x'') else if h = 8 then Inr (Some ''y'')
     else if h = 7 then Inr (Some ''c'') else if h = 6 then Inr (Some ''d'') else Inr None)"

lemma detect_fork_sample: "detect_fork sample_hash_rpc sample_local = Some 8"
  by (simp add: detect_fork_def detect_loop.simps classify_fork_def next_scan_depth_def Let_def
      sample_local_def sample_hash_rpc_def)

lemma detect_fork_sound_witness:
  "\<exists>bad good. sample_local = bad @ good \<and> bad \<noteq> [] \<and> fst (last bad) = 8"
  using detect_fork_sound [OF detect_fork_sample] by blast

text \<open>C23. When every stored height can be looked up, the lazy search with growing windows (1, 4, 16,
  ... blocks) terminates with exactly the result of the full scan from the tip down.\<close>

theorem detect_fork_full_scan:
  assumes "list_all (\<lambda>(h, x). available rpc h) local"
  shows "detect_fork rpc local = full_scan rpc local"
  using assms detect_loop_result [of rpc Map.empty 1 local]
  by (auto simp: detect_fork_def agrees_def full_scan_def list_all_iff split_beta)

lemma detect_fork_full_scan_witness:
  "detect_fork sample_hash_rpc sample_local = full_scan sample_hash_rpc sample_local"
proof (rule detect_fork_full_scan)
  show "list_all (\<lambda>(h, x). available sample_hash_rpc h) sample_local"
    by (simp add: sample_local_def sample_hash_rpc_def available_def)
qed

end
