(* ===== verification/Schema.thy ===== *)
theory Schema
  imports Models Bytes
begin

text \<open>
  The relational state behind \<open>src/crates/db\<close>: the tables of \<open>src/migrations\<close> as lists of rows in
  insertion order, their CHECK, type and key constraints, and the statement forms the queries
  use: \<open>INSERT ... SELECT FROM UNNEST ... ON CONFLICT DO NOTHING\<close> over generic tables, with
  identity columns numbered from a sequence. A statement that violates a constraint fails as a
  whole (\<open>DbError::Sqlx\<close>) and leaves the tables unchanged.
\<close>

section \<open>Column types\<close>

text \<open>Lengths of \<open>VARCHAR(n)\<close> count characters; \<open>TEXT\<close> values must not contain the NUL byte;
  \<open>NUMERIC(p,0)\<close> holds integers of at most \<open>p\<close> digits.\<close>

definition char_count :: "string \<Rightarrow> nat" where
  "char_count s = length (filter (\<lambda>c. \<not> (128 \<le> char_code c \<and> char_code c < 192)) s)"

definition text_ok :: "string \<Rightarrow> bool" where
  "text_ok s = list_all (\<lambda>c. char_code c \<noteq> 0) s"

definition varchar_ok :: "nat \<Rightarrow> string \<Rightarrow> bool" where
  "varchar_ok n s = (text_ok s \<and> char_count s \<le> n)"

definition opt_ok :: "('a \<Rightarrow> bool) \<Rightarrow> 'a option \<Rightarrow> bool" where
  "opt_ok P x = (case x of None \<Rightarrow> True | Some y \<Rightarrow> P y)"

definition numeric_ok :: "nat \<Rightarrow> int \<Rightarrow> bool" where
  "numeric_ok p x = (abs x < 10 ^ p)"

text \<open>The CHECK \<open>~ '^0x[a-fA-F0-9]{40}$'\<close>.\<close>

definition address_format :: "string \<Rightarrow> bool" where
  "address_format s =
     (length s = 42 \<and> starts_with s ''0x'' \<and> list_all is_ascii_hexdigit (drop 2 s))"

section \<open>Row constraints\<close>

definition block_row_ok :: "block \<Rightarrow> bool" where
  "block_row_ok b = (0 \<le> blk_gas_used b \<and> opt_ok text_ok (blk_hash b) \<and>
     opt_ok text_ok (blk_parent_hash b))"

definition token_row_ok :: "token \<Rightarrow> bool" where
  "token_row_ok t = (varchar_ok 42 (tok_address t) \<and> varchar_ok 20 (tok_symbol t) \<and>
     varchar_ok 100 (tok_name t) \<and> 0 \<le> tok_decimals t \<and> tok_decimals t \<le> 18 \<and>
     address_format (tok_address t))"

definition transaction_row_ok :: "transaction \<Rightarrow> bool" where
  "transaction_row_ok t = (varchar_ok 66 (tx_hash t) \<and> varchar_ok 42 (tx_from_addr t) \<and>
     opt_ok (varchar_ok 42) (tx_to_addr t) \<and> numeric_ok 30 (tx_gas_price t) \<and>
     numeric_ok 38 (tx_value t) \<and> (tx_status t = 0 \<or> tx_status t = 1) \<and>
     0 \<le> tx_gas_used t \<and> opt_ok text_ok (tx_input_data t))"

definition pool_row_ok :: "pool \<Rightarrow> bool" where
  "pool_row_ok p = (varchar_ok 42 (pool_address p) \<and> varchar_ok 50 (pool_pair_name p) \<and>
     varchar_ok 42 (pool_token0_address p) \<and> varchar_ok 42 (pool_token1_address p) \<and>
     pool_fee_tier p \<in> {100, 500, 3000, 10000} \<and> address_format (pool_address p))"

definition swap_row_ok :: "swap_event \<Rightarrow> bool" where
  "swap_row_ok s = (varchar_ok 42 (sw_pool_address s) \<and> varchar_ok 66 (sw_tx_hash s) \<and>
     varchar_ok 42 (sw_sender s) \<and> varchar_ok 42 (sw_recipient s) \<and>
     list_all (numeric_ok 38) [sw_amount0 s, sw_amount1 s, sw_amount_in s, sw_amount_out s,
       sw_liquidity s] \<and> numeric_ok 60 (sw_sqrt_price_x96 s))"

definition liquidity_row_ok :: "liquidity_event \<Rightarrow> bool" where
  "liquidity_row_ok l = (varchar_ok 42 (le_pool_address l) \<and> varchar_ok 66 (le_tx_hash l) \<and>
     varchar_ok 42 (le_provider l) \<and>
     list_all (numeric_ok 38) [le_token0_amount l, le_token1_amount l, le_liquidity l] \<and>
     le_tick_lower l < le_tick_upper l)"

definition transfer_row_ok :: "token_transfer \<Rightarrow> bool" where
  "transfer_row_ok t = (varchar_ok 66 (tt_tx_hash t) \<and> varchar_ok 42 (tt_token_address t) \<and>
     varchar_ok 42 (tt_from_addr t) \<and> varchar_ok 42 (tt_to_addr t) \<and>
     numeric_ok 38 (tt_amount t) \<and> 0 \<le> tt_amount t)"

definition failed_row_ok :: "failed_transaction \<Rightarrow> bool" where
  "failed_row_ok f = (varchar_ok 66 (ft_tx_hash f) \<and> opt_ok text_ok (ft_revert_reason f) \<and>
     opt_ok (varchar_ok 100) (ft_failing_function f) \<and> 0 \<le> ft_gas_used f)"

definition trace_row_ok :: "trace_log \<Rightarrow> bool" where
  "trace_row_ok t = (varchar_ok 66 (tl_tx_hash t) \<and> 0 \<le> tl_call_depth t \<and>
     varchar_ok 20 (tl_call_type t) \<and> varchar_ok 42 (tl_from_addr t) \<and>
     opt_ok (varchar_ok 42) (tl_to_addr t) \<and> numeric_ok 38 (tl_value t) \<and>
     opt_ok text_ok (tl_input t) \<and> opt_ok text_ok (tl_output t) \<and> opt_ok text_ok (tl_error t))"

lemmas row_ok_defs = block_row_ok_def token_row_ok_def transaction_row_ok_def pool_row_ok_def
  swap_row_ok_def liquidity_row_ok_def transfer_row_ok_def failed_row_ok_def trace_row_ok_def

section \<open>Tables\<close>

record chain_db =
  db_blocks :: "block list"
  db_txs :: "transaction list"
  db_tokens :: "token list"
  db_pools :: "pool list"
  db_swaps :: "swap_event list"
  db_liqs :: "liquidity_event list"
  db_transfers :: "token_transfer list"
  db_failed :: "failed_transaction list"
  db_traces :: "trace_log list"
  db_checkpoints :: "int \<rightharpoonup> int \<times> timestamp"
  db_seq_swap :: int
  db_seq_liq :: int
  db_seq_transfer :: int
  db_seq_trace :: int

definition empty_db :: chain_db where
  "empty_db = \<lparr>db_blocks = [], db_txs = [], db_tokens = [], db_pools = [], db_swaps = [],
     db_liqs = [], db_transfers = [], db_failed = [], db_traces = [], db_checkpoints = Map.empty,
     db_seq_swap = 1, db_seq_liq = 1, db_seq_transfer = 1, db_seq_trace = 1\<rparr>"

section \<open>INSERT ... ON CONFLICT DO NOTHING\<close>

text \<open>The rows a statement really adds: those whose key is not yet present, the first of equal
  keys within the statement.\<close>

fun fresh_rows :: "('r \<Rightarrow> 'k) \<Rightarrow> 'k list \<Rightarrow> 'r list \<Rightarrow> 'r list" where
  "fresh_rows key present [] = []"
| "fresh_rows key present (r # rs) =
     (if key r \<in> set present then fresh_rows key present rs
      else r # fresh_rows key (key r # present) rs)"

definition insert_do_nothing ::
    "('r \<Rightarrow> 'k) \<Rightarrow> ('r \<Rightarrow> bool) \<Rightarrow> ('r \<Rightarrow> bool) \<Rightarrow> 'r list \<Rightarrow> 'r list \<Rightarrow> db_error + nat \<times> 'r list" where
  "insert_do_nothing key row_ok fk rows table =
     (let new = fresh_rows key (map key table) rows in
      if \<not> list_all row_ok rows then Inl (Sqlx ''constraint violation'')
      else if \<not> list_all fk new then Inl (Sqlx ''foreign key violation'')
      else Inr (length new, table @ new))"

fun number_rows :: "(int \<Rightarrow> 'r \<Rightarrow> 'r) \<Rightarrow> int \<Rightarrow> 'r list \<Rightarrow> 'r list" where
  "number_rows set_id s [] = []"
| "number_rows set_id s (r # rs) = set_id s r # number_rows set_id (s + 1) rs"

lemma fresh_rows_keys: "key ` set (fresh_rows key ks rs) = key ` set rs - set ks"
  by (induction key ks rs rule: fresh_rows.induct) auto

lemma fresh_rows_subset: "set (fresh_rows key ks rs) \<subseteq> set rs"
  by (induction key ks rs rule: fresh_rows.induct) auto

lemma fresh_rows_distinct: "distinct (map key (fresh_rows key ks rs))"
proof (induction key ks rs rule: fresh_rows.induct)
  case (2 key present r rs)
  then show ?case
    using fresh_rows_keys [of key "key r # present" rs] by auto
qed simp

lemma fresh_rows_known: "key ` set rs \<subseteq> set ks \<Longrightarrow> fresh_rows key ks rs = []"
  by (induction key ks rs rule: fresh_rows.induct) auto

lemma number_rows_length [simp]: "length (number_rows f s rs) = length rs"
  by (induction f s rs rule: number_rows.induct) auto

lemma number_rows_map:
  "(\<And>i r. g (f i r) = g r) \<Longrightarrow> map g (number_rows f s rs) = map g rs"
  by (induction f s rs rule: number_rows.induct) auto

lemma number_rows_set:
  "r \<in> set (number_rows f s rs) \<Longrightarrow> \<exists>i q. r = f i q \<and> q \<in> set rs \<and> s \<le> i \<and> i < s + int (length rs)"
  by (induction f s rs rule: number_rows.induct) fastforce+

lemma insert_do_nothing_Inr:
  "insert_do_nothing key ok fk rows table = Inr (n, t') \<longleftrightarrow>
     list_all ok rows \<and> list_all fk (fresh_rows key (map key table) rows) \<and>
     n = length (fresh_rows key (map key table) rows) \<and>
     t' = table @ fresh_rows key (map key table) rows"
  by (auto simp: insert_do_nothing_def Let_def)

lemma insert_do_nothing_keys:
  "insert_do_nothing key ok fk rows table = Inr (n, t') \<Longrightarrow>
   key ` set t' = key ` set table \<union> key ` set rows"
  using fresh_rows_keys [of key "map key table" rows]
  by (simp add: insert_do_nothing_Inr image_Un)

lemma insert_do_nothing_keys_mono:
  "insert_do_nothing key ok fk rows table = Inr (n, t') \<Longrightarrow> key ` set table \<subseteq> key ` set t'"
  using insert_do_nothing_keys by blast

lemma insert_do_nothing_distinct:
  "insert_do_nothing key ok fk rows table = Inr (n, t') \<Longrightarrow> distinct (map key table) \<Longrightarrow>
   distinct (map key t')"
  using fresh_rows_keys [of key "map key table" rows] fresh_rows_distinct [of key "map key table" rows]
  by (auto simp: insert_do_nothing_Inr)

lemma insert_do_nothing_known:
  "key ` set rows \<subseteq> key ` set table \<Longrightarrow>
   insert_do_nothing key ok fk rows table =
     (if list_all ok rows then Inr (0, table) else Inl (Sqlx ''constraint violation''))"
  by (auto simp: insert_do_nothing_def Let_def fresh_rows_known)

lemma insert_do_nothing_rows:
  "insert_do_nothing key ok fk rows table = Inr (n, t') \<Longrightarrow> r \<in> set t' \<Longrightarrow>
   r \<in> set table \<or> r \<in> set rows \<and> ok r \<and> fk r"
  using fresh_rows_subset [of key "map key table" rows]
  by (auto simp: insert_do_nothing_Inr list_all_iff)

section \<open>The contract of an idempotent batch insert\<close>

text \<open>
  What the indexer relies on when it processes a block again: a batch makes all its keys present,
  a batch whose keys are all present changes no row, and a batch accepted once is accepted again.
\<close>

locale idempotent_insert =
  fixes ins :: "'r list \<Rightarrow> 'd \<Rightarrow> db_error + nat \<times> 'd"
    and rows :: "'d \<Rightarrow> 'r list"
    and key :: "'r \<Rightarrow> 'k"
  assumes ins_keys: "ins rs d = Inr (n, d') \<Longrightarrow> key ` set (rows d') = key ` set (rows d) \<union> key ` set rs"
    and ins_known: "ins rs d = Inr (n, d') \<Longrightarrow> key ` set rs \<subseteq> key ` set (rows d) \<Longrightarrow>
      n = 0 \<and> rows d' = rows d"
    and ins_accepted: "ins rs d = Inr (n, d') \<Longrightarrow> key ` set rs \<subseteq> key ` set (rows d1) \<Longrightarrow>
      \<exists>m d2. ins rs d1 = Inr (m, d2)"
begin

lemma reinsert:
  assumes "ins rs d = Inr (n, d')"
  shows "\<exists>d''. ins rs d' = Inr (0, d'') \<and> rows d'' = rows d'"
proof -
  have sub: "key ` set rs \<subseteq> key ` set (rows d')"
    using ins_keys [OF assms] by auto
  with ins_accepted [OF assms] obtain m d2 where "ins rs d' = Inr (m, d2)" by blast
  with ins_known [OF this sub] show ?thesis by auto
qed

lemma keys_grow: "ins rs d = Inr (n, d') \<Longrightarrow> key ` set (rows d) \<subseteq> key ` set (rows d')"
  using ins_keys by blast

end

end
