(* ===== verification/Chain_Db.thy ===== *)
theory Chain_Db
  imports Schema
begin

text \<open>
  The indexer's statements of \<open>src/crates/db/src/queries.rs\<close> on the chain tables: the batch inserts,
  the checkpoint, the local block hashes and the reorg rollback, each as one function from the
  database to an error or a result and the new database. The current time of \<open>NOW()\<close> is an
  argument. Referential integrity is an invariant that every statement preserves.
\<close>

section \<open>Batch inserts\<close>

definition tx_known :: "'a chain_db_scheme \<Rightarrow> string \<Rightarrow> bool" where
  "tx_known d h = (h \<in> set (map tx_hash (db_txs d)))"

definition block_known :: "'a chain_db_scheme \<Rightarrow> int \<Rightarrow> bool" where
  "block_known d n = (n \<in> set (map blk_number (db_blocks d)))"

definition token_known :: "'a chain_db_scheme \<Rightarrow> string \<Rightarrow> bool" where
  "token_known d a = (a \<in> set (map tok_address (db_tokens d)))"

definition insert_blocks ::
    "block list \<Rightarrow> 'a chain_db_scheme \<Rightarrow> db_error + nat \<times> 'a chain_db_scheme" where
  "insert_blocks rs d =
     (if rs = [] then Inr (0, d)
      else bind_res (insert_do_nothing blk_number block_row_ok (\<lambda>_. True) rs (db_blocks d))
        (\<lambda>(n, t). Inr (n, d\<lparr>db_blocks := t\<rparr>)))"

definition insert_transactions ::
    "transaction list \<Rightarrow> 'a chain_db_scheme \<Rightarrow> db_error + nat \<times> 'a chain_db_scheme" where
  "insert_transactions rs d =
     (if rs = [] then Inr (0, d)
      else bind_res (insert_do_nothing tx_hash transaction_row_ok
             (\<lambda>t. block_known d (tx_block_number t)) rs (db_txs d))
        (\<lambda>(n, t). Inr (n, d\<lparr>db_txs := t\<rparr>)))"

definition insert_tokens ::
    "token list \<Rightarrow> 'a chain_db_scheme \<Rightarrow> db_error + nat \<times> 'a chain_db_scheme" where
  "insert_tokens rs d =
     (if rs = [] then Inr (0, d)
      else bind_res (insert_do_nothing tok_address token_row_ok (\<lambda>_. True) rs (db_tokens d))
        (\<lambda>(n, t). Inr (n, d\<lparr>db_tokens := t\<rparr>)))"

definition insert_pools ::
    "pool list \<Rightarrow> 'a chain_db_scheme \<Rightarrow> db_error + nat \<times> 'a chain_db_scheme" where
  "insert_pools rs d =
     (if rs = [] then Inr (0, d)
      else bind_res (insert_do_nothing pool_address pool_row_ok
             (\<lambda>p. token_known d (pool_token0_address p) \<and> token_known d (pool_token1_address p))
             rs (db_pools d))
        (\<lambda>(n, t). Inr (n, d\<lparr>db_pools := t\<rparr>)))"

definition swap_key :: "swap_event \<Rightarrow> string \<times> int" where
  "swap_key s = (sw_tx_hash s, sw_log_index s)"

definition liq_key :: "liquidity_event \<Rightarrow> string \<times> int" where
  "liq_key l = (le_tx_hash l, le_log_index l)"

definition transfer_key :: "token_transfer \<Rightarrow> string \<times> int" where
  "transfer_key t = (tt_tx_hash t, tt_log_index t)"

text \<open>Identity columns: the id bound by the code is not part of the statement; every proposed row
  draws the next number of the sequence, conflicting rows included.\<close>

definition insert_swap_events ::
    "swap_event list \<Rightarrow> 'a chain_db_scheme \<Rightarrow> db_error + nat \<times> 'a chain_db_scheme" where
  "insert_swap_events rs d =
     (if rs = [] then Inr (0, d)
      else bind_res (insert_do_nothing swap_key swap_row_ok (\<lambda>s. tx_known d (sw_tx_hash s))
             (number_rows (\<lambda>i s. s\<lparr>sw_event_id := i\<rparr>) (db_seq_swap d) rs) (db_swaps d))
        (\<lambda>(n, t). Inr (n, d\<lparr>db_swaps := t, db_seq_swap := db_seq_swap d + int (length rs)\<rparr>)))"

definition insert_liquidity_events ::
    "liquidity_event list \<Rightarrow> 'a chain_db_scheme \<Rightarrow> db_error + nat \<times> 'a chain_db_scheme" where
  "insert_liquidity_events rs d =
     (if rs = [] then Inr (0, d)
      else bind_res (insert_do_nothing liq_key liquidity_row_ok (\<lambda>l. tx_known d (le_tx_hash l))
             (number_rows (\<lambda>i l. l\<lparr>le_event_id := i\<rparr>) (db_seq_liq d) rs) (db_liqs d))
        (\<lambda>(n, t). Inr (n, d\<lparr>db_liqs := t, db_seq_liq := db_seq_liq d + int (length rs)\<rparr>)))"

definition insert_token_transfers ::
    "token_transfer list \<Rightarrow> 'a chain_db_scheme \<Rightarrow> db_error + nat \<times> 'a chain_db_scheme" where
  "insert_token_transfers rs d =
     (if rs = [] then Inr (0, d)
      else bind_res (insert_do_nothing transfer_key transfer_row_ok (\<lambda>t. tx_known d (tt_tx_hash t))
             (number_rows (\<lambda>i t. t\<lparr>tt_transfer_id := i\<rparr>) (db_seq_transfer d) rs) (db_transfers d))
        (\<lambda>(n, t). Inr (n, d\<lparr>db_transfers := t,
                           db_seq_transfer := db_seq_transfer d + int (length rs)\<rparr>)))"

definition insert_failed_transactions ::
    "failed_transaction list \<Rightarrow> 'a chain_db_scheme \<Rightarrow> db_error + nat \<times> 'a chain_db_scheme" where
  "insert_failed_transactions rs d =
     (if rs = [] then Inr (0, d)
      else bind_res (insert_do_nothing ft_tx_hash failed_row_ok (\<lambda>f. tx_known d (ft_tx_hash f))
             rs (db_failed d))
        (\<lambda>(n, t). Inr (n, d\<lparr>db_failed := t\<rparr>)))"

text \<open>\<open>insert_trace_logs\<close> has no conflict clause: every row is added, with a new id.\<close>

definition insert_trace_logs ::
    "trace_log list \<Rightarrow> 'a chain_db_scheme \<Rightarrow> db_error + nat \<times> 'a chain_db_scheme" where
  "insert_trace_logs rs d =
     (if rs = [] then Inr (0, d)
      else if \<not> list_all trace_row_ok rs then Inl (Sqlx ''constraint violation'')
      else if \<not> list_all (\<lambda>t. tx_known d (tl_tx_hash t)) rs
        then Inl (Sqlx ''foreign key violation'')
      else Inr (length rs,
             d\<lparr>db_traces := db_traces d @ number_rows (\<lambda>i t. t\<lparr>tl_trace_id := i\<rparr>) (db_seq_trace d) rs,
               db_seq_trace := db_seq_trace d + int (length rs)\<rparr>))"

lemmas insert_defs = insert_blocks_def insert_transactions_def insert_tokens_def insert_pools_def
  insert_swap_events_def insert_liquidity_events_def insert_token_transfers_def
  insert_failed_transactions_def insert_trace_logs_def

section \<open>Checkpoint\<close>

definition get_last_checkpoint :: "int \<Rightarrow> 'a chain_db_scheme \<Rightarrow> int option" where
  "get_last_checkpoint chain_id d = map_option fst (db_checkpoints d chain_id)"

definition update_checkpoint ::
    "timestamp \<Rightarrow> int \<Rightarrow> int \<Rightarrow> 'a chain_db_scheme \<Rightarrow> 'a chain_db_scheme" where
  "update_checkpoint now chain_id last_processed_block d =
     d\<lparr>db_checkpoints := (db_checkpoints d)(chain_id \<mapsto> (last_processed_block, now))\<rparr>"

section \<open>Local block hashes\<close>

definition recent_block_hashes :: "int \<Rightarrow> 'a chain_db_scheme \<Rightarrow> db_error + (int \<times> string) list" where
  "recent_block_hashes limit d =
     (if limit < 0 then Inl (Sqlx ''LIMIT must not be negative'')
      else Inr (take (nat limit)
        (map (\<lambda>b. (blk_number b, the (blk_hash b)))
          (rev (sort_key blk_number (filter (\<lambda>b. blk_hash b \<noteq> None) (db_blocks d)))))))"

text \<open>\<open>MAX\<close> over an empty table is one row holding NULL, which does not decode as \<open>i64\<close>.\<close>

definition get_latest_block_number :: "'a chain_db_scheme \<Rightarrow> db_error + int option" where
  "get_latest_block_number d =
     (if db_blocks d = [] then Inl (Sqlx ''unexpected null; try decoding as an Option'')
      else Inr (Some (Max (set (map blk_number (db_blocks d))))))"

definition get_block_by_number :: "int \<Rightarrow> 'a chain_db_scheme \<Rightarrow> db_error + block" where
  "get_block_by_number n d =
     (case find (\<lambda>b. blk_number b = n) (db_blocks d) of
        None \<Rightarrow> Inl (DbNotFound (''block '' @ int_to_dec n))
      | Some b \<Rightarrow> Inr b)"

section \<open>Rollback\<close>

definition gone_hashes :: "int \<Rightarrow> 'a chain_db_scheme \<Rightarrow> string list" where
  "gone_hashes from_block d = map tx_hash (filter (\<lambda>t. from_block \<le> tx_block_number t) (db_txs d))"

definition delete_swaps :: "int \<Rightarrow> 'a chain_db_scheme \<Rightarrow> 'a chain_db_scheme" where
  "delete_swaps from_block d =
     d\<lparr>db_swaps := filter (\<lambda>r. sw_tx_hash r \<notin> set (gone_hashes from_block d)) (db_swaps d)\<rparr>"

definition delete_liqs :: "int \<Rightarrow> 'a chain_db_scheme \<Rightarrow> 'a chain_db_scheme" where
  "delete_liqs from_block d =
     d\<lparr>db_liqs := filter (\<lambda>r. le_tx_hash r \<notin> set (gone_hashes from_block d)) (db_liqs d)\<rparr>"

definition delete_transfers :: "int \<Rightarrow> 'a chain_db_scheme \<Rightarrow> 'a chain_db_scheme" where
  "delete_transfers from_block d =
     d\<lparr>db_transfers := filter (\<lambda>r. tt_tx_hash r \<notin> set (gone_hashes from_block d)) (db_transfers d)\<rparr>"

definition delete_traces :: "int \<Rightarrow> 'a chain_db_scheme \<Rightarrow> 'a chain_db_scheme" where
  "delete_traces from_block d =
     d\<lparr>db_traces := filter (\<lambda>r. tl_tx_hash r \<notin> set (gone_hashes from_block d)) (db_traces d)\<rparr>"

definition delete_failed :: "int \<Rightarrow> 'a chain_db_scheme \<Rightarrow> 'a chain_db_scheme" where
  "delete_failed from_block d =
     d\<lparr>db_failed := filter (\<lambda>r. ft_tx_hash r \<notin> set (gone_hashes from_block d)) (db_failed d)\<rparr>"

text \<open>Deleting a row that another table still references is refused (no \<open>ON DELETE CASCADE\<close>).\<close>

definition tx_references :: "'a chain_db_scheme \<Rightarrow> string set" where
  "tx_references d = sw_tx_hash ` set (db_swaps d) \<union> le_tx_hash ` set (db_liqs d) \<union>
     tt_tx_hash ` set (db_transfers d) \<union> tl_tx_hash ` set (db_traces d) \<union>
     ft_tx_hash ` set (db_failed d)"

definition delete_txs :: "int \<Rightarrow> 'a chain_db_scheme \<Rightarrow> db_error + 'a chain_db_scheme" where
  "delete_txs from_block d =
     (if set (gone_hashes from_block d) \<inter> tx_references d = {}
      then Inr (d\<lparr>db_txs := filter (\<lambda>t. \<not> from_block \<le> tx_block_number t) (db_txs d)\<rparr>)
      else Inl (Sqlx ''foreign key violation''))"

definition delete_blocks ::
    "int \<Rightarrow> 'a chain_db_scheme \<Rightarrow> db_error + nat \<times> 'a chain_db_scheme" where
  "delete_blocks from_block d =
     (let gone = filter (\<lambda>b. from_block \<le> blk_number b) (db_blocks d) in
      if set (map blk_number gone) \<inter> set (map tx_block_number (db_txs d)) = {}
      then Inr (length gone,
             d\<lparr>db_blocks := filter (\<lambda>b. \<not> from_block \<le> blk_number b) (db_blocks d)\<rparr>)
      else Inl (Sqlx ''foreign key violation''))"

definition rewind_checkpoint ::
    "timestamp \<Rightarrow> int \<Rightarrow> 'a chain_db_scheme \<Rightarrow> 'a chain_db_scheme" where
  "rewind_checkpoint now resume d =
     (case db_checkpoints d 1 of
        None \<Rightarrow> d
      | Some _ \<Rightarrow> d\<lparr>db_checkpoints := (db_checkpoints d)(1 \<mapsto> (resume, now))\<rparr>)"

definition rollback_from_block ::
    "timestamp \<Rightarrow> int \<Rightarrow> 'a chain_db_scheme \<Rightarrow> db_error + nat \<times> 'a chain_db_scheme" where
  "rollback_from_block now from_block d =
     (let resume = max (from_block - 1) 0;
          d1 = delete_failed from_block (delete_traces from_block (delete_transfers from_block
                 (delete_liqs from_block (delete_swaps from_block d))))
      in bind_res (delete_txs from_block d1) (\<lambda>d2.
         bind_res (delete_blocks from_block d2) (\<lambda>(blocks, d3).
         Inr (blocks, rewind_checkpoint now resume d3))))"

lemmas delete_defs = delete_swaps_def delete_liqs_def delete_transfers_def delete_traces_def
  delete_failed_def

section \<open>Referential integrity\<close>

definition db_ok :: "'a chain_db_scheme \<Rightarrow> bool" where
  "db_ok d \<longleftrightarrow>
     distinct (map blk_number (db_blocks d)) \<and> distinct (map tx_hash (db_txs d)) \<and>
     distinct (map swap_key (db_swaps d)) \<and> distinct (map liq_key (db_liqs d)) \<and>
     distinct (map transfer_key (db_transfers d)) \<and> distinct (map ft_tx_hash (db_failed d)) \<and>
     tx_block_number ` set (db_txs d) \<subseteq> blk_number ` set (db_blocks d) \<and>
     tx_references d \<subseteq> tx_hash ` set (db_txs d)"

lemma db_ok_empty [simp]: "db_ok empty_db"
  by (simp add: db_ok_def empty_db_def tx_references_def)

lemma bind_res_split_Inr:
  "bind_res r (\<lambda>(n, t). Inr (f n t)) = Inr y \<longleftrightarrow> (\<exists>n t. r = Inr (n, t) \<and> y = f n t)"
  by (cases r) auto

lemma image_subset_known:
  assumes "insert_do_nothing key ok fk rows table = Inr (n, t')"
    and "\<And>r. r \<in> set table \<Longrightarrow> f r \<in> S" "\<And>r. fk r \<Longrightarrow> f r \<in> S"
  shows "f ` set t' \<subseteq> S"
proof (rule image_subsetI)
  fix r assume "r \<in> set t'"
  from insert_do_nothing_rows [OF assms(1) this] show "f r \<in> S"
    using assms(2,3) by auto
qed

lemmas db_ok_unfold = db_ok_def tx_references_def

lemma insert_blocks_ok:
  assumes "insert_blocks rs d = Inr (n, d')" "db_ok d"
  shows "db_ok d'"
proof (cases "rs = []")
  case False
  with assms obtain t where t:
      "insert_do_nothing blk_number block_row_ok (\<lambda>_. True) rs (db_blocks d) = Inr (n, t)"
      "d' = d\<lparr>db_blocks := t\<rparr>"
    by (auto simp: insert_blocks_def bind_res_split_Inr)
  have "tx_block_number ` set (db_txs d) \<subseteq> blk_number ` set t"
    by (rule order_trans [OF _ insert_do_nothing_keys_mono [OF t(1)]])
      (use assms(2) in \<open>simp add: db_ok_def\<close>)
  with t assms(2) show ?thesis
    using insert_do_nothing_distinct [OF t(1)] by (simp add: db_ok_unfold)
qed (use assms in \<open>simp add: insert_blocks_def\<close>)

lemma insert_transactions_ok:
  assumes "insert_transactions rs d = Inr (n, d')" "db_ok d"
  shows "db_ok d'"
proof (cases "rs = []")
  case False
  with assms obtain t where t:
      "insert_do_nothing tx_hash transaction_row_ok (\<lambda>t. block_known d (tx_block_number t)) rs
         (db_txs d) = Inr (n, t)"
      "d' = d\<lparr>db_txs := t\<rparr>"
    by (auto simp: insert_transactions_def bind_res_split_Inr)
  have "tx_block_number ` set t \<subseteq> blk_number ` set (db_blocks d)"
    by (rule image_subset_known [OF t(1)]) (use assms(2) in \<open>auto simp: db_ok_def block_known_def\<close>)
  moreover have "tx_references d \<subseteq> tx_hash ` set t"
    by (rule order_trans [OF _ insert_do_nothing_keys_mono [OF t(1)]])
      (use assms(2) in \<open>simp add: db_ok_def\<close>)
  ultimately show ?thesis
    using insert_do_nothing_distinct [OF t(1)] t(2) assms(2) by (simp add: db_ok_unfold)
qed (use assms in \<open>simp add: insert_transactions_def\<close>)

lemma insert_swap_events_ok:
  assumes "insert_swap_events rs d = Inr (n, d')" "db_ok d"
  shows "db_ok d'"
proof (cases "rs = []")
  case False
  with assms obtain rs' t s where t:
      "insert_do_nothing swap_key swap_row_ok (\<lambda>s. tx_known d (sw_tx_hash s)) rs' (db_swaps d) = Inr (n, t)"
      "d' = d\<lparr>db_swaps := t, db_seq_swap := s\<rparr>"
    by (auto simp: insert_swap_events_def bind_res_split_Inr)
  have "sw_tx_hash ` set t \<subseteq> tx_hash ` set (db_txs d)"
    by (rule image_subset_known [OF t(1)]) (use assms(2) in \<open>auto simp: db_ok_unfold tx_known_def\<close>)
  with t assms(2) show ?thesis
    using insert_do_nothing_distinct [OF t(1)] by (auto simp: db_ok_unfold)
qed (use assms in \<open>simp add: insert_swap_events_def\<close>)

lemma insert_liquidity_events_ok:
  assumes "insert_liquidity_events rs d = Inr (n, d')" "db_ok d"
  shows "db_ok d'"
proof (cases "rs = []")
  case False
  with assms obtain rs' t s where t:
      "insert_do_nothing liq_key liquidity_row_ok (\<lambda>s. tx_known d (le_tx_hash s)) rs' (db_liqs d) = Inr (n, t)"
      "d' = d\<lparr>db_liqs := t, db_seq_liq := s\<rparr>"
    by (auto simp: insert_liquidity_events_def bind_res_split_Inr)
  have "le_tx_hash ` set t \<subseteq> tx_hash ` set (db_txs d)"
    by (rule image_subset_known [OF t(1)]) (use assms(2) in \<open>auto simp: db_ok_unfold tx_known_def\<close>)
  with t assms(2) show ?thesis
    using insert_do_nothing_distinct [OF t(1)] by (auto simp: db_ok_unfold)
qed (use assms in \<open>simp add: insert_liquidity_events_def\<close>)

lemma insert_token_transfers_ok:
  assumes "insert_token_transfers rs d = Inr (n, d')" "db_ok d"
  shows "db_ok d'"
proof (cases "rs = []")
  case False
  with assms obtain rs' t s where t:
      "insert_do_nothing transfer_key transfer_row_ok (\<lambda>s. tx_known d (tt_tx_hash s)) rs'
         (db_transfers d) = Inr (n, t)"
      "d' = d\<lparr>db_transfers := t, db_seq_transfer := s\<rparr>"
    by (auto simp: insert_token_transfers_def bind_res_split_Inr)
  have "tt_tx_hash ` set t \<subseteq> tx_hash ` set (db_txs d)"
    by (rule image_subset_known [OF t(1)]) (use assms(2) in \<open>auto simp: db_ok_unfold tx_known_def\<close>)
  with t assms(2) show ?thesis
    using insert_do_nothing_distinct [OF t(1)] by (auto simp: db_ok_unfold)
qed (use assms in \<open>simp add: insert_token_transfers_def\<close>)

lemma insert_failed_transactions_ok:
  assumes "insert_failed_transactions rs d = Inr (n, d')" "db_ok d"
  shows "db_ok d'"
proof (cases "rs = []")
  case False
  with assms obtain t where t:
      "insert_do_nothing ft_tx_hash failed_row_ok (\<lambda>s. tx_known d (ft_tx_hash s)) rs (db_failed d) = Inr (n, t)"
      "d' = d\<lparr>db_failed := t\<rparr>"
    by (auto simp: insert_failed_transactions_def bind_res_split_Inr)
  have "ft_tx_hash ` set t \<subseteq> tx_hash ` set (db_txs d)"
    by (rule image_subset_known [OF t(1)]) (use assms(2) in \<open>auto simp: db_ok_unfold tx_known_def\<close>)
  with t assms(2) show ?thesis
    using insert_do_nothing_distinct [OF t(1)] by (auto simp: db_ok_unfold)
qed (use assms in \<open>simp add: insert_failed_transactions_def\<close>)

lemma number_rows_image:
  "(\<And>i r. g (f i r) = g r) \<Longrightarrow> g ` set (number_rows f s rs) = g ` set rs"
  using number_rows_map [of g f s rs] by (metis list.set_map)

lemma insert_trace_logs_Inr:
  assumes "insert_trace_logs rs d = Inr (n, d')"
  shows "n = length rs \<and> list_all trace_row_ok rs \<and> list_all (\<lambda>t. tx_known d (tl_tx_hash t)) rs \<and>
    d' = d\<lparr>db_traces := db_traces d @ number_rows (\<lambda>i t. t\<lparr>tl_trace_id := i\<rparr>) (db_seq_trace d) rs,
           db_seq_trace := db_seq_trace d + int (length rs)\<rparr>"
  using assms by (cases "rs = []") (auto simp: insert_trace_logs_def split: if_splits)

lemma insert_trace_logs_ok:
  assumes i: "insert_trace_logs rs d = Inr (n, d')" and "db_ok d"
  shows "db_ok d'"
proof -
  let ?new = "number_rows (\<lambda>i t. t\<lparr>tl_trace_id := i\<rparr>) (db_seq_trace d) rs"
  have "tl_tx_hash ` set ?new = tl_tx_hash ` set rs"
    by (rule number_rows_image) simp
  moreover have "tl_tx_hash ` set rs \<subseteq> tx_hash ` set (db_txs d)"
    using insert_trace_logs_Inr [OF i] by (auto simp: list_all_iff tx_known_def)
  ultimately have "tl_tx_hash ` set (db_traces d @ ?new) \<subseteq> tx_hash ` set (db_txs d)"
    using assms(2) by (simp only: set_append image_Un db_ok_unfold Un_subset_iff simp_thms)
  with insert_trace_logs_Inr [OF i] assms(2) show ?thesis
    by (simp add: db_ok_unfold)
qed

lemma update_checkpoint_ok [simp]: "db_ok (update_checkpoint now c n d) = db_ok d"
  by (simp add: update_checkpoint_def db_ok_unfold)

lemmas inserts_ok = insert_blocks_ok insert_transactions_ok insert_swap_events_ok
  insert_liquidity_events_ok insert_token_transfers_ok insert_failed_transactions_ok
  insert_trace_logs_ok

section \<open>The inserts satisfy the contract of an idempotent insert\<close>

lemma insert_do_nothing_accepted:
  "insert_do_nothing key ok fk rows table = Inr y \<Longrightarrow> key ` set rows \<subseteq> key ` set table' \<Longrightarrow>
   insert_do_nothing key ok fk' rows table' = Inr (0, table')"
  by (cases y) (simp add: insert_do_nothing_known insert_do_nothing_Inr)

lemma idempotent_insertI:
  fixes ins :: "'r list \<Rightarrow> 'd \<Rightarrow> db_error + nat \<times> 'd"
  assumes ins: "\<And>rs d. ins rs d =
      (if rs = [] then Inr (0, d)
       else bind_res (insert_do_nothing key ok (fk d) (num d rs) (tab d)) (\<lambda>(n, t). Inr (n, put t rs d)))"
    and tab: "\<And>t rs d. tab (put t rs d) = t"
    and num: "\<And>rs d. key ` set (num d rs) = key ` set rs"
    and ok: "\<And>rs d. list_all ok (num d rs) = list_all ok rs"
  shows "idempotent_insert ins tab key"
proof
  fix rs d n d'
  assume i: "ins rs d = Inr (n, d')"
  show "key ` set (tab d') = key ` set (tab d) \<union> key ` set rs"
  proof (cases "rs = []")
    case False
    with i obtain t where "insert_do_nothing key ok (fk d) (num d rs) (tab d) = Inr (n, t)"
        "d' = put t rs d"
      by (auto simp: ins bind_res_split_Inr)
    then show ?thesis
      using insert_do_nothing_keys [of key ok "fk d" "num d rs" "tab d" n t] by (simp add: tab num)
  qed (use i in \<open>simp add: ins\<close>)
  show "n = 0 \<and> tab d' = tab d" if "key ` set rs \<subseteq> key ` set (tab d)"
    using i that by (cases "rs = []")
      (auto simp: ins bind_res_split_Inr tab num insert_do_nothing_known split: if_splits)
  show "\<exists>m d2. ins rs d1 = Inr (m, d2)" if "key ` set rs \<subseteq> key ` set (tab d1)" for d1
    using i that by (cases "rs = []")
      (auto simp: ins bind_res_split_Inr num ok insert_do_nothing_known insert_do_nothing_Inr)
qed

lemma number_rows_all:
  "(\<And>i r. P (f i r) = P r) \<Longrightarrow> list_all P (number_rows f s rs) = list_all P rs"
  by (induction f s rs rule: number_rows.induct) auto

interpretation blocks_insert: idempotent_insert insert_blocks db_blocks blk_number
  by (rule idempotent_insertI [where num = "\<lambda>_ rs. rs", OF insert_blocks_def]) simp_all

interpretation txs_insert: idempotent_insert insert_transactions db_txs tx_hash
  by (rule idempotent_insertI [where num = "\<lambda>_ rs. rs", OF insert_transactions_def]) simp_all

interpretation tokens_insert: idempotent_insert insert_tokens db_tokens tok_address
  by (rule idempotent_insertI [where num = "\<lambda>_ rs. rs", OF insert_tokens_def]) simp_all

interpretation pools_insert: idempotent_insert insert_pools db_pools pool_address
  by (rule idempotent_insertI [where num = "\<lambda>_ rs. rs", OF insert_pools_def]) simp_all

interpretation failed_insert: idempotent_insert insert_failed_transactions db_failed ft_tx_hash
  by (rule idempotent_insertI [where num = "\<lambda>_ rs. rs", OF insert_failed_transactions_def]) simp_all

interpretation swaps_insert: idempotent_insert insert_swap_events db_swaps swap_key
  by (rule idempotent_insertI [OF insert_swap_events_def])
    (simp_all add: number_rows_image swap_key_def number_rows_all swap_row_ok_def)

interpretation liqs_insert: idempotent_insert insert_liquidity_events db_liqs liq_key
  by (rule idempotent_insertI [OF insert_liquidity_events_def])
    (simp_all add: number_rows_image liq_key_def number_rows_all liquidity_row_ok_def)

interpretation transfers_insert: idempotent_insert insert_token_transfers db_transfers transfer_key
  by (rule idempotent_insertI [OF insert_token_transfers_def])
    (simp_all add: number_rows_image transfer_key_def number_rows_all transfer_row_ok_def)

section \<open>The rollback removes exactly the blocks from the fork on\<close>

definition kept_hashes :: "int \<Rightarrow> 'a chain_db_scheme \<Rightarrow> string set" where
  "kept_hashes f d = tx_hash ` set (filter (\<lambda>t. tx_block_number t < f) (db_txs d))"

lemma gone_kept:
  assumes "distinct (map tx_hash (db_txs d))" "h \<in> tx_hash ` set (db_txs d)"
  shows "h \<notin> set (gone_hashes f d) \<longleftrightarrow> h \<in> kept_hashes f d"
  using assms by (fastforce simp: gone_hashes_def kept_hashes_def distinct_map inj_on_def)

lemma filter_gone_kept:
  assumes "db_ok d" "g ` set rs \<subseteq> tx_hash ` set (db_txs d)"
  shows "filter (\<lambda>r. g r \<notin> set (gone_hashes f d)) rs = filter (\<lambda>r. g r \<in> kept_hashes f d) rs"
  using assms by (intro filter_cong refl gone_kept) (auto simp: db_ok_def)

lemma gone_hashes_unaffected:
  "gone_hashes f (d\<lparr>db_swaps := a\<rparr>) = gone_hashes f d"
  "gone_hashes f (d\<lparr>db_liqs := b\<rparr>) = gone_hashes f d"
  "gone_hashes f (d\<lparr>db_transfers := c\<rparr>) = gone_hashes f d"
  "gone_hashes f (d\<lparr>db_traces := e\<rparr>) = gone_hashes f d"
  "gone_hashes f (d\<lparr>db_failed := g\<rparr>) = gone_hashes f d"
  by (simp_all add: gone_hashes_def)

definition rolled_back :: "timestamp \<Rightarrow> int \<Rightarrow> 'a chain_db_scheme \<Rightarrow> 'a chain_db_scheme" where
  "rolled_back now f d =
     d\<lparr>db_blocks := filter (\<lambda>b. blk_number b < f) (db_blocks d),
       db_txs := filter (\<lambda>t. tx_block_number t < f) (db_txs d),
       db_swaps := filter (\<lambda>r. sw_tx_hash r \<in> kept_hashes f d) (db_swaps d),
       db_liqs := filter (\<lambda>r. le_tx_hash r \<in> kept_hashes f d) (db_liqs d),
       db_transfers := filter (\<lambda>r. tt_tx_hash r \<in> kept_hashes f d) (db_transfers d),
       db_traces := filter (\<lambda>r. tl_tx_hash r \<in> kept_hashes f d) (db_traces d),
       db_failed := filter (\<lambda>r. ft_tx_hash r \<in> kept_hashes f d) (db_failed d),
       db_checkpoints := (if db_checkpoints d 1 = None then db_checkpoints d
                          else (db_checkpoints d)(1 \<mapsto> (max (f - 1) 0, now)))\<rparr>"

lemma rollback_value:
  assumes "db_ok d"
  shows "rollback_from_block now f d =
    Inr (length (filter (\<lambda>b. f \<le> blk_number b) (db_blocks d)), rolled_back now f d)"
proof -
  note fk = filter_gone_kept [OF assms, of _ _ f]
  from assms have refs:
      "sw_tx_hash ` set (db_swaps d) \<subseteq> tx_hash ` set (db_txs d)"
      "le_tx_hash ` set (db_liqs d) \<subseteq> tx_hash ` set (db_txs d)"
      "tt_tx_hash ` set (db_transfers d) \<subseteq> tx_hash ` set (db_txs d)"
      "tl_tx_hash ` set (db_traces d) \<subseteq> tx_hash ` set (db_txs d)"
      "ft_tx_hash ` set (db_failed d) \<subseteq> tx_hash ` set (db_txs d)"
    by (simp_all add: db_ok_unfold)
  define d1 where "d1 = delete_failed f (delete_traces f (delete_transfers f
      (delete_liqs f (delete_swaps f d))))"
  have d1: "d1 = d\<lparr>db_swaps := filter (\<lambda>r. sw_tx_hash r \<in> kept_hashes f d) (db_swaps d),
       db_liqs := filter (\<lambda>r. le_tx_hash r \<in> kept_hashes f d) (db_liqs d),
       db_transfers := filter (\<lambda>r. tt_tx_hash r \<in> kept_hashes f d) (db_transfers d),
       db_traces := filter (\<lambda>r. tl_tx_hash r \<in> kept_hashes f d) (db_traces d),
       db_failed := filter (\<lambda>r. ft_tx_hash r \<in> kept_hashes f d) (db_failed d)\<rparr>"
    by (simp add: d1_def delete_defs gone_hashes_unaffected fk [OF refs(1)] fk [OF refs(2)]
        fk [OF refs(3)] fk [OF refs(4)] fk [OF refs(5)])
  have "set (gone_hashes f d) \<inter> kept_hashes f d = {}"
    using assms gone_kept [of d _ f] by (auto simp: db_ok_def kept_hashes_def)
  then have "delete_txs f d1 = Inr (d1\<lparr>db_txs := filter (\<lambda>t. tx_block_number t < f) (db_txs d)\<rparr>)"
    by (auto simp: delete_txs_def d1 tx_references_def gone_hashes_def not_le)
  then show ?thesis
    by (auto simp: rollback_from_block_def Let_def d1_def [symmetric] delete_blocks_def
        rewind_checkpoint_def d1 rolled_back_def not_le split: option.splits)
qed

lemma rolled_back_ok:
  assumes "db_ok d"
  shows "db_ok (rolled_back now f d)"
proof -
  have "tx_block_number ` set (db_txs d) \<subseteq> blk_number ` set (db_blocks d)"
    using assms by (simp add: db_ok_def)
  then have "tx_block_number ` set (filter (\<lambda>t. tx_block_number t < f) (db_txs d)) \<subseteq>
      blk_number ` set (filter (\<lambda>b. blk_number b < f) (db_blocks d))"
    by auto
  with assms show ?thesis
    by (auto simp: db_ok_unfold rolled_back_def kept_hashes_def distinct_map_filter)
qed

section \<open>Properties\<close>

text \<open>C15. Rolling back from a fork height succeeds on every consistent database (no foreign key stops
  it), removes exactly the blocks from that height on, their transactions and every row of the five
  dependent tables that belongs to a removed transaction, keeps all else, reports the number of
  removed blocks, rewinds an existing checkpoint to just before the fork (0 at least), and leaves
  a consistent database.\<close>

theorem rollback_exact:
  assumes "db_ok d"
  shows "rollback_from_block now f d =
      Inr (length (filter (\<lambda>b. f \<le> blk_number b) (db_blocks d)), rolled_back now f d) \<and>
    db_ok (rolled_back now f d) \<and>
    get_last_checkpoint 1 (rolled_back now f d) =
      map_option (\<lambda>_. max (f - 1) 0) (get_last_checkpoint 1 d)"
  using rollback_value [OF assms] rolled_back_ok [OF assms]
  by (auto simp: get_last_checkpoint_def rolled_back_def)

definition sample_db :: chain_db where
  "sample_db = empty_db\<lparr>
     db_blocks := [\<lparr>blk_number = 5, blk_timestamp = 0, blk_gas_used = 1, blk_hash = Some ''h5'', blk_parent_hash = None\<rparr>,
                   \<lparr>blk_number = 6, blk_timestamp = 1, blk_gas_used = 1, blk_hash = Some ''h6'', blk_parent_hash = None\<rparr>],
     db_txs := [\<lparr>tx_hash = ''t6'', tx_from_addr = ''a'', tx_to_addr = None, tx_block_number = 6, tx_gas_used = 1,
                 tx_gas_price = 1, tx_value = 0, tx_status = 0, tx_input_data = None\<rparr>],
     db_failed := [\<lparr>ft_tx_hash = ''t6'', ft_error_category = Unknown, ft_revert_reason = None,
                    ft_failing_function = None, ft_gas_used = 1, ft_timestamp = 1\<rparr>],
     db_checkpoints := [1 \<mapsto> (6, 0)]\<rparr>"

lemma sample_db_ok: "db_ok sample_db"
  by (simp add: sample_db_def empty_db_def db_ok_unfold)

lemma rollback_exact_witness:
  "rollback_from_block 9 6 sample_db = Inr (1, rolled_back 9 6 sample_db) \<and>
   get_last_checkpoint 1 (rolled_back 9 6 sample_db) = Some 5 \<and>
   length (db_blocks (rolled_back 9 6 sample_db)) = 1 \<and> db_failed (rolled_back 9 6 sample_db) = []"
  using rollback_exact [OF sample_db_ok, of 9 6]
  by (simp add: sample_db_def empty_db_def rolled_back_def kept_hashes_def get_last_checkpoint_def)

lemma rolled_back_fields [simp]:
  "db_blocks (rolled_back now f d) = filter (\<lambda>b. blk_number b < f) (db_blocks d)"
  "db_txs (rolled_back now f d) = filter (\<lambda>t. tx_block_number t < f) (db_txs d)"
  "db_tokens (rolled_back now f d) = db_tokens d"
  "db_pools (rolled_back now f d) = db_pools d"
  "db_swaps (rolled_back now f d) = filter (\<lambda>r. sw_tx_hash r \<in> kept_hashes f d) (db_swaps d)"
  "db_liqs (rolled_back now f d) = filter (\<lambda>r. le_tx_hash r \<in> kept_hashes f d) (db_liqs d)"
  "db_transfers (rolled_back now f d) = filter (\<lambda>r. tt_tx_hash r \<in> kept_hashes f d) (db_transfers d)"
  "db_traces (rolled_back now f d) = filter (\<lambda>r. tl_tx_hash r \<in> kept_hashes f d) (db_traces d)"
  "db_failed (rolled_back now f d) = filter (\<lambda>r. ft_tx_hash r \<in> kept_hashes f d) (db_failed d)"
  "db_checkpoints (rolled_back now f d) = (if db_checkpoints d 1 = None then db_checkpoints d
     else (db_checkpoints d)(1 \<mapsto> (max (f - 1) 0, now)))"
  "db_seq_swap (rolled_back now f d) = db_seq_swap d"
  "db_seq_liq (rolled_back now f d) = db_seq_liq d"
  "db_seq_transfer (rolled_back now f d) = db_seq_transfer d"
  "db_seq_trace (rolled_back now f d) = db_seq_trace d"
  "chain_db.more (rolled_back now f d) = chain_db.more d"
  by (simp_all add: rolled_back_def)

lemma kept_hashes_rolled_back [simp]: "kept_hashes f (rolled_back now f d) = kept_hashes f d"
  by (simp add: kept_hashes_def conj_absorb)

lemma rolled_back_twice: "rolled_back later f (rolled_back now f d) = rolled_back later f d"
  by (rule chain_db.equality) (auto simp: fun_upd_def)

text \<open>A rollback is idempotent: repeating it with the same height succeeds, removes no block, and
  leaves exactly the database that the later rollback alone would have left.\<close>

theorem rollback_idempotent:
  assumes "db_ok d" "rollback_from_block now f d = Inr (n, d')"
  shows "\<exists>d''. rollback_from_block later f d' = Inr (0, d'') \<and>
               rollback_from_block later f d = Inr (n, d'')"
proof -
  from assms have d': "d' = rolled_back now f d" and n: "n = length (filter (\<lambda>b. f \<le> blk_number b) (db_blocks d))"
    using rollback_value [OF assms(1), of now f] by simp_all
  have "filter (\<lambda>b. f \<le> blk_number b) (db_blocks d') = []"
    by (simp add: d' rolled_back_def filter_empty_conv not_le)
  with rollback_value [OF rolled_back_ok [OF assms(1)], of later f now f]
    rollback_value [OF assms(1), of later f] show ?thesis
    by (simp add: d' n rolled_back_twice)
qed

lemma rollback_idempotent_witness:
  "\<exists>d' d''. rollback_from_block 9 6 sample_db = Inr (1, d') \<and>
     rollback_from_block 10 6 d' = Inr (0, d'')"
proof -
  have "rollback_from_block 9 6 sample_db = Inr (1, rolled_back 9 6 sample_db)"
    using rollback_value [OF sample_db_ok, of 9 6] by (simp add: sample_db_def empty_db_def)
  with rollback_idempotent [OF sample_db_ok this, of 10] show ?thesis by blast
qed

end
