(* ===== verification/Process.thy ===== *)
theory Process
  imports Classifier Trace Events Chain_Db
begin

text \<open>
  \<open>process_block\<close> and \<open>process_failed_txs\<close> of \<open>src/crates/indexer/src/worker.rs\<close>: what the node
  returns for one block is turned into model rows and written with one statement per table. The
  node's answers are the argument \<open>rv\<close> (after the retries of \<open>rpc_with_retry\<close>); hashing, printing
  and hex decoding by external crates are \<open>worker_ext\<close>.
\<close>

section \<open>What the node returns\<close>

record rpc_header =
  hd_hash :: b256
  hd_parent_hash :: b256
  hd_timestamp :: u64
  hd_gas_used :: u64

record rpc_tx =
  rtx_from :: address
  rtx_to :: "address option"
  rtx_value :: int
  rtx_effective_gas_price :: "u128 option"
  rtx_input :: "u8 list"

record rpc_log =
  lg_address :: address
  lg_topics :: "b256 list"
  lg_data :: "u8 list"
  lg_log_index :: "u64 option"

record rpc_receipt =
  rc_transaction_hash :: b256
  rc_gas_used :: u64
  rc_status :: bool
  rc_logs :: "rpc_log list"

record rpc_block =
  rb_header :: rpc_header
  rb_txs :: "rpc_tx list"

text \<open>A call tracer answer carries the result of \<open>serde_json::to_value\<close> on its frame.\<close>

datatype geth_trace = CallTracer "string + json" | OtherTracer

record rpc_view =
  rv_head :: "string + u64"
  rv_header_hash :: "u64 \<Rightarrow> string + b256 option"
  rv_block :: "u64 \<Rightarrow> string + rpc_block option"
  rv_receipts :: "u64 \<Rightarrow> string + rpc_receipt list option"
  rv_trace :: "b256 \<Rightarrow> string + geth_trace"

record worker_ext =
  wx_event :: event_ext
  wx_hash_hex :: "b256 \<Rightarrow> string"
  wx_hash_parse :: "string \<Rightarrow> b256 option"
  wx_bytes_display :: "u8 list \<Rightarrow> string"
  wx_hex_decode :: "string \<Rightarrow> u8 list option"
  wx_from_timestamp :: "int \<Rightarrow> timestamp option"

abbreviation wx_lowercase :: "worker_ext \<Rightarrow> string \<Rightarrow> string" where
  "wx_lowercase X \<equiv> ev_lowercase (wx_event X)"

abbreviation wx_address :: "worker_ext \<Rightarrow> address \<Rightarrow> string" where
  "wx_address X \<equiv> address_to_string (wx_event X)"

text \<open>\<open>BigDecimal::from_str(s).unwrap_or_else(|_| BigDecimal::from(0))\<close>\<close>

definition bd_or_zero :: "worker_ext \<Rightarrow> string \<Rightarrow> int" where
  "bd_or_zero X s = (case big_decimal_from_str (wx_event X) s of Inl _ \<Rightarrow> 0 | Inr n \<Rightarrow> n)"

definition as_i32 :: "u64 \<Rightarrow> int" where
  "as_i32 x = sint (ucast x :: 32 word)"

section \<open>Conversions to models\<close>

definition to_swap_model :: "decoded_swap \<Rightarrow> swap_event" where
  "to_swap_model s =
     \<lparr>sw_pool_address = ds_pool_address s, sw_tx_hash = ds_tx_hash s, sw_sender = ds_sender s,
      sw_recipient = ds_recipient s, sw_amount0 = ds_amount0 s, sw_amount1 = ds_amount1 s,
      sw_amount_in = ds_amount_in s, sw_amount_out = ds_amount_out s,
      sw_sqrt_price_x96 = ds_sqrt_price_x96 s, sw_liquidity = ds_liquidity s, sw_tick = ds_tick s,
      sw_log_index = ds_log_index s, sw_timestamp = ds_timestamp s, sw_event_id = 0\<rparr>"

definition to_liquidity_model :: "decoded_liquidity \<Rightarrow> liquidity_event" where
  "to_liquidity_model l =
     \<lparr>le_event_type = (if dl_event_type l = ''BURN'' then Burn else Mint),
      le_pool_address = dl_pool_address l, le_tx_hash = dl_tx_hash l, le_provider = dl_provider l,
      le_token0_amount = dl_token0_amount l, le_token1_amount = dl_token1_amount l,
      le_tick_lower = dl_tick_lower l, le_tick_upper = dl_tick_upper l,
      le_liquidity = dl_liquidity l, le_log_index = dl_log_index l, le_timestamp = dl_timestamp l,
      le_event_id = 0\<rparr>"

definition to_transfer_model :: "decoded_transfer \<Rightarrow> token_transfer" where
  "to_transfer_model t =
     \<lparr>tt_tx_hash = dt_tx_hash t, tt_token_address = dt_token_address t,
      tt_from_addr = dt_from_addr t, tt_to_addr = dt_to_addr t, tt_amount = dt_amount t,
      tt_log_index = dt_log_index t, tt_timestamp = dt_timestamp t, tt_transfer_id = 0\<rparr>"

section \<open>Failed transactions\<close>

text \<open>The \<open>match\<close> on the classifier's string in \<open>process_failed_txs\<close>.\<close>

definition worker_category :: "string \<Rightarrow> error_category" where
  "worker_category s =
     (if s = ''INSUFFICIENT_BALANCE'' then InsufficientBalance
      else if s = ''SLIPPAGE_EXCEEDED'' then SlippageExceeded
      else if s = ''DEADLINE_EXPIRED'' then DeadlineExpired
      else if s = ''UNAUTHORIZED'' then Unauthorized
      else if s = ''TRANSFER_FAILED'' then TransferFailed
      else Unknown)"

definition trace_row :: "worker_ext \<Rightarrow> string \<Rightarrow> flat_frame \<Rightarrow> trace_log" where
  "trace_row X tx frame =
     \<lparr>tl_tx_hash = tx, tl_call_depth = ff_depth frame, tl_call_type = ff_call_type frame,
      tl_from_addr = ff_from frame, tl_to_addr = ff_to frame,
      tl_value = bd_or_zero X (ff_value frame), tl_gas_used = ff_gas_used frame,
      tl_input = ff_input frame, tl_output = ff_output frame, tl_error = ff_error frame,
      tl_trace_id = 0\<rparr>"

text \<open>The revert reason of the root frame: \<open>None\<close> without output or on any decoding error.\<close>

definition root_reason :: "worker_ext \<Rightarrow> flat_frame \<Rightarrow> (unit, string option) outcome" where
  "root_reason X root =
     (case Option.bind (ff_output root) (\<lambda>o'. wx_hex_decode X (strip_0x o')) of
        None \<Rightarrow> Ret None
      | Some bytes \<Rightarrow>
          (case decode_revert_reason bytes of
             Ret reason \<Rightarrow> Ret (Some reason)
           | Err _ \<Rightarrow> Ret None
           | Panic \<Rightarrow> Panic))"

definition is_char_boundary :: "string \<Rightarrow> nat \<Rightarrow> bool" where
  "is_char_boundary s i = (i = length s \<or>
     i < length s \<and> \<not> (128 \<le> char_code (s ! i) \<and> char_code (s ! i) < 192))"

text \<open>The selector: \<open>&hex[..8]\<close> panics inside a character.\<close>

definition failing_selector :: "flat_frame list \<Rightarrow> (unit, string option) outcome" where
  "failing_selector frames =
     (case frames of
        [] \<Rightarrow> Ret None
      | f # _ \<Rightarrow>
          (case ff_input f of
             None \<Rightarrow> Ret None
           | Some input \<Rightarrow>
               let hex = strip_0x input in
               if 8 \<le> length hex
               then if is_char_boundary hex 8 then Ret (Some (''0x'' @ take 8 hex)) else Panic
               else Ret None))"

definition process_failed_tx ::
    "worker_ext \<Rightarrow> rpc_view \<Rightarrow> timestamp \<Rightarrow> string
     \<Rightarrow> (unit, trace_log list \<times> failed_transaction list) outcome" where
  "process_failed_tx X rv timestamp tx_hash_str =
     (case wx_hash_parse X tx_hash_str of
        None \<Rightarrow> Ret ([], [])
      | Some h \<Rightarrow>
     (case rv_trace rv h of
        Inr (CallTracer (Inr trace_json)) \<Rightarrow>
     (case parse_trace (wx_lowercase X) tx_hash_str trace_json of
        Inl _ \<Rightarrow> Ret ([], [])
      | Inr flattened \<Rightarrow>
          let frames = fl_frames flattened;
              trace_logs = map (trace_row X tx_hash_str) frames
          in (case (case frames of
                      root # _ \<Rightarrow>
                        (case root_reason X root of
                           Ret reason \<Rightarrow>
                             Ret (reason, case reason of
                                            Some r \<Rightarrow> classify_error (wx_lowercase X) r
                                          | None \<Rightarrow> ''UNKNOWN'')
                         | Err u \<Rightarrow> Err u
                         | Panic \<Rightarrow> Panic)
                    | [] \<Rightarrow> Ret (None, ''UNKNOWN'')) of
                Ret (revert_reason, error_category) \<Rightarrow>
                  (case failing_selector frames of
                     Ret failing_function \<Rightarrow>
                       Ret (trace_logs,
                         [\<lparr>ft_tx_hash = tx_hash_str,
                           ft_error_category = worker_category error_category,
                           ft_revert_reason = revert_reason,
                           ft_failing_function = failing_function,
                           ft_gas_used = (case frames of f # _ \<Rightarrow> ff_gas_used f | [] \<Rightarrow> 0),
                           ft_timestamp = timestamp\<rparr>])
                   | Err u \<Rightarrow> Err u
                   | Panic \<Rightarrow> Panic)
              | Err u \<Rightarrow> Err u
              | Panic \<Rightarrow> Panic))
      | _ \<Rightarrow> Ret ([], [])))"

fun process_failed_txs ::
    "worker_ext \<Rightarrow> rpc_view \<Rightarrow> timestamp \<Rightarrow> string list
     \<Rightarrow> (unit, trace_log list \<times> failed_transaction list) outcome" where
  "process_failed_txs X rv timestamp [] = Ret ([], [])"
| "process_failed_txs X rv timestamp (h # hs) =
     (case process_failed_tx X rv timestamp h of
        Ret (traces, failed) \<Rightarrow>
          (case process_failed_txs X rv timestamp hs of
             Ret (traces', failed') \<Rightarrow> Ret (traces @ traces', failed @ failed')
           | Err u \<Rightarrow> Err u
           | Panic \<Rightarrow> Panic)
      | Err u \<Rightarrow> Err u
      | Panic \<Rightarrow> Panic)"

section \<open>One block\<close>

text \<open>The statements of a block task in the order it issues them; \<open>Abort\<close> is an error return or a
  panic of the task at that point.\<close>

datatype action =
    InsBlocks "block list"
  | InsTxs "transaction list"
  | InsSwaps "swap_event list"
  | InsLiqs "liquidity_event list"
  | InsTransfers "token_transfer list"
  | InsTraces "trace_log list"
  | InsFailed "failed_transaction list"
  | Abort string

definition block_model :: "worker_ext \<Rightarrow> u64 \<Rightarrow> timestamp \<Rightarrow> rpc_header \<Rightarrow> block" where
  "block_model X block_number ts h =
     \<lparr>blk_number = as_i64 block_number, blk_timestamp = ts, blk_gas_used = as_i64 (hd_gas_used h),
      blk_hash = Some (wx_hash_hex X (hd_hash h)),
      blk_parent_hash = Some (wx_hash_hex X (hd_parent_hash h))\<rparr>"

definition tx_model :: "worker_ext \<Rightarrow> u64 \<Rightarrow> rpc_receipt \<Rightarrow> rpc_tx \<Rightarrow> transaction" where
  "tx_model X block_number receipt tx =
     \<lparr>tx_hash = wx_hash_hex X (rc_transaction_hash receipt),
      tx_from_addr = wx_lowercase X (wx_address X (rtx_from tx)),
      tx_to_addr = map_option (\<lambda>a. wx_lowercase X (wx_address X a)) (rtx_to tx),
      tx_block_number = as_i64 block_number,
      tx_gas_used = as_i64 (rc_gas_used receipt),
      tx_gas_price = bd_or_zero X (nat_to_dec (unat
        (case rtx_effective_gas_price tx of Some p \<Rightarrow> p | None \<Rightarrow> 0))),
      tx_value = bd_or_zero X (bigint_to_string (wx_event X) (rtx_value tx)),
      tx_status = (if rc_status receipt then 1 else 0),
      tx_input_data = (if rtx_input tx = [] then None
                       else Some (wx_bytes_display X (rtx_input tx)))\<rparr>"

text \<open>Receipts are matched to the block's transactions by position.\<close>

fun tx_models :: "worker_ext \<Rightarrow> u64 \<Rightarrow> rpc_receipt list \<Rightarrow> rpc_tx list \<Rightarrow> transaction list" where
  "tx_models X n (r # rs) (t # ts) = tx_model X n r t # tx_models X n rs ts"
| "tx_models X n _ _ = []"

definition decode_receipt_log ::
    "worker_ext \<Rightarrow> timestamp \<Rightarrow> rpc_receipt \<Rightarrow> rpc_log \<Rightarrow> decoded_event option" where
  "decode_receipt_log X ts receipt log =
     (if lg_topics log = [] then None
      else case decode_log (wx_event X) (lg_topics log) (lg_data log)
                  (wx_lowercase X (wx_address X (lg_address log)))
                  (wx_hash_hex X (rc_transaction_hash receipt))
                  (as_i32 (case lg_log_index log of Some i \<Rightarrow> i | None \<Rightarrow> 0)) ts of
             Inr ev \<Rightarrow> Some ev
           | Inl (UnknownTopic _) \<Rightarrow> None
           | Inl _ \<Rightarrow> None)"

definition block_events :: "worker_ext \<Rightarrow> timestamp \<Rightarrow> rpc_receipt list \<Rightarrow> decoded_event list" where
  "block_events X ts receipts =
     concat (map (\<lambda>r. List.map_filter (decode_receipt_log X ts r) (rc_logs r)) receipts)"

definition swap_models :: "decoded_event list \<Rightarrow> swap_event list" where
  "swap_models evs = List.map_filter
     (\<lambda>e. case e of DecodedSwap s \<Rightarrow> Some (to_swap_model s) | _ \<Rightarrow> None) evs"

definition liquidity_models :: "decoded_event list \<Rightarrow> liquidity_event list" where
  "liquidity_models evs = List.map_filter
     (\<lambda>e. case e of DecodedLiquidity l \<Rightarrow> Some (to_liquidity_model l) | _ \<Rightarrow> None) evs"

definition transfer_models :: "decoded_event list \<Rightarrow> token_transfer list" where
  "transfer_models evs = List.map_filter
     (\<lambda>e. case e of DecodedTransfer t \<Rightarrow> Some (to_transfer_model t) | _ \<Rightarrow> None) evs"

definition unless_empty :: "('r list \<Rightarrow> action) \<Rightarrow> 'r list \<Rightarrow> action list" where
  "unless_empty a rs = (if rs = [] then [] else [a rs])"

definition failed_hashes :: "worker_ext \<Rightarrow> rpc_receipt list \<Rightarrow> string list" where
  "failed_hashes X receipts =
     map (\<lambda>r. wx_hash_hex X (rc_transaction_hash r)) (filter (\<lambda>r. \<not> rc_status r) receipts)"

definition failed_actions ::
    "worker_ext \<Rightarrow> rpc_view \<Rightarrow> timestamp \<Rightarrow> rpc_receipt list \<Rightarrow> action list" where
  "failed_actions X rv ts receipts =
     (let hashes = failed_hashes X receipts in
      if hashes = [] then []
      else case process_failed_txs X rv ts hashes of
             Ret (traces, failed) \<Rightarrow> unless_empty InsTraces traces @ unless_empty InsFailed failed
           | _ \<Rightarrow> [Abort ''panic while decoding a failed transaction''])"

definition process_block :: "worker_ext \<Rightarrow> rpc_view \<Rightarrow> u64 \<Rightarrow> action list" where
  "process_block X rv block_number =
     (case rv_block rv block_number of
        Inl e \<Rightarrow> [Abort e]
      | Inr None \<Rightarrow> [Abort (''block '' @ nat_to_dec (unat block_number) @ '' not found'')]
      | Inr (Some block) \<Rightarrow>
     (case rv_receipts rv block_number of
        Inl e \<Rightarrow> [Abort e]
      | Inr receipts_opt \<Rightarrow>
          let receipts = (case receipts_opt of Some r \<Rightarrow> r | None \<Rightarrow> []);
              ts = (case wx_from_timestamp X (as_i64 (hd_timestamp (rb_header block))) of
                      Some t \<Rightarrow> t | None \<Rightarrow> 0);
              transactions = tx_models X block_number receipts (rb_txs block);
              events = block_events X ts receipts
          in [InsBlocks [block_model X block_number ts (rb_header block)]] @
             unless_empty InsTxs transactions @
             unless_empty InsSwaps (swap_models events) @
             unless_empty InsLiqs (liquidity_models events) @
             unless_empty InsTransfers (transfer_models events) @
             failed_actions X rv ts receipts))"

section \<open>Running the statements\<close>

fun exec_action :: "action \<Rightarrow> 'a chain_db_scheme \<Rightarrow> string + 'a chain_db_scheme" where
  "exec_action (InsBlocks rs) d = map_sum (\<lambda>_. ''db'') snd (insert_blocks rs d)"
| "exec_action (InsTxs rs) d = map_sum (\<lambda>_. ''db'') snd (insert_transactions rs d)"
| "exec_action (InsSwaps rs) d = map_sum (\<lambda>_. ''db'') snd (insert_swap_events rs d)"
| "exec_action (InsLiqs rs) d = map_sum (\<lambda>_. ''db'') snd (insert_liquidity_events rs d)"
| "exec_action (InsTransfers rs) d = map_sum (\<lambda>_. ''db'') snd (insert_token_transfers rs d)"
| "exec_action (InsTraces rs) d = map_sum (\<lambda>_. ''db'') snd (insert_trace_logs rs d)"
| "exec_action (InsFailed rs) d = map_sum (\<lambda>_. ''db'') snd (insert_failed_transactions rs d)"
| "exec_action (Abort e) d = Inl e"

text \<open>Running a whole task alone: every finished statement is committed, an error stops the task
  and leaves what was committed before.\<close>

fun run_actions :: "action list \<Rightarrow> 'a chain_db_scheme \<Rightarrow> (string + unit) \<times> 'a chain_db_scheme" where
  "run_actions [] d = (Inr (), d)"
| "run_actions (a # as) d =
     (case exec_action a d of Inl e \<Rightarrow> (Inl e, d) | Inr d' \<Rightarrow> run_actions as d')"

end
