(* ===== verification/Block_Laws.thy ===== *)
theory Block_Laws
  imports Process
begin

text \<open>
  Laws of \<open>process_block\<close>: which statements a block issues, that they are accepted exactly when every
  row fits its columns, what a second run of the same block changes, and what is stored for a
  failed transaction.
\<close>

section \<open>Reprocessing a block\<close>

text \<open>A statement whose keys are all present (and whose rows were accepted).\<close>

fun settled :: "action \<Rightarrow> 'a chain_db_scheme \<Rightarrow> bool" where
  "settled (InsBlocks rs) d = (list_all block_row_ok rs \<and>
     blk_number ` set rs \<subseteq> blk_number ` set (db_blocks d))"
| "settled (InsTxs rs) d = (list_all transaction_row_ok rs \<and>
     tx_hash ` set rs \<subseteq> tx_hash ` set (db_txs d))"
| "settled (InsSwaps rs) d = (list_all swap_row_ok rs \<and>
     swap_key ` set rs \<subseteq> swap_key ` set (db_swaps d))"
| "settled (InsLiqs rs) d = (list_all liquidity_row_ok rs \<and>
     liq_key ` set rs \<subseteq> liq_key ` set (db_liqs d))"
| "settled (InsTransfers rs) d = (list_all transfer_row_ok rs \<and>
     transfer_key ` set rs \<subseteq> transfer_key ` set (db_transfers d))"
| "settled (InsTraces rs) d = (list_all trace_row_ok rs \<and>
     tl_tx_hash ` set rs \<subseteq> tx_hash ` set (db_txs d))"
| "settled (InsFailed rs) d = (list_all failed_row_ok rs \<and>
     ft_tx_hash ` set rs \<subseteq> ft_tx_hash ` set (db_failed d))"
| "settled (Abort e) d = False"

lemma rows_accepted:
  "insert_blocks bs d = Inr (n, d') \<Longrightarrow> list_all block_row_ok bs"
  "insert_transactions ts d = Inr (n, d') \<Longrightarrow> list_all transaction_row_ok ts"
  "insert_swap_events ss d = Inr (n, d') \<Longrightarrow> list_all swap_row_ok ss"
  "insert_liquidity_events ls d = Inr (n, d') \<Longrightarrow> list_all liquidity_row_ok ls"
  "insert_token_transfers tts d = Inr (n, d') \<Longrightarrow> list_all transfer_row_ok tts"
  "insert_failed_transactions fs d = Inr (n, d') \<Longrightarrow> list_all failed_row_ok fs"
  by (auto simp: insert_defs bind_res_split_Inr insert_do_nothing_Inr number_rows_all row_ok_defs
      split: if_splits)

lemma map_sum_Inr_iff: "map_sum f snd r = Inr d' \<longleftrightarrow> (\<exists>n. r = Inr (n, d'))"
  by (cases r) auto

lemma exec_settled: "exec_action a d = Inr d' \<Longrightarrow> settled a d'"
proof (cases a)
  case (InsTraces rs)
  assume "exec_action a d = Inr d'"
  with InsTraces obtain n where i: "insert_trace_logs rs d = Inr (n, d')"
    by (auto simp: map_sum_Inr_iff)
  from insert_trace_logs_Inr [OF i] show ?thesis
    by (auto simp: InsTraces list_all_iff tx_known_def)
qed (auto simp: map_sum_Inr_iff blocks_insert.ins_keys txs_insert.ins_keys swaps_insert.ins_keys
    liqs_insert.ins_keys transfers_insert.ins_keys failed_insert.ins_keys dest: rows_accepted)

text \<open>Each statement writes one table (and its sequence).\<close>

lemma frame_refl:
  "\<exists>t s. d = d\<lparr>db_swaps := t, db_seq_swap := s\<rparr>"
  "\<exists>t s. d = d\<lparr>db_liqs := t, db_seq_liq := s\<rparr>"
  "\<exists>t s. d = d\<lparr>db_transfers := t, db_seq_transfer := s\<rparr>"
  by (rule exI [of _ "db_swaps d"], rule exI [of _ "db_seq_swap d"], simp)
    (rule exI [of _ "db_liqs d"], rule exI [of _ "db_seq_liq d"], simp,
     rule exI [of _ "db_transfers d"], rule exI [of _ "db_seq_transfer d"], simp)

lemma insert_frames:
  "insert_blocks bs d = Inr (n, d') \<Longrightarrow> \<exists>t. d' = d\<lparr>db_blocks := t\<rparr>"
  "insert_transactions ts d = Inr (n, d') \<Longrightarrow> \<exists>t. d' = d\<lparr>db_txs := t\<rparr>"
  "insert_swap_events ss d = Inr (n, d') \<Longrightarrow> \<exists>t s. d' = d\<lparr>db_swaps := t, db_seq_swap := s\<rparr>"
  "insert_liquidity_events ls d = Inr (n, d') \<Longrightarrow> \<exists>t s. d' = d\<lparr>db_liqs := t, db_seq_liq := s\<rparr>"
  "insert_token_transfers tts d = Inr (n, d') \<Longrightarrow>
     \<exists>t s. d' = d\<lparr>db_transfers := t, db_seq_transfer := s\<rparr>"
  "insert_failed_transactions fs d = Inr (n, d') \<Longrightarrow> \<exists>t. d' = d\<lparr>db_failed := t\<rparr>"
  "insert_trace_logs tls d = Inr (n, d') \<Longrightarrow> \<exists>t s. d' = d\<lparr>db_traces := t, db_seq_trace := s\<rparr>"
proof -
  show "insert_blocks bs d = Inr (n, d') \<Longrightarrow> \<exists>t. d' = d\<lparr>db_blocks := t\<rparr>"
    by (cases "bs = []") (auto simp: insert_defs bind_res_split_Inr intro: exI [of _ "db_blocks d"])
  show "insert_transactions ts d = Inr (n, d') \<Longrightarrow> \<exists>t. d' = d\<lparr>db_txs := t\<rparr>"
    by (cases "ts = []") (auto simp: insert_defs bind_res_split_Inr intro: exI [of _ "db_txs d"])
  show "insert_swap_events ss d = Inr (n, d') \<Longrightarrow> \<exists>t s. d' = d\<lparr>db_swaps := t, db_seq_swap := s\<rparr>"
    by (cases "ss = []"; clarsimp simp: insert_defs bind_res_split_Inr; (rule frame_refl | blast))
  show "insert_liquidity_events ls d = Inr (n, d') \<Longrightarrow> \<exists>t s. d' = d\<lparr>db_liqs := t, db_seq_liq := s\<rparr>"
    by (cases "ls = []"; clarsimp simp: insert_defs bind_res_split_Inr; (rule frame_refl | blast))
  show "insert_token_transfers tts d = Inr (n, d') \<Longrightarrow>
     \<exists>t s. d' = d\<lparr>db_transfers := t, db_seq_transfer := s\<rparr>"
    by (cases "tts = []"; clarsimp simp: insert_defs bind_res_split_Inr; (rule frame_refl | blast))
  show "insert_failed_transactions fs d = Inr (n, d') \<Longrightarrow> \<exists>t. d' = d\<lparr>db_failed := t\<rparr>"
    by (cases "fs = []") (auto simp: insert_defs bind_res_split_Inr intro: exI [of _ "db_failed d"])
  show "insert_trace_logs tls d = Inr (n, d') \<Longrightarrow> \<exists>t s. d' = d\<lparr>db_traces := t, db_seq_trace := s\<rparr>"
    using insert_trace_logs_Inr by blast
qed

definition keys_grow :: "'a chain_db_scheme \<Rightarrow> 'a chain_db_scheme \<Rightarrow> bool" where
  "keys_grow d d' \<longleftrightarrow>
     blk_number ` set (db_blocks d) \<subseteq> blk_number ` set (db_blocks d') \<and>
     tx_hash ` set (db_txs d) \<subseteq> tx_hash ` set (db_txs d') \<and>
     swap_key ` set (db_swaps d) \<subseteq> swap_key ` set (db_swaps d') \<and>
     liq_key ` set (db_liqs d) \<subseteq> liq_key ` set (db_liqs d') \<and>
     transfer_key ` set (db_transfers d) \<subseteq> transfer_key ` set (db_transfers d') \<and>
     ft_tx_hash ` set (db_failed d) \<subseteq> ft_tx_hash ` set (db_failed d')"

lemma keys_grow_refl: "keys_grow d d"
  by (simp add: keys_grow_def)

lemma keys_grow_trans: "keys_grow d d' \<Longrightarrow> keys_grow d' d'' \<Longrightarrow> keys_grow d d''"
  unfolding keys_grow_def by (elim conjE, intro conjI; erule (1) order_trans)

lemma exec_keys_grow:
  assumes "exec_action a d = Inr d'"
  shows "keys_grow d d'"
proof (cases a)
  case (InsBlocks rs)
  with assms obtain n where i: "insert_blocks rs d = Inr (n, d')" by (auto simp: map_sum_Inr_iff)
  show ?thesis
    using blocks_insert.keys_grow [OF i] insert_frames(1) [OF i] by (auto simp: keys_grow_def)
next
  case (InsTxs rs)
  with assms obtain n where i: "insert_transactions rs d = Inr (n, d')" by (auto simp: map_sum_Inr_iff)
  show ?thesis
    using txs_insert.keys_grow [OF i] insert_frames(2) [OF i] by (auto simp: keys_grow_def)
next
  case (InsSwaps rs)
  with assms obtain n where i: "insert_swap_events rs d = Inr (n, d')" by (auto simp: map_sum_Inr_iff)
  show ?thesis
    using swaps_insert.keys_grow [OF i] insert_frames(3) [OF i] by (auto simp: keys_grow_def)
next
  case (InsLiqs rs)
  with assms obtain n where i: "insert_liquidity_events rs d = Inr (n, d')" by (auto simp: map_sum_Inr_iff)
  show ?thesis
    using liqs_insert.keys_grow [OF i] insert_frames(4) [OF i] by (auto simp: keys_grow_def)
next
  case (InsTransfers rs)
  with assms obtain n where i: "insert_token_transfers rs d = Inr (n, d')" by (auto simp: map_sum_Inr_iff)
  show ?thesis
    using transfers_insert.keys_grow [OF i] insert_frames(5) [OF i] by (auto simp: keys_grow_def)
next
  case (InsFailed rs)
  with assms obtain n where i: "insert_failed_transactions rs d = Inr (n, d')" by (auto simp: map_sum_Inr_iff)
  show ?thesis
    using failed_insert.keys_grow [OF i] insert_frames(6) [OF i] by (auto simp: keys_grow_def)
next
  case (InsTraces rs)
  with assms obtain n where i: "insert_trace_logs rs d = Inr (n, d')" by (auto simp: map_sum_Inr_iff)
  show ?thesis
    using insert_frames(7) [OF i] by (auto simp: keys_grow_def)
next
  case (Abort e)
  with assms show ?thesis by simp
qed

lemma settled_mono: "settled a d \<Longrightarrow> keys_grow d d' \<Longrightarrow> settled a d'"
  by (cases a; simp add: keys_grow_def; meson order_trans)

text \<open>All tables but the traces (and the sequences) agree.\<close>

definition quiet :: "'a chain_db_scheme \<Rightarrow> 'a chain_db_scheme \<Rightarrow> bool" where
  "quiet d d' \<longleftrightarrow>
     db_blocks d' = db_blocks d \<and> db_txs d' = db_txs d \<and> db_tokens d' = db_tokens d \<and>
     db_pools d' = db_pools d \<and> db_swaps d' = db_swaps d \<and> db_liqs d' = db_liqs d \<and>
     db_transfers d' = db_transfers d \<and> db_failed d' = db_failed d \<and>
     db_checkpoints d' = db_checkpoints d"

definition blank_id :: "trace_log \<Rightarrow> trace_log" where
  "blank_id t = t\<lparr>tl_trace_id := 0\<rparr>"

fun trace_batch :: "action \<Rightarrow> trace_log list" where
  "trace_batch (InsTraces rs) = rs"
| "trace_batch _ = []"

lemma settled_quiet: "quiet d d' \<Longrightarrow> settled a d' = settled a d"
  by (cases a) (simp_all add: quiet_def)

lemma quiet_trans: "quiet d d' \<Longrightarrow> quiet d' d'' \<Longrightarrow> quiet d d''"
  by (simp add: quiet_def)

lemma key_image_number:
  "swap_key ` set (number_rows (\<lambda>i s. s\<lparr>sw_event_id := i\<rparr>) k ss) = swap_key ` set ss"
  "liq_key ` set (number_rows (\<lambda>i s. s\<lparr>le_event_id := i\<rparr>) k ls) = liq_key ` set ls"
  "transfer_key ` set (number_rows (\<lambda>i s. s\<lparr>tt_transfer_id := i\<rparr>) k ts) = transfer_key ` set ts"
  by (rule number_rows_image; simp add: swap_key_def liq_key_def transfer_key_def)+

lemma rows_ok_number:
  "list_all swap_row_ok (number_rows (\<lambda>i s. s\<lparr>sw_event_id := i\<rparr>) k ss) = list_all swap_row_ok ss"
  "list_all liquidity_row_ok (number_rows (\<lambda>i s. s\<lparr>le_event_id := i\<rparr>) k ls) = list_all liquidity_row_ok ls"
  "list_all transfer_row_ok (number_rows (\<lambda>i s. s\<lparr>tt_transfer_id := i\<rparr>) k ts) = list_all transfer_row_ok ts"
  by (rule number_rows_all; simp add: row_ok_defs)+

lemma exec_of_settled:
  assumes "settled a d"
  shows "\<exists>d'. exec_action a d = Inr d' \<and> quiet d d' \<and>
    map blank_id (db_traces d') = map blank_id (db_traces d) @ map blank_id (trace_batch a)"
proof (cases a)
  case (InsTraces rs)
  have "map blank_id (number_rows (\<lambda>i t. t\<lparr>tl_trace_id := i\<rparr>) k rs) = map blank_id rs" for k
    by (rule number_rows_map) (simp add: blank_id_def)
  with assms InsTraces show ?thesis
    by (auto simp: insert_trace_logs_def quiet_def list_all_iff tx_known_def)
next
  case (InsSwaps rs)
  with assms show ?thesis
    by (auto simp: insert_swap_events_def quiet_def insert_do_nothing_known key_image_number
        rows_ok_number simp del: image_subset_iff)
next
  case (InsLiqs rs)
  with assms show ?thesis
    by (auto simp: insert_liquidity_events_def quiet_def insert_do_nothing_known key_image_number
        rows_ok_number simp del: image_subset_iff)
next
  case (InsTransfers rs)
  with assms show ?thesis
    by (auto simp: insert_token_transfers_def quiet_def insert_do_nothing_known key_image_number
        rows_ok_number simp del: image_subset_iff)
qed (use assms in \<open>auto simp: insert_blocks_def insert_transactions_def
    insert_failed_transactions_def quiet_def insert_do_nothing_known simp del: image_subset_iff\<close>)

lemma run_settles:
  "run_actions as d = (Inr (), d') \<Longrightarrow> list_all (\<lambda>a. settled a d') as \<and> keys_grow d d'"
proof (induction as d rule: run_actions.induct)
  case (2 a as d)
  then obtain d1 where d1: "exec_action a d = Inr d1" "run_actions as d1 = (Inr (), d')"
    by (auto split: sum.splits)
  with 2 have ih: "list_all (\<lambda>a. settled a d') as" "keys_grow d1 d'" by auto
  with exec_settled [OF d1(1)] exec_keys_grow [OF d1(1)] show ?case
    by (auto intro: settled_mono keys_grow_trans)
qed (simp add: keys_grow_refl)

lemma run_of_settled:
  "list_all (\<lambda>a. settled a d) as \<Longrightarrow>
   \<exists>d'. run_actions as d = (Inr (), d') \<and> quiet d d' \<and>
     map blank_id (db_traces d') =
       map blank_id (db_traces d) @ concat (map (\<lambda>a. map blank_id (trace_batch a)) as)"
proof (induction as arbitrary: d)
  case (Cons a as)
  then obtain d1 where d1: "exec_action a d = Inr d1" "quiet d d1"
      "map blank_id (db_traces d1) = map blank_id (db_traces d) @ map blank_id (trace_batch a)"
    using exec_of_settled [of a d] by auto
  have "list_all (\<lambda>a. settled a d1) as"
    using Cons.prems settled_quiet [OF d1(2)] by simp
  from Cons.IH [OF this] d1 show ?case
    by (auto intro: quiet_trans)
qed (simp add: quiet_def)

section \<open>A block whose rows are acceptable is stored\<close>

fun action_rows_ok :: "action \<Rightarrow> bool" where
  "action_rows_ok (InsBlocks rs) = list_all block_row_ok rs"
| "action_rows_ok (InsTxs rs) = list_all transaction_row_ok rs"
| "action_rows_ok (InsSwaps rs) = list_all swap_row_ok rs"
| "action_rows_ok (InsLiqs rs) = list_all liquidity_row_ok rs"
| "action_rows_ok (InsTransfers rs) = list_all transfer_row_ok rs"
| "action_rows_ok (InsTraces rs) = list_all trace_row_ok rs"
| "action_rows_ok (InsFailed rs) = list_all failed_row_ok rs"
| "action_rows_ok (Abort e) = False"

fun action_txs :: "action \<Rightarrow> string set" where
  "action_txs (InsSwaps rs) = sw_tx_hash ` set rs"
| "action_txs (InsLiqs rs) = le_tx_hash ` set rs"
| "action_txs (InsTransfers rs) = tt_tx_hash ` set rs"
| "action_txs (InsTraces rs) = tl_tx_hash ` set rs"
| "action_txs (InsFailed rs) = ft_tx_hash ` set rs"
| "action_txs _ = {}"

fun action_blocks :: "action \<Rightarrow> int set" where
  "action_blocks (InsTxs rs) = tx_block_number ` set rs"
| "action_blocks _ = {}"

lemma settled_rows_ok: "settled a d \<Longrightarrow> action_rows_ok a"
  by (cases a) auto

lemma insert_do_nothing_fk:
  assumes "list_all ok rows" "\<And>r. r \<in> set rows \<Longrightarrow> fk r"
  shows "\<exists>n t. insert_do_nothing key ok fk rows table = Inr (n, t)"
  using assms fresh_rows_subset [of key "map key table" rows]
  by (auto simp: insert_do_nothing_Inr list_all_iff)

lemma number_rows_pred:
  "(\<And>i r. P (f i r) = P r) \<Longrightarrow> (\<And>r. r \<in> set rs \<Longrightarrow> P r) \<Longrightarrow> r \<in> set (number_rows f s rs) \<Longrightarrow> P r"
  using number_rows_set [of r f s rs] by auto

lemma exec_fk_ok:
  assumes "action_rows_ok a" "action_txs a \<subseteq> tx_hash ` set (db_txs d)"
    "action_blocks a \<subseteq> blk_number ` set (db_blocks d)"
  shows "\<exists>d'. exec_action a d = Inr d'"
proof (cases a)
  case (InsBlocks rs)
  with assms insert_do_nothing_fk [of block_row_ok rs "\<lambda>_. True" blk_number "db_blocks d"]
  show ?thesis by (auto simp: insert_blocks_def)
next
  case (InsTxs rs)
  with assms have "\<And>r. r \<in> set rs \<Longrightarrow> block_known d (tx_block_number r)"
    by (auto simp: block_known_def)
  with InsTxs assms insert_do_nothing_fk [of transaction_row_ok rs
      "\<lambda>t. block_known d (tx_block_number t)" tx_hash "db_txs d"]
  show ?thesis by (auto simp: insert_transactions_def)
next
  case (InsSwaps rs)
  with assms have k: "\<And>r. r \<in> set rs \<Longrightarrow> tx_known d (sw_tx_hash r)"
    by (auto simp: tx_known_def)
  have "r \<in> set (number_rows (\<lambda>i s. s\<lparr>sw_event_id := i\<rparr>) q rs) \<Longrightarrow> tx_known d (sw_tx_hash r)" for r q
    by (rule number_rows_pred [where P = "\<lambda>r. tx_known d (sw_tx_hash r)"]) (use k in auto)
  with InsSwaps assms insert_do_nothing_fk [of swap_row_ok "number_rows (\<lambda>i s. s\<lparr>sw_event_id := i\<rparr>) (db_seq_swap d) rs"
      "\<lambda>r. tx_known d (sw_tx_hash r)" swap_key "db_swaps d"] show ?thesis
    by (auto simp: insert_swap_events_def rows_ok_number)
next
  case (InsLiqs rs)
  with assms have k: "\<And>r. r \<in> set rs \<Longrightarrow> tx_known d (le_tx_hash r)"
    by (auto simp: tx_known_def)
  have "r \<in> set (number_rows (\<lambda>i s. s\<lparr>le_event_id := i\<rparr>) q rs) \<Longrightarrow> tx_known d (le_tx_hash r)" for r q
    by (rule number_rows_pred [where P = "\<lambda>r. tx_known d (le_tx_hash r)"]) (use k in auto)
  with InsLiqs assms insert_do_nothing_fk [of liquidity_row_ok "number_rows (\<lambda>i s. s\<lparr>le_event_id := i\<rparr>) (db_seq_liq d) rs"
      "\<lambda>r. tx_known d (le_tx_hash r)" liq_key "db_liqs d"] show ?thesis
    by (auto simp: insert_liquidity_events_def rows_ok_number)
next
  case (InsTransfers rs)
  with assms have k: "\<And>r. r \<in> set rs \<Longrightarrow> tx_known d (tt_tx_hash r)"
    by (auto simp: tx_known_def)
  have "r \<in> set (number_rows (\<lambda>i s. s\<lparr>tt_transfer_id := i\<rparr>) q rs) \<Longrightarrow> tx_known d (tt_tx_hash r)" for r q
    by (rule number_rows_pred [where P = "\<lambda>r. tx_known d (tt_tx_hash r)"]) (use k in auto)
  with InsTransfers assms insert_do_nothing_fk [of transfer_row_ok "number_rows (\<lambda>i s. s\<lparr>tt_transfer_id := i\<rparr>) (db_seq_transfer d) rs"
      "\<lambda>r. tx_known d (tt_tx_hash r)" transfer_key "db_transfers d"] show ?thesis
    by (auto simp: insert_token_transfers_def rows_ok_number)
next
  case (InsFailed rs)
  with assms have "\<And>r. r \<in> set rs \<Longrightarrow> tx_known d (ft_tx_hash r)"
    by (auto simp: tx_known_def)
  with InsFailed assms insert_do_nothing_fk [of failed_row_ok rs
      "\<lambda>t. tx_known d (ft_tx_hash t)" ft_tx_hash "db_failed d"]
  show ?thesis by (auto simp: insert_failed_transactions_def)
next
  case (InsTraces rs)
  with assms show ?thesis
    by (auto simp: insert_trace_logs_def list_all_iff tx_known_def)
qed (use assms in simp)

lemma run_actions_append:
  "run_actions (as @ bs) d =
     (case run_actions as d of (Inr _, d') \<Rightarrow> run_actions bs d' | (Inl e, d') \<Rightarrow> (Inl e, d'))"
  by (induction as d rule: run_actions.induct) (auto split: sum.splits)

lemma run_fk_ok:
  "\<forall>a\<in>set as. action_rows_ok a \<and> action_txs a \<subseteq> tx_hash ` set (db_txs d) \<and>
     action_blocks a \<subseteq> blk_number ` set (db_blocks d) \<Longrightarrow>
   \<exists>d'. run_actions as d = (Inr (), d')"
proof (induction as arbitrary: d)
  case (Cons a as)
  then obtain d1 where d1: "exec_action a d = Inr d1"
    using exec_fk_ok [of a d] by auto
  have g: "tx_hash ` set (db_txs d) \<subseteq> tx_hash ` set (db_txs d1)"
      "blk_number ` set (db_blocks d) \<subseteq> blk_number ` set (db_blocks d1)"
    using exec_keys_grow [OF d1] by (simp_all add: keys_grow_def)
  have "action_rows_ok b \<and> action_txs b \<subseteq> tx_hash ` set (db_txs d1) \<and>
      action_blocks b \<subseteq> blk_number ` set (db_blocks d1)" if "b \<in> set as" for b
  proof -
    from Cons.prems that have "action_rows_ok b" "action_txs b \<subseteq> tx_hash ` set (db_txs d)"
        "action_blocks b \<subseteq> blk_number ` set (db_blocks d)" by simp_all
    with g show ?thesis by (metis order_trans)
  qed
  then have "\<forall>b\<in>set as. action_rows_ok b \<and> action_txs b \<subseteq> tx_hash ` set (db_txs d1) \<and>
      action_blocks b \<subseteq> blk_number ` set (db_blocks d1)" by blast
  from Cons.IH [OF this] d1 show ?case by auto
qed simp


section \<open>The transactions a block's rows refer to\<close>

fun event_tx :: "decoded_event \<Rightarrow> string" where
  "event_tx (DecodedSwap s) = ds_tx_hash s"
| "event_tx (DecodedLiquidity l) = dl_tx_hash l"
| "event_tx (DecodedTransfer t) = dt_tx_hash t"

lemma decode_log_tx:
  "decode_log E topics data a tx li ts = Inr ev \<Longrightarrow> event_tx ev = tx"
  by (auto simp: decode_log_def decode_defs Let_def bind_res_Inr_iff
      split: list.splits if_splits sum.splits prod.splits)

definition receipt_hashes :: "worker_ext \<Rightarrow> rpc_receipt list \<Rightarrow> string set" where
  "receipt_hashes X rs = (\<lambda>r. wx_hash_hex X (rc_transaction_hash r)) ` set rs"

lemma set_map_filter: "set (List.map_filter f xs) = {y. \<exists>x\<in>set xs. f x = Some y}"
  by (induction xs) (auto simp: List.map_filter_simps split: option.splits)

lemma decode_receipt_log_tx:
  assumes "decode_receipt_log X ts r log = Some ev"
  shows "event_tx ev = wx_hash_hex X (rc_transaction_hash r)"
proof -
  let ?res = "decode_log (wx_event X) (lg_topics log) (lg_data log)
      (wx_lowercase X (wx_address X (lg_address log))) (wx_hash_hex X (rc_transaction_hash r))
      (as_i32 (case lg_log_index log of Some i \<Rightarrow> i | None \<Rightarrow> 0)) ts"
  from assms have "?res = Inr ev"
    by (cases ?res) (auto simp: decode_receipt_log_def split: if_splits decode_error.splits)
  then show ?thesis by (rule decode_log_tx)
qed

lemma block_events_tx: "ev \<in> set (block_events X ts rs) \<Longrightarrow> event_tx ev \<in> receipt_hashes X rs"
  by (auto simp: block_events_def receipt_hashes_def set_map_filter dest!: decode_receipt_log_tx)

lemma models_simps:
  "swap_models [] = []" "liquidity_models [] = []" "transfer_models [] = []"
  "swap_models (e # es) = (case e of DecodedSwap s \<Rightarrow> [to_swap_model s] | _ \<Rightarrow> []) @ swap_models es"
  "liquidity_models (e # es) =
     (case e of DecodedLiquidity l \<Rightarrow> [to_liquidity_model l] | _ \<Rightarrow> []) @ liquidity_models es"
  "transfer_models (e # es) =
     (case e of DecodedTransfer t \<Rightarrow> [to_transfer_model t] | _ \<Rightarrow> []) @ transfer_models es"
  by (simp_all add: swap_models_def liquidity_models_def transfer_models_def
      List.map_filter_simps split: decoded_event.splits)

lemma model_tx [simp]:
  "sw_tx_hash (to_swap_model s) = ds_tx_hash s"
  "le_tx_hash (to_liquidity_model l) = dl_tx_hash l"
  "tt_tx_hash (to_transfer_model t) = dt_tx_hash t"
  by (simp_all add: to_swap_model_def to_liquidity_model_def to_transfer_model_def)

lemma model_txs:
  "sw_tx_hash ` set (swap_models evs) \<subseteq> event_tx ` set evs \<and>
   le_tx_hash ` set (liquidity_models evs) \<subseteq> event_tx ` set evs \<and>
   tt_tx_hash ` set (transfer_models evs) \<subseteq> event_tx ` set evs"
proof (induction evs)
  case (Cons e evs)
  then show ?case
    by (cases e) (simp_all add: models_simps, blast+)
qed (simp add: models_simps)

lemma process_failed_tx_hash:
  "process_failed_tx X rv ts h = Ret (traces, failed) \<Longrightarrow>
   tl_tx_hash ` set traces \<subseteq> {h} \<and> ft_tx_hash ` set failed \<subseteq> {h}"
  by (auto simp: process_failed_tx_def Let_def trace_row_def
      split: option.splits sum.splits geth_trace.splits outcome.splits)

lemma process_failed_txs_hashes:
  "process_failed_txs X rv ts hs = Ret (traces, failed) \<Longrightarrow>
   tl_tx_hash ` set traces \<subseteq> set hs \<and> ft_tx_hash ` set failed \<subseteq> set hs"
proof (induction hs arbitrary: traces failed)
  case (Cons h hs)
  then obtain t1 f1 t2 f2 where "process_failed_tx X rv ts h = Ret (t1, f1)"
      "process_failed_txs X rv ts hs = Ret (t2, f2)" "traces = t1 @ t2" "failed = f1 @ f2"
    by (auto split: outcome.splits)
  with process_failed_tx_hash [OF this(1)] Cons.IH [OF this(2)] show ?case by auto
qed simp

lemma failed_actions_txs:
  "a \<in> set (failed_actions X rv ts rs) \<Longrightarrow>
   action_txs a \<subseteq> receipt_hashes X rs \<and> action_blocks a = {}"
proof -
  assume a: "a \<in> set (failed_actions X rv ts rs)"
  have sub: "set (failed_hashes X rs) \<subseteq> receipt_hashes X rs"
    by (auto simp: failed_hashes_def receipt_hashes_def)
  show ?thesis
  proof (cases "process_failed_txs X rv ts (failed_hashes X rs)")
    case (Ret p)
    obtain t f where p: "p = (t, f)" by (cases p)
    from a Ret p have "a = InsTraces t \<or> a = InsFailed f"
      by (auto simp: failed_actions_def Let_def unless_empty_def split: if_splits)
    with process_failed_txs_hashes [of X rv ts "failed_hashes X rs" t f] Ret p sub show ?thesis
      by (metis action_blocks.simps(6,7) action_txs.simps(4,5) order_trans)
  qed (use a in \<open>auto simp: failed_actions_def Let_def split: if_splits\<close>)
qed

lemma tx_models_hashes:
  "length rs \<le> length ts \<Longrightarrow>
   map tx_hash (tx_models X n rs ts) = map (\<lambda>r. wx_hash_hex X (rc_transaction_hash r)) rs"
  by (induction X n rs ts rule: tx_models.induct) (auto simp: tx_model_def)

lemma tx_models_block: "t \<in> set (tx_models X n rs ts) \<Longrightarrow> tx_block_number t = as_i64 n"
  by (induction X n rs ts rule: tx_models.induct) (auto simp: tx_model_def)

lemma event_actions_txs:
  assumes "evs = block_events X ts rs"
    "a \<in> set (unless_empty InsSwaps (swap_models evs) @ unless_empty InsLiqs (liquidity_models evs) @
      unless_empty InsTransfers (transfer_models evs))"
  shows "action_txs a \<subseteq> receipt_hashes X rs \<and> action_blocks a = {}"
proof -
  have e: "event_tx ` set evs \<subseteq> receipt_hashes X rs"
    using block_events_tx assms(1) by blast
  from assms(2) have "a = InsSwaps (swap_models evs) \<or> a = InsLiqs (liquidity_models evs) \<or>
      a = InsTransfers (transfer_models evs)"
    by (auto simp: unless_empty_def split: if_splits)
  with model_txs [of evs] e show ?thesis
    by (elim disjE) (simp_all only: action_txs.simps action_blocks.simps simp_thms; metis order_trans)+
qed

lemma process_block_runs:
  assumes block: "rv_block rv n = Inr (Some b)" and recs: "rv_receipts rv n = Inr (Some rs)"
    and len: "length rs \<le> length (rb_txs b)"
    and ok: "list_all action_rows_ok (process_block X rv n)"
  shows "\<exists>d'. run_actions (process_block X rv n) d = (Inr (), d') \<and> block_known d' (as_i64 n) \<and>
    receipt_hashes X rs \<subseteq> tx_hash ` set (db_txs d')"
proof -
  define ts where "ts = (case wx_from_timestamp X (as_i64 (hd_timestamp (rb_header b))) of
      Some t \<Rightarrow> t | None \<Rightarrow> 0)"
  define blk where "blk = block_model X n ts (rb_header b)"
  define txs where "txs = tx_models X n rs (rb_txs b)"
  define evs where "evs = block_events X ts rs"
  define tail where "tail = unless_empty InsSwaps (swap_models evs) @
      unless_empty InsLiqs (liquidity_models evs) @ unless_empty InsTransfers (transfer_models evs) @
      failed_actions X rv ts rs"
  have pb: "process_block X rv n = [InsBlocks [blk]] @ unless_empty InsTxs txs @ tail"
    by (simp add: process_block_def block recs ts_def blk_def txs_def evs_def tail_def Let_def)
  have hashes: "tx_hash ` set txs = receipt_hashes X rs"
    using arg_cong [OF tx_models_hashes [OF len, of X n], of set]
    by (simp add: txs_def receipt_hashes_def)
  from ok have rows: "block_row_ok blk" "list_all action_rows_ok (unless_empty InsTxs txs)"
      "list_all action_rows_ok tail"
    by (simp_all add: pb)
  obtain d1 where d1: "exec_action (InsBlocks [blk]) d = Inr d1"
    using exec_fk_ok [of "InsBlocks [blk]" d] rows by auto
  have blk1: "as_i64 n \<in> blk_number ` set (db_blocks d1)"
    using exec_settled [OF d1] by (simp add: blk_def block_model_def)
  have "tx_block_number ` set txs \<subseteq> blk_number ` set (db_blocks d1)"
    using blk1 by (auto simp: txs_def dest: tx_models_block)
  with rows obtain d2 where d2: "run_actions (unless_empty InsTxs txs) d1 = (Inr (), d2)"
    using run_fk_ok [of "unless_empty InsTxs txs" d1]
    by (cases "txs = []") (auto simp: unless_empty_def simp del: run_actions.simps)
  note s2 = run_settles [OF d2]
  have txs2: "receipt_hashes X rs \<subseteq> tx_hash ` set (db_txs d2)"
    using s2 hashes by (cases "txs = []") (auto simp: unless_empty_def)
  have "\<forall>a\<in>set tail. action_rows_ok a \<and> action_txs a \<subseteq> tx_hash ` set (db_txs d2) \<and>
      action_blocks a \<subseteq> blk_number ` set (db_blocks d2)"
  proof
    fix a assume a: "a \<in> set tail"
    then have "action_txs a \<subseteq> receipt_hashes X rs \<and> action_blocks a = {}"
      using event_actions_txs [OF evs_def, of a] failed_actions_txs [of a X rv ts rs]
      by (simp only: tail_def set_append Un_iff) blast
    with a rows txs2 show "action_rows_ok a \<and> action_txs a \<subseteq> tx_hash ` set (db_txs d2) \<and>
        action_blocks a \<subseteq> blk_number ` set (db_blocks d2)"
      by (simp add: list_all_iff) (metis order_trans)
  qed
  from run_fk_ok [OF this] obtain d3 where d3: "run_actions tail d2 = (Inr (), d3)" by auto
  have "keys_grow d1 d3" "keys_grow d2 d3"
    using s2 run_settles [OF d3] by (auto intro: keys_grow_trans)
  then have "blk_number ` set (db_blocks d1) \<subseteq> blk_number ` set (db_blocks d3)"
      "tx_hash ` set (db_txs d2) \<subseteq> tx_hash ` set (db_txs d3)"
    by (simp_all add: keys_grow_def)
  with blk1 txs2 have "block_known d3 (as_i64 n)"
      "receipt_hashes X rs \<subseteq> tx_hash ` set (db_txs d3)"
    by (auto simp: block_known_def simp del: image_subset_iff dest: subsetD)
  with d1 d2 d3 show ?thesis
    by (simp add: pb run_actions_append)
qed

section \<open>Samples\<close>

definition sample_reason :: "u8 list" where
  "sample_reason = encode_error_string (string_to_bytes ''no allowance'') []"

definition sample_wx :: worker_ext where
  "sample_wx = \<lparr>wx_event = sample_event_ext, wx_hash_hex = (\<lambda>h. if h = 77 then ''0x4d'' else ''0x05''),
     wx_hash_parse = (\<lambda>s. Some 77),
     wx_bytes_display = bytes_to_hex,
     wx_hex_decode = (\<lambda>s. Some sample_reason),
     wx_from_timestamp = (\<lambda>t. Some (seconds t))\<rparr>"

definition sample_view :: rpc_view where
  "sample_view = \<lparr>rv_head = Inr 20, rv_header_hash = (\<lambda>h. Inr None),
     rv_block = (\<lambda>n. Inr (Some \<lparr>rb_header = \<lparr>hd_hash = 5, hd_parent_hash = 4, hd_timestamp = 3, hd_gas_used = 2\<rparr>,
        rb_txs = [\<lparr>rtx_from = 1, rtx_to = None, rtx_value = 0, rtx_effective_gas_price = None, rtx_input = []\<rparr>]\<rparr>)),
     rv_receipts = (\<lambda>n. Inr (Some [\<lparr>rc_transaction_hash = 77, rc_gas_used = 9, rc_status = False, rc_logs = []\<rparr>])),
     rv_trace = (\<lambda>h. Inr (CallTracer (Inr (JObj [(''type'', JStr ''CALL''), (''output'', JStr ''0x08'')]))))\<rparr>"

lemma sample_reason_decodes: "decode_revert_reason sample_reason = Ret ''no allowance''"
proof -
  let ?s = "string_to_bytes ''no allowance''"
  have "valid_utf8 ?s"
    by (rule ascii_valid_utf8) (simp add: string_to_bytes_def char_code_def)
  moreover have "length ?s + 64 < 2 ^ 64"
    by (simp add: string_to_bytes_def)
  ultimately show ?thesis
    unfolding sample_reason_def
    by (subst decode_encode_error_string)
      (simp_all only: from_utf8_lossy_def utf8_lossy_valid_id bytes_to_string_inverse)
qed

definition sample_trace :: "string \<Rightarrow> trace_log" where
  "sample_trace h = \<lparr>tl_tx_hash = h, tl_call_depth = 0, tl_call_type = ''CALL'',
     tl_from_addr = ''0x0000000000000000000000000000000000000000'', tl_to_addr = None, tl_value = 0,
     tl_gas_used = 0, tl_input = None, tl_output = Some ''0x08'', tl_error = None, tl_trace_id = 0\<rparr>"

definition sample_failure :: "timestamp \<Rightarrow> string \<Rightarrow> failed_transaction" where
  "sample_failure ts h = \<lparr>ft_tx_hash = h, ft_error_category = Unknown,
     ft_revert_reason = Some ''no allowance'', ft_failing_function = None, ft_gas_used = 0,
     ft_timestamp = ts\<rparr>"

lemma sample_failed:
  "process_failed_tx sample_wx sample_view ts h = Ret ([sample_trace h], [sample_failure ts h])"
  by (simp add: process_failed_tx_def sample_wx_def sample_view_def parse_trace_def
      parse_call_frame.simps get_str_def get_array_def parse_gas_def flat_of_def value_decimal_def
      root_reason_def strip_0x_def sample_reason_decodes failing_selector_def trace_row_def
      bd_or_zero_def Let_def as_i64_def sample_event_ext_def digit_value_def char_code_def
      to_ascii_lowercase_def ascii_lower_char_def classify_error_def contains_def starts_with_def
      worker_category_def sample_trace_def sample_failure_def)

section \<open>Properties\<close>

text \<open>C25. The category stored with a failed transaction: the worker classifies the revert reason but
  its own table knows only five of the classifier's categories, so a reason that the classifier
  puts into one of the four subdivided categories (allowance and the three specific slippage
  kinds) is stored as \<open>UNKNOWN\<close>; all other categories, and a missing reason, are stored as
  classified. All rows of one call carry the hash of the transaction.\<close>

theorem stored_category:
  assumes "process_failed_tx X rv ts h = Ret (traces, failed)"
  shows "list_all (\<lambda>f. ft_tx_hash f = h \<and> ft_timestamp f = ts \<and>
      ft_error_category f =
        (case ft_revert_reason f of
           None \<Rightarrow> Unknown
         | Some r \<Rightarrow>
             let c = first_match keyword_rules (wx_lowercase X r) in
             if c \<in> {InsufficientAllowance, SlippageAmountOut, SlippageAmountIn,
                     SlippagePriceImpact} then Unknown else c)) failed \<and>
    list_all (\<lambda>t. tl_tx_hash t = h) traces \<and> length failed \<le> 1"
proof -
  have wc: "worker_category (classify_error lc r) =
      (let c = first_match keyword_rules (lc r) in
       if c \<in> {InsufficientAllowance, SlippageAmountOut, SlippageAmountIn, SlippagePriceImpact}
       then Unknown else c)" for lc r
    by (cases "first_match keyword_rules (lc r)")
      (simp_all add: classify_error_table worker_category_def)
  have "worker_category ''UNKNOWN'' = Unknown"
    by (simp add: worker_category_def)
  with assms show ?thesis
    by (auto simp: process_failed_tx_def Let_def wc trace_row_def list_all_iff
        split: option.splits sum.splits geth_trace.splits list.splits outcome.splits)
qed

lemma stored_category_witness:
  "\<exists>traces f. process_failed_tx sample_wx sample_view 7 ''77'' = Ret (traces, [f]) \<and>
     ft_revert_reason f = Some ''no allowance'' \<and> ft_error_category f = Unknown \<and> ft_tx_hash f = ''77''"
  using stored_category [OF sample_failed [of 7 "''77''"]] by (simp add: sample_failed sample_failure_def)

text \<open>C14. A block that the node serves completely (no more receipts than transactions) is written
  without error exactly when every row meets the CHECK, type and length constraints of its own
  table and no task panics: no foreign key can fail, since the block precedes its transactions and
  they precede every row that refers to them. Then the block and all transactions with a receipt
  are stored. A single unacceptable row - a token amount of more than 38 digits, a revert reason
  with a NUL byte - therefore fails the whole block, on every attempt.\<close>

theorem process_block_succeeds_iff:
  assumes "rv_block rv n = Inr (Some b)" "rv_receipts rv n = Inr (Some rs)"
    and "length rs \<le> length (rb_txs b)"
  shows "(\<exists>d'. run_actions (process_block X rv n) d = (Inr (), d') \<and> block_known d' (as_i64 n) \<and>
            receipt_hashes X rs \<subseteq> tx_hash ` set (db_txs d')) \<longleftrightarrow>
      list_all action_rows_ok (process_block X rv n)"
proof
  assume "\<exists>d'. run_actions (process_block X rv n) d = (Inr (), d') \<and> block_known d' (as_i64 n) \<and>
      receipt_hashes X rs \<subseteq> tx_hash ` set (db_txs d')"
  then obtain d' where "run_actions (process_block X rv n) d = (Inr (), d')" by blast
  from run_settles [OF this] show "list_all action_rows_ok (process_block X rv n)"
    by (auto simp: list_all_iff dest: settled_rows_ok)
qed (rule process_block_runs [OF assms])

definition sample_actions :: "action list" where
  "sample_actions =
     [InsBlocks [\<lparr>blk_number = 18, blk_timestamp = seconds 3, blk_gas_used = 2,
        blk_hash = Some ''0x05'', blk_parent_hash = Some ''0x05''\<rparr>],
      InsTxs [\<lparr>tx_hash = ''0x4d'', tx_from_addr = ''1'', tx_to_addr = None, tx_block_number = 18,
        tx_gas_used = 9, tx_gas_price = 0, tx_value = 0, tx_status = 0, tx_input_data = None\<rparr>],
      InsTraces [sample_trace ''0x4d''], InsFailed [sample_failure (seconds 3) ''0x4d'']]"

definition sample_receipt :: rpc_receipt where
  "sample_receipt = \<lparr>rc_transaction_hash = 77, rc_gas_used = 9, rc_status = False, rc_logs = []\<rparr>"

definition sample_rpc_tx :: rpc_tx where
  "sample_rpc_tx = \<lparr>rtx_from = 1, rtx_to = None, rtx_value = 0, rtx_effective_gas_price = None,
     rtx_input = []\<rparr>"

definition sample_header :: rpc_header where
  "sample_header = \<lparr>hd_hash = 5, hd_parent_hash = 4, hd_timestamp = 3, hd_gas_used = 2\<rparr>"

lemma sample_view_block:
  "rv_block sample_view n = Inr (Some \<lparr>rb_header = sample_header, rb_txs = [sample_rpc_tx]\<rparr>)"
  "rv_receipts sample_view n = Inr (Some [sample_receipt])"
  by (simp_all add: sample_view_def sample_receipt_def sample_rpc_tx_def sample_header_def)

lemma sample_wx_fields:
  "wx_from_timestamp sample_wx t = Some (seconds t)"
  "wx_hash_hex sample_wx h = (if h = 77 then ''0x4d'' else ''0x05'')"
  "wx_event sample_wx = sample_event_ext"
  by (simp_all add: sample_wx_def)

lemma sample_ext_fields:
  "ev_lowercase sample_event_ext = to_ascii_lowercase"
  "address_to_string sample_event_ext a = nat_to_dec (unat a)"
  "bigint_to_string sample_event_ext = int_to_dec"
  by (simp_all add: sample_event_ext_def)

lemma sample_digits: "nat_to_dec 0 = ''0''" "nat_to_dec (Suc 0) = ''1''"
  by code_simp+

lemma sample_zero: "bd_or_zero sample_wx ''0'' = 0"
  by (simp add: bd_or_zero_def sample_wx_def sample_event_ext_def digit_value_def char_code_def)

lemma sample_process_block: "process_block sample_wx sample_view 18 = sample_actions"
proof -
  have "failed_hashes sample_wx [sample_receipt] = [''0x4d'']"
    by (simp add: failed_hashes_def sample_receipt_def sample_wx_fields)
  then have f: "failed_actions sample_wx sample_view ts [sample_receipt] =
      [InsTraces [sample_trace ''0x4d''], InsFailed [sample_failure ts ''0x4d'']]" for ts
    by (simp add: failed_actions_def sample_failed unless_empty_def Let_def)
  have e: "block_events sample_wx ts [sample_receipt] = []" for ts
    by (simp add: block_events_def sample_receipt_def List.map_filter_simps)
  have t: "tx_model sample_wx 18 sample_receipt sample_rpc_tx =
      \<lparr>tx_hash = ''0x4d'', tx_from_addr = ''1'', tx_to_addr = None, tx_block_number = 18,
        tx_gas_used = 9, tx_gas_price = 0, tx_value = 0, tx_status = 0, tx_input_data = None\<rparr>"
    by (simp add: tx_model_def sample_receipt_def sample_rpc_tx_def sample_wx_fields
        sample_ext_fields sample_digits int_to_dec_def sample_zero as_i64_def
        to_ascii_lowercase_def ascii_lower_char_def char_code_def)
  show ?thesis
    by (simp add: process_block_def sample_view_block sample_wx_fields f e t Let_def
        unless_empty_def models_simps sample_actions_def block_model_def sample_header_def as_i64_def)
qed

lemma sample_rows_ok: "list_all action_rows_ok sample_actions"
  by (simp add: sample_actions_def sample_trace_def sample_failure_def row_ok_defs opt_ok_def
      varchar_ok_def text_ok_def char_count_def char_code_def numeric_ok_def)

lemma process_block_succeeds_iff_witness:
  "\<exists>d'. run_actions (process_block sample_wx sample_view 18) empty_db = (Inr (), d') \<and>
     block_known d' 18"
proof -
  have "list_all action_rows_ok (process_block sample_wx sample_view 18)"
    by (simp only: sample_process_block sample_rows_ok)
  with process_block_succeeds_iff [OF sample_view_block [of 18], where X = sample_wx and d = empty_db]
  show ?thesis by (auto simp: as_i64_def)
qed

text \<open>C24. Processing a block a second time, as happens when the indexer stops between writing a block
  and its checkpoint, succeeds and changes no table but the traces: each call trace of the block's
  failed transactions is stored a second time in full, since that insert has no conflict clause.\<close>

theorem reprocess_block:
  assumes "run_actions (process_block X rv n) d = (Inr (), d1)"
  shows "\<exists>d2. run_actions (process_block X rv n) d1 = (Inr (), d2) \<and> quiet d1 d2 \<and>
    map blank_id (db_traces d2) = map blank_id (db_traces d1) @
      concat (map (\<lambda>a. map blank_id (trace_batch a)) (process_block X rv n))"
  using run_of_settled run_settles [OF assms] by blast

lemma reprocess_block_witness:
  "\<exists>d1 d2. run_actions (process_block sample_wx sample_view 18) empty_db = (Inr (), d1) \<and>
     run_actions (process_block sample_wx sample_view 18) d1 = (Inr (), d2) \<and>
     length (db_traces d2) = length (db_traces d1) + 1"
proof -
  have "list_all action_rows_ok (process_block sample_wx sample_view 18)"
    by (simp only: sample_process_block sample_rows_ok)
  with process_block_runs [OF sample_view_block [of 18], of sample_wx empty_db]
  obtain d1 where d1: "run_actions (process_block sample_wx sample_view 18) empty_db = (Inr (), d1)"
    by auto
  from reprocess_block [OF d1] obtain d2 where
      d2: "run_actions (process_block sample_wx sample_view 18) d1 = (Inr (), d2)"
      "map blank_id (db_traces d2) = map blank_id (db_traces d1) @ [blank_id (sample_trace ''0x4d'')]"
    by (auto simp: sample_process_block sample_actions_def)
  from arg_cong [OF d2(2), of length] d1 d2(1) show ?thesis
    by auto
qed

end
