(* ===== verification/Indexer.thy ===== *)
theory Indexer
  imports Ranges Fork Block_Laws
begin

text \<open>
  The concurrent and looping part of \<open>src/crates/indexer/src/worker.rs\<close> as transition systems:
  \<open>process_chunk\<close> runs the block tasks of a chunk under a semaphore, their statements interleaved in
  any order; \<open>index_range\<close> and \<open>follow\<close> run chunk after chunk, write the checkpoint after each, check for
  reorgs at the start of every cycle, and may stop at any point (an error, Ctrl-C, a crash) and be
  started again. The answers of the node are chosen afresh at every step.
\<close>

section \<open>One chunk\<close>

record chunk_tasks =
  ct_waiting :: "action list list"
  ct_running :: "action list list"
  ct_failed :: bool

text \<open>A waiting task acquires a permit; a running task executes its next statement, or fails (a
  rejected statement, a lost connection, a panic) and drops its permit, or is finished.\<close>

inductive chunk_step ::
    "nat \<Rightarrow> chunk_tasks \<times> chain_db \<Rightarrow> chunk_tasks \<times> chain_db \<Rightarrow> bool" for permits where
  Acquire: "\<lbrakk>ct_waiting s = w1 @ t # w2; length (ct_running s) < permits\<rbrakk> \<Longrightarrow>
    chunk_step permits (s, d)
      (s\<lparr>ct_waiting := w1 @ w2, ct_running := ct_running s @ [t]\<rparr>, d)"
| Exec: "\<lbrakk>ct_running s = r1 @ (a # as) # r2; exec_action a d = Inr d'\<rbrakk> \<Longrightarrow>
    chunk_step permits (s, d) (s\<lparr>ct_running := r1 @ as # r2\<rparr>, d')"
| Fault: "ct_running s = r1 @ (a # as) # r2 \<Longrightarrow>
    chunk_step permits (s, d) (s\<lparr>ct_running := r1 @ r2, ct_failed := True\<rparr>, d)"
| Finish: "ct_running s = r1 @ [] # r2 \<Longrightarrow>
    chunk_step permits (s, d) (s\<lparr>ct_running := r1 @ r2\<rparr>, d)"

inductive_cases chunk_stepE: "chunk_step permits sd sd'"

definition chunk_start :: "action list list \<Rightarrow> chunk_tasks" where
  "chunk_start tasks = \<lparr>ct_waiting = tasks, ct_running = [], ct_failed = False\<rparr>"

definition chunk_over :: "chunk_tasks \<Rightarrow> bool" where
  "chunk_over s = (ct_waiting s = [] \<and> ct_running s = [])"

text \<open>The numbers of the blocks of a chunk, \<open>from..=to\<close>, and its tasks.\<close>

definition chunk_numbers :: "u64 \<times> u64 \<Rightarrow> u64 list" where
  "chunk_numbers c = map word_of_nat (chunk_blocks c)"

definition process_chunk :: "worker_ext \<Rightarrow> (u64 \<Rightarrow> rpc_view) \<Rightarrow> u64 \<times> u64 \<Rightarrow> chunk_tasks" where
  "process_chunk X rvs c = chunk_start (map (\<lambda>n. process_block X (rvs n) n) (chunk_numbers c))"

section \<open>Laws of a chunk\<close>

text \<open>What has become of the task \<open>t\<close>: it waits, or a settled part of it is done and the rest runs,
  or it is settled as a whole, or the chunk has failed.\<close>

definition task_ok :: "chunk_tasks \<Rightarrow> chain_db \<Rightarrow> action list \<Rightarrow> bool" where
  "task_ok s d t \<longleftrightarrow> ct_failed s \<or> t \<in> set (ct_waiting s) \<or>
     (\<exists>past rest. t = past @ rest \<and> rest \<in> set (ct_running s) \<and> (\<forall>a\<in>set past. settled a d)) \<or>
     (\<forall>a\<in>set t. settled a d)"

definition chunk_inv :: "nat \<Rightarrow> action list list \<Rightarrow> chain_db \<Rightarrow> chunk_tasks \<times> chain_db \<Rightarrow> bool" where
  "chunk_inv permits tasks d0 = (\<lambda>(s, d). (\<forall>t\<in>set tasks. task_ok s d t) \<and> keys_grow d0 d \<and>
     (db_ok d0 \<longrightarrow> db_ok d) \<and> db_checkpoints d = db_checkpoints d0 \<and>
     length (ct_running s) \<le> permits)"

lemma exec_db_ok: "exec_action a d = Inr d' \<Longrightarrow> db_ok d \<Longrightarrow> db_ok d'"
  by (cases a) (auto simp: map_sum_Inr_iff dest: inserts_ok)

lemma exec_checkpoints: "exec_action a d = Inr d' \<Longrightarrow> db_checkpoints d' = db_checkpoints d"
  by (cases a) (auto simp: map_sum_Inr_iff dest!: insert_frames)

lemma task_ok_partI:
  "t = past @ rest \<Longrightarrow> rest \<in> set (ct_running s) \<Longrightarrow> \<forall>a\<in>set past. settled a d \<Longrightarrow> task_ok s d t"
  unfolding task_ok_def by blast

lemma task_ok_exec:
  assumes t: "task_ok s d t" and r: "ct_running s = r1 @ (a # as) # r2"
    and e: "exec_action a d = Inr d'"
  shows "task_ok (s\<lparr>ct_running := r1 @ as # r2\<rparr>) d' t"
proof -
  have mono: "settled b d \<Longrightarrow> settled b d'" for b
    using settled_mono exec_keys_grow [OF e] by blast
  have a: "settled a d'"
    using exec_settled [OF e] .
  consider "ct_failed s \<or> t \<in> set (ct_waiting s) \<or> (\<forall>b\<in>set t. settled b d)"
    | past rest where "t = past @ rest" "rest \<in> set (ct_running s)" "\<forall>b\<in>set past. settled b d"
    using t by (auto simp: task_ok_def)
  then show ?thesis
  proof cases
    case 1
    with mono show ?thesis by (auto simp: task_ok_def)
  next
    case 2
    show ?thesis
    proof (cases "rest = a # as")
      case True
      with 2 mono a show ?thesis
        by (intro task_ok_partI [of t "past @ [a]" as]) auto
    next
      case False
      then have "rest \<in> set (r1 @ as # r2)"
        using 2 r by auto
      with 2 mono show ?thesis by (intro task_ok_partI [of t past rest]) auto
    qed
  qed
qed

lemma chunk_step_inv:
  assumes "chunk_inv permits tasks d0 sd" "chunk_step permits sd sd'"
  shows "chunk_inv permits tasks d0 sd'"
  using assms(2)
proof (cases rule: chunk_step.cases)
  case (Acquire s w1 t w2 d)
  have "task_ok (s\<lparr>ct_waiting := w1 @ w2, ct_running := ct_running s @ [t]\<rparr>) d u" if "task_ok s d u" for u
  proof (cases "u = t")
    case True
    then have "u = [] @ t" by simp
    then show ?thesis unfolding task_ok_def by (auto intro: exI [of _ "[]"])
  next
    case False
    with that Acquire(3) show ?thesis unfolding task_ok_def by auto
  qed
  with Acquire assms(1) show ?thesis
    by (auto simp: chunk_inv_def)
next
  case (Exec s r1 a as r2 d d')
  with assms(1) show ?thesis
    by (auto simp: chunk_inv_def task_ok_exec exec_db_ok exec_checkpoints
        intro: keys_grow_trans exec_keys_grow)
next
  case (Fault s r1 a as r2 d)
  with assms(1) show ?thesis
    by (auto simp: chunk_inv_def task_ok_def)
next
  case (Finish s r1 r2 d)
  have "task_ok (s\<lparr>ct_running := r1 @ r2\<rparr>) d u" if "task_ok s d u" for u
    using that Finish(3) unfolding task_ok_def by (auto dest: bspec)
  with Finish assms(1) show ?thesis
    by (auto simp: chunk_inv_def)
qed

interpretation chunk: invariant_system "chunk_step permits" "chunk_inv permits tasks d0"
  by unfold_locales (rule chunk_step_inv)

lemma chunk_start_inv: "chunk_inv permits tasks d (chunk_start tasks, d)"
  by (simp add: chunk_inv_def chunk_start_def task_ok_def keys_grow_refl)

lemma process_block_settled:
  "\<forall>a\<in>set (process_block X rv n). settled a d \<Longrightarrow> block_known d (as_i64 n)"
  by (auto simp: process_block_def Let_def block_known_def block_model_def
      split: sum.splits option.splits)

lemma chunk_over_known:
  assumes "chunk_inv p (map (\<lambda>n. process_block X (rvs n) n) ns) d0 (w, d)"
    and "chunk_over w" "\<not> ct_failed w" "n \<in> set ns"
  shows "block_known d (as_i64 n)"
proof -
  have "task_ok w d (process_block X (rvs n) n)"
    using assms by (simp add: chunk_inv_def)
  then have "\<forall>a\<in>set (process_block X (rvs n) n). settled a d"
    using assms(2,3) by (auto simp: task_ok_def chunk_over_def)
  then show ?thesis by (rule process_block_settled)
qed

definition chunk_measure :: "chunk_tasks \<Rightarrow> nat" where
  "chunk_measure s = sum_list (map (\<lambda>t. length t + 2) (ct_waiting s)) +
     sum_list (map (\<lambda>t. length t + 1) (ct_running s))"

lemma chunk_step_measure: "chunk_step p (s, d) (s', d') \<Longrightarrow> chunk_measure s' < chunk_measure s"
  by (erule chunk_stepE) (auto simp: chunk_measure_def)

lemma chunk_step_exists:
  assumes "0 < p" "\<not> chunk_over s"
  shows "\<exists>sd'. chunk_step p (s, d) sd'"
proof (cases "ct_running s")
  case Nil
  with assms obtain t ts where "ct_waiting s = [] @ t # ts"
    by (cases "ct_waiting s") (auto simp: chunk_over_def)
  with Nil assms show ?thesis by (intro exI) (rule Acquire, auto)
next
  case (Cons t ts)
  show ?thesis
  proof (cases t)
    case Nil
    with Cons have "ct_running s = [] @ [] # ts" by simp
    then show ?thesis by (intro exI) (rule Finish)
  next
    case (Cons a as)
    with \<open>ct_running s = t # ts\<close> have "ct_running s = [] @ (a # as) # ts" by simp
    then show ?thesis by (intro exI) (rule Fault)
  qed
qed

section \<open>Properties of a chunk\<close>

text \<open>A chunk that ends without a failed task has stored every one of its blocks, in whatever order
  the concurrent statements were executed; it never touches the checkpoint, it keeps the database
  consistent at every moment, and at no moment do more tasks run than the semaphore has permits.\<close>

theorem process_chunk_complete:
  assumes "(chunk_step permits)\<^sup>*\<^sup>* (process_chunk X rvs c, d) (s, d')"
  shows "(chunk_over s \<and> \<not> ct_failed s \<longrightarrow>
            (\<forall>n\<in>set (chunk_numbers c). block_known d' (as_i64 n))) \<and>
         db_checkpoints d' = db_checkpoints d \<and> (db_ok d \<longrightarrow> db_ok d') \<and>
         length (ct_running s) \<le> permits"
proof -
  have "chunk_inv permits (map (\<lambda>n. process_block X (rvs n) n) (chunk_numbers c)) d (s, d')"
    using chunk.reachable_inv [OF assms] chunk_start_inv by (simp add: process_chunk_def)
  with chunk_over_known [OF this] show ?thesis
    by (auto simp: chunk_inv_def)
qed

text \<open>C2. Every execution of a chunk ends, however it is scheduled: with at least one permit a chunk
  that is not over can always make a step, and every step decreases a measure. With zero permits
  (\<open>MAX_CONCURRENT_BLOCKS=0\<close> is accepted by the configuration) a chunk never makes a step and
  the indexer waits forever.\<close>

theorem chunk_terminates:
  "(chunk_step permits (s, d) (s', d') \<longrightarrow> chunk_measure s' < chunk_measure s) \<and>
   (0 < permits \<longrightarrow> chunk_over s \<or> (\<exists>sd'. chunk_step permits (s, d) sd')) \<and>
   \<not> chunk_step 0 (process_chunk X rvs c, d) sd \<and>
   (unat (fst c) \<le> unat (snd c) \<longrightarrow> \<not> chunk_over (process_chunk X rvs c))"
proof -
  have "\<not> chunk_step 0 (process_chunk X rvs c, d) sd"
    by (auto simp: process_chunk_def chunk_start_def elim!: chunk_stepE)
  moreover have "unat (fst c) \<le> unat (snd c) \<longrightarrow> \<not> chunk_over (process_chunk X rvs c)"
    by (auto simp: process_chunk_def chunk_start_def chunk_over_def chunk_numbers_def chunk_blocks_def)
  ultimately show ?thesis
    using chunk_step_measure chunk_step_exists by blast
qed

section \<open>The follow loop\<close>

text \<open>One step of \<open>follow\<close> is a decision of its loop or a step of the chunk it waits for. \<open>Target\<close>
  covers heads below \<open>2 ^ 63\<close>, beyond which \<open>chunk_end as i64\<close> would be negative; \<open>Stop\<close> is every way
  out of the loop (Ctrl-C, an error of a query or of the node, a panic, a crash of the process).\<close>

record follow_metrics =
  fm_cycle :: nat
  fm_blocks_indexed :: nat
  fm_reorgs :: nat
  fm_last_reorg_depth :: nat

definition default_metrics :: follow_metrics where
  "default_metrics = \<lparr>fm_cycle = 0, fm_blocks_indexed = 0, fm_reorgs = 0, fm_last_reorg_depth = 0\<rparr>"

text \<open>Where the loop stands: at the head of a cycle, between the chunks of \<open>index_range\<close>, inside a
  chunk, at the wait for the next trigger, or stopped.\<close>

datatype phase =
    CycleStart
  | Indexing "u64 \<times> u64" "(u64 \<times> u64) list"
  | InChunk "u64 \<times> u64" "u64 \<times> u64" chunk_tasks "(u64 \<times> u64) list"
  | CycleEnd
  | Stopped

record follow_state =
  fs_phase :: phase
  fs_db :: chain_db
  fs_metrics :: follow_metrics
  fs_subscribed :: bool

definition local_hashes :: "chain_db \<Rightarrow> (u64 \<times> string) list" where
  "local_hashes d = (case recent_block_hashes reorg_scan_cap d of
     Inl _ \<Rightarrow> [] | Inr rows \<Rightarrow> map (\<lambda>(n, h). (as_u64 n, h)) rows)"

record indexer_params =
  ip_ext :: worker_ext
  ip_batch_size :: u64
  ip_max_concurrent :: nat
  ip_confirmations :: u64
  ip_trigger :: trigger_mode

text \<open>With a subscription the loop waits for a tick of \<open>spawn_head_ticks\<close>; when that task ends (no
  connection, no subscription, the stream ended) the channel is closed, and the loop polls from then on.\<close>

definition head_ticks :: "trigger_mode \<Rightarrow> bool" where
  "head_ticks t = (case t of Subscribe _ \<Rightarrow> True | Polling \<Rightarrow> False)"

inductive follow_step :: "indexer_params \<Rightarrow> follow_state \<Rightarrow> follow_state \<Rightarrow> bool" for P where
  Reorg: "\<lbrakk>fs_phase s = CycleStart; detect_fork rpc (local_hashes (fs_db s)) = Some f;
     rollback_from_block now (as_i64 f) (fs_db s) = Inr (rolled, d')\<rbrakk> \<Longrightarrow>
   follow_step P s (s\<lparr>fs_db := d',
     fs_metrics := (fs_metrics s)\<lparr>fm_cycle := fm_cycle (fs_metrics s) + 1,
       fm_reorgs := fm_reorgs (fs_metrics s) + 1, fm_last_reorg_depth := rolled\<rparr>\<rparr>)"
| Target: "\<lbrakk>fs_phase s = CycleStart; detect_fork rpc (local_hashes (fs_db s)) = None;
     unat head < 2 ^ 63;
     next_target head (ip_confirmations P) (get_last_checkpoint 1 (fs_db s)) = Some (f, t);
     rng = cap_range_to f t follow_cycle_block_cap;
     range_chunks (ip_batch_size P) (fst rng) (snd rng) = Ret cs\<rbrakk> \<Longrightarrow>
   follow_step P s (s\<lparr>fs_phase := Indexing rng cs,
     fs_metrics := (fs_metrics s)\<lparr>fm_cycle := fm_cycle (fs_metrics s) + 1\<rparr>\<rparr>)"
| NoTarget: "\<lbrakk>fs_phase s = CycleStart; detect_fork rpc (local_hashes (fs_db s)) = None;
     next_target head (ip_confirmations P) (get_last_checkpoint 1 (fs_db s)) = None\<rbrakk> \<Longrightarrow>
   follow_step P s (s\<lparr>fs_phase := CycleEnd,
     fs_metrics := (fs_metrics s)\<lparr>fm_cycle := fm_cycle (fs_metrics s) + 1\<rparr>\<rparr>)"
| ChunkBegin: "fs_phase s = Indexing rng (c # cs) \<Longrightarrow>
   follow_step P s (s\<lparr>fs_phase := InChunk rng c (process_chunk (ip_ext P) rvs c) cs\<rparr>)"
| ChunkRun: "\<lbrakk>fs_phase s = InChunk rng c w cs;
     chunk_step (ip_max_concurrent P) (w, fs_db s) (w', d')\<rbrakk> \<Longrightarrow>
   follow_step P s (s\<lparr>fs_phase := InChunk rng c w' cs, fs_db := d'\<rparr>)"
| ChunkDone: "\<lbrakk>fs_phase s = InChunk rng c w cs; chunk_over w; \<not> ct_failed w\<rbrakk> \<Longrightarrow>
   follow_step P s (s\<lparr>fs_phase := Indexing rng cs,
     fs_db := update_checkpoint now 1 (as_i64 (snd c)) (fs_db s)\<rparr>)"
| ChunkError: "\<lbrakk>fs_phase s = InChunk rng c w cs; ct_failed w\<rbrakk> \<Longrightarrow>
   follow_step P s (s\<lparr>fs_phase := Stopped\<rparr>)"
| RangeDone: "fs_phase s = Indexing rng [] \<Longrightarrow>
   follow_step P s (s\<lparr>fs_phase := CycleEnd,
     fs_metrics := (fs_metrics s)\<lparr>fm_blocks_indexed :=
       fm_blocks_indexed (fs_metrics s) + unat (snd rng - fst rng) + 1\<rparr>\<rparr>)"
| Tick: "\<lbrakk>fs_phase s = CycleEnd; fs_subscribed s\<rbrakk> \<Longrightarrow> follow_step P s (s\<lparr>fs_phase := CycleStart\<rparr>)"
| ChannelClosed: "\<lbrakk>fs_phase s = CycleEnd; fs_subscribed s\<rbrakk> \<Longrightarrow>
   follow_step P s (s\<lparr>fs_phase := CycleStart, fs_subscribed := False\<rparr>)"
| SleepOver: "\<lbrakk>fs_phase s = CycleEnd; \<not> fs_subscribed s\<rbrakk> \<Longrightarrow> follow_step P s (s\<lparr>fs_phase := CycleStart\<rparr>)"
| Stop: "follow_step P s (s\<lparr>fs_phase := Stopped\<rparr>)"
| Restart: "fs_phase s = Stopped \<Longrightarrow>
   follow_step P s (s\<lparr>fs_phase := CycleStart, fs_metrics := default_metrics,
     fs_subscribed := head_ticks (ip_trigger P)\<rparr>)"

text \<open>Once the loop has fallen back to polling it polls until the process is started again, and without a
  subscription it always polls.\<close>

lemma polling_stays:
  "follow_step P s s' \<Longrightarrow> \<not> fs_subscribed s \<Longrightarrow> fs_subscribed s' \<Longrightarrow> fs_phase s = Stopped \<and> ip_trigger P \<noteq> Polling"
  by (cases rule: follow_step.cases) (auto simp: head_ticks_def)

section \<open>The checkpoint never runs ahead\<close>

text \<open>Every block from \<open>lo\<close> up to the checkpoint is stored.\<close>

definition covered :: "int \<Rightarrow> 'a chain_db_scheme \<Rightarrow> bool" where
  "covered lo d \<longleftrightarrow> (\<exists>c. get_last_checkpoint 1 d = Some c \<and> c < 2 ^ 63 \<and>
     (\<forall>n. lo \<le> n \<and> n \<le> c \<longrightarrow> block_known d n))"

text \<open>The chunks still to do start right after the checkpoint, without gaps.\<close>

definition next_chunks :: "'a chain_db_scheme \<Rightarrow> (u64 \<times> u64) list \<Rightarrow> bool" where
  "next_chunks d cs \<longleftrightarrow> (\<exists>c last_b. get_last_checkpoint 1 d = Some c \<and> last_b < 2 ^ 63 \<and>
     concat (map chunk_blocks cs) = [nat c + 1..<last_b + 1] \<and>
     (\<forall>x\<in>set cs. fst x \<le> snd x))"

definition params_ok :: "indexer_params \<Rightarrow> bool" where
  "params_ok P \<longleftrightarrow> unat (ip_batch_size P) < 2 ^ 63"

definition follow_inv :: "indexer_params \<Rightarrow> int \<Rightarrow> follow_state \<Rightarrow> bool" where
  "follow_inv P lo s \<longleftrightarrow> db_ok (fs_db s) \<and> covered lo (fs_db s) \<and>
     (case fs_phase s of
        Indexing _ cs \<Rightarrow> next_chunks (fs_db s) cs
      | InChunk _ c w cs \<Rightarrow> next_chunks (fs_db s) (c # cs) \<and>
          (\<exists>rvs d0. chunk_inv (ip_max_concurrent P)
             (map (\<lambda>n. process_block (ip_ext P) (rvs n) n) (chunk_numbers c)) d0 (w, fs_db s))
      | _ \<Rightarrow> True)"

text \<open>The checkpoint a step leaves at the head of a cycle is not beyond the one it found: the
  rollback did not move it forward.\<close>

definition no_jump :: "follow_state \<Rightarrow> follow_state \<Rightarrow> bool" where
  "no_jump s s' \<longleftrightarrow> (fs_phase s = CycleStart \<longrightarrow>
     (\<forall>c c'. get_last_checkpoint 1 (fs_db s) = Some c \<longrightarrow>
        get_last_checkpoint 1 (fs_db s') = Some c' \<longrightarrow> c' \<le> max c 0))"

lemma chunk_step_grow:
  "chunk_step p (w, d) (w', d') \<Longrightarrow>
   keys_grow d d' \<and> db_checkpoints d' = db_checkpoints d \<and> (db_ok d \<longrightarrow> db_ok d')"
  by (erule chunk_stepE)
    (auto simp: keys_grow_refl exec_keys_grow exec_checkpoints exec_db_ok)

lemma block_known_grow: "block_known d n \<Longrightarrow> keys_grow d d' \<Longrightarrow> block_known d' n"
  by (auto simp: block_known_def keys_grow_def)

lemma covered_grow:
  "covered lo d \<Longrightarrow> keys_grow d d' \<Longrightarrow> db_checkpoints d' = db_checkpoints d \<Longrightarrow> covered lo d'"
  unfolding covered_def get_last_checkpoint_def using block_known_grow by fastforce

lemma chunk_head:
  assumes "chunk_blocks c @ R = [k..<m]" "fst c \<le> snd c"
  shows "unat (fst c) = k \<and> R = [unat (snd c) + 1..<m] \<and> unat (snd c) < m"
proof -
  have le: "unat (fst c) \<le> unat (snd c)"
    using assms(2) by (simp add: word_le_nat_alt)
  then have ne: "chunk_blocks c \<noteq> []" and hd: "hd (chunk_blocks c) = unat (fst c)"
    by (simp_all add: chunk_blocks_def del: upt_Suc)
  then have km: "[k..<m] \<noteq> []" and k: "unat (fst c) = k"
    using assms(1) by (metis Nil_is_append_conv, metis hd_append hd_upt upt_eq_Nil_conv append_is_Nil_conv not_le)
  have len: "length (chunk_blocks c) = Suc (unat (snd c)) - k"
    by (simp add: chunk_blocks_def k Suc_diff_le)
  have "R = drop (length (chunk_blocks c)) [k..<m]"
    using assms(1) by (metis append_eq_conv_conj)
  moreover have "length (chunk_blocks c) \<le> m - k"
    using arg_cong [OF assms(1), of length] by simp
  ultimately show ?thesis
    using len le k km by (simp add: drop_upt)
qed

lemma chunk_done_covered:
  assumes cov: "covered lo d" and nxt: "next_chunks d (c # cs)" and lo: "1 \<le> lo"
    and known: "\<forall>n\<in>set (chunk_numbers c). block_known d (as_i64 n)"
  shows "covered lo (update_checkpoint now 1 (as_i64 (snd c)) d) \<and>
         next_chunks (update_checkpoint now 1 (as_i64 (snd c)) d) cs"
proof -
  from nxt obtain cp m where cp: "get_last_checkpoint 1 d = Some cp" and m: "m < 2 ^ 63"
      and all: "chunk_blocks c @ concat (map chunk_blocks cs) = [nat cp + 1..<m + 1]"
      and le: "fst c \<le> snd c" "\<forall>x\<in>set cs. fst x \<le> snd x"
    by (auto simp: next_chunks_def)
  note hd = chunk_head [OF all le(1)]
  have e: "as_i64 (snd c) = int (unat (snd c))"
    using hd m by (intro as_i64_small) simp
  have cp': "get_last_checkpoint 1 (update_checkpoint now 1 (as_i64 (snd c)) d) = Some (int (unat (snd c)))"
    by (simp add: get_last_checkpoint_def update_checkpoint_def e)
  have same: "block_known (update_checkpoint now 1 x d) n = block_known d n" for n x
    by (simp add: block_known_def update_checkpoint_def)
  have "block_known d n" if n: "lo \<le> n" "n \<le> int (unat (snd c))" for n
  proof (cases "n \<le> cp")
    case True
    with cov cp n show ?thesis by (auto simp: covered_def)
  next
    case False
    then have "nat cp + 1 \<le> nat n" "nat n \<le> unat (snd c)"
      using n lo by linarith+
    then have "nat n \<in> set (chunk_blocks c)"
      using hd by (simp add: chunk_blocks_def del: upt_Suc)
    then have "word_of_nat (nat n) \<in> set (chunk_numbers c)"
      by (auto simp: chunk_numbers_def)
    moreover have "as_i64 (word_of_nat (nat n)) = n"
    proof -
      have "nat n < 2 ^ 63"
        using n hd m by linarith
      then have "unat (word_of_nat (nat n) :: u64) = nat n"
        by (simp add: unat_of_nat take_bit_nat_eq_self)
      with \<open>nat n < 2 ^ 63\<close> n lo show ?thesis
        by (subst as_i64_small) auto
    qed
    ultimately show ?thesis using known by metis
  qed
  moreover have "int (unat (snd c)) < 2 ^ 63"
  proof -
    have "unat (snd c) < 2 ^ 63"
      using hd m by linarith
    then have "int (unat (snd c)) < int (2 ^ 63)"
      by (simp only: of_nat_less_iff)
    then show ?thesis by simp
  qed
  ultimately have "covered lo (update_checkpoint now 1 (as_i64 (snd c)) d)"
    unfolding covered_def cp' by (simp add: same)
  moreover have "next_chunks (update_checkpoint now 1 (as_i64 (snd c)) d) cs"
    unfolding next_chunks_def cp' using hd m le(2) by (auto intro!: exI [of _ m])
  ultimately show ?thesis by simp
qed

lemma target_next_chunks:
  assumes cp: "get_last_checkpoint 1 d = Some c" "c < 2 ^ 63" and head: "unat head < 2 ^ 63"
    and nt: "next_target head conf (Some c) = Some (f, t)"
    and rng: "rng = cap_range_to f t cap" and cs: "range_chunks b (fst rng) (snd rng) = Ret cs"
    and b: "unat b < 2 ^ 63"
  shows "next_chunks d cs"
proof -
  from nt cp(2) have f: "unat f = nat c + 1" and t: "unat t < 2 ^ 63" and ft: "f \<le> t"
    using head next_target_iff [of "Some c" head conf f t] by (auto simp: word_le_nat_alt)
  from cap_range_to_bounds [OF ft, of cap] have r: "fst rng = f" "unat (snd rng) \<le> unat t"
    by (simp_all add: rng word_le_nat_alt)
  have bpos: "0 < unat b"
    using cs by (auto simp: range_chunks_def word_less_nat_alt unat_gt_0 split: if_splits)
  have "unat (snd rng) + unat b < 2 ^ 64"
    using r t b by simp
  from chunks_from_partition [OF bpos this, of "unat f"] cs r(1) bpos
  have "concat (map chunk_blocks cs) = [unat f..<Suc (unat (snd rng))] \<and> (\<forall>x\<in>set cs. fst x \<le> snd x)"
    by (auto simp: range_chunks_def unat_gt_0 simp del: upt_Suc)
  with f r t show ?thesis
    unfolding next_chunks_def cp(1)
    by (intro exI [of _ c] exI [of _ "unat (snd rng)"]) simp
qed

lemma rollback_covered:
  assumes ok: "db_ok d" and cov: "covered lo d" and lo: "1 \<le> lo"
    and rb: "rollback_from_block now f d = Inr (n, d')"
    and jump: "\<forall>c c'. get_last_checkpoint 1 d = Some c \<longrightarrow> get_last_checkpoint 1 d' = Some c' \<longrightarrow>
       c' \<le> max c 0"
  shows "db_ok d' \<and> covered lo d'"
proof -
  from rb have d': "d' = rolled_back now f d"
    using rollback_value [OF ok, of now f] by simp
  from cov obtain c where c: "get_last_checkpoint 1 d = Some c" "c < 2 ^ 63"
      "\<forall>n. lo \<le> n \<and> n \<le> c \<longrightarrow> block_known d n"
    by (auto simp: covered_def)
  then have c': "get_last_checkpoint 1 d' = Some (max (f - 1) 0)"
    by (auto simp: d' get_last_checkpoint_def)
  with jump c(1) have le: "max (f - 1) 0 \<le> max c 0" by blast
  have "block_known d' n" if "lo \<le> n" "n \<le> max (f - 1) 0" for n
  proof -
    have "n \<le> c" "n < f"
      using that le lo by auto
    with c(3) that show ?thesis
      by (auto simp: d' block_known_def)
  qed
  moreover have "max (f - 1) 0 < 2 ^ 63"
    using le c(2) by (simp add: max_def split: if_splits)
  ultimately show ?thesis
    using rolled_back_ok [OF ok] c' by (auto simp: covered_def d')
qed

lemma follow_step_inv:
  assumes P: "params_ok P" and lo: "1 \<le> lo"
    and inv: "follow_inv P lo s" and step: "follow_step P s s' \<and> no_jump s s'"
  shows "follow_inv P lo s'"
proof -
  from inv have ok: "db_ok (fs_db s)" and cov: "covered lo (fs_db s)"
    by (simp_all add: follow_inv_def)
  from step have "follow_step P s s'" and nj: "no_jump s s'" by simp_all
  from this(1) show ?thesis
  proof cases
    case (Reorg rpc f now rolled d')
    have "db_ok d' \<and> covered lo d'"
      by (rule rollback_covered [OF ok cov lo Reorg(4)])
        (use nj Reorg in \<open>simp add: no_jump_def\<close>)
    with Reorg show ?thesis by (simp add: follow_inv_def)
  next
    case (Target rpc head f t rng cs)
    from cov obtain c where c: "get_last_checkpoint 1 (fs_db s) = Some c" "c < 2 ^ 63"
      by (auto simp: covered_def)
    have "next_chunks (fs_db s) cs"
      using Target P by (intro target_next_chunks [OF c Target(4) _ Target(6,7)])
        (simp_all add: c params_ok_def)
    with Target ok cov show ?thesis by (simp add: follow_inv_def)
  next
    case (ChunkBegin rng c cs rvs)
    with inv chunk_start_inv [of "ip_max_concurrent P"
        "map (\<lambda>n. process_block (ip_ext P) (rvs n) n) (chunk_numbers c)" "fs_db s"]
    show ?thesis by (auto simp: follow_inv_def process_chunk_def)
  next
    case (ChunkRun rng c w cs w' d')
    note g = chunk_step_grow [OF ChunkRun(3)]
    from inv ChunkRun(2) obtain rvs d0 where
        "chunk_inv (ip_max_concurrent P)
           (map (\<lambda>n. process_block (ip_ext P) (rvs n) n) (chunk_numbers c)) d0 (w, fs_db s)"
        and nc: "next_chunks (fs_db s) (c # cs)"
      by (auto simp: follow_inv_def)
    with chunk_step_inv ChunkRun(3) have "chunk_inv (ip_max_concurrent P)
           (map (\<lambda>n. process_block (ip_ext P) (rvs n) n) (chunk_numbers c)) d0 (w', d')"
      by blast
    moreover have "next_chunks d' (c # cs)"
      using nc g by (simp add: next_chunks_def get_last_checkpoint_def)
    ultimately show ?thesis
      using ChunkRun g ok covered_grow [OF cov] by (auto simp: follow_inv_def)
  next
    case (ChunkDone rng c w cs now)
    from inv ChunkDone(2) obtain rvs d0 where
        ci: "chunk_inv (ip_max_concurrent P)
           (map (\<lambda>n. process_block (ip_ext P) (rvs n) n) (chunk_numbers c)) d0 (w, fs_db s)"
        and nc: "next_chunks (fs_db s) (c # cs)"
      by (auto simp: follow_inv_def)
    have "\<forall>n\<in>set (chunk_numbers c). block_known (fs_db s) (as_i64 n)"
      using chunk_over_known [OF ci ChunkDone(3,4)] by blast
    from chunk_done_covered [OF cov nc lo this, of now] ok ChunkDone show ?thesis
      by (simp add: follow_inv_def)
  qed (use ok cov in \<open>simp_all add: follow_inv_def\<close>)
qed

interpretation follow: invariant_system "\<lambda>s s'. follow_step P s s' \<and> no_jump s s'"
    "\<lambda>s. params_ok P \<and> 1 \<le> lo \<and> follow_inv P lo s"
  by unfold_locales (use follow_step_inv in blast)

section \<open>Properties\<close>

text \<open>C1. The checkpoint is sound for crash recovery: from a consistent database in which all blocks
  from \<open>lo\<close> (at least 1) to the checkpoint are stored, whatever the node answers, however the
  statements of the concurrent block tasks interleave, and wherever the process fails, is stopped
  and is restarted, every reachable database is consistent and stores every block from \<open>lo\<close> to
  its checkpoint - provided no rollback moves the checkpoint forward (see the next property).\<close>

theorem checkpoint_sound:
  assumes "params_ok P" "1 \<le> lo" "db_ok (fs_db s)" "covered lo (fs_db s)" "fs_phase s = CycleStart"
    and "(\<lambda>s s'. follow_step P s s' \<and> no_jump s s')\<^sup>*\<^sup>* s s'"
  shows "db_ok (fs_db s') \<and>
    (\<exists>c. get_last_checkpoint 1 (fs_db s') = Some c \<and>
       (\<forall>n. lo \<le> n \<and> n \<le> c \<longrightarrow> block_known (fs_db s') n))"
proof -
  have "follow_inv P lo s"
    using assms by (simp add: follow_inv_def)
  with follow.reachable_inv [OF assms(6), of lo] assms have "follow_inv P lo s'"
    by simp
  then show ?thesis
    by (auto simp: follow_inv_def covered_def)
qed

section \<open>A checkpoint that jumps\<close>

definition jump_header :: rpc_header where
  "jump_header = \<lparr>hd_hash = 5, hd_parent_hash = 4, hd_timestamp = 3, hd_gas_used = 2\<rparr>"

definition jump_view :: rpc_view where
  "jump_view = \<lparr>rv_head = Inr 13, rv_header_hash = (\<lambda>h. Inr None),
     rv_block = (\<lambda>n. Inr (Some \<lparr>rb_header = jump_header, rb_txs = []\<rparr>)),
     rv_receipts = (\<lambda>n. Inr None), rv_trace = (\<lambda>h. Inl ''none'')\<rparr>"

definition jump_block :: "int \<Rightarrow> block" where
  "jump_block n = \<lparr>blk_number = n, blk_timestamp = seconds 3, blk_gas_used = 2,
     blk_hash = Some ''0x05'', blk_parent_hash = Some ''0x05''\<rparr>"

lemma jump_process_block:
  "unat n < 2 ^ 63 \<Longrightarrow> process_block sample_wx jump_view n = [InsBlocks [jump_block (int (unat n))]]"
  by (simp add: process_block_def jump_view_def jump_header_def sample_wx_fields block_model_def
      jump_block_def as_i64_small unless_empty_def block_events_def models_simps
      failed_actions_def failed_hashes_def Let_def)

definition jump_db :: "int list \<Rightarrow> int \<Rightarrow> chain_db" where
  "jump_db ns cp = empty_db\<lparr>db_blocks := map jump_block ns, db_checkpoints := [1 \<mapsto> (cp, 0)]\<rparr>"

definition jump_params :: indexer_params where
  "jump_params = \<lparr>ip_ext = sample_wx, ip_batch_size = 100, ip_max_concurrent = 3, ip_confirmations = 0, ip_trigger = Polling\<rparr>"

lemma jump_insert:
  "n \<notin> set ns \<Longrightarrow> exec_action (InsBlocks [jump_block n]) (jump_db ns cp) = Inr (jump_db (ns @ [n]) cp)"
  by (simp add: insert_blocks_def insert_do_nothing_def Let_def jump_db_def row_ok_defs opt_ok_def
      text_ok_def char_code_def) (simp add: jump_block_def image_iff char_code_def row_ok_defs opt_ok_def text_ok_def)

definition state_at :: "bool \<Rightarrow> phase \<Rightarrow> chain_db \<Rightarrow> follow_metrics \<Rightarrow> follow_state" where
  "state_at r ph d m = \<lparr>fs_phase = ph, fs_db = d, fs_metrics = m, fs_subscribed = r\<rparr>"

lemma state_at_fields [simp]:
  "fs_phase (state_at r ph d m) = ph" "fs_db (state_at r ph d m) = d" "fs_metrics (state_at r ph d m) = m"
  "fs_subscribed (state_at r ph d m) = r"
  by (simp_all add: state_at_def)

abbreviation "jump_state \<equiv> state_at False"

lemma jump_local:
  "local_hashes (jump_db [10] 10) = [(10, ''0x05'')]"
  "local_hashes (jump_db [10, 11, 13] 10) = [(13, ''0x05''), (11, ''0x05''), (10, ''0x05'')]"
  by (simp_all add: local_hashes_def recent_block_hashes_def reorg_scan_cap_def jump_db_def
      jump_block_def as_u64_def)

definition jump_rpc :: hash_rpc where
  "jump_rpc h = Inr (Some (if h = 13 then ''0x06'' else ''0x05''))"

lemma jump_detect:
  "detect_fork jump_rpc [(10, ''0x05'')] = None"
  "detect_fork jump_rpc [(13, ''0x05''), (11, ''0x05''), (10, ''0x05'')] = Some 13"
  by (simp_all add: detect_fork_def detect_loop.simps classify_fork_def next_scan_depth_def
      Let_def jump_rpc_def)

lemma jump_chunks: "range_chunks 100 11 13 = Ret [(11, 13)]"
  by (simp add: range_chunks_def chunk_starts.simps chunk_end_def)

lemma jump_tasks: "process_chunk sample_wx (\<lambda>_. jump_view) (11, 13) =
   chunk_start [[InsBlocks [jump_block 11]], [InsBlocks [jump_block 12]], [InsBlocks [jump_block 13]]]"
  by (simp add: process_chunk_def chunk_numbers_def chunk_blocks_def jump_process_block upt_rec)

lemma jump_chunk_run:
  "(chunk_step 3)\<^sup>*\<^sup>* (process_chunk sample_wx (\<lambda>_. jump_view) (11, 13), jump_db [10] 10)
     (\<lparr>ct_waiting = [], ct_running = [[], []], ct_failed = True\<rparr>, jump_db [10, 11, 13] 10)"
proof -
  let ?t = "\<lambda>n. [InsBlocks [jump_block n]]"
  let ?s = "\<lambda>w r f. \<lparr>ct_waiting = w, ct_running = r, ct_failed = f\<rparr>"
  let ?d = "jump_db [10] 10"
  have "chunk_step 3 (?s [?t 11, ?t 12, ?t 13] [] False, ?d) (?s [?t 12, ?t 13] [?t 11] False, ?d)"
    using Acquire [of "?s [?t 11, ?t 12, ?t 13] [] False" "[]" "?t 11" "[?t 12, ?t 13]" 3 ?d] by simp
  moreover have "chunk_step 3 (?s [?t 12, ?t 13] [?t 11] False, ?d) (?s [?t 13] [?t 11, ?t 12] False, ?d)"
    using Acquire [of "?s [?t 12, ?t 13] [?t 11] False" "[]" "?t 12" "[?t 13]" 3 ?d] by simp
  moreover have "chunk_step 3 (?s [?t 13] [?t 11, ?t 12] False, ?d) (?s [] [?t 11, ?t 12, ?t 13] False, ?d)"
    using Acquire [of "?s [?t 13] [?t 11, ?t 12] False" "[]" "?t 13" "[]" 3 ?d] by simp
  moreover have "chunk_step 3 (?s [] [?t 11, ?t 12, ?t 13] False, ?d)
      (?s [] [[], ?t 12, ?t 13] False, jump_db [10, 11] 10)"
    using Exec [of "?s [] [?t 11, ?t 12, ?t 13] False" "[]" "InsBlocks [jump_block 11]" "[]"
        "[?t 12, ?t 13]" ?d "jump_db [10, 11] 10" 3] jump_insert [of 11 "[10]" 10] by simp
  moreover have "chunk_step 3 (?s [] [[], ?t 12, ?t 13] False, jump_db [10, 11] 10)
      (?s [] [[], ?t 12, []] False, jump_db [10, 11, 13] 10)"
    using Exec [of "?s [] [[], ?t 12, ?t 13] False" "[[], ?t 12]" "InsBlocks [jump_block 13]" "[]"
        "[]" "jump_db [10, 11] 10" "jump_db [10, 11, 13] 10" 3] jump_insert [of 13 "[10, 11]" 10] by simp
  moreover have "chunk_step 3 (?s [] [[], ?t 12, []] False, jump_db [10, 11, 13] 10)
      (?s [] [[], []] True, jump_db [10, 11, 13] 10)"
    using Fault [of "?s [] [[], ?t 12, []] False" "[[]]" "InsBlocks [jump_block 12]" "[]" "[[]]" 3
        "jump_db [10, 11, 13] 10"] by simp
  ultimately show ?thesis
    unfolding jump_tasks chunk_start_def by (meson rtranclp.rtrancl_refl converse_rtranclp_into_rtranclp)
qed

text \<open>The chunk of block 11 alone, run to its end.\<close>

lemma single_tasks:
  "process_chunk sample_wx (\<lambda>_. jump_view) (11, 11) = chunk_start [[InsBlocks [jump_block 11]]]"
  by (simp add: process_chunk_def chunk_numbers_def chunk_blocks_def jump_process_block)

lemma single_chunk_run:
  "(chunk_step 3)\<^sup>*\<^sup>* (process_chunk sample_wx (\<lambda>_. jump_view) (11, 11), jump_db [10] 10)
     (\<lparr>ct_waiting = [], ct_running = [], ct_failed = False\<rparr>, jump_db [10, 11] 10)"
proof -
  let ?t = "[InsBlocks [jump_block 11]]"
  let ?s = "\<lambda>w r. \<lparr>ct_waiting = w, ct_running = r, ct_failed = False\<rparr>"
  have "chunk_step 3 (?s [?t] [], jump_db [10] 10) (?s [] [?t], jump_db [10] 10)"
    using Acquire [of "?s [?t] []" "[]" ?t "[]" 3 "jump_db [10] 10"] by simp
  moreover have "chunk_step 3 (?s [] [?t], jump_db [10] 10) (?s [] [[]], jump_db [10, 11] 10)"
    using Exec [of "?s [] [?t]" "[]" "InsBlocks [jump_block 11]" "[]" "[]" "jump_db [10] 10"
        "jump_db [10, 11] 10" 3] jump_insert [of 11 "[10]" 10] by simp
  moreover have "chunk_step 3 (?s [] [[]], jump_db [10, 11] 10) (?s [] [], jump_db [10, 11] 10)"
    using Finish [of "?s [] [[]]" "[]" "[]" 3 "jump_db [10, 11] 10"] by simp
  ultimately show ?thesis
    unfolding single_tasks chunk_start_def by (meson rtranclp.rtrancl_refl converse_rtranclp_into_rtranclp)
qed

lemma process_chunk_complete_witness:
  "\<exists>s d'. (chunk_step 3)\<^sup>*\<^sup>* (process_chunk sample_wx (\<lambda>_. jump_view) (11, 11), jump_db [10] 10) (s, d') \<and>
     chunk_over s \<and> \<not> ct_failed s \<and> block_known d' 11 \<and> db_checkpoints d' = [1 \<mapsto> (10, 0)]"
  using process_chunk_complete [OF single_chunk_run] single_chunk_run
  by (intro exI [of _ "\<lparr>ct_waiting = [], ct_running = [], ct_failed = False\<rparr>"] exI [of _ "jump_db [10, 11] 10"])
    (simp add: chunk_over_def chunk_numbers_def chunk_blocks_def as_i64_small jump_db_def)

lemma chunk_terminates_witness:
  "(\<exists>sd'. chunk_step 3 (process_chunk sample_wx (\<lambda>_. jump_view) (11, 13), jump_db [10] 10) sd') \<and>
   \<not> chunk_over (process_chunk sample_wx (\<lambda>_. jump_view) (11, 13))"
  using chunk_terminates [of 3 "process_chunk sample_wx (\<lambda>_. jump_view) (11, 13)" "jump_db [10] 10"
      undefined undefined sample_wx "\<lambda>_. jump_view" "(11, 13)" undefined]
  by auto

text \<open>Steps of a chunk are steps of the loop, in every relation that admits them.\<close>

lemma lift_chunk_run:
  assumes "(chunk_step p)\<^sup>*\<^sup>* (w, d) wd'"
    and "\<And>w d w' d'. chunk_step p (w, d) (w', d') \<Longrightarrow>
      R (state_at r (InChunk rng c w cs) d m) (state_at r (InChunk rng c w' cs) d' m)"
  shows "R\<^sup>*\<^sup>* (state_at r (InChunk rng c w cs) d m) (state_at r (InChunk rng c (fst wd') cs) (snd wd') m)"
  using assms(1)
proof (induction rule: rtranclp_induct)
  case (step y z)
  with assms(2) [of "fst y" "snd y" "fst z" "snd z"] show ?case
    by (auto intro: rtranclp.rtrancl_into_rtrancl)
qed simp

lemma chunk_run_step:
  "chunk_step (ip_max_concurrent P) (w, d) (w', d') \<Longrightarrow>
   follow_step P (state_at r (InChunk rng c w cs) d m) (state_at r (InChunk rng c w' cs) d' m)"
  using ChunkRun [of "state_at r (InChunk rng c w cs) d m" rng c w cs P w' d'] by (simp add: state_at_def)

lemma follow_chunk_run:
  "(chunk_step (ip_max_concurrent P))\<^sup>*\<^sup>* (w, d) wd' \<Longrightarrow>
   (follow_step P)\<^sup>*\<^sup>* (jump_state (InChunk rng c w cs) d m)
     (jump_state (InChunk rng c (fst wd') cs) (snd wd') m)"
  by (erule lift_chunk_run) (rule chunk_run_step)

lemma jump_next: "next_target 13 0 (Some 10) = Some (11, 13)" "next_target 13 0 (Some 12) = Some (13, 13)"
  by (rule iffD2 [OF next_target_iff], simp, simp)+

lemma jump_cap: "cap_range_to 11 13 follow_cycle_block_cap = (11, 13)"
  by (simp add: cap_range_to_def follow_cycle_block_cap_def saturating_add_def saturating_sub_def)

lemma jump_cp: "get_last_checkpoint 1 (jump_db ns c) = Some c"
  by (simp add: jump_db_def get_last_checkpoint_def)

lemma jump_target_step:
  "follow_step jump_params (jump_state CycleStart (jump_db [10] 10) default_metrics)
     (jump_state (Indexing (11, 13) [(11, 13)]) (jump_db [10] 10) (default_metrics\<lparr>fm_cycle := 1\<rparr>))"
proof -
  let ?s = "jump_state CycleStart (jump_db [10] 10) default_metrics"
  have p: "fs_phase ?s = CycleStart" "detect_fork jump_rpc (local_hashes (fs_db ?s)) = None"
      "unat (13 :: u64) < 2 ^ 63"
      "next_target 13 (ip_confirmations jump_params) (get_last_checkpoint 1 (fs_db ?s)) = Some (11, 13)"
      "range_chunks (ip_batch_size jump_params) (fst (11, 13)) (snd (11, 13)) = Ret [(11, 13)]"
    by (simp_all add: state_at_def jump_local jump_detect jump_params_def jump_cp jump_next jump_chunks)
  have "follow_step jump_params ?s (?s\<lparr>fs_phase := Indexing (11, 13) [(11, 13)],
      fs_metrics := (fs_metrics ?s)\<lparr>fm_cycle := fm_cycle (fs_metrics ?s) + 1\<rparr>\<rparr>)"
    by (rule Target [OF p(1-4) jump_cap [symmetric] p(5)])
  then show ?thesis
    by (simp add: state_at_def default_metrics_def)
qed

lemma jump_covered: "db_ok (jump_db [10] 10) \<and> covered 10 (jump_db [10] 10)"
  by (simp add: covered_def jump_cp)
    (simp add: block_known_def jump_db_def empty_db_def jump_block_def db_ok_unfold)

lemma follow_chunk_run_no_jump:
  "(chunk_step (ip_max_concurrent P))\<^sup>*\<^sup>* (w, d) wd' \<Longrightarrow>
   (\<lambda>s s'. follow_step P s s' \<and> no_jump s s')\<^sup>*\<^sup>* (jump_state (InChunk rng c w cs) d m)
     (jump_state (InChunk rng c (fst wd') cs) (snd wd') m)"
  by (erule lift_chunk_run) (simp add: chunk_run_step, simp add: no_jump_def state_at_def)

text \<open>One whole cycle: the target 11 is found, its chunk is indexed, and the checkpoint moves to it.\<close>

lemma single_target_step:
  "follow_step jump_params (jump_state CycleStart (jump_db [10] 10) default_metrics)
     (jump_state (Indexing (11, 11) [(11, 11)]) (jump_db [10] 10) (default_metrics\<lparr>fm_cycle := 1\<rparr>))"
proof -
  let ?s = "jump_state CycleStart (jump_db [10] 10) default_metrics"
  have n: "next_target 11 0 (Some 10) = Some (11, 11)"
    by (rule iffD2 [OF next_target_iff], simp, simp)
  have p: "fs_phase ?s = CycleStart" "detect_fork jump_rpc (local_hashes (fs_db ?s)) = None"
      "unat (11 :: u64) < 2 ^ 63"
      "next_target 11 (ip_confirmations jump_params) (get_last_checkpoint 1 (fs_db ?s)) = Some (11, 11)"
      "(11, 11) = cap_range_to 11 11 follow_cycle_block_cap"
      "range_chunks (ip_batch_size jump_params) (fst (11, 11)) (snd (11, 11)) = Ret [(11, 11)]"
    by (simp_all add: state_at_def jump_local jump_detect jump_params_def jump_cp n cap_range_to_def
        follow_cycle_block_cap_def saturating_add_def saturating_sub_def range_chunks_def
        chunk_starts.simps chunk_end_def)
  have "follow_step jump_params ?s (?s\<lparr>fs_phase := Indexing (11, 11) [(11, 11)],
      fs_metrics := (fs_metrics ?s)\<lparr>fm_cycle := fm_cycle (fs_metrics ?s) + 1\<rparr>\<rparr>)"
    by (rule Target [OF p])
  then show ?thesis
    by (simp add: state_at_def default_metrics_def)
qed

lemma single_cycle_run:
  "(\<lambda>s s'. follow_step jump_params s s' \<and> no_jump s s')\<^sup>*\<^sup>*
     (jump_state CycleStart (jump_db [10] 10) default_metrics)
     (jump_state (Indexing (11, 11) []) (jump_db [10, 11] 11) (default_metrics\<lparr>fm_cycle := 1\<rparr>))"
proof -
  let ?m = "default_metrics\<lparr>fm_cycle := 1\<rparr>" and ?c = "(11, 11) :: u64 \<times> u64"
  let ?w = "process_chunk sample_wx (\<lambda>_. jump_view) ?c"
  let ?w' = "\<lparr>ct_waiting = [], ct_running = [], ct_failed = False\<rparr> :: chunk_tasks"
  have nj: "no_jump (jump_state CycleStart d m) (jump_state ph d m')" "ph \<noteq> CycleStart \<Longrightarrow>
      no_jump (jump_state ph d m) (jump_state ph' d' m')" for d m ph m' ph' d'
    by (auto simp: no_jump_def state_at_def)
  have 2: "follow_step jump_params (jump_state (Indexing ?c [?c]) (jump_db [10] 10) ?m)
      (jump_state (InChunk ?c ?c ?w []) (jump_db [10] 10) ?m)"
    using ChunkBegin [of "jump_state (Indexing ?c [?c]) (jump_db [10] 10) ?m" ?c ?c "[]"
        jump_params "\<lambda>_. jump_view"]
    by (simp add: state_at_def jump_params_def)
  have 3: "(\<lambda>s s'. follow_step jump_params s s' \<and> no_jump s s')\<^sup>*\<^sup>*
      (jump_state (InChunk ?c ?c ?w []) (jump_db [10] 10) ?m)
      (jump_state (InChunk ?c ?c ?w' []) (jump_db [10, 11] 10) ?m)"
    using follow_chunk_run_no_jump [of jump_params ?w "jump_db [10] 10" "(?w', jump_db [10, 11] 10)" ?c ?c "[]" ?m]
      single_chunk_run by (simp add: jump_params_def)
  have 4: "follow_step jump_params (jump_state (InChunk ?c ?c ?w' []) (jump_db [10, 11] 10) ?m)
      (jump_state (Indexing ?c []) (jump_db [10, 11] 11) ?m)"
    using ChunkDone [of "jump_state (InChunk ?c ?c ?w' []) (jump_db [10, 11] 10) ?m" ?c ?c ?w' "[]"
        jump_params 0]
    by (simp add: state_at_def chunk_over_def update_checkpoint_def jump_db_def as_i64_small)
  let ?R = "\<lambda>s s'. follow_step jump_params s s' \<and> no_jump s s'"
  have 1: "?R (jump_state CycleStart (jump_db [10] 10) default_metrics)
      (jump_state (Indexing ?c [?c]) (jump_db [10] 10) ?m)"
    using single_target_step nj(1) by blast
  have 22: "?R (jump_state (Indexing ?c [?c]) (jump_db [10] 10) ?m)
      (jump_state (InChunk ?c ?c ?w []) (jump_db [10] 10) ?m)"
    using 2 by (simp add: nj(2))
  have 44: "?R (jump_state (InChunk ?c ?c ?w' []) (jump_db [10, 11] 10) ?m)
      (jump_state (Indexing ?c []) (jump_db [10, 11] 11) ?m)"
    using 4 by (simp add: nj(2))
  show ?thesis
    by (rule converse_rtranclp_into_rtranclp [of ?R, OF 1 converse_rtranclp_into_rtranclp [of ?R, OF 22
        rtranclp.rtrancl_into_rtrancl [of ?R, OF 3 44]]])
qed

lemma checkpoint_sound_witness:
  "\<exists>s'. (follow_step jump_params)\<^sup>*\<^sup>* (jump_state CycleStart (jump_db [10] 10) default_metrics) s' \<and>
     db_ok (fs_db s') \<and> get_last_checkpoint 1 (fs_db s') = Some 11 \<and>
     block_known (fs_db s') 10 \<and> block_known (fs_db s') 11"
proof -
  let ?s = "jump_state CycleStart (jump_db [10] 10) default_metrics"
  let ?s' = "jump_state (Indexing (11, 11) []) (jump_db [10, 11] 11) (default_metrics\<lparr>fm_cycle := 1\<rparr>)"
  have st: "fs_db (jump_state ph d m) = d" "fs_phase (jump_state ph d m) = ph" for ph d m
    by (simp_all add: state_at_def)
  have run: "(follow_step jump_params)\<^sup>*\<^sup>* ?s ?s'"
    by (rule rtranclp_mono [THEN predicate2D, OF _ single_cycle_run]) blast
  have ok: "params_ok jump_params" "(1 :: int) \<le> 10"
    by (simp_all add: params_ok_def jump_params_def)
  note c = checkpoint_sound [OF ok, of ?s, unfolded st, OF conjunct1 [OF jump_covered]
      conjunct2 [OF jump_covered] refl single_cycle_run, unfolded st]
  have "get_last_checkpoint 1 (jump_db [10, 11] 11) = Some 11"
    by (rule jump_cp)
  with c run show ?thesis
    by (intro exI [of _ ?s']) (simp add: st)
qed

text \<open>C6. A rollback can move the checkpoint forward past a block that was never stored. Concretely:
  with block 10 stored and checkpointed, blocks 11 to 13 are processed concurrently, 11 and 13 are
  committed, 12 fails and the process stops; after the restart the tip 13 is found reorged, the
  rollback from 13 sets the checkpoint to 12, and the loop resumes at 13: block 12 is never indexed.\<close>

theorem rollback_skips_block:
  "\<exists>s. (follow_step jump_params)\<^sup>*\<^sup>*
       (jump_state CycleStart (jump_db [10] 10) default_metrics) s \<and>
     fs_phase s = CycleStart \<and> covered 10 (jump_db [10] 10) \<and>
     \<not> block_known (fs_db s) 12 \<and>
     next_target 13 0 (get_last_checkpoint 1 (fs_db s)) = Some (13, 13)"
proof -
  let ?m1 = "default_metrics\<lparr>fm_cycle := 1\<rparr>"
  let ?d = "jump_db [10] 10" and ?d' = "jump_db [10, 11, 13] 10"
  let ?w = "process_chunk sample_wx (\<lambda>_. jump_view) (11, 13)"
  let ?w' = "\<lparr>ct_waiting = [], ct_running = [[], []], ct_failed = True\<rparr>"
  note 1 = jump_target_step
  have 2: "follow_step jump_params (jump_state (Indexing (11, 13) [(11, 13)]) ?d ?m1)
      (jump_state (InChunk (11, 13) (11, 13) ?w []) ?d ?m1)"
    using ChunkBegin [of "jump_state (Indexing (11, 13) [(11, 13)]) ?d ?m1" "(11, 13)" "(11, 13)" "[]"
        jump_params "\<lambda>_. jump_view"]
    by (simp add: state_at_def jump_params_def)
  have 3: "(follow_step jump_params)\<^sup>*\<^sup>* (jump_state (InChunk (11, 13) (11, 13) ?w []) ?d ?m1)
      (jump_state (InChunk (11, 13) (11, 13) ?w' []) ?d' ?m1)"
    using follow_chunk_run [of jump_params ?w ?d "(?w', ?d')" "(11, 13)" "(11, 13)" "[]" ?m1]
      jump_chunk_run by (simp add: jump_params_def)
  have 4: "follow_step jump_params (jump_state (InChunk (11, 13) (11, 13) ?w' []) ?d' ?m1)
      (jump_state Stopped ?d' ?m1)"
    using ChunkError [of "jump_state (InChunk (11, 13) (11, 13) ?w' []) ?d' ?m1" "(11, 13)" "(11, 13)"
        ?w' "[]" jump_params]
    by (simp add: state_at_def)
  have 5: "follow_step jump_params (jump_state Stopped ?d' ?m1) (jump_state CycleStart ?d' default_metrics)"
    using Restart [of "jump_state Stopped ?d' ?m1" jump_params]
    by (simp add: state_at_def jump_params_def head_ticks_def)
  have ok: "db_ok ?d'"
    by (simp add: jump_db_def empty_db_def jump_block_def db_ok_unfold)
  define m2 where "m2 = default_metrics\<lparr>fm_cycle := 1, fm_reorgs := 1,
    fm_last_reorg_depth := length (filter (\<lambda>b. 13 \<le> blk_number b) (db_blocks ?d'))\<rparr>"
  have 6: "follow_step jump_params (jump_state CycleStart ?d' default_metrics)
      (jump_state CycleStart (rolled_back 0 13 ?d') m2)"
    using Reorg [of "jump_state CycleStart ?d' default_metrics" jump_rpc 13 0
        "length (filter (\<lambda>b. 13 \<le> blk_number b) (db_blocks ?d'))" "rolled_back 0 13 ?d'" jump_params]
      rollback_value [OF ok, of 0 13]
    by (simp add: state_at_def jump_local jump_detect as_i64_small m2_def default_metrics_def)
  have "\<not> block_known (rolled_back 0 13 ?d') 12"
    by (simp add: block_known_def jump_db_def jump_block_def)
  moreover have "get_last_checkpoint 1 (rolled_back 0 13 ?d') = Some 12"
    by (simp add: get_last_checkpoint_def jump_db_def)
  moreover have "covered 10 ?d"
    using jump_covered by simp
  moreover have "(follow_step jump_params)\<^sup>*\<^sup>* (jump_state CycleStart ?d default_metrics)
      (jump_state CycleStart (rolled_back 0 13 ?d') m2)"
    using 1 2 3 4 5 6 by (meson rtranclp.rtrancl_refl converse_rtranclp_into_rtranclp rtranclp_trans)
  ultimately show ?thesis
    by (intro exI [of _ "jump_state CycleStart (rolled_back 0 13 ?d') m2"])
      (simp add: jump_next state_at_def)
qed

end
