(* ===== verification/Follow_Laws.thy ===== *)
theory Follow_Laws
  imports Indexer
begin

text \<open>
  What a cycle of \<open>follow\<close> (\<open>src/crates/indexer/src/worker.rs\<close>) achieves: it ends, even when reorg
  after reorg sends the loop back to its start; a cycle that is not stopped has indexed exactly its
  range; and from every state, crashed or not, the loop can catch up with the head of a node that
  serves the blocks.
\<close>

section \<open>A cycle ends\<close>

definition i64_blocks :: "chain_db \<Rightarrow> bool" where
  "i64_blocks d \<longleftrightarrow> (\<forall>b\<in>set (db_blocks d). - (2 ^ 63) \<le> blk_number b \<and> blk_number b < 2 ^ 63)"

lemma detect_fork_local:
  assumes "detect_fork rpc local = Some f"
  shows "f \<in> fst ` set local"
proof -
  from assms have "local \<noteq> []" and "detect_loop rpc local Map.empty 1 = Some f"
    by (auto simp: detect_fork_def split: if_splits)
  with detect_loop_result [of rpc Map.empty 1 local]
  have "takeWhile (differs rpc) local \<noteq> []" "full_scan rpc local = Some f"
    by (auto simp: agrees_def)
  then have "f = fst (last (takeWhile (differs rpc) local))" "last (takeWhile (differs rpc) local) \<in> set local"
    by (auto simp: full_scan_def Let_def dest: set_takeWhileD [OF last_in_set])
  then show ?thesis by blast
qed

lemma as_i64_as_u64: "- (2 ^ 63) \<le> n \<Longrightarrow> n < 2 ^ 63 \<Longrightarrow> as_i64 (as_u64 n) = n"
  by (simp add: as_i64_def as_u64_def sint_sbintrunc' signed_take_bit_int_eq_self)

lemma local_hashes_block:
  assumes "(h, x) \<in> set (local_hashes d)"
  shows "\<exists>b\<in>set (db_blocks d). h = as_u64 (blk_number b)"
  using assms by (auto simp: local_hashes_def recent_block_hashes_def dest!: in_set_takeD split: if_splits)

text \<open>A reorg removes at least one block.\<close>

lemma reorg_shrinks:
  assumes "db_ok d" "i64_blocks d" "detect_fork rpc (local_hashes d) = Some f"
    and "rollback_from_block now (as_i64 f) d = Inr (n, d')"
  shows "length (db_blocks d') < length (db_blocks d) \<and> db_ok d' \<and> i64_blocks d'"
proof -
  obtain b where b: "b \<in> set (db_blocks d)" "f = as_u64 (blk_number b)"
    using detect_fork_local [OF assms(3)] local_hashes_block by fastforce
  then have f: "as_i64 f = blk_number b"
    using assms(2) by (simp add: i64_blocks_def as_i64_as_u64)
  have d': "d' = rolled_back now (as_i64 f) d"
    using assms(4) rollback_value [OF assms(1), of now "as_i64 f"] by simp
  have "length (filter (\<lambda>c. blk_number c < as_i64 f) (db_blocks d)) < length (db_blocks d)"
    using b(1) f by (intro length_filter_less [of b]) simp_all
  moreover have "i64_blocks d'"
    using assms(2) by (simp add: i64_blocks_def d')
  ultimately show ?thesis
    using rolled_back_ok [OF assms(1)] by (simp add: d')
qed

definition cycle_measure :: "follow_state \<Rightarrow> nat \<times> nat \<times> nat" where
  "cycle_measure s = (case fs_phase s of
     CycleStart \<Rightarrow> (2, length (db_blocks (fs_db s)), 0)
   | Indexing _ cs \<Rightarrow> (1, 2 * length cs, 0)
   | InChunk _ _ w cs \<Rightarrow> (1, 2 * length cs + 1, chunk_measure w)
   | _ \<Rightarrow> (0, 0, 0))"

abbreviation cycle_order :: "((nat \<times> nat \<times> nat) \<times> (nat \<times> nat \<times> nat)) set" where
  "cycle_order \<equiv> less_than <*lex*> less_than <*lex*> less_than"

lemma cycle_step_smaller:
  assumes "follow_step P s s'" "fs_phase s \<notin> {CycleEnd, Stopped}"
    and "fs_phase s = CycleStart \<Longrightarrow> db_ok (fs_db s) \<and> i64_blocks (fs_db s)"
  shows "(cycle_measure s', cycle_measure s) \<in> cycle_order \<and>
    (fs_phase s' = CycleStart \<longrightarrow> db_ok (fs_db s') \<and> i64_blocks (fs_db s'))"
  using assms(1)
proof cases
  case (Reorg rpc f now rolled d')
  with reorg_shrinks [OF _ _ Reorg(3,4)] assms(3) show ?thesis
    by (simp add: cycle_measure_def)
next
  case (ChunkRun rng c w cs w' d')
  with chunk_step_measure [OF ChunkRun(3)] show ?thesis
    by (simp add: cycle_measure_def)
next
  case ChunkError
  then show ?thesis by (simp add: cycle_measure_def)
next
  case Stop
  then have "cycle_measure s' = (0, 0, 0)" "fs_phase s' = Stopped" by (simp_all add: cycle_measure_def)
  with assms(2) show ?thesis by (cases "fs_phase s") (simp_all add: cycle_measure_def [of s])
qed (use assms(2) in \<open>simp_all add: cycle_measure_def\<close>)

text \<open>C5. Every cycle of the follow loop ends, whatever the node answers and however the tasks are
  scheduled: an infinite run that starts a cycle on a consistent database reaches the wait for the
  next trigger, or stops. Reorgs restart the cycle without waiting, but each of them removes a block.\<close>

theorem follow_cycle_ends:
  assumes "fs_phase (run 0) = CycleStart" "db_ok (fs_db (run 0))" "i64_blocks (fs_db (run 0))"
    and "\<And>i. follow_step P (run i) (run (Suc i))"
  shows "\<exists>i. fs_phase (run i) = CycleEnd \<or> fs_phase (run i) = Stopped"
proof (rule ccontr)
  assume never: "\<not> ?thesis"
  have good: "fs_phase (run i) = CycleStart \<longrightarrow> db_ok (fs_db (run i)) \<and> i64_blocks (fs_db (run i))" for i
  proof (induction i)
    case (Suc i)
    then show ?case using cycle_step_smaller [OF assms(4) [of i]] never by blast
  qed (use assms in simp)
  have "(cycle_measure (run (Suc i)), cycle_measure (run i)) \<in> cycle_order" for i
    using cycle_step_smaller [OF assms(4) [of i]] never good [of i] by blast
  moreover have "wf cycle_order" by (intro wf_lex_prod wf_less_than)
  ultimately show False
    unfolding wf_iff_no_infinite_down_chain by (auto dest: spec [of _ "\<lambda>i. cycle_measure (run i)"])
qed

section \<open>What a cycle does\<close>

text \<open>A step inside a cycle: the loop is neither stopped nor at the head of the next cycle.\<close>

definition inside_step :: "indexer_params \<Rightarrow> follow_state \<Rightarrow> follow_state \<Rightarrow> bool" where
  "inside_step P s s' \<longleftrightarrow> follow_step P s s' \<and> fs_phase s' \<noteq> CycleStart \<and> fs_phase s' \<noteq> Stopped"

text \<open>The chunks \<open>cs\<close> lead from the checkpoint to the block \<open>b\<close>.\<close>

definition leads_to :: "chain_db \<Rightarrow> (u64 \<times> u64) list \<Rightarrow> nat \<Rightarrow> bool" where
  "leads_to d cs b \<longleftrightarrow> (\<exists>cp. get_last_checkpoint 1 d = Some cp \<and> nat cp \<le> b \<and> b < 2 ^ 63 \<and>
     concat (map chunk_blocks cs) = [nat cp + 1..<b + 1] \<and> (\<forall>x\<in>set cs. fst x \<le> snd x))"

definition indexed_metrics :: "u64 \<times> u64 \<Rightarrow> follow_metrics \<Rightarrow> follow_metrics" where
  "indexed_metrics rng m =
     m\<lparr>fm_blocks_indexed := fm_blocks_indexed m + unat (snd rng - fst rng) + 1\<rparr>"

definition cycle_inv :: "indexer_params \<Rightarrow> int \<Rightarrow> u64 \<times> u64 \<Rightarrow> chain_db \<Rightarrow> follow_metrics \<Rightarrow> follow_state \<Rightarrow> bool" where
  "cycle_inv P lo rng d0 m s \<longleftrightarrow> follow_inv P lo s \<and> keys_grow d0 (fs_db s) \<and>
     (case fs_phase s of
        Indexing r cs \<Rightarrow> r = rng \<and> fs_metrics s = m \<and> leads_to (fs_db s) cs (unat (snd rng))
      | InChunk r c _ cs \<Rightarrow> r = rng \<and> fs_metrics s = m \<and> leads_to (fs_db s) (c # cs) (unat (snd rng))
      | CycleEnd \<Rightarrow> fs_metrics s = indexed_metrics rng m \<and> leads_to (fs_db s) [] (unat (snd rng))
      | _ \<Rightarrow> False)"

lemma leads_to_done:
  assumes "leads_to d (c # cs) b"
  shows "leads_to (update_checkpoint now 1 (as_i64 (snd c)) d) cs b"
proof -
  from assms obtain cp where b: "b < 2 ^ 63"
      and all: "chunk_blocks c @ concat (map chunk_blocks cs) = [nat cp + 1..<b + 1]"
      and le: "fst c \<le> snd c" "\<forall>x\<in>set cs. fst x \<le> snd x"
    by (auto simp: leads_to_def)
  note hd = chunk_head [OF all le(1)]
  have "as_i64 (snd c) = int (unat (snd c))"
    using hd b by (intro as_i64_small) simp
  then have "get_last_checkpoint 1 (update_checkpoint now 1 (as_i64 (snd c)) d) = Some (int (unat (snd c)))"
    by (simp add: get_last_checkpoint_def update_checkpoint_def)
  with hd b le(2) show ?thesis unfolding leads_to_def by simp
qed

lemma leads_to_grow: "leads_to d cs b \<Longrightarrow> db_checkpoints d' = db_checkpoints d \<Longrightarrow> leads_to d' cs b"
  by (simp add: leads_to_def get_last_checkpoint_def)

lemma cycle_step_inv:
  assumes P: "params_ok P" "1 \<le> lo" and inv: "cycle_inv P lo rng d0 m s" and step: "inside_step P s s'"
  shows "cycle_inv P lo rng d0 m s'"
proof -
  from step have f: "follow_step P s s'" and ph: "fs_phase s' \<noteq> CycleStart" "fs_phase s' \<noteq> Stopped"
    by (simp_all add: inside_step_def)
  have "fs_phase s \<noteq> CycleStart" using inv by (auto simp: cycle_inv_def)
  then have "follow_inv P lo s'"
    using follow_step_inv [OF P, of s s'] f inv by (simp add: no_jump_def cycle_inv_def)
  note keep = this
  from f show ?thesis
  proof cases
    case (ChunkRun rng' c w cs w' d')
    with chunk_step_grow [OF ChunkRun(3)] keep inv show ?thesis
      by (auto simp: cycle_inv_def intro: keys_grow_trans leads_to_grow)
  next
    case (ChunkDone rng' c w cs now)
    with keep inv leads_to_done [of "fs_db s" c cs "unat (snd rng)" now] show ?thesis
      by (auto simp: cycle_inv_def keys_grow_def update_checkpoint_def)
  qed (use ph keep inv in \<open>simp_all add: cycle_inv_def indexed_metrics_def\<close>)
qed

interpretation cycle: invariant_system "inside_step P" "\<lambda>s. params_ok P \<and> 1 \<le> lo \<and> cycle_inv P lo rng d0 m s"
  by unfold_locales (use cycle_step_inv in blast)

text \<open>The range that a cycle chooses.\<close>

lemma target_range:
  assumes cp: "get_last_checkpoint 1 d = Some c" "c < 2 ^ 63" and head: "unat head < 2 ^ 63"
    and nt: "next_target head conf (Some c) = Some (f, t)"
    and rng: "rng = cap_range_to f t follow_cycle_block_cap" and cs: "range_chunks b (fst rng) (snd rng) = Ret cs"
    and b: "unat b < 2 ^ 63"
  shows "unat (fst rng) = nat c + 1 \<and> fst rng \<le> snd rng \<and>
    unat (snd rng) = min (unat head - unat conf) (nat c + 500) \<and> leads_to d cs (unat (snd rng))"
proof -
  from nt cp(2) have f: "unat f = nat c + 1" and t: "unat t = unat head - unat conf" and ft: "unat f \<le> unat t"
    using next_target_iff [of "Some c" head conf f t] by auto
  then have t63: "unat t < 2 ^ 63" using head by linarith
  from cap_range_to_bounds [of f t follow_cycle_block_cap] ft
  have r: "fst rng = f" by (simp add: rng word_le_nat_alt)
  have top: "unat (snd rng) = min (unat t) (unat f + 499)"
    using ft t63 word_less_nat_alt [of t f] by (auto simp: rng cap_range_to_def follow_cycle_block_cap_def sat_simps word_le_nat_alt Let_def)
  have bpos: "0 < unat b"
    using cs by (auto simp: range_chunks_def word_less_nat_alt unat_gt_0 split: if_splits)
  have "unat (snd rng) + unat b < 2 ^ 64" using top t63 b by simp
  from chunks_from_partition [OF bpos this, of "unat f"] cs r bpos
  have "concat (map chunk_blocks cs) = [unat f..<Suc (unat (snd rng))] \<and> (\<forall>x\<in>set cs. fst x \<le> snd x)"
    by (auto simp: range_chunks_def unat_gt_0 simp del: upt_Suc)
  then have "leads_to d cs (unat (snd rng))"
    using top f ft t63 unfolding leads_to_def cp(1) by simp
  with r f t top ft show ?thesis by (simp add: word_le_nat_alt add.commute)
qed

lemma leads_to_end:
  assumes "leads_to d [] b" "0 < b"
  shows "get_last_checkpoint 1 d = Some (int b)"
proof -
  from assms(1) obtain cp where cp: "get_last_checkpoint 1 d = Some cp" "nat cp \<le> b" "[nat cp + 1..<b + 1] = []"
    by (auto simp: leads_to_def)
  then have "nat cp = b" by (simp del: upt_Suc)
  then have "cp = int b" using assms(2) by linarith
  with cp(1) show ?thesis by simp
qed

lemma covered_trivially: "get_last_checkpoint 1 d = Some c \<Longrightarrow> c < 2 ^ 63 \<Longrightarrow> covered (max c 0 + 1) d"
  by (auto simp: covered_def)

lemma target_inv:
  assumes P: "params_ok P" and ok: "db_ok (fs_db s)" and cp: "get_last_checkpoint 1 (fs_db s) = Some c" "c < 2 ^ 63"
    and step: "follow_step P s s1" "fs_phase s = CycleStart" "fs_phase s1 = Indexing rng cs"
  shows "cycle_inv P (max c 0 + 1) rng (fs_db s) ((fs_metrics s)\<lparr>fm_cycle := fm_cycle (fs_metrics s) + 1\<rparr>) s1 \<and>
    unat (fst rng) = nat c + 1 \<and> fst rng \<le> snd rng \<and> unat (snd rng) \<le> nat c + 500"
proof -
  have "follow_inv P (max c 0 + 1) s"
    using ok covered_trivially [OF cp] step(2) by (simp add: follow_inv_def)
  moreover from step obtain rpc head f t where tg: "fs_db s1 = fs_db s" "unat head < 2 ^ 63"
      "fs_metrics s1 = (fs_metrics s)\<lparr>fm_cycle := fm_cycle (fs_metrics s) + 1\<rparr>"
      "next_target head (ip_confirmations P) (Some c) = Some (f, t)"
      "rng = cap_range_to f t follow_cycle_block_cap" "range_chunks (ip_batch_size P) (fst rng) (snd rng) = Ret cs"
    by cases (auto simp: cp)
  moreover from step(1,2) tg(1) have "follow_step P s s1 \<and> no_jump s s1"
    by (simp add: no_jump_def) 
  ultimately have "follow_inv P (max c 0 + 1) s1"
    using follow_step_inv [OF P] by simp
  moreover note r = target_range [OF cp tg(2,4-6) P [unfolded params_ok_def]]
  moreover have "unat (snd rng) \<le> nat c + 500" using r by linarith
  moreover have "leads_to (fs_db s1) cs (unat (snd rng))" using r unfolding tg(1) by blast
  ultimately show ?thesis
    using tg(1,3) step(3) by (simp only: cycle_inv_def keys_grow_refl phase.case simp_thms)
qed

lemma cycle_result:
  assumes "params_ok P" "db_ok (fs_db s)" "get_last_checkpoint 1 (fs_db s) = Some c" "c < 2 ^ 63"
    and "follow_step P s s1" "fs_phase s = CycleStart" "fs_phase s1 = Indexing rng cs"
    and "(inside_step P)\<^sup>*\<^sup>* s1 s2" "fs_phase s2 = CycleEnd"
  shows "unat (fst rng) = nat c + 1 \<and> fst rng \<le> snd rng \<and> unat (snd rng) \<le> nat c + 500 \<and>
    get_last_checkpoint 1 (fs_db s2) = Some (int (unat (snd rng))) \<and> db_ok (fs_db s2) \<and>
    (\<forall>n. nat c < n \<and> n \<le> unat (snd rng) \<longrightarrow> block_known (fs_db s2) (int n)) \<and> keys_grow (fs_db s) (fs_db s2) \<and>
    fs_metrics s2 = indexed_metrics rng ((fs_metrics s)\<lparr>fm_cycle := fm_cycle (fs_metrics s) + 1\<rparr>)"
proof -
  note start = target_inv [OF assms(1-7)]
  have "cycle_inv P (max c 0 + 1) rng (fs_db s) ((fs_metrics s)\<lparr>fm_cycle := fm_cycle (fs_metrics s) + 1\<rparr>) s2"
    using cycle.reachable_inv [OF assms(8), of "max c 0 + 1" rng "fs_db s"] start assms(1) by simp
  then have inv: "db_ok (fs_db s2)" "covered (max c 0 + 1) (fs_db s2)" "keys_grow (fs_db s) (fs_db s2)"
      "leads_to (fs_db s2) [] (unat (snd rng))"
      "fs_metrics s2 = indexed_metrics rng ((fs_metrics s)\<lparr>fm_cycle := fm_cycle (fs_metrics s) + 1\<rparr>)"
    using assms(9) by (simp_all add: cycle_inv_def follow_inv_def)
  have "0 < unat (snd rng)" using start by (simp add: word_le_nat_alt)
  note cp = leads_to_end [OF inv(4) this]
  have "block_known (fs_db s2) (int n)" if "nat c < n" "n \<le> unat (snd rng)" for n
  proof -
    have "max c 0 + 1 \<le> int n \<and> int n \<le> int (unat (snd rng))" using that by linarith
    then show ?thesis using inv(2) unfolding covered_def cp by blast
  qed
  with start inv cp show ?thesis by blast
qed

text \<open>C3. A cycle that is not stopped does exactly what it announces. Its range starts right after the
  checkpoint and has at most 500 blocks; when the cycle ends, with the statements of its tasks
  interleaved in any order, all blocks of the range are stored, nothing stored before is lost, the
  checkpoint is the end of the range, and the metrics count the range and the cycle.\<close>

theorem follow_cycle_exact:
  assumes "params_ok P" "db_ok (fs_db s)" "get_last_checkpoint 1 (fs_db s) = Some c" "c < 2 ^ 63"
    and "follow_step P s s1" "fs_phase s = CycleStart" "fs_phase s1 = Indexing rng cs"
    and "(inside_step P)\<^sup>*\<^sup>* s1 s2" "fs_phase s2 = CycleEnd"
  shows "unat (fst rng) = nat c + 1 \<and> fst rng \<le> snd rng \<and> unat (snd rng) \<le> nat c + 500 \<and>
    get_last_checkpoint 1 (fs_db s2) = Some (int (unat (snd rng))) \<and> db_ok (fs_db s2) \<and>
    (\<forall>n. nat c < n \<and> n \<le> unat (snd rng) \<longrightarrow> block_known (fs_db s2) (int n)) \<and> keys_grow (fs_db s) (fs_db s2) \<and>
    fs_metrics s2 = indexed_metrics rng ((fs_metrics s)\<lparr>fm_cycle := fm_cycle (fs_metrics s) + 1\<rparr>)"
  using assms by (rule cycle_result)

section \<open>The loop can always catch up\<close>

text \<open>The node serves the block \<open>n\<close>, and its rows fit their columns.\<close>

definition served :: "worker_ext \<Rightarrow> rpc_view \<Rightarrow> u64 \<Rightarrow> bool" where
  "served X rv n = (case rv_block rv n of
     Inr (Some b) \<Rightarrow> (case rv_receipts rv n of
       Inr (Some rs) \<Rightarrow>
         length rs \<le> length (rb_txs b) \<and> list_all action_rows_ok (process_block X rv n)
     | _ \<Rightarrow> False)
   | _ \<Rightarrow> False)"

lemma served_runs:
  assumes "served X rv n"
  shows "\<exists>d'. run_actions (process_block X rv n) d = (Inr (), d')"
proof -
  from assms obtain b rs where "rv_block rv n = Inr (Some b)" "rv_receipts rv n = Inr (Some rs)"
      "length rs \<le> length (rb_txs b)" "list_all action_rows_ok (process_block X rv n)"
    by (cases "rv_block rv n"; cases "rv_receipts rv n") (auto simp: served_def split: option.splits)
  from process_block_runs [OF this] show ?thesis by blast
qed

abbreviation tasks :: "action list list \<Rightarrow> action list list \<Rightarrow> chunk_tasks" where
  "tasks w r \<equiv> \<lparr>ct_waiting = w, ct_running = r, ct_failed = False\<rparr>"

lemma task_run:
  "run_actions t d = (Inr (), d') \<Longrightarrow> (chunk_step p)\<^sup>*\<^sup>* (tasks w [t], d) (tasks w [], d')"
proof (induction t arbitrary: d)
  case Nil
  then show ?case using Finish [of "tasks w [[]]" "[]" "[]" p d] by simp
next
  case (Cons a as)
  then obtain d1 where d1: "exec_action a d = Inr d1" "run_actions as d1 = (Inr (), d')"
    by (auto split: sum.splits)
  have "chunk_step p (tasks w [a # as], d) (tasks w [as], d1)"
    using Exec [of "tasks w [a # as]" "[]" a as "[]" d d1 p] d1(1) by simp
  with Cons.IH [OF d1(2)] show ?case by (rule converse_rtranclp_into_rtranclp [rotated])
qed

lemma tasks_run:
  assumes "0 < p" "\<forall>t\<in>set ts. \<forall>d :: chain_db. \<exists>d'. run_actions t d = (Inr (), d')"
  shows "\<exists>d'. (chunk_step p)\<^sup>*\<^sup>* (tasks ts [], d) (tasks [] [], d')"
  using assms(2)
proof (induction ts arbitrary: d)
  case (Cons t ts)
  obtain d1 where d1: "run_actions t d = (Inr (), d1)" using Cons.prems by (metis list.set_intros(1))
  obtain d' where "(chunk_step p)\<^sup>*\<^sup>* (tasks ts [], d1) (tasks [] [], d')"
    using Cons.IH [of d1] Cons.prems by auto
  with task_run [OF d1, of p ts] have "(chunk_step p)\<^sup>*\<^sup>* (tasks ts [t], d) (tasks [] [], d')"
    by (rule rtranclp_trans)
  moreover have "chunk_step p (tasks (t # ts) [], d) (tasks ts [t], d)"
    using Acquire [of "tasks (t # ts) []" "[]" t ts p d] assms(1) by simp
  ultimately show ?case by (blast intro: converse_rtranclp_into_rtranclp)
qed blast

lemma chunk_runs:
  fixes rvs :: "u64 \<Rightarrow> rpc_view"
  assumes "0 < ip_max_concurrent P" "\<forall>n\<in>set (chunk_blocks c). served (ip_ext P) (rvs (word_of_nat n)) (word_of_nat n)"
  shows "\<exists>d'. (inside_step P)\<^sup>*\<^sup>* (state_at r (Indexing rng (c # cs)) d m) (state_at r (Indexing rng cs) d' m)"
proof -
  let ?w = "process_chunk (ip_ext P) rvs c"
  have "\<forall>t\<in>set (map (\<lambda>n. process_block (ip_ext P) (rvs n) n) (chunk_numbers c)). \<forall>d :: chain_db. \<exists>d'. run_actions t d = (Inr (), d')"
    using assms(2) by (auto simp: chunk_numbers_def intro!: served_runs)
  from tasks_run [OF assms(1) this, of d] obtain d1 where
    "(chunk_step (ip_max_concurrent P))\<^sup>*\<^sup>* (?w, d) (tasks [] [], d1)"
    by (auto simp: process_chunk_def chunk_start_def)
  then have run: "(inside_step P)\<^sup>*\<^sup>* (state_at r (InChunk rng c ?w cs) d m) (state_at r (InChunk rng c (tasks [] []) cs) d1 m)"
    using lift_chunk_run [of "ip_max_concurrent P" ?w d "(tasks [] [], d1)" "inside_step P" r rng c cs m] chunk_run_step
    by (simp add: inside_step_def state_at_def)
  have "inside_step P (state_at r (Indexing rng (c # cs)) d m) (state_at r (InChunk rng c ?w cs) d m)"
    using ChunkBegin [of "state_at r (Indexing rng (c # cs)) d m" rng c cs P rvs] by (simp add: inside_step_def state_at_def)
  moreover have "inside_step P (state_at r (InChunk rng c (tasks [] []) cs) d1 m)
      (state_at r (Indexing rng cs) (update_checkpoint 0 1 (as_i64 (snd c)) d1) m)"
    using ChunkDone [of "state_at r (InChunk rng c (tasks [] []) cs) d1 m" rng c "tasks [] []" cs P 0]
    by (simp add: inside_step_def state_at_def chunk_over_def)
  ultimately show ?thesis
    using run by (blast intro: rtranclp.rtrancl_into_rtrancl converse_rtranclp_into_rtranclp)
qed

lemma range_runs:
  fixes rvs :: "u64 \<Rightarrow> rpc_view"
  assumes "0 < ip_max_concurrent P"
    and "\<forall>n\<in>set (concat (map chunk_blocks cs)). served (ip_ext P) (rvs (word_of_nat n)) (word_of_nat n)"
  shows "\<exists>d'. (inside_step P)\<^sup>*\<^sup>* (state_at r (Indexing rng cs) d m) (state_at r CycleEnd d' (indexed_metrics rng m))"
  using assms(2)
proof (induction cs arbitrary: d)
  case Nil
  have "inside_step P (state_at r (Indexing rng []) d m) (state_at r CycleEnd d (indexed_metrics rng m))"
    using RangeDone [of "state_at r (Indexing rng []) d m" rng P]
    by (simp add: inside_step_def state_at_def indexed_metrics_def)
  then show ?case by blast
next
  case (Cons c cs)
  obtain d1 where "(inside_step P)\<^sup>*\<^sup>* (state_at r (Indexing rng (c # cs)) d m) (state_at r (Indexing rng cs) d1 m)"
    using chunk_runs [OF assms(1), of c rvs r rng cs d m] Cons.prems by auto
  moreover obtain d' where
    "(inside_step P)\<^sup>*\<^sup>* (state_at r (Indexing rng cs) d1 m) (state_at r CycleEnd d' (indexed_metrics rng m))"
    using Cons.IH [of d1] Cons.prems by auto
  ultimately show ?case by (blast intro: rtranclp_trans)
qed

text \<open>Whatever has happened before, the process can be started again.\<close>

definition restarted :: "indexer_params \<Rightarrow> follow_state \<Rightarrow> follow_state" where
  "restarted P s = s\<lparr>fs_phase := CycleStart, fs_metrics := default_metrics, fs_subscribed := head_ticks (ip_trigger P)\<rparr>"

lemma can_restart: "(follow_step P)\<^sup>*\<^sup>* s (restarted P s)"
proof -
  have "follow_step P s (s\<lparr>fs_phase := Stopped\<rparr>)" by (rule Stop)
  moreover have "follow_step P (s\<lparr>fs_phase := Stopped\<rparr>) (restarted P s)"
    using Restart [of "s\<lparr>fs_phase := Stopped\<rparr>" P] by (simp add: restarted_def)
  ultimately show ?thesis by (rule converse_rtranclp_into_rtranclp [OF _ r_into_rtranclp])
qed

lemma wakes: "follow_step P (state_at r CycleEnd d m) (state_at r CycleStart d m)"
  using Tick [of "state_at r CycleEnd d m" P] SleepOver [of "state_at r CycleEnd d m" P]
  by (cases r) (simp_all add: state_at_def)

lemma inside_run: "(inside_step P)\<^sup>*\<^sup>* s s' \<Longrightarrow> (follow_step P)\<^sup>*\<^sup>* s s'"
  by (erule rtranclp_mono [THEN predicate2D, rotated]) (auto simp: inside_step_def)

text \<open>A reorg check that gets no answer finds nothing.\<close>

lemma no_answer_no_fork: "detect_fork (\<lambda>_. Inr None) local = None"
proof (cases local)
  case (Cons p ps)
  then show ?thesis by (cases p) (simp add: detect_fork_def detect_loop.simps)
qed (simp add: detect_fork_def)

definition indexer_ready :: "indexer_params \<Rightarrow> bool" where
  "indexer_ready P \<longleftrightarrow> params_ok P \<and> 0 < ip_batch_size P \<and> 0 < ip_max_concurrent P"

text \<open>The newest confirmed block.\<close>

abbreviation newest :: "indexer_params \<Rightarrow> u64 \<Rightarrow> nat" where
  "newest P head \<equiv> unat head - unat (ip_confirmations P)"

text \<open>One more cycle.\<close>

lemma cycle_runs:
  fixes rvs :: "u64 \<Rightarrow> rpc_view" and head :: u64
  assumes P: "indexer_ready P" and head: "unat head < 2 ^ 63" and ok: "db_ok d"
    and cp: "get_last_checkpoint 1 d = Some c" "nat c < newest P head"
    and node: "\<forall>n. nat c < n \<and> n \<le> newest P head \<longrightarrow>
      served (ip_ext P) (rvs (word_of_nat n)) (word_of_nat n)"
  shows "\<exists>d' m' c'. (follow_step P)\<^sup>*\<^sup>* (state_at r CycleStart d m) (state_at r CycleEnd d' m') \<and> db_ok d' \<and>
    keys_grow d d' \<and> get_last_checkpoint 1 d' = Some (int c') \<and>
    c' = min (newest P head) (nat c + 500) \<and>
    (\<forall>n. nat c < n \<and> n \<le> c' \<longrightarrow> block_known d' (int n))"
proof -
  let ?s = "state_at r CycleStart d m" and ?conf = "ip_confirmations P" and ?b = "ip_batch_size P"
  let ?m = "m\<lparr>fm_cycle := fm_cycle m + 1\<rparr>"
  have p: "params_ok P" "0 < unat ?b" "0 < ip_max_concurrent P" "unat ?b < 2 ^ 63"
    using P by (simp_all add: indexer_ready_def params_ok_def word_less_nat_alt)
  note st = state_at_fields(1-3)
  have "nat c < 2 ^ 63" using cp(2) head by linarith
  then have c63: "c < 2 ^ 63" by (simp add: nat_less_iff)
  have w: "unat (word_of_nat n :: u64) = n" if "n < 2 ^ 63" for n
    using that by (simp add: unat_of_nat take_bit_nat_eq_self)
  have "unat head - unat ?conf < 2 ^ 63" "nat c + 1 < 2 ^ 63" using cp(2) head by linarith+
  note w = w [OF this(1)] w [OF this(2)]
  have "next_target head ?conf (Some c) = Some (word_of_nat (nat c + 1), word_of_nat (unat head - unat ?conf))"
    by (rule iffD2 [OF next_target_iff]) (use c63 cp(2) w in \<open>simp_all only: option.inject option.case\<close>, linarith)
  then obtain f t where nt: "next_target head ?conf (Some c) = Some (f, t)" by blast
  define rng where "rng = cap_range_to f t follow_cycle_block_cap"
  have ft: "f \<le> t" "unat t < 2 ^ 63"
    using next_target_iff [of "Some c" head ?conf f t] nt c63 head by (auto simp: word_le_nat_alt)
  have "unat (snd rng) + unat ?b < 2 ^ 64"
    using cap_range_to_bounds [OF ft(1), of follow_cycle_block_cap] ft(2) p(4) by (simp add: rng_def word_le_nat_alt)
  from chunks_from_partition [OF p(2) this] p(2) obtain cs where cs: "range_chunks ?b (fst rng) (snd rng) = Ret cs"
    by (auto simp: range_chunks_def unat_gt_0)
  note r = target_range [OF cp(1) c63 head nt rng_def cs p(4)]
  have step: "follow_step P ?s (state_at r (Indexing rng cs) d ?m)"
    using Target [of ?s "\<lambda>_. Inr None" head P f t rng cs] no_answer_no_fork head nt cs
    by (simp add: state_at_def cp(1) rng_def)
  from r have blocks: "concat (map chunk_blocks cs) = [nat c + 1..<unat (snd rng) + 1]"
    unfolding leads_to_def cp(1) by simp
  have "\<forall>n\<in>set (concat (map chunk_blocks cs)). served (ip_ext P) (rvs (word_of_nat n)) (word_of_nat n)"
    unfolding blocks using r node by (auto simp del: upt_Suc)
  from range_runs [OF p(3) this, of r rng d ?m] obtain d' where
    run: "(inside_step P)\<^sup>*\<^sup>* (state_at r (Indexing rng cs) d ?m) (state_at r CycleEnd d' (indexed_metrics rng ?m))"
    by blast
  have "(follow_step P)\<^sup>*\<^sup>* ?s (state_at r CycleEnd d' (indexed_metrics rng ?m))"
    using converse_rtranclp_into_rtranclp [OF step inside_run [OF run]] .
  moreover note cycle_result [where s = ?s, unfolded st, OF p(1) ok cp(1) c63 step refl st(1) run st(1), unfolded st]
  ultimately show ?thesis using r by blast
qed

text \<open>Cycle after cycle, at most 500 blocks each.\<close>

lemma cycles_run:
  fixes rvs :: "u64 \<Rightarrow> rpc_view" and head :: u64
  assumes P: "indexer_ready P" "unat head < 2 ^ 63"
    and node: "\<forall>n. c < n \<and> n \<le> newest P head \<longrightarrow>
      served (ip_ext P) (rvs (word_of_nat n)) (word_of_nat n)"
    and d: "db_ok d" "get_last_checkpoint 1 d = Some (int k)" "c \<le> k" "k < newest P head"
  shows "\<exists>d' m'. (follow_step P)\<^sup>*\<^sup>* (state_at r CycleStart d m) (state_at r CycleEnd d' m') \<and> db_ok d' \<and>
    keys_grow d d' \<and> get_last_checkpoint 1 d' = Some (int (newest P head)) \<and>
    (\<forall>n. k < n \<and> n \<le> newest P head \<longrightarrow> block_known d' (int n))"
  using d
proof (induction "newest P head - k" arbitrary: d m k rule: less_induct)
  case less
  obtain d1 m1 c1 where one: "(follow_step P)\<^sup>*\<^sup>* (state_at r CycleStart d m) (state_at r CycleEnd d1 m1)"
      "db_ok d1" "keys_grow d d1" "get_last_checkpoint 1 d1 = Some (int c1)" "c1 = min (newest P head) (k + 500)"
      "\<forall>n. k < n \<and> n \<le> c1 \<longrightarrow> block_known d1 (int n)"
    using cycle_runs [OF P less(2,3), of rvs r m] less(4,5) node unfolding nat_int by fastforce
  show ?case
  proof (cases "c1 = newest P head")
    case True
    show ?thesis using one(1-4,6) unfolding True by blast
  next
    case False
    then have c1: "c1 = k + 500" "c1 < newest P head" using one(5) by linarith+
    obtain d' m' where rest: "(follow_step P)\<^sup>*\<^sup>* (state_at r CycleStart d1 m1) (state_at r CycleEnd d' m')"
        "db_ok d'" "keys_grow d1 d'" "get_last_checkpoint 1 d' = Some (int (newest P head))"
        "\<forall>n. c1 < n \<and> n \<le> newest P head \<longrightarrow> block_known d' (int n)"
      using less(1) [OF _ one(2,4) _ c1(2), of m1] c1 less(4) by fastforce
    have "(follow_step P)\<^sup>*\<^sup>* (state_at r CycleStart d m) (state_at r CycleEnd d' m')"
      using one(1) converse_rtranclp_into_rtranclp [OF wakes rest(1)] by (rule rtranclp_trans)
    moreover have "block_known d' (int n)" if "k < n" "n \<le> newest P head" for n
    proof (cases "n \<le> c1")
      case True
      with one(6) that(1) have "block_known d1 (int n)" by blast
      then show ?thesis using rest(3) by (rule block_known_grow)
    qed (use rest(5) that(2) in auto)
    ultimately show ?thesis using rest keys_grow_trans [OF one(3) rest(3)] by blast
  qed
qed

text \<open>C4. No crash, failure or interleaving leaves the indexer in a state from which it cannot catch
  up. From every state of the loop with a consistent database and a checkpoint at or below the newest
  confirmed block \<open>head - confirmations\<close>, if the node serves the missing blocks with rows that fit,
  the loop, restarted if need be, can reach the wait of a cycle with the checkpoint at that block and
  every block between the old checkpoint and it stored, however far it was behind.\<close>

theorem follow_catches_up:
  fixes rvs :: "u64 \<Rightarrow> rpc_view" and head :: u64
  assumes "indexer_ready P" "unat head < 2 ^ 63" "db_ok (fs_db s)"
    and "get_last_checkpoint 1 (fs_db s) = Some c" "0 \<le> c" "nat c < newest P head"
    and "\<forall>n. nat c < n \<and> n \<le> newest P head \<longrightarrow>
      served (ip_ext P) (rvs (word_of_nat n)) (word_of_nat n)"
  shows "\<exists>s'. (follow_step P)\<^sup>*\<^sup>* s s' \<and> fs_phase s' = CycleEnd \<and> db_ok (fs_db s') \<and> keys_grow (fs_db s) (fs_db s') \<and>
    get_last_checkpoint 1 (fs_db s') = Some (int (newest P head)) \<and>
    (\<forall>n. nat c < n \<and> n \<le> newest P head \<longrightarrow> block_known (fs_db s') (int n))"
proof -
  define r where "r = head_ticks (ip_trigger P)"
  have r: "state_at r CycleStart (fs_db s) default_metrics = restarted P s"
    by (cases s) (simp add: r_def restarted_def state_at_def)
  let ?top = "newest P head"
  from cycles_run [OF assms(1,2,7,3), of "nat c" r default_metrics] assms(4-6) obtain d' m' where
    run: "(follow_step P)\<^sup>*\<^sup>* (state_at r CycleStart (fs_db s) default_metrics) (state_at r CycleEnd d' m')" "db_ok d'"
      "keys_grow (fs_db s) d'" "get_last_checkpoint 1 d' = Some (int ?top)"
      "\<forall>n. nat c < n \<and> n \<le> ?top \<longrightarrow> block_known d' (int n)"
    by auto
  have "(follow_step P)\<^sup>*\<^sup>* s (state_at r CycleEnd d' m')"
    using can_restart [of P s] run(1) unfolding r by (rule rtranclp_trans)
  with run(2-) show ?thesis
    by (intro exI [of _ "state_at r CycleEnd d' m'"]) (simp add: state_at_def)
qed

section \<open>Concrete runs\<close>

text \<open>Nothing to do: the loop polls for ever.\<close>

definition idle_run :: "nat \<Rightarrow> follow_state" where
  "idle_run i = jump_state (if even i then CycleStart else CycleEnd) (jump_db [10] 10)
     (default_metrics\<lparr>fm_cycle := (i + 1) div 2\<rparr>)"

lemma idle_step: "follow_step jump_params (idle_run i) (idle_run (Suc i))"
proof (cases "even i")
  case True
  have n: "next_target 10 0 (Some 10) = None"
    by (simp add: next_target_def saturating_sub_def saturating_add_def i64_max0_as_u64_def as_u64_def)
  from True have i: "idle_run i = jump_state CycleStart (jump_db [10] 10) (default_metrics\<lparr>fm_cycle := i div 2\<rparr>)"
    by (simp add: idle_run_def)
  have "follow_step jump_params (idle_run i) (jump_state CycleEnd (jump_db [10] 10) (default_metrics\<lparr>fm_cycle := i div 2 + 1\<rparr>))"
    using NoTarget [of "idle_run i" jump_rpc 10 jump_params] n
    by (simp add: i state_at_def jump_local jump_detect jump_params_def jump_cp)
  then show ?thesis using True by (simp add: idle_run_def)
next
  case False
  then have "(Suc i + 1) div 2 = (i + 1) div 2" by presburger
  then show ?thesis
    using False SleepOver [of "idle_run i" jump_params]
    by (simp add: idle_run_def state_at_def)
qed

lemma follow_cycle_ends_witness:
  "\<exists>i. fs_phase (idle_run i) = CycleEnd \<or> fs_phase (idle_run i) = Stopped"
proof (rule follow_cycle_ends [where run = idle_run, OF _ _ _ idle_step])
  show "fs_phase (idle_run 0) = CycleStart" by (simp add: idle_run_def state_at_def)
  show "db_ok (fs_db (idle_run 0))" using jump_covered by (simp add: idle_run_def state_at_def)
  show "i64_blocks (fs_db (idle_run 0))"
    by (simp add: idle_run_def state_at_def i64_blocks_def jump_db_def jump_block_def)
qed

text \<open>One block is missing and served.\<close>

definition behind :: follow_state where
  "behind = jump_state CycleStart (jump_db [17] 17) default_metrics"

lemma behind_facts:
  "fs_phase behind = CycleStart" "get_last_checkpoint 1 (fs_db behind) = Some 17" "db_ok (fs_db behind)"
  "indexer_ready jump_params" "ip_confirmations jump_params = 0"
  by (simp_all add: behind_def state_at_def jump_cp indexer_ready_def params_ok_def jump_params_def)
    (simp_all add: jump_db_def empty_db_def jump_block_def db_ok_unfold)

lemma sample_served: "served (ip_ext jump_params) sample_view 18"
  using sample_rows_ok
  by (simp add: served_def sample_view_block sample_process_block jump_params_def)

lemma behind_target:
  "follow_step jump_params behind (jump_state (Indexing (18, 18) [(18, 18)]) (jump_db [17] 17) (default_metrics\<lparr>fm_cycle := 1\<rparr>))"
proof -
  have n: "next_target 18 0 (Some 17) = Some (18, 18)" by (rule iffD2 [OF next_target_iff], simp, simp)
  show ?thesis
    using Target [of behind "\<lambda>_. Inr None" 18 jump_params 18 18 "(18, 18)" "[(18, 18)]"] n
    by (simp add: no_answer_no_fork behind_facts) (simp add: behind_def state_at_def default_metrics_def
      jump_params_def cap_range_to_def follow_cycle_block_cap_def saturating_add_def saturating_sub_def
      range_chunks_def chunk_starts.simps chunk_end_def)
qed

lemma follow_cycle_exact_witness:
  "\<exists>s. (follow_step jump_params)\<^sup>*\<^sup>* behind s \<and> fs_phase s = CycleEnd \<and>
    get_last_checkpoint 1 (fs_db s) = Some 18 \<and> block_known (fs_db s) 18 \<and> fm_blocks_indexed (fs_metrics s) = 1"
proof -
  let ?m = "default_metrics\<lparr>fm_cycle := 1\<rparr>"
  have "\<forall>n\<in>set (concat (map chunk_blocks [(18, 18)])). served (ip_ext jump_params) sample_view (word_of_nat n)"
    using sample_served by (simp add: chunk_blocks_def)
  then obtain d where run: "(inside_step jump_params)\<^sup>*\<^sup>*
      (jump_state (Indexing (18, 18) [(18, 18)]) (jump_db [17] 17) ?m) (jump_state CycleEnd d (indexed_metrics (18, 18) ?m))"
    using range_runs [of jump_params "[(18, 18)]" "\<lambda>_. sample_view" False "(18, 18)" "jump_db [17] 17" ?m]
    by (auto simp: jump_params_def)
  have p: "params_ok jump_params" using behind_facts(4) by (simp add: indexer_ready_def)
  note st = state_at_fields(1-3)
  note c = follow_cycle_exact [OF p behind_facts(3,2) _ behind_target behind_facts(1) st(1) run st(1), unfolded st]
  have "get_last_checkpoint 1 d = Some (int (unat (18 :: u64)))" "block_known d (int 18)"
    using c by (simp_all del: of_nat_numeral)
  then have "get_last_checkpoint 1 d = Some 18" "block_known d 18" by simp_all
  moreover have "(follow_step jump_params)\<^sup>*\<^sup>* behind (jump_state CycleEnd d (indexed_metrics (18, 18) ?m))"
    using converse_rtranclp_into_rtranclp [OF behind_target inside_run [OF run]] .
  ultimately show ?thesis
    by (intro exI [of _ "jump_state CycleEnd d (indexed_metrics (18, 18) ?m)"])
      (simp add: st indexed_metrics_def default_metrics_def)
qed

lemma follow_catches_up_witness:
  "\<exists>s. (follow_step jump_params)\<^sup>*\<^sup>* (behind\<lparr>fs_phase := InChunk (18, 18) (18, 18) \<lparr>ct_waiting = [], ct_running = [], ct_failed = True\<rparr> []\<rparr>) s \<and>
    fs_phase s = CycleEnd \<and> get_last_checkpoint 1 (fs_db s) = Some 18 \<and> block_known (fs_db s) 18"
proof -
  let ?s = "behind\<lparr>fs_phase := InChunk (18, 18) (18, 18) \<lparr>ct_waiting = [], ct_running = [], ct_failed = True\<rparr> []\<rparr>"
  have s: "fs_db ?s = fs_db behind" by simp
  have n: "\<forall>n. nat 17 < n \<and> n \<le> unat (18 :: u64) - unat (ip_confirmations jump_params) \<longrightarrow>
      served (ip_ext jump_params) sample_view (word_of_nat n)"
  proof (intro allI impI)
    fix n assume "nat 17 < n \<and> n \<le> unat (18 :: u64) - unat (ip_confirmations jump_params)"
    then have "n = 18" by (simp add: behind_facts)
    then show "served (ip_ext jump_params) sample_view (word_of_nat n)" using sample_served by simp
  qed
  have "unat (18 :: u64) < 2 ^ 63" "(0 :: int) \<le> 17" "nat 17 < unat (18 :: u64) - unat (ip_confirmations jump_params)"
    by (simp_all add: behind_facts)
  then obtain s where r: "(follow_step jump_params)\<^sup>*\<^sup>* ?s s" "fs_phase s = CycleEnd"
      "get_last_checkpoint 1 (fs_db s) = Some (int (unat (18 :: u64) - unat (ip_confirmations jump_params)))"
      "\<forall>n. nat 17 < n \<and> n \<le> unat (18 :: u64) - unat (ip_confirmations jump_params) \<longrightarrow> block_known (fs_db s) (int n)"
    using follow_catches_up [where s = ?s and rvs = "\<lambda>_. sample_view" and head = 18, unfolded s,
      OF behind_facts(4) _ behind_facts(3,2) _ _ n] by blast
  have "block_known (fs_db s) (int 18)" using r(4) [THEN spec, of 18] by (simp add: behind_facts)
  with r(1-3) show ?thesis by (intro exI [of _ s]) (simp add: behind_facts)
qed

end
