(* ===== verification/Alerts_Db.thy ===== *)
theory Alerts_Db
  imports Chain_Db "HOL-Library.List_Lexorder" "HOL-Library.Char_ord" "HOL-Library.Multiset"
begin

text \<open>
  The tables behind the alert service, the look-up tables of the API and the tables behind its
  reports, as an extension of the chain tables, and the alert statements of
  \<open>src/crates/db/src/queries.rs\<close>: subscriptions, the delivery ledger with
  its claims, the rate dispatches, and the two matchers. Every statement gets the value of \<open>NOW()\<close>
  as an argument. The ledger is keyed by its primary key. The order of rows that
  are equal under an \<open>ORDER BY\<close> is a choice that PostgreSQL makes anew for every query: it is an
  argument of the queries whose key is not unique, and the theorems hold for every choice. Hashes are
  lower-case hexadecimal text, whose order is the byte order.
\<close>

section \<open>Tables\<close>

record alert_delivery =
  ad_status :: string
  ad_attempts :: int
  ad_last_error :: "string option"
  ad_delivered_at :: "timestamp option"
  ad_created_at :: timestamp

record rate_dispatch =
  rd_dispatch_id :: int
  rd_subscription_id :: int
  rd_dispatched_at :: timestamp
  rd_match_count :: int
  rd_status :: string
  rd_last_error :: "string option"

record service_db = chain_db +
  db_subs :: "alert_subscription list"
  db_deliveries :: "int \<times> string \<rightharpoonup> alert_delivery"
  db_rate_dispatches :: "rate_dispatch list"
  db_labels :: "contract_label list"
  db_signatures :: "function_signature list"
  db_diagnoses :: "category_diagnosis list"
  db_seq_sub :: int
  db_seq_dispatch :: int
  db_profiles :: "user_profile list"
  db_snapshots :: "price_snapshot list"
  db_seq_snapshot :: int

definition int4_ok :: "int \<Rightarrow> bool" where
  "int4_ok n = (- (2 ^ 31) \<le> n \<and> n < 2 ^ 31)"

text \<open>\<open>LIMIT $1 OFFSET $2\<close>: negative numbers are errors.\<close>

definition page :: "int \<Rightarrow> int \<Rightarrow> 'r list \<Rightarrow> db_error + 'r list" where
  "page lim offset rs =
     (if lim < 0 then Inl (Sqlx ''LIMIT must not be negative'')
      else if offset < 0 then Inl (Sqlx ''OFFSET must not be negative'')
      else Inr (take (nat lim) (drop (nat offset) rs)))"

lemma page_Inr_iff:
  "page lim off rs = Inr out \<longleftrightarrow> 0 \<le> lim \<and> 0 \<le> off \<and> out = take (nat lim) (drop (nat off) rs)"
  by (auto simp: page_def)

section \<open>The order of rows\<close>

text \<open>\<open>ORDER BY\<close> a key: the rows in the order of their keys, rows with equal keys in the order that the
  choice \<open>r\<close> puts on their positions. Every order of the rows that respects the keys is the result
  of some choice (\<open>order_by_complete\<close>).\<close>

type_synonym tie_order = "nat \<Rightarrow> nat"

definition order_by :: "tie_order \<Rightarrow> ('r \<Rightarrow> 'k::linorder) \<Rightarrow> 'r list \<Rightarrow> 'r list" where
  "order_by r key rows = sort_key key (map ((!) rows) (sort_key r [0..<length rows]))"

lemma mset_positions: "mset (map ((!) rows) (sort_key r [0..<length rows])) = mset rows"
  by (metis map_nth mset_map mset_sort)

lemma mset_order_by [simp]: "mset (order_by r key rows) = mset rows"
  by (simp only: order_by_def mset_sort mset_positions)

lemma set_order_by [simp]: "set (order_by r key rows) = set rows"
  by (rule mset_eq_setD) simp

lemma length_order_by [simp]: "length (order_by r key rows) = length rows"
  by (rule mset_eq_length) simp

lemma sorted_order_by [simp]: "sorted (map key (order_by r key rows))"
  by (simp add: order_by_def)

lemma order_by_Nil [simp]: "order_by r key [] = []"
  by (simp add: order_by_def)

lemma order_by_single [simp]: "order_by r key [x] = [x]"
  by (simp add: order_by_def)

lemma map_order_by_key: "map key (order_by r key rows) = sort (map key rows)"
  by (rule properties_for_sort [symmetric]) simp_all

lemma distinct_order_by: "distinct (map g rows) \<Longrightarrow> distinct (map g (order_by r key rows))"
  by (metis mset_eq_imp_distinct_iff mset_map mset_order_by)

lemma sum_order_by: "sum_list (map (g :: 'r \<Rightarrow> int) (order_by r key rows)) = sum_list (map g rows)"
  by (metis mset_map mset_order_by sum_mset_sum_list)

lemma mset_piece: "mset (take n (drop k xs)) \<subseteq># mset xs"
proof -
  have "xs = take k xs @ take n (drop k xs) @ drop n (drop k xs)"
    by (simp only: append_take_drop_id)
  then have "mset xs = mset (take k xs) + (mset (take n (drop k xs)) + mset (drop n (drop k xs)))"
    by (metis mset_append)
  then show ?thesis
    by (metis mset_subset_eq_add_left mset_subset_eq_add_right subset_mset.order_trans)
qed

text \<open>Without equal keys there is one order.\<close>

lemma order_by_unique: "inj_on key (set rows) \<Longrightarrow> order_by r key rows = sort_key key rows"
  unfolding order_by_def
  by (rule sort_key_inj_key_eq) (simp_all only: mset_sort mset_positions sorted_sort_key mset_eq_setD [OF mset_positions])

lemma rearranged:
  "mset ys = mset xs \<Longrightarrow> \<exists>js. mset js = mset [0..<length xs] \<and> map ((!) xs) js = ys"
proof (induction ys arbitrary: xs)
  case (Cons y ys)
  then have "y \<in> set xs" by (metis list.set_intros(1) mset_eq_setD)
  then obtain as bs where xs: "xs = as @ y # bs" by (meson split_list)
  let ?up = "\<lambda>i. if i < length as then i else Suc i"
  from Cons.prems have "mset ys = mset (as @ bs)" by (simp add: xs)
  from Cons.IH [OF this] obtain js where
    js: "mset js = mset [0..<length (as @ bs)]" "map ((!) (as @ bs)) js = ys" by blast
  have "[0..<length (as @ bs)] = [0..<length as] @ [length as..<length as + length bs]"
    using upt_add_eq_append [of 0 "length as" "length bs"] by simp
  moreover have "map ?up [0..<length as] = [0..<length as]" by (rule map_idI) simp
  moreover have "map ?up [length as..<length as + length bs] = map Suc [length as..<length as + length bs]" by simp
  moreover have "map Suc [length as..<length as + length bs] = [Suc (length as)..<length xs]"
    by (simp add: map_Suc_upt xs del: upt_Suc)
  ultimately have "map ?up [0..<length (as @ bs)] = [0..<length as] @ [Suc (length as)..<length xs]"
    by (simp only: map_append)
  moreover have "mset (map ?up js) = mset (map ?up [0..<length (as @ bs)])"
    by (simp only: mset_map js(1))
  ultimately have "mset (map ?up js) = mset ([0..<length as] @ [Suc (length as)..<length xs])"
    by (simp only:)
  moreover have "[0..<length xs] = [0..<length as] @ [length as..<length xs]"
    using upt_add_eq_append [of 0 "length as" "Suc (length bs)"] by (simp add: xs del: upt_Suc)
  moreover have "[length as..<length xs] = length as # [Suc (length as)..<length xs]"
    by (rule upt_conv_Cons) (simp add: xs)
  ultimately have "mset (length as # map ?up js) = mset [0..<length xs]"
    by (simp only: mset_append mset.simps union_mset_add_mset_right)
  moreover have "xs ! ?up i = (as @ bs) ! i" for i
    by (simp add: xs nth_append Suc_diff_le)
  then have "map ((!) xs) (map ?up js) = ys"
    by (simp only: js(2) [symmetric] map_map comp_def)
  then have "map ((!) xs) (length as # map ?up js) = y # ys"
    by (simp only: list.map xs nth_append_length)
  ultimately show ?case by (intro exI [of _ "length as # map ?up js"] conjI)
qed simp

lemma order_by_complete:
  assumes "mset ys = mset rows" "sorted (map key ys)"
  shows "\<exists>r. order_by r key rows = ys"
proof -
  obtain js where js: "mset js = mset [0..<length rows]" "map ((!) rows) js = ys"
    using rearranged [OF assms(1)] by blast
  let ?r = "\<lambda>i. length (takeWhile (\<lambda>j. j \<noteq> i) js)"
  have d: "distinct js" using js(1) by (metis distinct_upt mset_eq_imp_distinct_iff)
  have pos: "?r (js ! k) = k" if "k < length js" for k
    using d that by (induction js arbitrary: k) (auto simp: nth_Cons split: nat.split)
  have "map ?r js = [0..<length js]"
    using pos by (intro nth_equalityI) simp_all
  moreover have "js ! ?r i = i" if "i \<in> set [0..<length rows]" for i
  proof -
    from that have "i \<in> set js" by (simp only: mset_eq_setD [OF js(1)])
    then obtain k where "k < length js" "js ! k = i" by (meson in_set_conv_nth)
    then show ?thesis using pos by metis
  qed
  then have "inj_on ?r (set [0..<length rows])" by (rule inj_on_inverseI)
  ultimately have "sort_key ?r [0..<length rows] = js"
    by (intro sort_key_inj_key_eq) (simp_all add: js(1))
  then have "order_by ?r key rows = ys"
    using assms(2) by (simp add: order_by_def js(2) sort_key_id_if_sorted)
  then show ?thesis by blast
qed

section \<open>Pages\<close>

text \<open>Successive \<open>LIMIT L OFFSET i * L\<close> queries over the same rows, each with its own choice.\<close>

definition page_rows :: "(nat \<Rightarrow> tie_order) \<Rightarrow> ('r \<Rightarrow> 'k::linorder) \<Rightarrow> nat \<Rightarrow> 'r list \<Rightarrow> nat \<Rightarrow> 'r list" where
  "page_rows ties key L rows i = take L (drop (i * L) (order_by (ties i) key rows))"

definition read_pages :: "(nat \<Rightarrow> tie_order) \<Rightarrow> ('r \<Rightarrow> 'k::linorder) \<Rightarrow> nat \<Rightarrow> 'r list \<Rightarrow> nat \<Rightarrow> 'r list" where
  "read_pages ties key L rows n = concat (map (page_rows ties key L rows) [0..<n])"

lemma concat_pages: "concat (map (\<lambda>i. take L (drop (i * L) xs)) [0..<n]) = take (n * L) xs"
proof (induction n)
  case (Suc n)
  have "take (n * L) xs @ take L (drop (n * L) xs) = take (n * L + L) xs"
    by (simp add: take_add)
  with Suc show ?case by (simp add: add.commute)
qed simp

text \<open>The keys are those of the sorted rows, whatever the choices.\<close>

lemma read_pages_keys: "map key (read_pages ties key L rows n) = take (n * L) (sort (map key rows))"
  unfolding read_pages_def page_rows_def map_concat map_map comp_def
  by (simp only: take_map [symmetric] drop_map [symmetric] map_order_by_key concat_pages)

lemma read_pages_rows: "set (read_pages ties key L rows n) \<subseteq> set rows"
  unfolding read_pages_def page_rows_def using set_order_by by (fastforce dest: in_set_takeD in_set_dropD)

text \<open>A row whose key no other row has is read exactly once.\<close>

lemma read_pages_once:
  assumes "x \<in> set rows" "length (filter (\<lambda>y. key y = key x) rows) = 1" "length rows \<le> n * L"
  shows "filter (\<lambda>y. key y = key x) (read_pages ties key L rows n) = [x]"
proof -
  let ?P = "\<lambda>y. key y = key x" and ?ps = "read_pages ties key L rows n"
  obtain z where z: "filter ?P rows = [z]"
    using assms(2) by (auto simp: length_Suc_conv)
  moreover have "x \<in> set (filter ?P rows)" using assms(1) by simp
  ultimately have x: "filter ?P rows = [x]" by simp
  have "mset (map key ?ps) = mset (map key rows)"
    using assms(3) by (simp add: read_pages_keys)
  then have "size (filter_mset (\<lambda>k. k = key x) (mset (map key ?ps))) =
      size (filter_mset (\<lambda>k. k = key x) (mset (map key rows)))" by simp
  then have "length (filter ?P ?ps) = length (filter ?P rows)"
    by (simp only: mset_filter [symmetric] size_mset filter_map length_map comp_def)
  then obtain w where w: "filter ?P ?ps = [w]"
    by (auto simp: x length_Suc_conv)
  then have "w \<in> set (filter ?P rows)"
    using read_pages_rows [of ties key L rows n] by (auto dest: filter_eq_ConsD)
  with x w show ?thesis by simp
qed

text \<open>Without equal keys the pages are the sorted rows.\<close>

lemma read_pages_unique:
  assumes "inj_on key (set rows)"
  shows "read_pages ties key L rows n = take (n * L) (sort_key key rows)"
  unfolding read_pages_def page_rows_def order_by_unique [OF assms] by (rule concat_pages)

section \<open>Subscriptions\<close>

text \<open>The CHECK constraint \<open>alert_subscription_rate_fields_chk\<close> and the column types.\<close>

definition rate_fields_chk :: "alert_subscription \<Rightarrow> bool" where
  "rate_fields_chk s =
     (sub_type s = ''per_event'' \<and> sub_threshold_count s = None \<and>
        sub_threshold_window_secs s = None \<and> sub_debounce_secs s = None \<or>
      sub_type s = ''rate_threshold'' \<and>
        (\<exists>c\<in>set_option (sub_threshold_count s). 0 < c) \<and>
        (\<exists>w\<in>set_option (sub_threshold_window_secs s). 0 < w) \<and>
        (\<exists>b\<in>set_option (sub_debounce_secs s). 0 \<le> b))"

definition sub_row_ok :: "alert_subscription \<Rightarrow> bool" where
  "sub_row_ok s = (opt_ok text_ok (sub_to_addr s) \<and> text_ok (sub_webhook_url s) \<and>
     text_ok (sub_signing_secret s) \<and> rate_fields_chk s)"

definition add_subscription ::
    "alert_subscription \<Rightarrow> service_db \<Rightarrow> db_error + alert_subscription \<times> service_db" where
  "add_subscription s d =
     (if sub_row_ok s
      then Inr (s, d\<lparr>db_subs := db_subs d @ [s], db_seq_sub := db_seq_sub d + 1\<rparr>)
      else Inl (Sqlx ''constraint violation''))"

definition insert_alert_subscription :: "timestamp \<Rightarrow> error_category option \<Rightarrow> string option \<Rightarrow>
    string \<Rightarrow> string \<Rightarrow> service_db \<Rightarrow> db_error + alert_subscription \<times> service_db" where
  "insert_alert_subscription now cat to_addr url secret d =
     add_subscription
       \<lparr>sub_id = db_seq_sub d, sub_error_category = cat, sub_to_addr = to_addr,
        sub_webhook_url = url, sub_signing_secret = secret, sub_active = True,
        sub_created_at = now, sub_type = ''per_event'', sub_threshold_count = None,
        sub_threshold_window_secs = None, sub_debounce_secs = None\<rparr> d"

definition insert_alert_subscription_rate :: "timestamp \<Rightarrow> error_category option \<Rightarrow> string option \<Rightarrow>
    string \<Rightarrow> string \<Rightarrow> int \<Rightarrow> int \<Rightarrow> int \<Rightarrow> service_db \<Rightarrow>
    db_error + alert_subscription \<times> service_db" where
  "insert_alert_subscription_rate now cat to_addr url secret n window debounce d =
     add_subscription
       \<lparr>sub_id = db_seq_sub d, sub_error_category = cat, sub_to_addr = to_addr,
        sub_webhook_url = url, sub_signing_secret = secret, sub_active = True,
        sub_created_at = now, sub_type = ''rate_threshold'', sub_threshold_count = Some n,
        sub_threshold_window_secs = Some window, sub_debounce_secs = Some debounce\<rparr> d"

definition list_alert_subscriptions ::
    "int \<Rightarrow> service_db \<Rightarrow> db_error + alert_subscription list" where
  "list_alert_subscriptions lim d = page lim 0 (sort_key (\<lambda>s. - sub_id s) (db_subs d))"

definition update_sub ::
    "(alert_subscription \<Rightarrow> bool) \<Rightarrow> (alert_subscription \<Rightarrow> alert_subscription) \<Rightarrow> service_db \<Rightarrow> service_db" where
  "update_sub P f d = d\<lparr>db_subs := map (\<lambda>s. if P s then f s else s) (db_subs d)\<rparr>"

definition deactivate_alert_subscription :: "int \<Rightarrow> service_db \<Rightarrow> nat \<times> service_db" where
  "deactivate_alert_subscription sid d =
     (let P = (\<lambda>s. sub_id s = sid \<and> sub_active s) in
      (length (filter P (db_subs d)), update_sub P (\<lambda>s. s\<lparr>sub_active := False\<rparr>) d))"

text \<open>The deliveries and rate dispatches of a subscription go with it (\<open>ON DELETE CASCADE\<close>).\<close>

definition delete_alert_subscription :: "int \<Rightarrow> service_db \<Rightarrow> nat \<times> service_db" where
  "delete_alert_subscription sid d =
     (length (filter (\<lambda>s. sub_id s = sid) (db_subs d)),
      d\<lparr>db_subs := filter (\<lambda>s. sub_id s \<noteq> sid) (db_subs d),
        db_deliveries := (\<lambda>k. if fst k = sid then None else db_deliveries d k),
        db_rate_dispatches := filter (\<lambda>r. rd_subscription_id r \<noteq> sid) (db_rate_dispatches d)\<rparr>)"

definition rotate_alert_subscription_secret ::
    "int \<Rightarrow> string \<Rightarrow> service_db \<Rightarrow> db_error + alert_subscription option \<times> service_db" where
  "rotate_alert_subscription_secret sid secret d =
     (let P = (\<lambda>s. sub_id s = sid \<and> sub_active s) in
      if \<not> text_ok secret then Inl (Sqlx ''constraint violation'')
      else Inr (map_option (\<lambda>s. s\<lparr>sub_signing_secret := secret\<rparr>) (find P (db_subs d)),
             update_sub P (\<lambda>s. s\<lparr>sub_signing_secret := secret\<rparr>) d))"

definition sub_known :: "service_db \<Rightarrow> int \<Rightarrow> bool" where
  "sub_known d sid = (sid \<in> set (map sub_id (db_subs d)))"

section \<open>The delivery ledger\<close>

text \<open>Claiming the right to deliver an alert: a new pair, a failed one, or one whose claim is
  older than \<open>stale\<close> seconds. The result is whether a row was written.\<close>

definition try_claim_alert_match ::
    "timestamp \<Rightarrow> int \<Rightarrow> string \<Rightarrow> int \<Rightarrow> service_db \<Rightarrow> db_error + bool \<times> service_db" where
  "try_claim_alert_match now sid h stale d =
     (if \<not> int4_ok stale then Inl (Sqlx ''integer out of range'')
      else case db_deliveries d (sid, h) of
        None \<Rightarrow>
          if \<not> text_ok h then Inl (Sqlx ''constraint violation'')
          else if \<not> sub_known d sid then Inl (Sqlx ''foreign key violation'')
          else Inr (True, d\<lparr>db_deliveries := (db_deliveries d)((sid, h) \<mapsto>
                 \<lparr>ad_status = ''claimed'', ad_attempts = 1, ad_last_error = None,
                  ad_delivered_at = None, ad_created_at = now\<rparr>)\<rparr>)
      | Some r \<Rightarrow>
          if ad_status r = ''failed'' \<or>
             ad_status r = ''claimed'' \<and> ad_created_at r < now - seconds stale
          then if \<not> int4_ok (ad_attempts r + 1) then Inl (Sqlx ''integer out of range'')
               else Inr (True, d\<lparr>db_deliveries := (db_deliveries d)((sid, h) \<mapsto>
                      \<lparr>ad_status = ''claimed'', ad_attempts = ad_attempts r + 1,
                       ad_last_error = None, ad_delivered_at = None, ad_created_at = now\<rparr>)\<rparr>)
          else Inr (False, d))"

definition record_alert_delivery ::
    "timestamp \<Rightarrow> int \<Rightarrow> string \<Rightarrow> bool \<Rightarrow> string option \<Rightarrow> service_db \<Rightarrow> db_error + service_db" where
  "record_alert_delivery now sid h delivered err d =
     (let status = (if delivered then ''delivered'' else ''failed'') in
      if \<not> text_ok h \<or> \<not> opt_ok text_ok err then Inl (Sqlx ''constraint violation'')
      else case db_deliveries d (sid, h) of
        None \<Rightarrow>
          if \<not> sub_known d sid then Inl (Sqlx ''foreign key violation'')
          else Inr (d\<lparr>db_deliveries := (db_deliveries d)((sid, h) \<mapsto>
                 \<lparr>ad_status = status, ad_attempts = 1, ad_last_error = err,
                  ad_delivered_at = (if delivered then Some now else None),
                  ad_created_at = now\<rparr>)\<rparr>)
      | Some r \<Rightarrow>
          if \<not> int4_ok (ad_attempts r + 1) then Inl (Sqlx ''integer out of range'')
          else Inr (d\<lparr>db_deliveries := (db_deliveries d)((sid, h) \<mapsto>
                 r\<lparr>ad_status := status, ad_attempts := ad_attempts r + 1, ad_last_error := err,
                   ad_delivered_at := (if delivered then Some now else ad_delivered_at r)\<rparr>)\<rparr>))"

text \<open>The anti-join of the matcher.\<close>

definition withheld :: "timestamp \<Rightarrow> int \<Rightarrow> service_db \<Rightarrow> int \<times> string \<Rightarrow> bool" where
  "withheld now stale d k = (case db_deliveries d k of
     None \<Rightarrow> False
   | Some r \<Rightarrow> ad_status r = ''delivered'' \<or>
       ad_status r = ''claimed'' \<and> ad_created_at r > now - seconds stale)"

text \<open>\<open>LEFT JOIN transaction t ON t.tx_hash = f.tx_hash\<close>: the target address of every joined row.\<close>

definition joined_to_addrs :: "service_db \<Rightarrow> string \<Rightarrow> string option list" where
  "joined_to_addrs d h = (case filter (\<lambda>t. tx_hash t = h) (db_txs d) of
     [] \<Rightarrow> [None] | ts \<Rightarrow> map tx_to_addr ts)"

definition category_matches :: "alert_subscription \<Rightarrow> failed_transaction \<Rightarrow> bool" where
  "category_matches s f =
     (sub_error_category s = None \<or> sub_error_category s = Some (ft_error_category f))"

definition address_matches :: "alert_subscription \<Rightarrow> string option \<Rightarrow> bool" where
  "address_matches s a = (sub_to_addr s = None \<or> sub_to_addr s = a)"

definition pending_rows :: "timestamp \<Rightarrow> int \<Rightarrow> service_db \<Rightarrow> alert_match list" where
  "pending_rows now stale d =
     [\<lparr>am_subscription_id = sub_id s, am_tx_hash = ft_tx_hash f,
       am_webhook_url = sub_webhook_url s, am_signing_secret = sub_signing_secret s\<rparr>.
      s \<leftarrow> db_subs d, f \<leftarrow> db_failed d, category_matches s f,
      a \<leftarrow> joined_to_addrs d (ft_tx_hash f),
      sub_active s \<and> sub_type s = ''per_event'' \<and> address_matches s a \<and>
        \<not> withheld now stale d (sub_id s, ft_tx_hash f)]"

definition find_pending_alert_matches ::
    "tie_order \<Rightarrow> timestamp \<Rightarrow> int \<Rightarrow> int \<Rightarrow> service_db \<Rightarrow> db_error + alert_match list" where
  "find_pending_alert_matches r now lim stale d =
     (if \<not> int4_ok stale then Inl (Sqlx ''integer out of range'')
      else page lim 0 (order_by r am_tx_hash (pending_rows now stale d)))"

section \<open>Rate alerts\<close>

definition rate_hits :: "timestamp \<Rightarrow> alert_subscription \<Rightarrow> service_db \<Rightarrow> string list" where
  "rate_hits now s d =
     [ft_tx_hash f. f \<leftarrow> db_failed d, category_matches s f, a \<leftarrow> joined_to_addrs d (ft_tx_hash f),
      address_matches s a \<and>
        (\<exists>w\<in>set_option (sub_threshold_window_secs s). now - seconds w \<le> ft_timestamp f)]"

definition debounced :: "timestamp \<Rightarrow> alert_subscription \<Rightarrow> service_db \<Rightarrow> bool" where
  "debounced now s d = list_ex (\<lambda>r. rd_subscription_id r = sub_id s \<and>
     (\<exists>b\<in>set_option (sub_debounce_secs s). now - seconds b < rd_dispatched_at r)) (db_rate_dispatches d)"

text \<open>The group of a subscription, if it passes \<open>WHERE\<close> and \<open>HAVING\<close>; the grouping columns are
  determined by the subscription.\<close>

definition rate_row :: "timestamp \<Rightarrow> service_db \<Rightarrow> alert_subscription \<Rightarrow> rate_alert_match list" where
  "rate_row now d s = (case (sub_threshold_count s, sub_threshold_window_secs s) of
     (Some c, Some w) \<Rightarrow>
       if sub_active s \<and> sub_type s = ''rate_threshold'' \<and> \<not> debounced now s d \<and>
          rate_hits now s d \<noteq> [] \<and> c \<le> int (length (rate_hits now s d))
       then [\<lparr>rm_subscription_id = sub_id s, rm_webhook_url = sub_webhook_url s,
              rm_signing_secret = sub_signing_secret s,
              rm_match_count = int (length (rate_hits now s d)), rm_threshold_count = c,
              rm_threshold_window_secs = w\<rparr>]
       else []
   | _ \<Rightarrow> [])"

definition rate_rows :: "timestamp \<Rightarrow> service_db \<Rightarrow> rate_alert_match list" where
  "rate_rows now d = concat (map (rate_row now d) (db_subs d))"

definition find_pending_rate_alert_matches ::
    "timestamp \<Rightarrow> int \<Rightarrow> service_db \<Rightarrow> db_error + rate_alert_match list" where
  "find_pending_rate_alert_matches now lim d = page lim 0 (sort_key rm_subscription_id (rate_rows now d))"

definition record_rate_alert_dispatch ::
    "timestamp \<Rightarrow> int \<Rightarrow> int \<Rightarrow> bool \<Rightarrow> string option \<Rightarrow> service_db \<Rightarrow> db_error + service_db" where
  "record_rate_alert_dispatch now sid n delivered err d =
     (if \<not> opt_ok text_ok err then Inl (Sqlx ''constraint violation'')
      else if \<not> sub_known d sid then Inl (Sqlx ''foreign key violation'')
      else Inr (d\<lparr>db_rate_dispatches := db_rate_dispatches d @
             [\<lparr>rd_dispatch_id = db_seq_dispatch d, rd_subscription_id = sid, rd_dispatched_at = now,
               rd_match_count = n, rd_status = (if delivered then ''delivered'' else ''failed''),
               rd_last_error = err\<rparr>],
             db_seq_dispatch := db_seq_dispatch d + 1\<rparr>))"

end
