(* ===== verification/Ledger.thy ===== *)
theory Ledger
  imports Alerts_Db
begin

text \<open>
  What the delivery ledger promises: an abstract state per pair of a subscription and a
  transaction (free, held since a time, or sent), the operations on it, and the statements of
  \<open>queries.rs\<close> as its implementation. Then the matchers against the ledger, the invariant of the
  alert tables, and the debouncing of rate alerts.
\<close>

section \<open>The abstract ledger\<close>

datatype ledger = Free | Held timestamp | Sent

definition ledger_view :: "service_db \<Rightarrow> int \<times> string \<Rightarrow> ledger" where
  "ledger_view d k = (case db_deliveries d k of
     None \<Rightarrow> Free
   | Some r \<Rightarrow> if ad_status r = ''delivered'' then Sent
               else if ad_status r = ''claimed'' then Held (ad_created_at r) else Free)"

definition claimable :: "timestamp \<Rightarrow> timestamp \<Rightarrow> ledger \<Rightarrow> bool" where
  "claimable stale now l = (case l of Free \<Rightarrow> True | Held t \<Rightarrow> t < now - stale | Sent \<Rightarrow> False)"

definition claim_spec ::
    "timestamp \<Rightarrow> timestamp \<Rightarrow> 'k \<Rightarrow> ('k \<Rightarrow> ledger) \<Rightarrow> bool \<times> ('k \<Rightarrow> ledger)" where
  "claim_spec stale now k L =
     (if claimable stale now (L k) then (True, L(k := Held now)) else (False, L))"

definition record_spec :: "'k \<Rightarrow> bool \<Rightarrow> ('k \<Rightarrow> ledger) \<Rightarrow> ('k \<Rightarrow> ledger)" where
  "record_spec k ok L = L(k := if ok then Sent else Free)"

text \<open>The statuses the statements write.\<close>

definition known_status :: "string \<Rightarrow> bool" where
  "known_status s \<longleftrightarrow> s = ''claimed'' \<or> s = ''delivered'' \<or> s = ''failed''"

lemma known_statuses [simp]:
  "known_status ''claimed''" "known_status ''delivered''" "known_status ''failed''"
  by (simp_all add: known_status_def)

definition statuses_ok :: "service_db \<Rightarrow> bool" where
  "statuses_ok d \<longleftrightarrow> (\<forall>sid h r. db_deliveries d (sid, h) = Some r \<longrightarrow>
     known_status (ad_status r))"

lemma statuses_ok_row:
  "statuses_ok d \<Longrightarrow> db_deliveries d k = Some r \<Longrightarrow>
   ad_status r = ''claimed'' \<or> ad_status r = ''delivered'' \<or> ad_status r = ''failed''"
  by (cases k) (auto simp: statuses_ok_def known_status_def)

text \<open>The contract the dispatcher relies on: claims and records act on the abstract ledger.\<close>

locale delivery_ledger =
  fixes claim :: "timestamp \<Rightarrow> 'k \<Rightarrow> 'd \<Rightarrow> 'e + bool \<times> 'd"
    and record_result :: "timestamp \<Rightarrow> 'k \<Rightarrow> bool \<Rightarrow> 'm \<Rightarrow> 'd \<Rightarrow> 'e + 'd"
    and view :: "'d \<Rightarrow> 'k \<Rightarrow> ledger"
    and ok :: "'d \<Rightarrow> bool"
    and stale :: timestamp
  assumes claim_view: "ok d \<Longrightarrow> claim now k d = Inr (b, d') \<Longrightarrow>
      ok d' \<and> (b, view d') = claim_spec stale now k (view d)"
    and record_view: "ok d \<Longrightarrow> record_result now k done msg d = Inr d' \<Longrightarrow>
      ok d' \<and> view d' = record_spec k done (view d)"
begin

lemma claim_keeps_ok: "ok d \<Longrightarrow> claim now k d = Inr (b, d') \<Longrightarrow> ok d'"
  using claim_view by blast

lemma record_keeps_ok: "ok d \<Longrightarrow> record_result now k done msg d = Inr d' \<Longrightarrow> ok d'"
  using record_view by blast

lemma claim_won:
  "ok d \<Longrightarrow> claim now k d = Inr (True, d') \<Longrightarrow>
   claimable stale now (view d k) \<and> view d' = (view d)(k := Held now)"
  using claim_view [of d now k True d'] by (auto simp: claim_spec_def split: if_splits)

lemma claim_lost:
  "ok d \<Longrightarrow> claim now k d = Inr (False, d') \<Longrightarrow>
   \<not> claimable stale now (view d k) \<and> view d' = view d"
  using claim_view [of d now k False d'] by (auto simp: claim_spec_def split: if_splits)

lemma recorded:
  "ok d \<Longrightarrow> record_result now k done msg d = Inr d' \<Longrightarrow> view d' = (view d)(k := if done then Sent else Free)"
  using record_view by (simp add: record_spec_def)

lemma claim_twice:
  assumes "ok d" "claim t1 k d = Inr (True, d1)" "ok d2" "view d2 k = view d1 k"
    and "claim t2 k d2 = Inr (True, d3)"
  shows "t1 + stale < t2"
  using claim_won [OF assms(1,2)] claim_won [OF assms(3,5)] assms(4)
  by (auto simp: claimable_def)

lemma sent_not_claimed: "ok d \<Longrightarrow> view d k = Sent \<Longrightarrow> claim now k d \<noteq> Inr (True, d')"
  using claim_won by (fastforce simp: claimable_def)

end

lemma claim_view:
  assumes "statuses_ok d" "try_claim_alert_match now (fst k) (snd k) stale d = Inr (b, d')"
  shows "statuses_ok d' \<and> (b, ledger_view d') = claim_spec (seconds stale) now k (ledger_view d)"
proof (cases "db_deliveries d k")
  case None
  with assms show ?thesis
    by (auto simp: try_claim_alert_match_def ledger_view_def claim_spec_def claimable_def fun_eq_iff
        statuses_ok_def split: if_splits)
next
  case (Some r)
  with assms statuses_ok_row [OF assms(1) Some] show ?thesis
    by (auto simp: try_claim_alert_match_def ledger_view_def claim_spec_def claimable_def fun_eq_iff
        statuses_ok_def split: if_splits)
qed

lemma record_view:
  assumes "statuses_ok d" "record_alert_delivery now (fst k) (snd k) delivered err d = Inr d'"
  shows "statuses_ok d' \<and> ledger_view d' = record_spec k delivered (ledger_view d)"
  using assms
  by (cases "db_deliveries d k")
    (auto simp: record_alert_delivery_def ledger_view_def record_spec_def fun_eq_iff Let_def
      statuses_ok_def split: if_splits)

interpretation ledger: delivery_ledger
  "\<lambda>now k. try_claim_alert_match now (fst k) (snd k) stale"
  "\<lambda>now k. record_alert_delivery now (fst k) (snd k)" ledger_view statuses_ok "seconds stale"
  by unfold_locales (rule claim_view record_view; assumption)+

section \<open>The invariant of the alert tables\<close>

definition service_ok :: "service_db \<Rightarrow> bool" where
  "service_ok d \<longleftrightarrow> distinct (map sub_id (db_subs d)) \<and> (\<forall>s\<in>set (db_subs d). sub_id s < db_seq_sub d) \<and>
     list_all sub_row_ok (db_subs d) \<and> statuses_ok d \<and>
     (\<forall>sid h r. db_deliveries d (sid, h) = Some r \<longrightarrow> sub_known d sid) \<and>
     (\<forall>r\<in>set (db_rate_dispatches d). sub_known d (rd_subscription_id r))"

lemma service_statuses: "service_ok d \<Longrightarrow> statuses_ok d"
  by (simp add: service_ok_def)

lemma add_subscription_ok:
  assumes "add_subscription s d = Inr (s', d')" "sub_id s = db_seq_sub d" "service_ok d"
  shows "service_ok d'"
proof -
  have d': "d' = d\<lparr>db_subs := db_subs d @ [s], db_seq_sub := db_seq_sub d + 1\<rparr>" "sub_row_ok s"
    using assms(1) by (auto simp: add_subscription_def split: if_splits)
  have "sub_id s \<notin> set (map sub_id (db_subs d))"
    using assms(2,3) by (force simp: service_ok_def)
  moreover have "\<forall>q\<in>set (db_subs d). sub_id q < db_seq_sub d + 1"
    using assms(3) by (force simp: service_ok_def)
  ultimately show ?thesis
    using assms(2,3) unfolding d'(1) service_ok_def statuses_ok_def sub_known_def
    by (simp add: d'(2))
qed

lemma ledger_write_ok:
  assumes "service_ok d" "statuses_ok d'" "db_subs d' = db_subs d" "db_seq_sub d' = db_seq_sub d"
    and "db_rate_dispatches d' = db_rate_dispatches d"
    and "dom (db_deliveries d') \<subseteq> insert (sid, h) (dom (db_deliveries d))"
    and "(sid, h) \<in> dom (db_deliveries d) \<or> sub_known d sid"
  shows "service_ok d'"
proof -
  have "sub_known d s" if "db_deliveries d' (s, q) = Some r" for s q r
  proof (cases "(s, q) = (sid, h)")
    case True
    with assms(1,7) show ?thesis by (auto simp: service_ok_def)
  next
    case False
    with that assms(6) have "(s, q) \<in> dom (db_deliveries d)" by blast
    with assms(1) show ?thesis by (auto simp: service_ok_def)
  qed
  with assms(1-5) show ?thesis
    by (simp add: service_ok_def sub_known_def)
qed

lemma claim_ok:
  assumes "try_claim_alert_match now sid h stale d = Inr (b, d')" "service_ok d"
  shows "service_ok d'"
proof (rule ledger_write_ok [OF assms(2)])
  show "statuses_ok d'"
    using claim_view [of d now "(sid, h)" stale b d'] assms by (simp add: service_ok_def)
qed (use assms(1) in \<open>auto simp: try_claim_alert_match_def split: if_splits option.splits\<close>)

lemma record_ok:
  assumes "record_alert_delivery now sid h dl err d = Inr d'" "service_ok d"
  shows "service_ok d'"
proof (rule ledger_write_ok [OF assms(2)])
  show "statuses_ok d'"
    using record_view [of d now "(sid, h)" dl err d'] assms by (simp add: service_ok_def)
qed (use assms(1) in \<open>auto simp: record_alert_delivery_def Let_def split: if_splits option.splits\<close>)

lemma sub_known_cong: "db_subs d' = db_subs d \<Longrightarrow> sub_known d' = sub_known d"
  by (simp add: sub_known_def fun_eq_iff)

definition dispatch_row :: "timestamp \<Rightarrow> int \<Rightarrow> int \<Rightarrow> bool \<Rightarrow> string option \<Rightarrow> service_db \<Rightarrow> rate_dispatch" where
  "dispatch_row now sid n dl err d =
     \<lparr>rd_dispatch_id = db_seq_dispatch d, rd_subscription_id = sid, rd_dispatched_at = now,
      rd_match_count = n, rd_status = (if dl then ''delivered'' else ''failed''), rd_last_error = err\<rparr>"

lemma rate_record_Inr:
  "record_rate_alert_dispatch now sid n dl err d = Inr d' \<longleftrightarrow>
     opt_ok text_ok err \<and> sub_known d sid \<and>
     d' = d\<lparr>db_rate_dispatches := db_rate_dispatches d @ [dispatch_row now sid n dl err d],
           db_seq_dispatch := db_seq_dispatch d + 1\<rparr>"
  by (simp add: record_rate_alert_dispatch_def dispatch_row_def) blast

lemma rate_record_ok:
  assumes "record_rate_alert_dispatch now sid n dl err d = Inr d'" "service_ok d"
  shows "service_ok d'"
proof -
  note d' = assms(1) [unfolded rate_record_Inr]
  then have "sub_known d' = sub_known d"
    by (intro sub_known_cong) simp
  with assms(2) d' show ?thesis
    by (simp add: service_ok_def statuses_ok_def dispatch_row_def)
qed

lemma update_sub_ids: "(\<And>s. sub_id (f s) = sub_id s) \<Longrightarrow> map sub_id (db_subs (update_sub P f d)) = map sub_id (db_subs d)"
  by (simp add: update_sub_def)

lemma update_sub_ok:
  assumes "service_ok d" "\<And>s. sub_id (f s) = sub_id s" "\<And>s. sub_row_ok s \<Longrightarrow> sub_row_ok (f s)"
  shows "service_ok (update_sub P f d)"
proof -
  have ids: "map sub_id (db_subs (update_sub P f d)) = map sub_id (db_subs d)"
    using assms(2) by (rule update_sub_ids)
  have "\<forall>s\<in>set (db_subs (update_sub P f d)). sub_id s < db_seq_sub d"
    using assms(1,2) by (auto simp: update_sub_def service_ok_def)
  moreover have "list_all sub_row_ok (db_subs (update_sub P f d))"
    using assms(1,3) by (auto simp: update_sub_def service_ok_def list_all_iff)
  ultimately show ?thesis
    using assms(1) unfolding service_ok_def sub_known_def ids
    by (simp add: update_sub_def statuses_ok_def)
qed

lemma deactivate_ok: "service_ok d \<Longrightarrow> service_ok (snd (deactivate_alert_subscription sid d))"
  by (simp add: deactivate_alert_subscription_def Let_def)
    (erule update_sub_ok; simp add: sub_row_ok_def rate_fields_chk_def)

lemma rotate_ok:
  "rotate_alert_subscription_secret sid secret d = Inr (x, d') \<Longrightarrow> service_ok d \<Longrightarrow> service_ok d'"
  by (auto simp: rotate_alert_subscription_secret_def Let_def sub_row_ok_def rate_fields_chk_def
      intro!: update_sub_ok split: if_splits)

lemma delete_known:
  "sub_known (snd (delete_alert_subscription sid d)) s \<longleftrightarrow> sub_known d s \<and> s \<noteq> sid"
  by (auto simp: delete_alert_subscription_def sub_known_def)

lemma delete_ok:
  assumes "service_ok d"
  shows "service_ok (snd (delete_alert_subscription sid d))"
  unfolding service_ok_def delete_known
  using assms
  by (auto simp: delete_alert_subscription_def service_ok_def statuses_ok_def list_all_iff
      distinct_map_filter)

section \<open>The pending matches\<close>

lemma distinct_map_concat_tagged:
  assumes "distinct (map t xs)" "\<And>x r. x \<in> set xs \<Longrightarrow> r \<in> set (g x) \<Longrightarrow> tag (f r) = t x"
    and "\<And>x. x \<in> set xs \<Longrightarrow> distinct (map f (g x))"
  shows "distinct (map f (concat (map g xs)))"
  using assms
proof (induction xs)
  case (Cons x xs)
  have "f ` set (g x) \<inter> f ` set (concat (map g xs)) = {}"
  proof (rule ccontr)
    assume "f ` set (g x) \<inter> f ` set (concat (map g xs)) \<noteq> {}"
    then obtain r r' y where "r \<in> set (g x)" "y \<in> set xs" "r' \<in> set (g y)" "f r = f r'"
      by auto
    with Cons.prems(2) [of x r] Cons.prems(2) [of y r'] Cons.prems(1) show False
      by (auto simp: image_iff)
  qed
  with Cons show ?case by auto
qed simp

definition alert_of :: "alert_subscription \<Rightarrow> failed_transaction \<Rightarrow> alert_match" where
  "alert_of s f = \<lparr>am_subscription_id = sub_id s, am_tx_hash = ft_tx_hash f,
     am_webhook_url = sub_webhook_url s, am_signing_secret = sub_signing_secret s\<rparr>"

definition pair_of :: "alert_match \<Rightarrow> int \<times> string" where
  "pair_of m = (am_subscription_id m, am_tx_hash m)"

definition rule_matches :: "service_db \<Rightarrow> alert_subscription \<Rightarrow> failed_transaction \<Rightarrow> bool" where
  "rule_matches d s f \<longleftrightarrow> category_matches s f \<and>
     (\<exists>t\<in>set (db_txs d). tx_hash t = ft_tx_hash f \<and> address_matches s (tx_to_addr t))"

definition alert_due :: "timestamp \<Rightarrow> int \<Rightarrow> service_db \<Rightarrow> alert_subscription \<Rightarrow> failed_transaction \<Rightarrow> bool" where
  "alert_due now stale d s f \<longleftrightarrow> s \<in> set (db_subs d) \<and> f \<in> set (db_failed d) \<and> sub_active s \<and>
     sub_type s = ''per_event'' \<and> rule_matches d s f \<and> \<not> withheld now stale d (sub_id s, ft_tx_hash f)"

lemma key_unique: "distinct (map key xs) \<Longrightarrow> x \<in> set xs \<Longrightarrow> y \<in> set xs \<Longrightarrow> key x = key y \<Longrightarrow> x = y"
  by (metis distinct_map inj_onD)

lemma filter_unique_key:
  "distinct (map key xs) \<Longrightarrow> x \<in> set xs \<Longrightarrow> filter (\<lambda>y. key y = key x) xs = [x]"
proof (induction xs)
  case (Cons a xs)
  show ?case
  proof (cases "x = a")
    case True
    with Cons.prems(1) have "filter (\<lambda>y. key y = key x) xs = []"
      by (auto simp: filter_empty_conv image_iff)
    with True show ?thesis by simp
  next
    case False
    with Cons have "key a \<noteq> key x" by auto
    with False Cons show ?thesis by simp
  qed
qed simp

lemma joined_single:
  assumes "db_ok d" "f \<in> set (db_failed d)"
  shows "\<exists>t\<in>set (db_txs d). tx_hash t = ft_tx_hash f \<and> joined_to_addrs d (ft_tx_hash f) = [tx_to_addr t]"
proof -
  have "ft_tx_hash f \<in> tx_hash ` set (db_txs d)"
    using assms by (auto simp: db_ok_unfold)
  then obtain t where t: "t \<in> set (db_txs d)" "tx_hash t = ft_tx_hash f" by auto
  with assms(1) filter_unique_key [of tx_hash "db_txs d" t] show ?thesis
    by (auto simp: joined_to_addrs_def db_ok_def intro!: bexI [of _ t])
qed

lemma joined_matches:
  assumes "db_ok d" "f \<in> set (db_failed d)"
  shows "(\<exists>a\<in>set (joined_to_addrs d (ft_tx_hash f)). address_matches s a) \<longleftrightarrow>
    (\<exists>t\<in>set (db_txs d). tx_hash t = ft_tx_hash f \<and> address_matches s (tx_to_addr t))"
proof -
  obtain t where t: "t \<in> set (db_txs d)" "tx_hash t = ft_tx_hash f"
      "joined_to_addrs d (ft_tx_hash f) = [tx_to_addr t]"
    using joined_single [OF assms] by blast
  have "u = t" if "u \<in> set (db_txs d)" "tx_hash u = ft_tx_hash f" for u
    by (rule key_unique [of tx_hash "db_txs d"]) (use assms(1) t that in \<open>simp_all add: db_ok_def\<close>)
  note u = this
  have "(\<exists>a\<in>set (joined_to_addrs d (ft_tx_hash f)). address_matches s a) = address_matches s (tx_to_addr t)"
    by (simp add: t(3))
  also have "\<dots> \<longleftrightarrow> (\<exists>t\<in>set (db_txs d). tx_hash t = ft_tx_hash f \<and> address_matches s (tx_to_addr t))"
    using t(1,2) u by metis
  finally show ?thesis .
qed

lemma set_comprehension:
  "x \<in> set (concat (map g ys)) \<longleftrightarrow> (\<exists>y\<in>set ys. x \<in> set (g y))"
  "x \<in> set (if P then zs else []) \<longleftrightarrow> P \<and> x \<in> set zs"
  by auto

lemma pending_rows_iff:
  "m \<in> set (pending_rows now stale d) \<longleftrightarrow>
     (\<exists>s\<in>set (db_subs d). \<exists>f\<in>set (db_failed d). category_matches s f \<and>
        (\<exists>a\<in>set (joined_to_addrs d (ft_tx_hash f)). address_matches s a) \<and>
        sub_active s \<and> sub_type s = ''per_event'' \<and>
        \<not> withheld now stale d (sub_id s, ft_tx_hash f) \<and> m = alert_of s f)"
  unfolding pending_rows_def set_comprehension alert_of_def [symmetric] list.set(2) list.set(1) by blast

lemma pending_rows_due:
  "db_ok d \<Longrightarrow> m \<in> set (pending_rows now stale d) \<longleftrightarrow> (\<exists>s f. alert_due now stale d s f \<and> m = alert_of s f)"
  unfolding pending_rows_iff alert_due_def rule_matches_def
  by (simp add: joined_matches cong: bex_cong conj_cong) blast

lemma pending_rows_distinct:
  assumes "db_ok d" "service_ok d"
  shows "distinct (map pair_of (pending_rows now stale d))"
  unfolding pending_rows_def
proof (rule distinct_map_concat_tagged [where t = sub_id and tag = fst], goal_cases)
  case 1
  then show ?case using assms(2) by (simp add: service_ok_def)
next
  case (2 s r)
  then show ?case by (auto simp: pair_of_def split: if_splits)
next
  case (3 s)
  show ?case
  proof (rule distinct_map_concat_tagged [where t = ft_tx_hash and tag = snd], goal_cases)
    case 1
    then show ?case using assms(1) by (simp add: db_ok_def)
  next
    case (2 f r)
    then show ?case by (auto simp: pair_of_def split: if_splits)
  next
    case (3 f)
    then show ?case using joined_single [OF assms(1), of f] by auto
  qed
qed

section \<open>The rate matches\<close>

definition in_window :: "timestamp \<Rightarrow> alert_subscription \<Rightarrow> failed_transaction \<Rightarrow> bool" where
  "in_window now s f \<longleftrightarrow> (\<exists>w\<in>set_option (sub_threshold_window_secs s). now - seconds w \<le> ft_timestamp f)"

lemma concat_if_filter: "concat (map (\<lambda>x. if P x then [g x] else []) xs) = map g (filter P xs)"
  by (induction xs) auto

lemma rate_hits_eq:
  assumes "db_ok d"
  shows "rate_hits now s d =
    map ft_tx_hash (filter (\<lambda>f. rule_matches d s f \<and> in_window now s f) (db_failed d))"
proof -
  have "(if category_matches s f then concat (map (\<lambda>a. if address_matches s a \<and>
            (\<exists>w\<in>set_option (sub_threshold_window_secs s). now - seconds w \<le> ft_timestamp f)
          then [ft_tx_hash f] else []) (joined_to_addrs d (ft_tx_hash f))) else []) =
        (if rule_matches d s f \<and> in_window now s f then [ft_tx_hash f] else [])"
    if f: "f \<in> set (db_failed d)" for f
  proof -
    obtain a where a: "joined_to_addrs d (ft_tx_hash f) = [a]"
      using joined_single [OF assms f] by blast
    have "rule_matches d s f \<longleftrightarrow> category_matches s f \<and> address_matches s a"
      using joined_matches [OF assms f, of s] by (simp add: rule_matches_def a)
    then show ?thesis
      by (simp add: a in_window_def)
  qed
  then have "rate_hits now s d = concat (map (\<lambda>f.
      if rule_matches d s f \<and> in_window now s f then [ft_tx_hash f] else []) (db_failed d))"
    unfolding rate_hits_def by (intro arg_cong [of _ _ concat] map_cong refl) simp
  then show ?thesis
    by (simp add: concat_if_filter)
qed

lemma rate_hits_length:
  assumes "db_ok d"
  shows "length (rate_hits now s d) =
    card {f \<in> set (db_failed d). rule_matches d s f \<and> in_window now s f}"
proof -
  have "distinct (db_failed d)"
    using assms distinct_map [of ft_tx_hash "db_failed d"] by (simp add: db_ok_def)
  then show ?thesis
    by (simp add: rate_hits_eq [OF assms] distinct_length_filter Int_def conj_ac)
qed

definition rate_due :: "timestamp \<Rightarrow> service_db \<Rightarrow> alert_subscription \<Rightarrow> int \<Rightarrow> int \<Rightarrow> bool" where
  "rate_due now d s c w \<longleftrightarrow> s \<in> set (db_subs d) \<and> sub_active s \<and> sub_type s = ''rate_threshold'' \<and>
     \<not> debounced now s d \<and> sub_threshold_count s = Some c \<and> sub_threshold_window_secs s = Some w \<and>
     rate_hits now s d \<noteq> [] \<and> c \<le> int (length (rate_hits now s d))"

definition rate_alert_of :: "timestamp \<Rightarrow> service_db \<Rightarrow> alert_subscription \<Rightarrow> int \<Rightarrow> int \<Rightarrow> rate_alert_match" where
  "rate_alert_of now d s c w =
     \<lparr>rm_subscription_id = sub_id s, rm_webhook_url = sub_webhook_url s,
      rm_signing_secret = sub_signing_secret s, rm_match_count = int (length (rate_hits now s d)),
      rm_threshold_count = c, rm_threshold_window_secs = w\<rparr>"

lemma rate_row_due:
  "s \<in> set (db_subs d) \<Longrightarrow>
   m \<in> set (rate_row now d s) \<longleftrightarrow> (\<exists>c w. rate_due now d s c w \<and> m = rate_alert_of now d s c w)"
  by (cases "sub_threshold_count s"; cases "sub_threshold_window_secs s")
    (auto simp: rate_row_def rate_due_def rate_alert_of_def)

lemma rate_rows_due:
  "m \<in> set (rate_rows now d) \<longleftrightarrow> (\<exists>s c w. rate_due now d s c w \<and> m = rate_alert_of now d s c w)"
  unfolding rate_rows_def set_comprehension
  using rate_row_due [of _ d m now] by (metis rate_due_def)

lemma rate_rows_distinct:
  assumes "service_ok d"
  shows "distinct (map rm_subscription_id (rate_rows now d))"
  unfolding rate_rows_def
proof (rule distinct_map_concat_tagged [where t = sub_id and tag = id])
  show "distinct (map sub_id (db_subs d))"
    using assms by (simp add: service_ok_def)
qed (auto simp: rate_row_def split: option.splits)

lemma debounce_blocks:
  assumes rec: "record_rate_alert_dispatch t sid n dl err d = Inr d'"
    and s: "s \<in> set (db_subs d)" "sub_id s = sid" "sub_debounce_secs s = Some b" and ok: "service_ok d"
    and now: "now < t + seconds b"
  shows "\<not> rate_due now d' s' c w \<or> sub_id s' \<noteq> sid"
proof (rule ccontr)
  assume "\<not> ?thesis"
  then have due: "rate_due now d' s' c w" and id: "sub_id s' = sid" by simp_all
  note d' = rec [unfolded rate_record_Inr]
  have "s' \<in> set (db_subs d)"
    using due d' by (simp add: rate_due_def)
  then have "s' = s"
    using ok s id by (intro key_unique [of sub_id "db_subs d"]) (simp_all add: service_ok_def)
  then have "debounced now s' d'"
    using d' s now by (simp add: debounced_def dispatch_row_def)
  with due show False by (simp add: rate_due_def)
qed

section \<open>Properties\<close>

text \<open>C8. The alert statements implement the abstract ledger, in which every pair of a subscription
  and a transaction is free, held since a time, or sent: a claim succeeds exactly when the pair is
  free or held for longer than the stale time, and then holds it; recording a result makes it sent
  or free again; deleting a subscription frees its pairs; the other statements change nothing, and
  a new subscription starts with all its pairs free.\<close>

theorem ledger_refinement:
  assumes "service_ok d"
  shows "(try_claim_alert_match now sid h stale d = Inr (b, d1) \<longrightarrow>
      (b, ledger_view d1) = claim_spec (seconds stale) now (sid, h) (ledger_view d)) \<and>
    (record_alert_delivery now sid h ok err d = Inr d2 \<longrightarrow>
      ledger_view d2 = record_spec (sid, h) ok (ledger_view d)) \<and>
    ledger_view (snd (delete_alert_subscription sid d)) =
      (\<lambda>k. if fst k = sid then Free else ledger_view d k) \<and>
    ledger_view (snd (deactivate_alert_subscription sid d)) = ledger_view d \<and>
    (rotate_alert_subscription_secret sid secret d = Inr (x, d3) \<longrightarrow> ledger_view d3 = ledger_view d) \<and>
    (insert_alert_subscription now cat a url secret d = Inr (s, d4) \<longrightarrow>
      ledger_view d4 = ledger_view d \<and> ledger_view d4 (sub_id s, h) = Free)"
proof (intro conjI impI)
  note st = service_statuses [OF assms]
  show "(b, ledger_view d1) = claim_spec (seconds stale) now (sid, h) (ledger_view d)"
    if "try_claim_alert_match now sid h stale d = Inr (b, d1)"
    using claim_view [OF st, of now "(sid, h)"] that by simp
  show "ledger_view d2 = record_spec (sid, h) ok (ledger_view d)"
    if "record_alert_delivery now sid h ok err d = Inr d2"
    using record_view [OF st, of now "(sid, h)"] that by simp
  show "ledger_view (snd (delete_alert_subscription sid d)) = (\<lambda>k. if fst k = sid then Free else ledger_view d k)"
    by (auto simp: ledger_view_def fun_eq_iff delete_alert_subscription_def)
  show "ledger_view (snd (deactivate_alert_subscription sid d)) = ledger_view d"
    by (simp add: ledger_view_def fun_eq_iff deactivate_alert_subscription_def update_sub_def Let_def)
  show "ledger_view d3 = ledger_view d" if "rotate_alert_subscription_secret sid secret d = Inr (x, d3)"
    using that by (auto simp: ledger_view_def fun_eq_iff rotate_alert_subscription_secret_def
        update_sub_def Let_def split: if_splits)
  assume ins: "insert_alert_subscription now cat a url secret d = Inr (s, d4)"
  have fresh: "db_deliveries d (db_seq_sub d, h) = None"
  proof (rule ccontr)
    assume "db_deliveries d (db_seq_sub d, h) \<noteq> None"
    then have "sub_known d (db_seq_sub d)"
      using assms by (auto simp: service_ok_def)
    with assms show False
      by (force simp: service_ok_def sub_known_def)
  qed
  have "db_deliveries d4 = db_deliveries d" "sub_id s = db_seq_sub d"
    using ins by (auto simp: insert_alert_subscription_def add_subscription_def split: if_splits)
  with fresh show "ledger_view d4 = ledger_view d" "ledger_view d4 (sub_id s, h) = Free"
    by (simp_all add: ledger_view_def fun_eq_iff)
qed

text \<open>C12. The matcher returns, in the order of the hashes and each pair at most once, exactly the
  pairs that are due, whatever order PostgreSQL gives to the pairs of one hash: an active
  \<open>per_event\<close> subscription, a failed transaction of its category (or any) sent to its address (or
  any), not delivered, and not held by a fresh claim. Below the limit it returns all of them. Every returned pair can be claimed at that moment, except when its claim
  is exactly \<open>stale\<close> seconds old: the matcher then includes what the claim still refuses.\<close>

theorem pending_matches_exact:
  assumes "db_ok d" "service_ok d" "find_pending_alert_matches r now lim stale d = Inr ms"
  shows "sorted (map am_tx_hash ms) \<and> distinct (map pair_of ms) \<and> int (length ms) \<le> lim \<and>
    (\<forall>m\<in>set ms. \<exists>s f. alert_due now stale d s f \<and> m = alert_of s f) \<and>
    (int (length ms) < lim \<longrightarrow> (\<forall>s f. alert_due now stale d s f \<longrightarrow> alert_of s f \<in> set ms)) \<and>
    (\<forall>m\<in>set ms. claimable (seconds stale) now (ledger_view d (pair_of m)) \<or>
       ledger_view d (pair_of m) = Held (now - seconds stale))"
proof -
  let ?rows = "order_by r am_tx_hash (pending_rows now stale d)"
  have ms: "ms = take (nat lim) ?rows" "0 \<le> lim"
    using assms(3) by (auto simp: find_pending_alert_matches_def page_Inr_iff split: if_splits)
  have 1: "sorted (map am_tx_hash ms)"
    by (simp add: ms take_map [symmetric] sorted_wrt_take)
  have "distinct (map pair_of ?rows)"
    by (rule distinct_order_by [OF pending_rows_distinct [OF assms(1,2)]])
  then have 2: "distinct (map pair_of ms)"
    by (simp add: ms take_map [symmetric])
  have 3: "int (length ms) \<le> lim"
    using ms by simp
  have due: "\<exists>s f. alert_due now stale d s f \<and> m = alert_of s f" if "m \<in> set ms" for m
  proof -
    from that have "m \<in> set (pending_rows now stale d)"
      using in_set_takeD [of m "nat lim" ?rows] by (simp add: ms)
    then show ?thesis
      by (simp only: pending_rows_due [OF assms(1)])
  qed
  have 5: "alert_of s f \<in> set ms" if "int (length ms) < lim" "alert_due now stale d s f" for s f
  proof -
    from that(1) ms have "ms = ?rows" by simp
    moreover have "alert_of s f \<in> set (pending_rows now stale d)"
      using that(2) pending_rows_due [OF assms(1)] by blast
    ultimately show ?thesis by simp
  qed
  have 6: "claimable (seconds stale) now (ledger_view d (pair_of m)) \<or>
       ledger_view d (pair_of m) = Held (now - seconds stale)" if "m \<in> set ms" for m
    using due [OF that]
    by (auto simp: alert_due_def withheld_def ledger_view_def claimable_def pair_of_def alert_of_def
        split: option.splits)
  show ?thesis
    using 1 2 3 due 5 6 by blast
qed

text \<open>C13. A rate alert is returned at most once per subscription and only for an active
  \<open>rate_threshold\<close> subscription with at least its (positive) threshold of matching failures inside
  its window, the number it reports; and after a dispatch has been recorded, whatever its result,
  the subscription is not returned again before its debounce time has passed.\<close>

theorem rate_matches_debounced:
  assumes "db_ok d" "service_ok d" "find_pending_rate_alert_matches now lim d = Inr ms"
  shows "distinct (map rm_subscription_id ms) \<and>
    (\<forall>m\<in>set ms. \<exists>s\<in>set (db_subs d). sub_active s \<and> sub_type s = ''rate_threshold'' \<and>
       rm_subscription_id m = sub_id s \<and> sub_threshold_count s = Some (rm_threshold_count m) \<and>
       0 < rm_threshold_count m \<and> rm_threshold_count m \<le> rm_match_count m \<and>
       rm_match_count m = int (card {f \<in> set (db_failed d). rule_matches d s f \<and>
          now - seconds (rm_threshold_window_secs m) \<le> ft_timestamp f})) \<and>
    (\<forall>m\<in>set ms. \<forall>n dl err d' lim' now' ms' b s. s \<in> set (db_subs d) \<longrightarrow>
       sub_id s = rm_subscription_id m \<longrightarrow> sub_debounce_secs s = Some b \<longrightarrow>
       record_rate_alert_dispatch now (sub_id s) n dl err d = Inr d' \<longrightarrow> now' < now + seconds b \<longrightarrow>
       find_pending_rate_alert_matches now' lim' d' = Inr ms' \<longrightarrow>
       sub_id s \<notin> set (map rm_subscription_id ms'))"
proof -
  have members: "set ms \<subseteq> set (rate_rows now d)"
    if "find_pending_rate_alert_matches now lim d = Inr ms" for now lim d ms
    using that set_take_subset [of "nat lim" "sort_key rm_subscription_id (rate_rows now d)"]
    by (auto simp: find_pending_rate_alert_matches_def page_Inr_iff)
  have "distinct (map rm_subscription_id (sort_key rm_subscription_id (rate_rows now d)))"
    using rate_rows_distinct [OF assms(2)] by (simp add: distinct_map)
  then have 1: "distinct (map rm_subscription_id ms)"
    using assms(3) by (auto simp: find_pending_rate_alert_matches_def page_Inr_iff take_map [symmetric])
  have 2: "\<exists>s\<in>set (db_subs d). sub_active s \<and> sub_type s = ''rate_threshold'' \<and>
       rm_subscription_id m = sub_id s \<and> sub_threshold_count s = Some (rm_threshold_count m) \<and>
       0 < rm_threshold_count m \<and> rm_threshold_count m \<le> rm_match_count m \<and>
       rm_match_count m = int (card {f \<in> set (db_failed d). rule_matches d s f \<and>
          now - seconds (rm_threshold_window_secs m) \<le> ft_timestamp f})" if "m \<in> set ms" for m
  proof -
    from members [OF assms(3)] that have "m \<in> set (rate_rows now d)" by blast
    then obtain s c w where due: "rate_due now d s c w" and m: "m = rate_alert_of now d s c w"
      unfolding rate_rows_due by blast
    then have "sub_row_ok s"
      using assms(2) by (simp add: rate_due_def service_ok_def list_all_iff)
    then have "0 < c"
      using due by (auto simp: sub_row_ok_def rate_fields_chk_def rate_due_def)
    moreover have "length (rate_hits now s d) = card {f \<in> set (db_failed d). rule_matches d s f \<and>
        now - seconds w \<le> ft_timestamp f}"
      using due by (simp add: rate_hits_length [OF assms(1)] in_window_def rate_due_def)
    ultimately show ?thesis
      using due m by (intro bexI [of _ s]) (auto simp: rate_alert_of_def rate_due_def)
  qed
  have 3: "sub_id s \<notin> set (map rm_subscription_id ms')"
    if asm: "s \<in> set (db_subs d)" "sub_debounce_secs s = Some b"
      "record_rate_alert_dispatch now (sub_id s) n dl err d = Inr d'" "now' < now + seconds b"
      "find_pending_rate_alert_matches now' lim' d' = Inr ms'" for n dl err d' lim' now' ms' b s
  proof
    assume "sub_id s \<in> set (map rm_subscription_id ms')"
    then obtain m' where "m' \<in> set (rate_rows now' d')" "rm_subscription_id m' = sub_id s"
      using members [OF asm(5)] by auto
    then obtain s' c w where "rate_due now' d' s' c w" "sub_id s' = sub_id s"
      unfolding rate_rows_due by (auto simp: rate_alert_of_def)
    with debounce_blocks [OF asm(3,1) refl asm(2) assms(2) asm(4)] show False by blast
  qed
  show ?thesis
    using 1 2 3 by blast
qed

section \<open>Instances\<close>

text \<open>A chain database with subscriptions, a ledger and rate dispatches.\<close>

definition service_of :: "chain_db \<Rightarrow> alert_subscription list \<Rightarrow> (int \<times> string \<rightharpoonup> alert_delivery) \<Rightarrow>
    rate_dispatch list \<Rightarrow> service_db" where
    "service_of d subs dels rates = \<lparr>db_blocks = db_blocks d, db_txs = db_txs d,
     db_tokens = db_tokens d, db_pools = db_pools d, db_swaps = db_swaps d, db_liqs = db_liqs d,
     db_transfers = db_transfers d, db_failed = db_failed d, db_traces = db_traces d,
     db_checkpoints = db_checkpoints d, db_seq_swap = db_seq_swap d, db_seq_liq = db_seq_liq d,
     db_seq_transfer = db_seq_transfer d, db_seq_trace = db_seq_trace d,
     db_subs = subs, db_deliveries = dels, db_rate_dispatches = rates, db_labels = [],
     db_signatures = [], db_diagnoses = [], db_seq_sub = 10, db_seq_dispatch = 1, db_profiles = [],
     db_snapshots = [], db_seq_snapshot = 1\<rparr>"

lemma service_of_fields [simp]:
  "db_blocks (service_of d subs dels rates) = db_blocks d"
  "db_txs (service_of d subs dels rates) = db_txs d"
  "db_tokens (service_of d subs dels rates) = db_tokens d"
  "db_pools (service_of d subs dels rates) = db_pools d"
  "db_swaps (service_of d subs dels rates) = db_swaps d"
  "db_liqs (service_of d subs dels rates) = db_liqs d"
  "db_transfers (service_of d subs dels rates) = db_transfers d"
  "db_failed (service_of d subs dels rates) = db_failed d"
  "db_traces (service_of d subs dels rates) = db_traces d"
  "db_checkpoints (service_of d subs dels rates) = db_checkpoints d"
  "db_seq_swap (service_of d subs dels rates) = db_seq_swap d"
  "db_seq_liq (service_of d subs dels rates) = db_seq_liq d"
  "db_seq_transfer (service_of d subs dels rates) = db_seq_transfer d"
  "db_seq_trace (service_of d subs dels rates) = db_seq_trace d"
  "db_subs (service_of d subs dels rates) = subs"
  "db_deliveries (service_of d subs dels rates) = dels"
  "db_rate_dispatches (service_of d subs dels rates) = rates"
  "db_seq_sub (service_of d subs dels rates) = 10"
  by (simp_all add: service_of_def)

lemma service_of_db_ok [simp]: "db_ok (service_of d subs dels rates) = db_ok d"
  by (simp add: db_ok_unfold)

definition sample_sub :: alert_subscription where
  "sample_sub = \<lparr>sub_id = 1, sub_error_category = Some Unknown, sub_to_addr = None,
     sub_webhook_url = ''https://a.example/'', sub_signing_secret = ''00ff'', sub_active = True,
     sub_created_at = 0, sub_type = ''per_event'', sub_threshold_count = None,
     sub_threshold_window_secs = None, sub_debounce_secs = None\<rparr>"

definition sample_rate_sub :: alert_subscription where
  "sample_rate_sub = sample_sub\<lparr>sub_id := 2, sub_type := ''rate_threshold'',
     sub_threshold_count := Some 1, sub_threshold_window_secs := Some 60, sub_debounce_secs := Some 30\<rparr>"

lemma sample_sub_ok: "sub_row_ok sample_sub" "sub_row_ok sample_rate_sub"
  by (simp_all add: sample_sub_def sample_rate_sub_def sub_row_ok_def rate_fields_chk_def opt_ok_def
      text_ok_def char_code_def)

lemma sample_sub_fields [simp]:
  "sub_id sample_sub = 1" "sub_active sample_sub" "sub_type sample_sub = ''per_event''"
  "sub_id sample_rate_sub = 2" "sub_active sample_rate_sub" "sub_type sample_rate_sub = ''rate_threshold''"
  "sub_error_category sample_sub = Some Unknown" "sub_error_category sample_rate_sub = Some Unknown"
  "sub_to_addr sample_sub = None" "sub_to_addr sample_rate_sub = None"
  "sub_threshold_count sample_rate_sub = Some 1" "sub_threshold_window_secs sample_rate_sub = Some 60"
  "sub_debounce_secs sample_rate_sub = Some 30"
  by (simp_all add: sample_sub_def sample_rate_sub_def)

definition sample_service :: "(int \<times> string \<rightharpoonup> alert_delivery) \<Rightarrow> service_db" where
  "sample_service dels = service_of sample_db [sample_sub, sample_rate_sub] dels []"

lemma sample_service_fields [simp]:
  "db_txs (sample_service dels) = db_txs sample_db" "db_failed (sample_service dels) = db_failed sample_db"
  "db_subs (sample_service dels) = [sample_sub, sample_rate_sub]"
  "db_deliveries (sample_service dels) = dels" "db_rate_dispatches (sample_service dels) = []"
  by (simp_all add: sample_service_def)

lemma sample_service_ok: "db_ok (sample_service dels)"
    "statuses_ok (sample_service dels) \<Longrightarrow> (\<forall>sid h r. dels (sid, h) = Some r \<longrightarrow> sid = 1) \<Longrightarrow>
     service_ok (sample_service dels)"
  by (simp add: sample_service_def sample_db_ok)
    (auto simp: sample_service_def service_ok_def sub_known_def sample_sub_ok)

lemma sample_item_failed [simp]:
  "db_failed sample_db = [\<lparr>ft_tx_hash = ''t6'', ft_error_category = Unknown, ft_revert_reason = None,
     ft_failing_function = None, ft_gas_used = 1, ft_timestamp = 1\<rparr>]"
  "map tx_hash (db_txs sample_db) = [''t6'']"
  by (simp_all add: sample_db_def)

lemma sample_joined: "joined_to_addrs (sample_service dels) ''t6'' = [None]"
  by (simp add: joined_to_addrs_def sample_service_def) (simp add: sample_db_def)

lemma sample_pending:
  "find_pending_alert_matches r 100 10 60 (sample_service Map.empty) =
     Inr [\<lparr>am_subscription_id = 1, am_tx_hash = ''t6'', am_webhook_url = sub_webhook_url sample_sub,
           am_signing_secret = sub_signing_secret sample_sub\<rparr>]"
proof -
  have "pending_rows 100 60 (sample_service Map.empty) =
     [\<lparr>am_subscription_id = 1, am_tx_hash = ''t6'', am_webhook_url = sub_webhook_url sample_sub,
           am_signing_secret = sub_signing_secret sample_sub\<rparr>]"
    by (simp add: pending_rows_def sample_joined category_matches_def address_matches_def withheld_def)
  then show ?thesis
    by (simp add: find_pending_alert_matches_def page_def int4_ok_def)
qed

lemma sample_empty_ok: "db_ok (sample_service Map.empty)" "service_ok (sample_service Map.empty)"
  by (simp_all add: sample_service_ok statuses_ok_def)

lemma pending_matches_exact_witness:
  "\<exists>ms. find_pending_alert_matches id 100 10 60 (sample_service Map.empty) = Inr ms \<and> length ms = 1 \<and>
     (\<forall>m\<in>set ms. \<exists>s f. alert_due 100 60 (sample_service Map.empty) s f \<and> m = alert_of s f)"
  using pending_matches_exact [OF sample_empty_ok sample_pending] by (simp add: sample_pending)

lemma sample_claim:
  "try_claim_alert_match 100 1 ''t6'' 60 (sample_service Map.empty) =
     Inr (True, sample_service [(1, ''t6'') \<mapsto> \<lparr>ad_status = ''claimed'', ad_attempts = 1,
       ad_last_error = None, ad_delivered_at = None, ad_created_at = 100\<rparr>])"
  by (simp add: try_claim_alert_match_def int4_ok_def text_ok_def char_code_def sub_known_def)
    (simp add: sample_service_def service_of_def)

lemma ledger_refinement_witness:
  "\<exists>d'. try_claim_alert_match 100 1 ''t6'' 60 (sample_service Map.empty) = Inr (True, d') \<and>
     (True, ledger_view d') = claim_spec (seconds 60) 100 (1, ''t6'') (ledger_view (sample_service Map.empty))"
  using sample_claim ledger_refinement [OF sample_empty_ok(2), of 100 1 "''t6''" 60 True]
  by blast

lemma sample_rate_pending:
  "find_pending_rate_alert_matches 100 10 (sample_service Map.empty) =
     Inr [rate_alert_of 100 (sample_service Map.empty) sample_rate_sub 1 60]"
  by (simp add: find_pending_rate_alert_matches_def page_def rate_rows_def rate_row_def
      rate_alert_of_def debounced_def rate_hits_def sample_joined category_matches_def
      address_matches_def seconds_def) (simp add: sample_sub_def)

lemma rate_matches_debounced_witness:
  "\<exists>ms. find_pending_rate_alert_matches 100 10 (sample_service Map.empty) = Inr ms \<and> length ms = 1 \<and>
     distinct (map rm_subscription_id ms) \<and> (\<forall>m\<in>set ms. rm_threshold_count m \<le> rm_match_count m)"
  using rate_matches_debounced [OF sample_empty_ok sample_rate_pending] by (auto simp: sample_rate_pending)

end
