(* ===== verification/Validators.thy ===== *)
theory Validators
  imports Bytes
begin

text \<open>
  The webhook validators of \<open>src/crates/db/src/validators.rs\<close>. An IPv4 or IPv6 address is its 32 or
  128 bit word; the address classes are those of the Rust standard library, and so is the parser
  of addresses (\<open>IpAddr::from_str\<close>). The parser of URLs belongs to the \<open>url\<close> crate and is an
  argument: it returns the scheme and the host of a valid URL.
\<close>

unbundle bit_operations_syntax

datatype unsafe_url_reason =
    InvalidUrl | NonHttps | NoHost | LoopbackHost | PrivateIp | LinkLocalIp | UnspecifiedIp
  | MulticastIp | BroadcastIp | UniqueLocalIp | MdnsHost

datatype ip_addr = V4 "32 word" | V6 "128 word"

section \<open>Address classes\<close>

definition octet :: "nat \<Rightarrow> 32 word \<Rightarrow> u8" where
  "octet k a = ucast (drop_bit (24 - 8 * k) a)"

definition v4_loopback :: "32 word \<Rightarrow> bool" where
  "v4_loopback a = (octet 0 a = 127)"

definition v4_unspecified :: "32 word \<Rightarrow> bool" where
  "v4_unspecified a = (a = 0)"

definition v4_multicast :: "32 word \<Rightarrow> bool" where
  "v4_multicast a = (224 \<le> octet 0 a \<and> octet 0 a \<le> 239)"

definition v4_private :: "32 word \<Rightarrow> bool" where
  "v4_private a = (octet 0 a = 10 \<or> octet 0 a = 172 \<and> 16 \<le> octet 1 a \<and> octet 1 a \<le> 31 \<or>
     octet 0 a = 192 \<and> octet 1 a = 168)"

definition v4_link_local :: "32 word \<Rightarrow> bool" where
  "v4_link_local a = (octet 0 a = 169 \<and> octet 1 a = 254)"

definition v4_broadcast :: "32 word \<Rightarrow> bool" where
  "v4_broadcast a = (a = 0xFFFFFFFF)"

text \<open>\<open>segments()[0]\<close> and \<open>to_ipv4_mapped\<close>: \<open>::ffff:a.b.c.d\<close>.\<close>

definition segment0 :: "128 word \<Rightarrow> 16 word" where
  "segment0 a = ucast (drop_bit 112 a)"

definition to_ipv4_mapped :: "128 word \<Rightarrow> 32 word option" where
  "to_ipv4_mapped a = (if drop_bit 32 a = 0xFFFF then Some (ucast a) else None)"

definition v6_multicast :: "128 word \<Rightarrow> bool" where
  "v6_multicast a = (segment0 a AND 0xFF00 = 0xFF00)"

definition v4_is_safe :: "32 word \<Rightarrow> unsafe_url_reason + unit" where
  "v4_is_safe a =
     (if v4_loopback a then Inl LoopbackHost
      else if v4_unspecified a then Inl UnspecifiedIp
      else if v4_multicast a then Inl MulticastIp
      else if v4_private a then Inl PrivateIp
      else if v4_link_local a then Inl LinkLocalIp
      else if v4_broadcast a then Inl BroadcastIp
      else Inr ())"

definition v6_is_safe :: "128 word \<Rightarrow> unsafe_url_reason + unit" where
  "v6_is_safe a =
     (if a = 1 then Inl LoopbackHost
      else if a = 0 then Inl UnspecifiedIp
      else if v6_multicast a then Inl MulticastIp
      else if segment0 a AND 0xFE00 = 0xFC00 then Inl UniqueLocalIp
      else if segment0 a AND 0xFFC0 = 0xFE80 then Inl LinkLocalIp
      else Inr ())"

definition ip_is_safe :: "ip_addr \<Rightarrow> unsafe_url_reason + unit" where
  "ip_is_safe ip =
     (case (case ip of V4 a \<Rightarrow> Some a | V6 a \<Rightarrow> to_ipv4_mapped a) of
        Some a \<Rightarrow> v4_is_safe a
      | None \<Rightarrow> (case ip of V6 a \<Rightarrow> v6_is_safe a | V4 a \<Rightarrow> Inr ()))"

section \<open>Parsing addresses\<close>

text \<open>The standard library's recursive descent: every reader returns the value and the rest.\<close>

fun take_digits :: "nat \<Rightarrow> string \<Rightarrow> nat list \<times> string" where
  "take_digits radix [] = ([], [])"
| "take_digits radix (c # cs) = (case digit_value c of
     None \<Rightarrow> ([], c # cs)
   | Some v \<Rightarrow> if v < radix then (let (ds, r) = take_digits radix cs in (v # ds, r)) else ([], c # cs))"

definition read_number :: "nat \<Rightarrow> nat \<Rightarrow> bool \<Rightarrow> nat \<Rightarrow> string \<Rightarrow> (nat \<times> string) option" where
  "read_number radix max_digits zero_prefix bound s =
     (let (ds, r) = take_digits radix s; n = foldl (\<lambda>acc v. acc * radix + v) 0 ds in
      if ds = [] \<or> max_digits < length ds \<or> \<not> zero_prefix \<and> hd ds = 0 \<and> 1 < length ds \<or> bound \<le> n
      then None else Some (n, r))"

definition read_char :: "char \<Rightarrow> string \<Rightarrow> string option" where
  "read_char c s = (case s of [] \<Rightarrow> None | x # xs \<Rightarrow> if x = c then Some xs else None)"

text \<open>\<open>read_separator\<close>: the separator precedes every element but the first.\<close>

definition read_sep :: "char \<Rightarrow> nat \<Rightarrow> string \<Rightarrow> string option" where
  "read_sep c i s = (if 0 < i then read_char c s else Some s)"

fun read_octets :: "nat \<Rightarrow> nat \<Rightarrow> 32 word \<Rightarrow> string \<Rightarrow> (32 word \<times> string) option" where
  "read_octets i 0 acc s = Some (acc, s)"
| "read_octets i (Suc k) acc s =
     (case read_sep (CHR ''.'') i s of
        None \<Rightarrow> None
      | Some s1 \<Rightarrow> (case read_number 10 3 False 256 s1 of
          None \<Rightarrow> None
        | Some (n, s2) \<Rightarrow> read_octets (Suc i) k (push_bit 8 acc OR word_of_nat n) s2))"

definition read_ipv4 :: "string \<Rightarrow> (32 word \<times> string) option" where
  "read_ipv4 s = read_octets 0 4 0 s"

text \<open>\<open>read_groups\<close> with \<open>k\<close> slots left, the next one being number \<open>i\<close>: the groups read, whether they
  end with an embedded IPv4 address, and the rest.\<close>

fun read_groups :: "nat \<Rightarrow> nat \<Rightarrow> string \<Rightarrow> nat list \<times> bool \<times> string" where
  "read_groups i 0 s = ([], False, s)"
| "read_groups i (Suc k) s =
     (case (if 0 < k then Option.bind (read_sep (CHR '':'') i s) read_ipv4 else None) of
        Some (a, r) \<Rightarrow> ([unat a div 65536, unat a mod 65536], True, r)
      | None \<Rightarrow>
          (case Option.bind (read_sep (CHR '':'') i s) (read_number 16 4 True 65536) of
             None \<Rightarrow> ([], False, s)
           | Some (g, r) \<Rightarrow> (let (gs, v4, r') = read_groups (Suc i) k r in (g # gs, v4, r'))))"

definition groups_to_v6 :: "nat list \<Rightarrow> 128 word" where
  "groups_to_v6 gs = foldl (\<lambda>acc g. push_bit 16 acc OR word_of_nat g) 0 gs"

definition read_ipv6 :: "string \<Rightarrow> (128 word \<times> string) option" where
  "read_ipv6 s =
     (let (head, v4, r) = read_groups 0 8 s in
      if length head = 8 then Some (groups_to_v6 head, r)
      else if v4 then None
      else case Option.bind (read_char (CHR '':'') r) (read_char (CHR '':'')) of
        None \<Rightarrow> None
      | Some r1 \<Rightarrow>
          (let (tl_groups, _, r2) = read_groups 0 (7 - length head) r1 in
           Some (groups_to_v6 (head @ replicate (8 - length head - length tl_groups) 0 @ tl_groups), r2)))"

definition ip_from_str :: "string \<Rightarrow> ip_addr option" where
  "ip_from_str s =
     (case read_ipv4 s of
        Some (a, r) \<Rightarrow> if r = [] then Some (V4 a) else None
      | None \<Rightarrow> (case read_ipv6 s of
          Some (a, r) \<Rightarrow> if r = [] then Some (V6 a) else None
        | None \<Rightarrow> None))"

section \<open>The URL check\<close>

record parsed_url =
  url_scheme :: string
  url_host_str :: "string option"

definition webhook_url_is_safe ::
    "(string \<Rightarrow> parsed_url option) \<Rightarrow> string \<Rightarrow> unsafe_url_reason + unit" where
  "webhook_url_is_safe parse_url input =
     (case parse_url input of
        None \<Rightarrow> Inl InvalidUrl
      | Some parsed \<Rightarrow>
          if url_scheme parsed \<noteq> ''https'' then Inl NonHttps
          else case url_host_str parsed of
            None \<Rightarrow> Inl NoHost
          | Some host_raw \<Rightarrow>
              if host_raw = [] then Inl NoHost
              else let host = (case Option.bind (strip_prefix ''['' host_raw) (strip_suffix '']'') of
                          Some h \<Rightarrow> h | None \<Rightarrow> host_raw)
                   in case ip_from_str host of
                        Some ip \<Rightarrow> ip_is_safe ip
                      | None \<Rightarrow>
                          (let host_lower = to_ascii_lowercase host in
                           if host_lower = ''localhost'' \<or> ends_with host_lower ''.localhost'' \<or>
                              ends_with host_lower ''.local''
                           then Inl MdnsHost else Inr ()))"

section \<open>Address classes as intervals\<close>

lemma unat_shift: "unat (drop_bit n w) = unat w div 2 ^ n"
  by (rule trans [OF unat_drop_bit_eq drop_bit_eq_div])

lemma unat_ucast_small: "unat (ucast w :: 'a::len word) = unat w mod 2 ^ LENGTH('a)"
  by (simp add: unsigned_ucast_eq take_bit_eq_mod)

lemma unat_octet: "unat (octet k a) = unat a div 2 ^ (24 - 8 * k) mod 256"
  by (simp only: octet_def unat_ucast_small unat_shift) simp

lemma unat_segment0: "unat (segment0 a) = unat a div 2 ^ 112"
proof -
  have "unat a < 2 ^ 128" using unsigned_less [of a, where ?'a = nat] by simp
  then have "unat a div 2 ^ 112 < 2 ^ 16" by (simp add: div_less_iff_less_mult)
  then show ?thesis
    by (simp only: segment0_def unat_ucast_small unat_shift) simp
qed

lemma and_not_mask: "(s :: 16 word) AND NOT (mask k) = push_bit k (drop_bit k s)"
  by (rule bit_word_eqI) (auto simp: bit_simps)

lemma unat_and_not_mask: "unat ((s :: 16 word) AND NOT (mask k)) = unat s div 2 ^ k * 2 ^ k"
proof -
  have "unat s < 2 ^ 16" using unsigned_less [of s, where ?'a = nat] by simp
  then have "unat s div 2 ^ k * 2 ^ k < 2 ^ 16"
    by (meson div_times_less_eq_dividend le_less_trans)
  moreover have "unat (push_bit k (drop_bit k s)) = unat s div 2 ^ k * 2 ^ k mod 2 ^ 16"
    using unsigned_push_bit_eq [of k "drop_bit k s", where ?'a = nat] unat_shift [of k s]
    by (simp only: push_bit_nat_def take_bit_nat_def) simp
  ultimately show ?thesis
    by (simp only: and_not_mask mod_less)
qed

lemma segment_masks:
  "(0xFF00 :: 16 word) = NOT (mask 8)" "(0xFE00 :: 16 word) = NOT (mask 9)" "(0xFFC0 :: 16 word) = NOT (mask 6)"
  by (simp_all add: mask_eq_exp_minus_1)

lemma masked_eq:
  assumes "M = NOT (mask k)" "unat v = c * 2 ^ k"
  shows "(s :: 16 word) AND M = v \<longleftrightarrow> unat s div 2 ^ k = c"
proof -
  have "s AND M = v \<longleftrightarrow> unat (s AND NOT (mask k)) = unat v"
    by (simp add: assms(1) word_unat_eq_iff)
  then show ?thesis
    by (simp only: unat_and_not_mask assms(2)) simp
qed

lemma v6_masks:
  "segment0 a AND 0xFF00 = 0xFF00 \<longleftrightarrow> unat a div 2 ^ 120 = 0xFF"
  "segment0 a AND 0xFE00 = 0xFC00 \<longleftrightarrow> unat a div 2 ^ 121 = 0x7E"
  "segment0 a AND 0xFFC0 = 0xFE80 \<longleftrightarrow> unat a div 2 ^ 118 = 0x3FA"
  using masked_eq [OF segment_masks(1), of "0xFF00" "0xFF" "segment0 a"]
    masked_eq [OF segment_masks(2), of "0xFC00" "0x7E" "segment0 a"]
    masked_eq [OF segment_masks(3), of "0xFE80" "0x3FA" "segment0 a"]
  by (simp_all add: unat_segment0 div_mult2_eq [symmetric])

lemma div_interval:
  assumes "0 < (k :: nat)"
  shows "n div k = c \<longleftrightarrow> c * k \<le> n \<and> n < c * k + k"
proof
  assume "n div k = c"
  then have "n = c * k + n mod k"
    using div_mult_mod_eq [of n k] by simp
  with mod_less_divisor [OF assms, of n] show "c * k \<le> n \<and> n < c * k + k"
    by linarith
next
  assume "c * k \<le> n \<and> n < c * k + k"
  then show "n div k = c"
    by (intro div_nat_eqI) (simp_all add: mult.commute)
qed

lemma octet0_eq: "unat (octet 0 a) = unat a div 2 ^ 24"
proof -
  have "unat a < 2 ^ 32" using unsigned_less [of a, where ?'a = nat] by simp
  then have "unat a div 2 ^ 24 < 256" by (simp add: div_less_iff_less_mult)
  then show ?thesis by (simp add: unat_octet)
qed

lemma octet01_eq: "unat (octet 0 a) * 256 + unat (octet 1 a) = unat a div 2 ^ 16"
proof -
  have "unat a div 2 ^ 24 = unat a div 2 ^ 16 div 256"
    by (simp add: div_mult2_eq [symmetric])
  moreover have "unat (octet 1 a) = unat a div 2 ^ 16 mod 256"
    using unat_octet [of 1 a] by simp
  ultimately show ?thesis
    by (simp only: octet0_eq div_mult_mod_eq)
qed

lemma octet_lt: "unat (octet k a) < 256"
  by (simp add: unat_octet)

lemma octet_pair:
  assumes "n < 256"
  shows "unat (octet 0 a) = m \<and> unat (octet 1 a) = n \<longleftrightarrow> unat a div 2 ^ 16 = m * 256 + n"
proof -
  have "x * 256 + y = m * 256 + n \<longleftrightarrow> x = m \<and> y = n" if "y < 256" for x y :: nat
  proof
    assume eq: "x * 256 + y = m * 256 + n"
    then have "(x * 256 + y) div 256 = (m * 256 + n) div 256" by simp
    with that assms have "x = m" by simp
    with eq show "x = m \<and> y = n" by simp
  qed simp
  from this [OF octet_lt, of "unat (octet 0 a)" 1 a] show ?thesis
    by (simp only: octet01_eq)
qed

lemma div_range:
  assumes "0 < (k :: nat)"
  shows "lo \<le> n div k \<and> n div k \<le> hi \<longleftrightarrow> n \<in> {lo * k..<Suc hi * k}"
  using less_eq_div_iff_mult_less_eq [OF assms, of lo n] div_less_iff_less_mult [OF assms, of n "Suc hi"]
  by (auto simp: less_Suc_eq_le)

lemma word_eq_unat: "(w = v) = (unat w = unat v)"
  by (rule word_unat_eq_iff)

lemma atLeastLessThan_nat: "{a..<Suc b} = {a..b}"
  by auto

lemma v4_classes:
  "v4_loopback a \<longleftrightarrow> unat a \<in> {0x7F000000..0x7FFFFFFF}"
  "v4_unspecified a \<longleftrightarrow> unat a = 0"
  "v4_multicast a \<longleftrightarrow> unat a \<in> {0xE0000000..0xEFFFFFFF}"
  "v4_private a \<longleftrightarrow> unat a \<in> {0x0A000000..0x0AFFFFFF} \<union> {0xAC100000..0xAC1FFFFF} \<union> {0xC0A80000..0xC0A8FFFF}"
  "v4_link_local a \<longleftrightarrow> unat a \<in> {0xA9FE0000..0xA9FEFFFF}"
  "v4_broadcast a \<longleftrightarrow> unat a = 0xFFFFFFFF"
proof -
  let ?n = "unat a" and ?q = "unat a div 2 ^ 16"
  note o = word_eq_unat [of "octet _ a"]
  have oct: "octet 0 a = w \<longleftrightarrow> ?n div 2 ^ 24 = unat w" for w
    by (simp only: o octet0_eq)
  show "v4_loopback a \<longleftrightarrow> ?n \<in> {0x7F000000..0x7FFFFFFF}"
    by (auto simp: v4_loopback_def oct div_interval)
  show "v4_unspecified a \<longleftrightarrow> unat a = 0" "v4_broadcast a \<longleftrightarrow> unat a = 0xFFFFFFFF"
    by (simp_all add: v4_unspecified_def v4_broadcast_def word_unat_eq_iff)
  have "v4_multicast a \<longleftrightarrow> 224 \<le> ?n div 2 ^ 24 \<and> ?n div 2 ^ 24 \<le> 239"
    by (simp add: v4_multicast_def word_le_nat_alt octet0_eq)
  then show "v4_multicast a \<longleftrightarrow> ?n \<in> {0xE0000000..0xEFFFFFFF}"
    using div_range [of "2 ^ 24" 224 ?n 239] by auto
  have two: "octet 0 a = v \<and> octet 1 a = w \<longleftrightarrow> ?q = unat v * 256 + unat w" for v w
    using octet_pair [of "unat w" a "unat v"] unsigned_less [of w, where ?'a = nat] by (simp only: o) simp
  show "v4_link_local a \<longleftrightarrow> unat a \<in> {0xA9FE0000..0xA9FEFFFF}"
    by (simp only: v4_link_local_def two) (auto simp: div_interval)
  have "octet 0 a = 172 \<and> 16 \<le> octet 1 a \<and> octet 1 a \<le> 31 \<longleftrightarrow> 44048 \<le> ?q \<and> ?q \<le> 44063"
  proof -
    have "x = 172 \<and> 16 \<le> y \<and> y \<le> 31 \<longleftrightarrow> 44048 \<le> x * 256 + y \<and> x * 256 + y \<le> 44063" if "y < 256" for x y :: nat
    proof
      assume le: "44048 \<le> x * 256 + y \<and> x * 256 + y \<le> 44063"
      with that have "x = 172" by linarith
      with le show "x = 172 \<and> 16 \<le> y \<and> y \<le> 31" by simp
    qed simp
    from this [OF octet_lt, of "unat (octet 0 a)" 1 a] show ?thesis
      by (simp only: octet01_eq) (simp add: o word_le_nat_alt)
  qed
  moreover have "octet 0 a = 192 \<and> octet 1 a = 168 \<longleftrightarrow> ?n \<in> {0xC0A80000..0xC0A8FFFF}"
    by (simp only: two) (auto simp: div_interval)
  moreover have "octet 0 a = 10 \<longleftrightarrow> ?n \<in> {0x0A000000..0x0AFFFFFF}"
    by (auto simp: oct div_interval)
  moreover have "44048 \<le> ?q \<and> ?q \<le> 44063 \<longleftrightarrow> ?n \<in> {0xAC100000..0xAC1FFFFF}"
    using div_range [of "2 ^ 16" 44048 ?n 44063] by auto
  ultimately show "v4_private a \<longleftrightarrow> unat a \<in> {0x0A000000..0x0AFFFFFF} \<union> {0xAC100000..0xAC1FFFFF} \<union> {0xC0A80000..0xC0A8FFFF}"
    unfolding v4_private_def Un_iff by blast
qed

lemma v6_intervals:
  "v6_multicast a \<longleftrightarrow> unat a \<in> {0xFF * 2 ^ 120..<2 ^ 128}"
  "segment0 a AND 0xFE00 = 0xFC00 \<longleftrightarrow> unat a \<in> {0xFC * 2 ^ 120..<0xFE * 2 ^ 120}"
  "segment0 a AND 0xFFC0 = 0xFE80 \<longleftrightarrow> unat a \<in> {0xFE80 * 2 ^ 112..<0xFEC0 * 2 ^ 112}"
  by (auto simp: v6_multicast_def v6_masks div_interval)

lemma div_mod_split: "(A :: nat) < B \<Longrightarrow> n div B = F \<and> n mod B = A \<longleftrightarrow> n = F * B + A"
  using div_mult_mod_eq [of n B] by auto

lemma to_ipv4_mapped_iff:
  "to_ipv4_mapped v = Some a \<longleftrightarrow> unat v = 0xFFFF * 2 ^ 32 + unat a"
proof -
  have "unat (0xFFFF :: 128 word) = 0xFFFF" by simp
  then have 1: "drop_bit 32 v = 0xFFFF \<longleftrightarrow> unat v div 2 ^ 32 = 0xFFFF"
    by (simp only: word_eq_unat unat_shift)
  have 2: "ucast v = a \<longleftrightarrow> unat v mod 2 ^ 32 = unat a"
    using unat_ucast_small [of v, where ?'a = 32] by (simp only: word_eq_unat) simp
  have "unat a < 2 ^ 32"
    using unsigned_less [of a, where ?'a = nat] by simp
  from div_mod_split [OF this, of "unat v" "0xFFFF"] show ?thesis
    unfolding to_ipv4_mapped_def 1 by (simp only: 2 [symmetric]) (auto simp: 2)
qed

section \<open>Literals\<close>

text \<open>The textual form of an IPv4 address, the one a URL's host has after parsing.\<close>

definition v4_text :: "32 word \<Rightarrow> string" where
  "v4_text a = nat_to_dec (unat (octet 0 a)) @ CHR ''.'' # nat_to_dec (unat (octet 1 a)) @
     CHR ''.'' # nat_to_dec (unat (octet 2 a)) @ CHR ''.'' # nat_to_dec (unat (octet 3 a))"

definition no_digit :: "string \<Rightarrow> bool" where
  "no_digit r \<longleftrightarrow> take_digits 10 r = ([], r)"

lemma no_digit_simps [simp]: "no_digit []" "no_digit (CHR ''.'' # r)"
  by (simp_all add: no_digit_def digit_value_def char_code_def)

lemma nat_to_dec_small:
  "n < 10 \<Longrightarrow> nat_to_dec n = [hex_char n]"
  "10 \<le> n \<Longrightarrow> n < 100 \<Longrightarrow> nat_to_dec n = [hex_char (n div 10), hex_char (n mod 10)]"
  "100 \<le> n \<Longrightarrow> n < 1000 \<Longrightarrow>
     nat_to_dec n = [hex_char (n div 10 div 10), hex_char (n div 10 mod 10), hex_char (n mod 10)]"
proof -
  show "n < 10 \<Longrightarrow> nat_to_dec n = [hex_char n]"
    "10 \<le> n \<Longrightarrow> n < 100 \<Longrightarrow> nat_to_dec n = [hex_char (n div 10), hex_char (n mod 10)]"
    by (simp_all add: nat_to_dec.simps)
  assume "100 \<le> n" "n < 1000"
  then have "n div 10 div 10 < 10" "\<not> n div 10 < 10"
    by (simp_all add: div_mult2_eq [symmetric] div_less_iff_less_mult not_less less_eq_div_iff_mult_less_eq)
  with \<open>100 \<le> n\<close> show "nat_to_dec n = [hex_char (n div 10 div 10), hex_char (n div 10 mod 10), hex_char (n mod 10)]"
    by (simp add: nat_to_dec.simps [of n] nat_to_dec.simps [of "n div 10"] nat_to_dec.simps [of "n div 10 div 10"])
qed

lemma read_number_dec:
  assumes "n < 256" "no_digit r"
  shows "read_number 10 3 False 256 (nat_to_dec n @ r) = Some (n, r)"
proof -
  have r: "take_digits 10 r = ([], r)"
    using assms(2) by (simp add: no_digit_def)
  have 10: "n div 10 div 10 * 10 + n div 10 mod 10 = n div 10" "n div 10 * 10 + n mod 10 = n"
    by simp_all
  have 100: "n div 10 div 10 < 10" if "n < 1000"
    using that by (simp add: div_mult2_eq [symmetric] div_less_iff_less_mult)
  consider "n < 10" | "10 \<le> n" "n < 100" | "100 \<le> n" "n < 1000"
    using assms(1) by linarith
  then show ?thesis
  proof cases
    case 1
    then show ?thesis
      using assms(1) r by (simp add: nat_to_dec_small read_number_def)
  next
    case 2
    then have "n div 10 < 10" "0 < n div 10" by (simp_all add: div_less_iff_less_mult)
    with 2 show ?thesis
      using assms(1) r by (simp add: nat_to_dec_small read_number_def)
  next
    case 3
    then have "0 < n div 10 div 10" by (simp add: div_mult2_eq [symmetric])
    with 3 100 show ?thesis
      using assms(1) r 10 by (simp add: nat_to_dec_small read_number_def)
  qed
qed

lemma octet_step:
  assumes "k < 4"
  shows "push_bit 8 (drop_bit (32 - 8 * k) a) OR word_of_nat (unat (octet k a)) = drop_bit (24 - 8 * k) a"
proof -
  have "word_of_nat (unat (octet k a)) = take_bit 8 (drop_bit (24 - 8 * k) a)"
    by (simp add: octet_def)
      (rule bit_word_eqI, auto simp: bit_simps)
  then show ?thesis
    using assms by (auto intro!: bit_word_eqI simp: bit_simps less_diff_conv)
qed

lemma read_octets_step:
  assumes "k < 4" "no_digit r" "read_sep (CHR ''.'') k s = Some (nat_to_dec (unat (octet k a)) @ r)"
  shows "read_octets k (Suc j) (drop_bit (32 - 8 * k) a) s = read_octets (Suc k) j (drop_bit (24 - 8 * k) a) r"
  using assms(3) read_number_dec [OF octet_lt assms(2)] octet_step [OF assms(1), of a]
  by (simp del: word_of_nat_eq_iff of_nat_unat)

lemma read_sep_simps: "read_sep c 0 s = Some s" "0 < i \<Longrightarrow> read_sep c i (c # s) = Some s"
  by (simp_all add: read_sep_def read_char_def)

lemma ip_from_str_v4_text: "ip_from_str (v4_text a) = Some (V4 a)"
proof -
  define r3 where "r3 = CHR ''.'' # nat_to_dec (unat (octet 3 a))"
  define r2 where "r2 = CHR ''.'' # nat_to_dec (unat (octet 2 a)) @ r3"
  define r1 where "r1 = CHR ''.'' # nat_to_dec (unat (octet 1 a)) @ r2"
  have z: "drop_bit 32 a = 0"
    by (rule bit_word_eqI) (auto simp: bit_simps)
  have t: "v4_text a = nat_to_dec (unat (octet 0 a)) @ r1"
    by (simp add: v4_text_def r1_def r2_def r3_def)
  have "read_octets 0 (Suc 3) 0 (v4_text a) = read_octets (Suc 0) 3 (drop_bit 24 a) r1"
    using read_octets_step [of 0 r1 "v4_text a" a 3] by (simp add: t read_sep_simps r1_def z del: read_octets.simps)
  also have "\<dots> = read_octets (Suc 0) (Suc 2) (drop_bit 24 a) r1" by (simp del: read_octets.simps)
  also have "\<dots> = read_octets 2 2 (drop_bit 16 a) r2"
    using read_octets_step [of 1 r2 r1 a 2] by (simp add: read_sep_simps r1_def r2_def numeral_2_eq_2 del: read_octets.simps)
  also have "\<dots> = read_octets 2 (Suc 1) (drop_bit 16 a) r2" by (simp only: Suc_1)
  also have "\<dots> = read_octets 3 1 (drop_bit 8 a) r3"
    using read_octets_step [of 2 r3 r2 a 1] by (simp add: read_sep_simps r2_def r3_def del: read_octets.simps)
  also have "\<dots> = read_octets 3 (Suc 0) (drop_bit 8 a) r3" by (simp del: read_octets.simps)
  also have "\<dots> = read_octets 4 0 a []"
    using read_octets_step [of 3 "[]" r3 a 0] by (simp add: read_sep_simps r3_def del: read_octets.simps)
  finally have "read_ipv4 (v4_text a) = Some (a, [])"
    by (simp add: read_ipv4_def)
  then show ?thesis
    by (simp add: ip_from_str_def)
qed

lemma v4_text_start: "v4_text a \<noteq> [] \<and> strip_prefix ''['' (v4_text a) = None"
proof -
  obtain d where "d < 10" "hd (v4_text a) = hex_char d"
    using hd_nat_to_dec [of "unat (octet 0 a)"] by (auto simp: v4_text_def hd_append)
  moreover have "hex_char d \<noteq> CHR ''[''" if "d < 10" for d
    using that by (auto simp: hex_char_def char_code_def dest!: arg_cong [where f = char_code])
  ultimately have "hd (v4_text a) \<noteq> CHR ''[''" by metis
  moreover have "v4_text a \<noteq> []"
    by (simp add: v4_text_def)
  ultimately show ?thesis
    by (cases "v4_text a") auto
qed

section \<open>Properties\<close>

text \<open>C39. An IPv4 address is accepted exactly when it lies outside 127.0.0.0/8, 10.0.0.0/8,
  172.16.0.0/12, 192.168.0.0/16, 169.254.0.0/16, 224.0.0.0/4 and is neither 0.0.0.0 nor
  255.255.255.255; an IPv6 address exactly when it is an accepted IPv4 address mapped to
  ::ffff:0:0/96, or not of that form and outside :: , ::1, fc00::/7, fe80::/10 and ff00::/8.\<close>

theorem ip_is_safe_exact:
  "(ip_is_safe (V4 a) = Inr () \<longleftrightarrow>
      unat a \<notin> {0, 0xFFFFFFFF} \<union> {0x7F000000..0x7FFFFFFF} \<union> {0x0A000000..0x0AFFFFFF} \<union>
        {0xAC100000..0xAC1FFFFF} \<union> {0xC0A80000..0xC0A8FFFF} \<union> {0xA9FE0000..0xA9FEFFFF} \<union>
        {0xE0000000..0xEFFFFFFF}) \<and>
   (ip_is_safe (V6 v) = Inr () \<longleftrightarrow>
      (\<exists>b. unat v = 0xFFFF * 2 ^ 32 + unat b \<and> ip_is_safe (V4 b) = Inr ()) \<or>
      (\<nexists>b :: 32 word. unat v = 0xFFFF * 2 ^ 32 + unat b) \<and>
      unat v \<notin> {0, 1} \<union> {0xFC * 2 ^ 120..<0xFE * 2 ^ 120} \<union> {0xFE80 * 2 ^ 112..<0xFEC0 * 2 ^ 112} \<union>
        {0xFF * 2 ^ 120..<2 ^ 128})"
proof -
  have v4: "v4_is_safe a = Inr () \<longleftrightarrow>
      \<not> (v4_loopback a \<or> v4_unspecified a \<or> v4_multicast a \<or> v4_private a \<or> v4_link_local a \<or> v4_broadcast a)"
    by (simp add: v4_is_safe_def)
  have v6: "v6_is_safe v = Inr () \<longleftrightarrow> unat v \<notin> {0, 1} \<and> \<not> (v6_multicast v \<or>
      segment0 v AND 0xFE00 = 0xFC00 \<or> segment0 v AND 0xFFC0 = 0xFE80)"
    by (simp add: v6_is_safe_def word_eq_unat [of v])
  have m: "to_ipv4_mapped v = None \<longleftrightarrow> (\<nexists>b :: 32 word. unat v = 0xFFFF * 2 ^ 32 + unat b)"
    by (simp only: to_ipv4_mapped_iff [symmetric]) simp
  have "ip_is_safe (V6 v) = Inr () \<longleftrightarrow>
      (\<exists>b. to_ipv4_mapped v = Some b \<and> ip_is_safe (V4 b) = Inr ()) \<or>
      to_ipv4_mapped v = None \<and> v6_is_safe v = Inr ()"
    by (cases "to_ipv4_mapped v") (simp_all add: ip_is_safe_def)
  note v6_safe = this [unfolded to_ipv4_mapped_iff m v6 v6_intervals]
  have v4_safe: "ip_is_safe (V4 a) = Inr () \<longleftrightarrow>
      \<not> (v4_loopback a \<or> v4_unspecified a \<or> v4_multicast a \<or> v4_private a \<or> v4_link_local a \<or> v4_broadcast a)"
    using v4 by (simp add: ip_is_safe_def)
  show ?thesis
  proof (rule conjI)
    show "ip_is_safe (V4 a) = Inr () \<longleftrightarrow>
      unat a \<notin> {0, 0xFFFFFFFF} \<union> {0x7F000000..0x7FFFFFFF} \<union> {0x0A000000..0x0AFFFFFF} \<union>
        {0xAC100000..0xAC1FFFFF} \<union> {0xC0A80000..0xC0A8FFFF} \<union> {0xA9FE0000..0xA9FEFFFF} \<union>
        {0xE0000000..0xEFFFFFFF}"
      unfolding v4_safe v4_classes Un_iff insert_iff empty_iff by blast
  qed (unfold v6_safe Un_iff, blast)
qed

text \<open>A webhook URL that passes has the scheme https and a host; a host that is the text of an
  IPv4 address is judged by the same rules as an address that DNS returns; \<open>localhost\<close> and names
  below \<open>localhost\<close> and \<open>local\<close> are refused in any case. The URL parser is only assumed to return the
  host it is given.\<close>

theorem webhook_url_policy:
  "(webhook_url_is_safe parse_url input = Inr () \<longrightarrow>
      (\<exists>h. parse_url input = Some \<lparr>url_scheme = ''https'', url_host_str = Some h\<rparr> \<and> h \<noteq> [])) \<and>
   (parse_url input = Some \<lparr>url_scheme = ''https'', url_host_str = Some (v4_text a)\<rparr> \<longrightarrow>
      webhook_url_is_safe parse_url input = ip_is_safe (V4 a)) \<and>
   (parse_url input = Some \<lparr>url_scheme = ''https'', url_host_str = Some h\<rparr> \<longrightarrow> h \<noteq> [] \<longrightarrow>
      strip_prefix ''['' h = None \<longrightarrow> ip_from_str h = None \<longrightarrow>
      (webhook_url_is_safe parse_url input = Inl MdnsHost \<longleftrightarrow>
         to_ascii_lowercase h = ''localhost'' \<or> suffix ''.localhost'' (to_ascii_lowercase h) \<or>
         suffix ''.local'' (to_ascii_lowercase h)))"
proof (intro conjI impI)
  assume "webhook_url_is_safe parse_url input = Inr ()"
  then show "\<exists>h. parse_url input = Some \<lparr>url_scheme = ''https'', url_host_str = Some h\<rparr> \<and> h \<noteq> []"
    by (cases "parse_url input"; cases "the (parse_url input)")
      (auto simp: webhook_url_is_safe_def split: if_splits option.splits)
next
  assume p: "parse_url input = Some \<lparr>url_scheme = ''https'', url_host_str = Some (v4_text a)\<rparr>"
  with v4_text_start [of a] show "webhook_url_is_safe parse_url input = ip_is_safe (V4 a)"
    by (simp add: webhook_url_is_safe_def ip_from_str_v4_text)
next
  assume "parse_url input = Some \<lparr>url_scheme = ''https'', url_host_str = Some h\<rparr>" "h \<noteq> []"
    "strip_prefix ''['' h = None" "ip_from_str h = None"
  then show "webhook_url_is_safe parse_url input = Inl MdnsHost \<longleftrightarrow>
         to_ascii_lowercase h = ''localhost'' \<or> suffix ''.localhost'' (to_ascii_lowercase h) \<or>
         suffix ''.local'' (to_ascii_lowercase h)"
    by (simp add: webhook_url_is_safe_def Let_def ends_with_suffix)
qed

lemma webhook_url_policy_witness:
  "webhook_url_is_safe (\<lambda>u. Some \<lparr>url_scheme = ''https'', url_host_str = Some (v4_text 0x7F000001)\<rparr>)
     ''https://127.0.0.1/x'' = Inl LoopbackHost"
  using webhook_url_policy [of "\<lambda>u. Some \<lparr>url_scheme = ''https'', url_host_str = Some (v4_text 0x7F000001)\<rparr>"
      "''https://127.0.0.1/x''" "0x7F000001"]
  by (simp add: ip_is_safe_def v4_is_safe_def v4_classes)

text \<open>The name \<open>localhost.\<close> with the root label passes, although it names the local host.\<close>

lemmas first_octet = read_octets.simps(2) [of 0 3, simplified]
  and first_group = read_groups.simps(2) [of 0 7, simplified]

lemma localhost_no_address: "ip_from_str ''localhost.'' = None"
  by (simp add: ip_from_str_def read_ipv4_def read_ipv6_def first_octet first_group read_sep_def
      read_number_def digit_value_def char_code_def read_char_def)

lemma localhost_with_root_label:
  "webhook_url_is_safe (\<lambda>u. Some \<lparr>url_scheme = ''https'', url_host_str = Some ''localhost.''\<rparr>) u = Inr ()"
  by (simp add: webhook_url_is_safe_def localhost_no_address ends_with_def
      to_ascii_lowercase_def ascii_lower_char_def char_code_def)

end
