(* ===== verification/Dispatch.thy ===== *)
theory Dispatch
  imports Ledger Validators
begin

text \<open>
  The alert dispatcher, \<open>src/crates/indexer/src/alerts.rs\<close>: the DNS guard, the redaction of error
  messages, the signed payloads, the processing of one match from its claim to its record, and the
  pool that runs at most \<open>MAX_CONCURRENT_POSTS\<close> of them at a time. HMAC, hexadecimal coding, URL
  parsing and the answers of the network are arguments.
\<close>

definition request_timeout_secs :: nat where "request_timeout_secs = 10"
definition dispatch_batch :: int where "dispatch_batch = 100"
definition claim_stale_after_secs :: int where "claim_stale_after_secs = 60"
definition max_concurrent_posts :: nat where "max_concurrent_posts = 10"

section \<open>The DNS guard\<close>

datatype 'e resolve_error = LookupFailed 'e | UnsafeAddress ip_addr unsafe_url_reason

text \<open>\<open>SafeDnsResolver::resolve\<close>: the first unsafe address among the answers is the error.\<close>

fun check_addrs :: "ip_addr list \<Rightarrow> 'e resolve_error + unit" where
  "check_addrs [] = Inr ()"
| "check_addrs (ip # ips) = (case ip_is_safe ip of
     Inl reason \<Rightarrow> Inl (UnsafeAddress ip reason)
   | Inr _ \<Rightarrow> check_addrs ips)"

definition resolve :: "(string \<Rightarrow> 'e + ip_addr list) \<Rightarrow> string \<Rightarrow> 'e resolve_error + ip_addr list" where
  "resolve to_socket_addrs host =
     (case to_socket_addrs host of
        Inl e \<Rightarrow> Inl (LookupFailed e)
      | Inr addrs \<Rightarrow> bind_res (check_addrs addrs) (\<lambda>_. Inr addrs))"

section \<open>Redaction of error messages\<close>

definition redact_mark :: string where
  "redact_mark = ''<redacted-url>''"

text \<open>The position of the first URL scheme.\<close>

definition next_scheme :: "string \<Rightarrow> nat option" where
  "next_scheme s = (case (str_find ''https://'' s, str_find ''http://'' s) of
     (None, q) \<Rightarrow> q | (Some p, None) \<Rightarrow> Some p | (Some p, Some q) \<Rightarrow> Some (min p q))"

definition url_end :: "string \<Rightarrow> nat" where
  "url_end s = (case find_idx is_ascii_whitespace s of None \<Rightarrow> length s | Some i \<Rightarrow> i)"

lemma str_find_scheme:
  assumes "str_find p s = Some i" "p \<noteq> []" "\<not> is_ascii_whitespace (hd p)"
  shows "i < length s \<and> 0 < url_end (drop i s) \<and> url_end (drop i s) \<le> length s - i"
proof -
  from str_find_Some [OF assms(1)] have "prefix p (drop i s)" "i \<le> length s" by simp_all
  then obtain r where r: "drop i s = p @ r" by (auto elim: prefixE)
  with assms(2) obtain c cs where c: "drop i s = c # cs" "c = hd p"
    by (cases p) auto
  with assms(3) have "0 < url_end (drop i s)"
    by (auto simp: url_end_def split: option.splits)
  moreover have "url_end (drop i s) \<le> length (drop i s)"
    using find_idx_Some [of is_ascii_whitespace "drop i s"] by (auto simp: url_end_def split: option.splits)
  moreover have "i < length s"
    using c by (metis drop_all list.distinct(1) not_le)
  ultimately show ?thesis by simp
qed

lemma next_scheme_Some:
  assumes "next_scheme s = Some i"
  shows "i < length s \<and> 0 < url_end (drop i s) \<and> url_end (drop i s) \<le> length s - i"
proof -
  have "str_find ''https://'' s = Some i \<or> str_find ''http://'' s = Some i"
    using assms by (auto simp: next_scheme_def min_def split: option.splits if_splits)
  then show ?thesis
    by (auto simp: is_ascii_whitespace_def char_code_def dest!: str_find_scheme)
qed

function redact_urls :: "string \<Rightarrow> string" where
  "redact_urls rest = (case next_scheme rest of
     None \<Rightarrow> rest
   | Some start \<Rightarrow>
       (let after = drop start rest in
        take start rest @ redact_mark @ redact_urls (drop (url_end after) after)))"
  by pat_completeness auto
termination
  by (relation "measure length") (auto dest: next_scheme_Some)

declare redact_urls.simps [simp del]

text \<open>\<open>chars().take(n)\<close> on UTF-8: a character ends where the next one starts.\<close>

fun take_chars :: "nat \<Rightarrow> string \<Rightarrow> string" where
  "take_chars n [] = []"
| "take_chars n (c # cs) =
     (if 128 \<le> char_code c \<and> char_code c < 192 then c # take_chars n cs
      else case n of 0 \<Rightarrow> [] | Suc m \<Rightarrow> c # take_chars m cs)"

section \<open>Payloads\<close>

text \<open>Strings as \<open>serde_json\<close> writes them.\<close>

definition json_escape_char :: "char \<Rightarrow> string" where
  "json_escape_char c =
     (let n = char_code c in
      if n = 34 then [CHR 0x5C, CHR 0x22]
      else if n = 92 then [CHR 0x5C, CHR 0x5C]
      else if n = 8 then [CHR 0x5C, CHR ''b'']
      else if n = 9 then [CHR 0x5C, CHR ''t'']
      else if n = 10 then [CHR 0x5C, CHR ''n'']
      else if n = 12 then [CHR 0x5C, CHR ''f'']
      else if n = 13 then [CHR 0x5C, CHR ''r'']
      else if n < 32 then [CHR 0x5C, CHR ''u'', CHR ''0'', CHR ''0'', hex_char (n div 16), hex_char (n mod 16)]
      else [c])"

definition json_string :: "string \<Rightarrow> string" where
  "json_string s = CHR 0x22 # concat (map json_escape_char s) @ [CHR 0x22]"

definition json_field :: "string \<Rightarrow> string \<Rightarrow> string" where
  "json_field name v = json_string name @ '':'' @ v"

definition build_payload :: "alert_match \<Rightarrow> string" where
  "build_payload m = ''{'' @ json_field ''subscription_id'' (int_to_dec (am_subscription_id m)) @ '','' @
     json_field ''tx_hash'' (json_string (am_tx_hash m)) @ ''}''"

definition build_rate_payload :: "rate_alert_match \<Rightarrow> string" where
  "build_rate_payload m =
     ''{'' @ json_field ''subscription_id'' (int_to_dec (rm_subscription_id m)) @ '','' @
     json_field ''sub_type'' (json_string ''rate_threshold'') @ '','' @
     json_field ''match_count'' (int_to_dec (rm_match_count m)) @ '','' @
     json_field ''threshold_count'' (int_to_dec (rm_threshold_count m)) @ '','' @
     json_field ''threshold_window_secs'' (int_to_dec (rm_threshold_window_secs m)) @ ''}''"

section \<open>One match\<close>

record dispatch_ext =
  dx_hmac :: "u8 list \<Rightarrow> u8 list \<Rightarrow> u8 list"
  dx_hex_encode :: "u8 list \<Rightarrow> string"
  dx_hex_decode :: "string \<Rightarrow> u8 list option"
  dx_parse_url :: "string \<Rightarrow> parsed_url option"

record http_request =
  rq_url :: string
  rq_headers :: "(string \<times> string) list"
  rq_body :: string

text \<open>What the network answers: a failure with its message, or a status with its text.\<close>

type_synonym http_answer = "string + nat \<times> string"

definition sign_payload :: "dispatch_ext \<Rightarrow> u8 list \<Rightarrow> string \<Rightarrow> string" where
  "sign_payload X secret body = dx_hex_encode X (dx_hmac X secret (string_to_bytes body))"

definition signed_request :: "string \<Rightarrow> string \<Rightarrow> string \<Rightarrow> http_request" where
  "signed_request url signature_hex body =
     \<lparr>rq_url = url, rq_headers = [(''Content-Type'', ''application/json''),
        (''X-Amarillo-Signature'', ''sha256='' @ signature_hex)], rq_body = body\<rparr>"

definition post_signed :: "http_answer \<Rightarrow> string + unit" where
  "post_signed resp = (case resp of
     Inl e \<Rightarrow> Inl (''http: '' @ e)
   | Inr (code, text) \<Rightarrow> if 200 \<le> code \<and> code < 300 then Inr () else Inl (''http status '' @ text))"

datatype dispatch_outcome = Delivered | Failed | UnsafeUrl | ClaimSkipped

fun reason_debug :: "unsafe_url_reason \<Rightarrow> string" where
  "reason_debug InvalidUrl = ''InvalidUrl''"
| "reason_debug NonHttps = ''NonHttps''"
| "reason_debug NoHost = ''NoHost''"
| "reason_debug LoopbackHost = ''LoopbackHost''"
| "reason_debug PrivateIp = ''PrivateIp''"
| "reason_debug LinkLocalIp = ''LinkLocalIp''"
| "reason_debug UnspecifiedIp = ''UnspecifiedIp''"
| "reason_debug MulticastIp = ''MulticastIp''"
| "reason_debug BroadcastIp = ''BroadcastIp''"
| "reason_debug UniqueLocalIp = ''UniqueLocalIp''"
| "reason_debug MdnsHost = ''MdnsHost''"

text \<open>Before the request: an outcome with its error message, or the request to send.\<close>

definition request_plan ::
    "dispatch_ext \<Rightarrow> string \<Rightarrow> string \<Rightarrow> string \<Rightarrow> (dispatch_outcome \<times> string) + http_request" where
  "request_plan X url secret body =
     (case webhook_url_is_safe (dx_parse_url X) url of
        Inl reason \<Rightarrow> Inl (UnsafeUrl, ''unsafe url: '' @ reason_debug reason)
      | Inr _ \<Rightarrow> (case dx_hex_decode X secret of
          None \<Rightarrow> Inl (Failed, ''corrupt signing_secret (not hex)'')
        | Some key \<Rightarrow> Inr (signed_request url (sign_payload X key body) body)))"

text \<open>The verdict to record: the outcome, whether it was delivered, and the error.\<close>

type_synonym verdict = "dispatch_outcome \<times> bool \<times> string option"

definition answer_verdict :: "http_answer \<Rightarrow> verdict" where
  "answer_verdict resp = (case post_signed resp of
     Inr _ \<Rightarrow> (Delivered, True, None)
   | Inl e \<Rightarrow> (Failed, False, Some (take_chars 500 (redact_urls e))))"

definition item_verdict ::
    "dispatch_ext \<Rightarrow> (http_request \<Rightarrow> http_answer) \<Rightarrow> string \<Rightarrow> string \<Rightarrow> string \<Rightarrow> verdict" where
  "item_verdict X respond url secret body = (case request_plan X url secret body of
     Inl (out, msg) \<Rightarrow> (out, False, Some msg)
   | Inr rq \<Rightarrow> answer_verdict (respond rq))"

text \<open>\<open>dispatch_item\<close>, claiming at time \<open>t1\<close> and recording at time \<open>t2\<close>; an error leaves what was
  written before it.\<close>

definition dispatch_item :: "dispatch_ext \<Rightarrow> (http_request \<Rightarrow> http_answer) \<Rightarrow> timestamp \<Rightarrow> timestamp \<Rightarrow>
    alert_match \<Rightarrow> service_db \<Rightarrow> (db_error + dispatch_outcome) \<times> service_db" where
  "dispatch_item X respond t1 t2 m d =
     (case try_claim_alert_match t1 (am_subscription_id m) (am_tx_hash m) claim_stale_after_secs d of
        Inl e \<Rightarrow> (Inl e, d)
      | Inr (claimed, d1) \<Rightarrow>
          if \<not> claimed then (Inr ClaimSkipped, d1)
          else (case item_verdict X respond (am_webhook_url m) (am_signing_secret m) (build_payload m) of
            (out, ok, err) \<Rightarrow>
              (case record_alert_delivery t2 (am_subscription_id m) (am_tx_hash m) ok err d1 of
                 Inl e \<Rightarrow> (Inl e, d1)
               | Inr d2 \<Rightarrow> (Inr out, d2))))"

text \<open>\<open>match_count as i32\<close> wraps.\<close>

definition count_as_i32 :: "int \<Rightarrow> int" where
  "count_as_i32 n = sint (word_of_int n :: 32 word)"

definition dispatch_rate_item :: "dispatch_ext \<Rightarrow> (http_request \<Rightarrow> http_answer) \<Rightarrow> timestamp \<Rightarrow>
    rate_alert_match \<Rightarrow> service_db \<Rightarrow> (db_error + dispatch_outcome) \<times> service_db" where
  "dispatch_rate_item X respond t m d =
     (case item_verdict X respond (rm_webhook_url m) (rm_signing_secret m) (build_rate_payload m) of
        (out, ok, err) \<Rightarrow>
          (case record_rate_alert_dispatch t (rm_subscription_id m) (count_as_i32 (rm_match_count m)) ok err d of
             Inl e \<Rightarrow> (Inl e, d)
           | Inr d1 \<Rightarrow> (Inr out, d1)))"

section \<open>The pool of tasks\<close>

record dispatch_metrics =
  dm_cycles :: nat
  dm_attempted :: nat
  dm_delivered :: nat
  dm_failed :: nat
  dm_unsafe_url_skipped :: nat
  dm_claim_skipped :: nat
  dm_rate_attempted :: nat
  dm_rate_delivered :: nat
  dm_rate_failed :: nat

text \<open>What \<open>join_next\<close> yields: the result of the task, or that it panicked or was cancelled.\<close>

datatype joined = TaskDone dispatch_outcome | TaskError | TaskPanicked

fun join_metrics :: "joined \<Rightarrow> dispatch_metrics \<Rightarrow> dispatch_metrics" where
  "join_metrics (TaskDone Delivered) m = m\<lparr>dm_delivered := dm_delivered m + 1\<rparr>"
| "join_metrics (TaskDone Failed) m = m\<lparr>dm_failed := dm_failed m + 1\<rparr>"
| "join_metrics (TaskDone UnsafeUrl) m = m\<lparr>dm_unsafe_url_skipped := dm_unsafe_url_skipped m + 1\<rparr>"
| "join_metrics (TaskDone ClaimSkipped) m = m\<lparr>dm_claim_skipped := dm_claim_skipped m + 1\<rparr>"
| "join_metrics TaskError m = m\<lparr>dm_failed := dm_failed m + 1\<rparr>"
| "join_metrics TaskPanicked m = m\<lparr>dm_failed := dm_failed m + 1\<rparr>"

fun join_rate_metrics :: "joined \<Rightarrow> dispatch_metrics \<Rightarrow> dispatch_metrics" where
  "join_rate_metrics (TaskDone Delivered) m = m\<lparr>dm_rate_delivered := dm_rate_delivered m + 1\<rparr>"
| "join_rate_metrics (TaskDone out) m = m\<lparr>dm_rate_failed := dm_rate_failed m + 1\<rparr>"
| "join_rate_metrics TaskError m = m\<lparr>dm_rate_failed := dm_rate_failed m + 1\<rparr>"
| "join_rate_metrics TaskPanicked m = m\<lparr>dm_rate_failed := dm_rate_failed m + 1\<rparr>"

definition attempt :: "dispatch_metrics \<Rightarrow> dispatch_metrics" where
  "attempt m = m\<lparr>dm_attempted := dm_attempted m + 1\<rparr>"

definition attempt_rate :: "dispatch_metrics \<Rightarrow> dispatch_metrics" where
  "attempt_rate m = m\<lparr>dm_rate_attempted := dm_rate_attempted m + 1\<rparr>"

text \<open>\<open>dispatch_once\<close> and \<open>dispatch_rate_once\<close>: prime the pool, then refill it at every completion.
  The state is the rest of the batch, the running tasks and the metrics.\<close>

fun prime :: "('m \<Rightarrow> 'm) \<Rightarrow> nat \<Rightarrow> 'i list \<times> 'i list \<times> 'm \<Rightarrow> 'i list \<times> 'i list \<times> 'm" where
  "prime att 0 s = s"
| "prime att (Suc n) ([], run, m) = ([], run, m)"
| "prime att (Suc n) (i # is, run, m) = prime att n (is, run @ [i], att m)"

definition pool_start :: "('m \<Rightarrow> 'm) \<Rightarrow> 'i list \<Rightarrow> 'm \<Rightarrow> 'i list \<times> 'i list \<times> 'm" where
  "pool_start att pending m = prime att max_concurrent_posts (pending, [], m)"

inductive pool_step :: "('m \<Rightarrow> 'm) \<Rightarrow> (joined \<Rightarrow> 'm \<Rightarrow> 'm) \<Rightarrow>
    'i list \<times> 'i list \<times> 'm \<Rightarrow> 'i list \<times> 'i list \<times> 'm \<Rightarrow> bool" for att settle where
  Refill: "pool_step att settle (i # is, r1 @ x # r2, m) (is, r1 @ r2 @ [i], att (settle j m))"
| Drain: "pool_step att settle ([], r1 @ x # r2, m) ([], r1 @ r2, settle j m)"

inductive_cases pool_stepE: "pool_step att settle s s'"

section \<open>The redacted text\<close>

lemma sublist_split_at:
  assumes "y \<notin> set p" "sublist p (xs @ y # zs)"
  shows "sublist p xs \<or> sublist p zs"
proof -
  from assms(2) obtain a b where e: "xs @ y # zs = a @ p @ b"
    by (auto simp: sublist_def)
  have inside: "sublist p xs" if "xs = a @ us" "us @ y # zs = p @ b" for us
  proof -
    from that(2) consider vs where "us = p @ vs" | v vs where "p = us @ v # vs" "(v # vs) @ b = y # zs"
      by (auto simp: append_eq_append_conv2 Cons_eq_append_conv)
    then show ?thesis
      by cases (use that assms(1) in \<open>auto simp: sublist_def\<close>)
  qed
  from e consider us where "xs = a @ us" "us @ y # zs = p @ b" | us where "a = xs @ us" "y # zs = us @ p @ b"
    by (auto simp: append_eq_append_conv2)
  then show ?thesis
  proof cases
    case 2
    then show ?thesis
      using inside [of "[]"] by (cases us) (auto simp: sublist_def)
  qed (use inside in blast)
qed

definition clean :: "string \<Rightarrow> bool" where
  "clean s \<longleftrightarrow> \<not> sublist ''https://'' s \<and> \<not> sublist ''http://'' s"

lemma next_scheme_None: "next_scheme s = None \<longleftrightarrow> clean s"
  by (auto simp: next_scheme_def clean_def str_find_None [symmetric] split: option.splits)

lemma no_sublist_take:
  assumes "\<forall>j<i. \<not> prefix p (drop j s)" "p \<noteq> []"
  shows "\<not> sublist p (take i s)"
proof
  assume "sublist p (take i s)"
  then obtain a b where e: "take i s = a @ p @ b" by (auto simp: sublist_def)
  have "length (take i s) \<le> i" by simp
  then have "length a + length p \<le> i" by (simp add: e)
  moreover have "s = a @ p @ b @ drop i s"
    using append_take_drop_id [of i s] e by simp
  then have "drop (length a) s = p @ b @ drop i s"
    by (metis append_eq_conv_conj)
  moreover have "0 < length p" using assms(2) by simp
  ultimately show False
    using assms(1) by (metis add_lessD1 less_add_same_cancel1 order_less_le_trans prefixI)
qed

lemma clean_take:
  assumes "next_scheme s = Some i"
  shows "clean (take i s)"
proof -
  have "\<not> sublist p (take i s)" if p: "p \<in> {''https://'', ''http://''}" for p
  proof -
    have "\<forall>j<i. \<not> prefix p (drop j s)"
    proof (cases "str_find p s")
      case None
      then show ?thesis
        using str_find_None [of p s]
        by (meson prefix_imp_sublist sublist_drop sublist_order.order.trans)
    next
      case (Some q)
      then have "i \<le> q"
        using assms p by (auto simp: next_scheme_def split: option.splits)
      with str_find_first [OF Some] show ?thesis by auto
    qed
    then show ?thesis
      using p by (intro no_sublist_take) auto
  qed
  then show ?thesis by (simp add: clean_def)
qed

lemma clean_mark: "clean A \<Longrightarrow> clean R \<Longrightarrow> clean (A @ redact_mark @ R)"
proof -
  assume A: "clean A" and R: "clean R"
  have m: "A @ redact_mark @ R = A @ CHR ''<'' # (''redacted-url'' @ CHR ''>'' # R)"
    by (simp add: redact_mark_def)
  have "\<not> sublist p (A @ redact_mark @ R)"
    if p: "CHR ''<'' \<notin> set p" "CHR ''>'' \<notin> set p" "\<not> sublist p ''redacted-url''" "\<not> sublist p A" "\<not> sublist p R" for p
    using sublist_split_at [OF p(1), of A "''redacted-url'' @ CHR ''>'' # R"]
      sublist_split_at [OF p(2), of "''redacted-url''" R] p(3-) by (auto simp only: m)
  with A R show ?thesis
    by (simp add: clean_def contains_sublist [symmetric] contains_def starts_with_def)
qed

lemma clean_redacted: "clean (redact_urls s)"
proof (induction s rule: redact_urls.induct)
  case (1 s)
  show ?case
  proof (cases "next_scheme s")
    case None
    then show ?thesis
      by (simp add: redact_urls.simps [of s]) (simp add: next_scheme_None)
  next
    case (Some i)
    then show ?thesis
      using 1 [OF Some refl] clean_take [OF Some]
      by (simp add: redact_urls.simps [of s] Let_def clean_mark del: drop_drop)
  qed
qed

lemma redact_clean: "clean s \<Longrightarrow> redact_urls s = s"
  by (simp add: redact_urls.simps [of s] next_scheme_None [symmetric])

section \<open>The payload determines its match\<close>

text \<open>Reading one character of a JSON string back.\<close>

definition json_short_escape :: "char \<Rightarrow> char" where
  "json_short_escape y = (if y = CHR ''b'' then char_of (8 :: nat) else if y = CHR ''t'' then char_of (9 :: nat)
     else if y = CHR ''n'' then char_of (10 :: nat) else if y = CHR ''f'' then char_of (12 :: nat)
     else if y = CHR ''r'' then char_of (13 :: nat) else y)"

definition json_read_char :: "string \<Rightarrow> (char \<times> string) option" where
  "json_read_char s = (case s of [] \<Rightarrow> None
     | x # xs \<Rightarrow>
         if x = CHR 0x22 then None
         else if x \<noteq> CHR 0x5C then Some (x, xs)
         else if take 1 xs = ''u'' then
           (case (digit_value (xs ! 3), digit_value (xs ! 4)) of
              (Some a, Some b) \<Rightarrow> Some (char_of (a * 16 + b), drop 5 xs) | _ \<Rightarrow> None)
         else Some (json_short_escape (hd xs), tl xs))"

lemma char_of_code: "char_of (char_code c) = c"
  by (simp add: char_code_def)

lemma char_eq_code: "c = char_of (n :: nat) \<longleftrightarrow> char_code c = n" if "n < 256"
  using that by (metis char_code_char_of char_of_code)

lemma char_of_quotes: "char_of (34 :: nat) = CHR 0x22" "char_of (92 :: nat) = CHR 0x5C"
  by (rule sym, simp add: char_eq_code char_code_def)+

lemma json_read_escaped: "json_read_char (json_escape_char c @ r) = Some (c, r)"
proof -
  let ?n = "char_code c"
  have c: "c = char_of ?n" by (simp add: char_of_code)
  have special: "?thesis" if "?n \<in> {34, 92, 8, 9, 10, 12, 13}"
  proof -
    have "c = char_of (34 :: nat) \<or> c = char_of (92 :: nat) \<or> c = char_of (8 :: nat) \<or> c = char_of (9 :: nat) \<or>
        c = char_of (10 :: nat) \<or> c = char_of (12 :: nat) \<or> c = char_of (13 :: nat)"
      using that c by auto
    then show ?thesis
      by (elim disjE; simp add: json_escape_char_def json_read_char_def json_short_escape_def char_code_def
          char_of_quotes)
  qed
  have control: "?thesis" if "?n < 32" "?n \<notin> {8, 9, 10, 12, 13}"
  proof -
    have "?n div 16 < 16" "?n mod 16 < 16" "?n div 16 * 16 + ?n mod 16 = ?n"
      using that(1) by simp_all
    then show ?thesis
      using that by (simp add: json_escape_char_def json_read_char_def Let_def char_of_code)
  qed
  have plain: "?thesis" if "\<not> ?n < 32" "?n \<notin> {34, 92}"
  proof -
    have "c \<noteq> CHR 0x22" "c \<noteq> CHR 0x5C"
      using that(2) by (auto simp: char_code_def)
    with that show ?thesis
      by (simp add: json_escape_char_def json_read_char_def Let_def)
  qed
  show ?thesis
    using special control plain by blast
qed

lemma json_read_quote: "json_read_char (CHR 0x22 # r) = None"
  by (simp add: json_read_char_def)

lemma escaped_string_inject:
  "concat (map json_escape_char s) @ CHR 0x22 # r = concat (map json_escape_char s') @ CHR 0x22 # r' \<Longrightarrow>
   s = s' \<and> r = r'"
proof (induction s arbitrary: s')
  case Nil
  show ?case
  proof (cases s')
    case (Cons c t)
    then have "json_read_char (CHR 0x22 # r) = Some (c, concat (map json_escape_char t) @ CHR 0x22 # r')"
      using arg_cong [OF Nil, of json_read_char] json_read_escaped [of c] by simp
    then show ?thesis by (simp add: json_read_quote)
  qed (use Nil in simp)
next
  case (Cons c s)
  have l: "json_read_char (concat (map json_escape_char (c # s)) @ CHR 0x22 # r) =
      Some (c, concat (map json_escape_char s) @ CHR 0x22 # r)"
    using json_read_escaped [of c] by simp
  show ?case
  proof (cases s')
    case Nil
    with l Cons.prems show ?thesis by (simp add: json_read_quote)
  next
    case s': (Cons c' t)
    then have "json_read_char (concat (map json_escape_char s') @ CHR 0x22 # r') =
        Some (c', concat (map json_escape_char t) @ CHR 0x22 # r')"
      using json_read_escaped [of c'] by simp
    with l Cons.prems have "c = c'"
        "concat (map json_escape_char s) @ CHR 0x22 # r = concat (map json_escape_char t) @ CHR 0x22 # r'"
      by simp_all
    with Cons.IH s' show ?thesis by simp
  qed
qed

lemma nat_to_dec_chars: "c \<in> set (nat_to_dec n) \<Longrightarrow> \<exists>d<10. c = hex_char d"
proof (induction n rule: nat_to_dec.induct)
  case (1 n)
  then show ?case
    by (cases "n < 10") (auto simp: nat_to_dec.simps [of n] intro: exI [of _ "n mod 10"])
qed

lemma int_to_dec_chars: "c \<in> set (int_to_dec i) \<Longrightarrow> c \<noteq> CHR '',''"
proof -
  assume "c \<in> set (int_to_dec i)"
  then have "c = CHR ''-'' \<or> (\<exists>d<10. c = hex_char d)"
    using nat_to_dec_chars by (auto simp: int_to_dec_def split: if_splits)
  then show ?thesis
    by (auto simp: hex_char_def char_code_def dest!: arg_cong [where f = char_code])
qed

lemma nat_to_dec_inject: "nat_to_dec m = nat_to_dec n \<longleftrightarrow> m = n"
  using digits_value_dec by (metis option.inject)

lemma nat_to_dec_no_minus: "nat_to_dec n \<noteq> CHR ''-'' # r"
proof
  assume "nat_to_dec n = CHR ''-'' # r"
  then obtain d where "d < 10" "CHR ''-'' = hex_char d"
    using nat_to_dec_chars [of "CHR ''-''" n] by auto
  then show False
    by (auto simp: hex_char_def char_code_def dest!: arg_cong [where f = char_code])
qed

lemma int_to_dec_inject: "int_to_dec i = int_to_dec j \<longleftrightarrow> i = j"
  using nat_to_dec_no_minus nat_to_dec_no_minus [symmetric]
  by (auto simp: int_to_dec_def nat_to_dec_inject)

lemma split_at_comma:
  assumes "xs @ CHR '','' # r = ys @ CHR '','' # r'" "CHR '','' \<notin> set xs" "CHR '','' \<notin> set ys"
  shows "xs = ys \<and> r = r'"
  using assms by (auto simp: append_eq_append_conv2 append_eq_Cons_conv Cons_eq_append_conv)

lemma build_payload_inject:
  assumes "build_payload m = build_payload m'"
  shows "pair_of m = pair_of m'"
proof -
  define t where "t = (\<lambda>m :: alert_match. json_string ''tx_hash'' @ '':'' @ json_string (am_tx_hash m) @ ''}'')"
  have p: "build_payload m = (''{'' @ json_string ''subscription_id'' @ '':'') @
      int_to_dec (am_subscription_id m) @ CHR '','' # t m" for m :: alert_match
    by (simp only: build_payload_def json_field_def t_def append_assoc append_Cons append_Nil)
  have "int_to_dec (am_subscription_id m) @ CHR '','' # t m = int_to_dec (am_subscription_id m') @ CHR '','' # t m'"
    using assms by (simp only: p same_append_eq)
  from split_at_comma [OF this] int_to_dec_chars
  have "int_to_dec (am_subscription_id m) = int_to_dec (am_subscription_id m')" and t: "t m = t m'"
    by blast+
  moreover have "json_string (am_tx_hash m) @ ''}'' = json_string (am_tx_hash m') @ ''}''"
    using t by (simp only: t_def same_append_eq)
  then have "am_tx_hash m = am_tx_hash m'"
    using escaped_string_inject [of "am_tx_hash m" "''}''"] by (simp add: json_string_def)
  ultimately show ?thesis
    by (simp add: pair_of_def int_to_dec_inject)
qed

section \<open>Laws of the pool\<close>

text \<open>What the counters of a pool promise: an attempt counts as attempted, a joined task as finished.\<close>

locale pool_counters =
  fixes att :: "'m \<Rightarrow> 'm" and settle :: "joined \<Rightarrow> 'm \<Rightarrow> 'm"
    and attempted :: "'m \<Rightarrow> nat" and finished :: "'m \<Rightarrow> nat"
  assumes att_counts: "attempted (att m) = attempted m + 1" "finished (att m) = finished m"
    and settle_counts: "attempted (settle j m) = attempted m" "finished (settle j m) = finished m + 1"
begin

definition pool_inv :: "'i list \<Rightarrow> 'm \<Rightarrow> 'i list \<times> 'i list \<times> 'm \<Rightarrow> bool" where
  "pool_inv batch m0 = (\<lambda>(queue, run, m). length run \<le> max_concurrent_posts \<and>
     (queue \<noteq> [] \<longrightarrow> length run = max_concurrent_posts) \<and>
     attempted m + length queue = attempted m0 + length batch \<and>
     finished m + length run + length queue = finished m0 + length batch)"

lemma prime_inv:
  "prime att n (queue, run, m) = (queue', run', m') \<Longrightarrow>
   length run' = length run + min n (length queue) \<and> length queue' = length queue - n \<and>
   attempted m' = attempted m + min n (length queue) \<and> finished m' = finished m"
proof (induction n arbitrary: queue run m)
  case (Suc n)
  then show ?case
    by (cases queue) (fastforce simp: att_counts)+
qed simp

lemma start_inv: "pool_inv batch m0 (pool_start att batch m0)"
proof (cases "prime att max_concurrent_posts (batch, [], m0)")
  case (fields queue run m)
  from prime_inv [OF this] show ?thesis
    by (auto simp: pool_start_def fields pool_inv_def min_def split: if_splits)
qed

lemma step_inv: "pool_inv batch m0 s \<Longrightarrow> pool_step att settle s s' \<Longrightarrow> pool_inv batch m0 s'"
  by (erule pool_stepE) (auto simp: pool_inv_def att_counts settle_counts)

lemma reachable_inv:
  "(pool_step att settle)\<^sup>*\<^sup>* (pool_start att batch m0) s \<Longrightarrow> pool_inv batch m0 s"
  by (induction rule: rtranclp_induct) (auto intro: start_inv step_inv)

lemma reachable_done:
  assumes "(pool_step att settle)\<^sup>*\<^sup>* (pool_start att batch m0) (queue, run, m)" "run = []"
  shows "queue = [] \<and> attempted m = attempted m0 + length batch \<and> finished m = finished m0 + length batch"
  using reachable_inv [OF assms(1)] assms(2)
  by (auto simp: pool_inv_def max_concurrent_posts_def)

end

lemma pool_measure: "pool_step att settle (queue, run, m) (queue', run', m') \<Longrightarrow>
   length queue' + length run' < length queue + length run"
  by (erule pool_stepE) auto

lemma pool_progress:
  assumes "run \<noteq> []"
  shows "\<exists>s. pool_step att settle (queue, run, m) s"
proof -
  obtain x r where r: "run = [] @ x # r" using assms by (cases run) auto
  show ?thesis
    unfolding r by (cases queue) (blast intro: pool_step.intros)+
qed

definition finished_items :: "dispatch_metrics \<Rightarrow> nat" where
  "finished_items m = dm_delivered m + dm_failed m + dm_unsafe_url_skipped m + dm_claim_skipped m"

interpretation event_pool: pool_counters attempt join_metrics dm_attempted finished_items
proof
  show "dm_attempted (attempt m) = dm_attempted m + 1" "finished_items (attempt m) = finished_items m" for m
    by (simp_all add: attempt_def finished_items_def)
  show "dm_attempted (join_metrics j m) = dm_attempted m" for j m
    by (cases "(j, m)" rule: join_metrics.cases) simp_all
  show "finished_items (join_metrics j m) = finished_items m + 1" for j m
    by (cases "(j, m)" rule: join_metrics.cases) (simp_all add: finished_items_def)
qed

interpretation rate_pool: pool_counters attempt_rate join_rate_metrics dm_rate_attempted
    "\<lambda>m. dm_rate_delivered m + dm_rate_failed m"
proof
  show "dm_rate_attempted (attempt_rate m) = dm_rate_attempted m + 1"
    "dm_rate_delivered (attempt_rate m) + dm_rate_failed (attempt_rate m) = dm_rate_delivered m + dm_rate_failed m" for m
    by (simp_all add: attempt_rate_def)
  show "dm_rate_attempted (join_rate_metrics j m) = dm_rate_attempted m" for j m
    by (cases "(j, m)" rule: join_rate_metrics.cases) simp_all
  show "dm_rate_delivered (join_rate_metrics j m) + dm_rate_failed (join_rate_metrics j m) =
      dm_rate_delivered m + dm_rate_failed m + 1" for j m
    by (cases "(j, m)" rule: join_rate_metrics.cases) simp_all
qed

section \<open>Properties\<close>

lemma take_chars_prefix: "prefix (take_chars n s) s"
  by (induction n s rule: take_chars.induct) (auto split: nat.splits)

lemma clean_prefix: "clean s \<Longrightarrow> prefix p s \<Longrightarrow> clean p"
  unfolding clean_def by (meson prefix_imp_sublist sublist_order.order.trans)

text \<open>C40. The redacted text contains no \<open>http://\<close> and no \<open>https://\<close>, is a fixed point of the
  redaction, and is the text itself exactly when that contains neither; and the error recorded for a
  failed request, cut to 500 characters after the redaction, contains neither.\<close>

theorem redact_urls_clean:
  "\<not> contains (redact_urls s) ''https://'' \<and> \<not> contains (redact_urls s) ''http://'' \<and>
   redact_urls (redact_urls s) = redact_urls s \<and>
   (redact_urls s = s \<longleftrightarrow> \<not> contains s ''https://'' \<and> \<not> contains s ''http://'') \<and>
   (case answer_verdict resp of (_, _, err) \<Rightarrow>
      \<forall>msg\<in>set_option err. \<not> contains msg ''https://'' \<and> \<not> contains msg ''http://'')"
proof -
  have c: "clean s \<longleftrightarrow> \<not> contains s ''https://'' \<and> \<not> contains s ''http://''" for s
    unfolding clean_def contains_sublist ..
  have "redact_urls s = s \<longleftrightarrow> clean s"
    using redact_clean clean_redacted [of s] by metis
  moreover have "\<forall>msg\<in>set_option (snd (snd (answer_verdict resp))). clean msg"
    using clean_prefix [OF clean_redacted take_chars_prefix]
    by (auto simp: answer_verdict_def split: sum.splits)
  ultimately show ?thesis
    using clean_redacted [of s] redact_clean [OF clean_redacted, of s]
    unfolding c by (auto split: prod.splits)
qed

text \<open>A request is only ever sent to a URL that passes the webhook policy, and carries exactly the
  payload of its match together with the HMAC of that payload under the decoded secret; the payload
  determines the subscription and the transaction, so two matches never share a payload.\<close>

theorem signed_request_exact:
  "(request_plan X url secret body = Inr rq \<longleftrightarrow>
     webhook_url_is_safe (dx_parse_url X) url = Inr () \<and>
     (\<exists>key. dx_hex_decode X secret = Some key \<and>
        rq = \<lparr>rq_url = url, rq_headers = [(''Content-Type'', ''application/json''),
          (''X-Amarillo-Signature'', ''sha256='' @ dx_hex_encode X (dx_hmac X key (string_to_bytes body)))],
          rq_body = body\<rparr>)) \<and>
   (build_payload m = build_payload m' \<longrightarrow> pair_of m = pair_of m')"
  by (auto simp: request_plan_def signed_request_def sign_payload_def split: sum.splits option.splits
      dest: build_payload_inject)

text \<open>C38. In every reachable state of a dispatch cycle at most ten tasks run; while tasks run the
  cycle can go on, and every step decreases the number of matches left; when none is left the whole
  batch has been attempted and every attempt is counted once, as delivered, failed, unsafe or
  skipped. The same holds of the cycle for rate alerts.\<close>

theorem dispatch_pool_complete:
  "((pool_step attempt join_metrics)\<^sup>*\<^sup>* (pool_start attempt batch m0) (queue, run, m) \<longrightarrow>
      length run \<le> 10 \<and>
      (run \<noteq> [] \<longrightarrow> (\<exists>s. pool_step attempt join_metrics (queue, run, m) s)) \<and>
      (run = [] \<longrightarrow> queue = [] \<and> dm_attempted m = dm_attempted m0 + length batch \<and>
         finished_items m = finished_items m0 + length batch)) \<and>
   ((pool_step attempt_rate join_rate_metrics)\<^sup>*\<^sup>* (pool_start attempt_rate rbatch m0) (rqueue, rrun, m) \<longrightarrow>
      length rrun \<le> 10 \<and>
      (rrun = [] \<longrightarrow> rqueue = [] \<and> dm_rate_attempted m = dm_rate_attempted m0 + length rbatch \<and>
         dm_rate_delivered m + dm_rate_failed m =
           dm_rate_delivered m0 + dm_rate_failed m0 + length rbatch)) \<and>
   (pool_step attempt join_metrics (queue, run, m) (queue', run', m') \<longrightarrow>
      length queue' + length run' < length queue + length run)"
proof (intro conjI impI)
  assume r: "(pool_step attempt join_metrics)\<^sup>*\<^sup>* (pool_start attempt batch m0) (queue, run, m)"
  show "length run \<le> 10"
    using event_pool.reachable_inv [OF r] by (simp add: event_pool.pool_inv_def max_concurrent_posts_def)
  show "\<exists>s. pool_step attempt join_metrics (queue, run, m) s" if "run \<noteq> []"
    using that by (rule pool_progress)
  show "queue = []" "dm_attempted m = dm_attempted m0 + length batch"
      "finished_items m = finished_items m0 + length batch" if "run = []"
    using event_pool.reachable_done [OF r that] by simp_all
next
  assume r: "(pool_step attempt_rate join_rate_metrics)\<^sup>*\<^sup>* (pool_start attempt_rate rbatch m0) (rqueue, rrun, m)"
  show "length rrun \<le> 10"
    using rate_pool.reachable_inv [OF r] by (simp add: rate_pool.pool_inv_def max_concurrent_posts_def)
  show "rqueue = []" "dm_rate_attempted m = dm_rate_attempted m0 + length rbatch"
      "dm_rate_delivered m + dm_rate_failed m = dm_rate_delivered m0 + dm_rate_failed m0 + length rbatch"
    if "rrun = []"
    using rate_pool.reachable_done [OF r that] by simp_all
qed (rule pool_measure)

lemma dispatch_item_laws:
  assumes "service_ok d" "dispatch_item X respond t1 t2 m d = (r, d')"
  shows "service_ok d' \<and> (\<forall>k. k \<noteq> pair_of m \<longrightarrow> ledger_view d' k = ledger_view d k) \<and>
    (r = Inr ClaimSkipped \<longrightarrow> \<not> claimable (seconds 60) t1 (ledger_view d (pair_of m)) \<and> d' = d) \<and>
    (r = Inr Delivered \<longrightarrow> ledger_view d' (pair_of m) = Sent \<and>
       (\<exists>rq code text. request_plan X (am_webhook_url m) (am_signing_secret m) (build_payload m) = Inr rq \<and>
          respond rq = Inr (code, text) \<and> 200 \<le> code \<and> code < 300)) \<and>
    (r \<in> {Inr Failed, Inr UnsafeUrl} \<longrightarrow> ledger_view d' (pair_of m) = Free) \<and>
    (r = Inr UnsafeUrl \<longrightarrow> webhook_url_is_safe (dx_parse_url X) (am_webhook_url m) \<noteq> Inr ()) \<and>
    (\<forall>e. r = Inl e \<longrightarrow> ledger_view d' (pair_of m) \<in> {ledger_view d (pair_of m), Held t1})"
proof (cases "try_claim_alert_match t1 (am_subscription_id m) (am_tx_hash m) 60 d")
  case (Inl e)
  with assms show ?thesis
    by (simp add: dispatch_item_def claim_stale_after_secs_def) blast
next
  case (Inr bd)
  obtain b d1 where bd: "bd = (b, d1)" by force
  have st: "statuses_ok d" using assms(1) by (rule service_statuses)
  note c = claim_view [OF st, of t1 "pair_of m" 60 b d1, simplified pair_of_def fst_conv snd_conv,
      folded pair_of_def, OF Inr [unfolded bd]]
  have ok1: "service_ok d1"
    using claim_ok [OF Inr [unfolded bd] assms(1)] .
  show ?thesis
  proof (cases b)
    case False
    then have "d1 = d"
      using Inr bd by (auto simp: try_claim_alert_match_def split: if_splits option.splits)
    with False assms Inr bd c show ?thesis
      by (auto simp: dispatch_item_def claim_stale_after_secs_def claim_spec_def split: if_splits)
  next
    case True
    with c have held: "ledger_view d1 = (ledger_view d)(pair_of m := Held t1)"
      by (auto simp: claim_spec_def split: if_splits)
    obtain out ok err where v:
        "item_verdict X respond (am_webhook_url m) (am_signing_secret m) (build_payload m) = (out, ok, err)"
      using prod_cases3 by blast
    have vd: "(out = Delivered \<longrightarrow> ok \<and> (\<exists>rq code text. request_plan X (am_webhook_url m) (am_signing_secret m)
            (build_payload m) = Inr rq \<and> respond rq = Inr (code, text) \<and> 200 \<le> code \<and> code < 300)) \<and>
        (out \<in> {Failed, UnsafeUrl} \<longrightarrow> \<not> ok) \<and> out \<noteq> ClaimSkipped \<and>
        (out = UnsafeUrl \<longrightarrow> webhook_url_is_safe (dx_parse_url X) (am_webhook_url m) \<noteq> Inr ())"
      using v by (auto simp: item_verdict_def answer_verdict_def request_plan_def post_signed_def
          split: sum.splits option.splits prod.splits if_splits)
    show ?thesis
    proof (cases "record_alert_delivery t2 (am_subscription_id m) (am_tx_hash m) ok err d1")
      case (Inl e)
      with True Inr bd v assms(2) have "r = Inl e" "d' = d1"
        by (simp_all add: dispatch_item_def claim_stale_after_secs_def)
      with held ok1 show ?thesis by simp
    next
      case rec: (Inr d2)
      with True Inr bd v assms(2) have "r = Inr out" "d' = d2"
        by (simp_all add: dispatch_item_def claim_stale_after_secs_def)
      moreover have "ledger_view d2 = record_spec (pair_of m) ok (ledger_view d1)"
        using record_view [of d1 t2 "pair_of m" ok err d2] rec ok1
        by (simp add: service_statuses pair_of_def)
      ultimately show ?thesis
        using record_ok [OF rec ok1] vd held by (auto simp: record_spec_def)
    qed
  qed
qed

text \<open>The result of processing a match against the ledger: it is skipped exactly when the pair is
  not claimable; it is delivered only if the request was sent and answered with a 2xx status, and
  then the pair is sent; if it failed or the URL is unsafe, the pair is free for a retry; after an
  error of the database it is unchanged or held. No other pair is affected.\<close>

theorem dispatch_item_ledger:
  assumes "service_ok d" "dispatch_item X respond t1 t2 m d = (r, d')"
  shows "service_ok d' \<and> (\<forall>k. k \<noteq> pair_of m \<longrightarrow> ledger_view d' k = ledger_view d k) \<and>
    (r = Inr ClaimSkipped \<longrightarrow> \<not> claimable (seconds 60) t1 (ledger_view d (pair_of m)) \<and> d' = d) \<and>
    (r = Inr Delivered \<longrightarrow> ledger_view d' (pair_of m) = Sent \<and>
       (\<exists>rq code text. request_plan X (am_webhook_url m) (am_signing_secret m) (build_payload m) = Inr rq \<and>
          respond rq = Inr (code, text) \<and> 200 \<le> code \<and> code < 300)) \<and>
    (r \<in> {Inr Failed, Inr UnsafeUrl} \<longrightarrow> ledger_view d' (pair_of m) = Free) \<and>
    (r = Inr UnsafeUrl \<longrightarrow> webhook_url_is_safe (dx_parse_url X) (am_webhook_url m) \<noteq> Inr ()) \<and>
    (\<forall>e. r = Inl e \<longrightarrow> ledger_view d' (pair_of m) \<in> {ledger_view d (pair_of m), Held t1})"
  using dispatch_item_laws [OF assms] .

section \<open>Instances\<close>

lemma redact_urls_clean_witness:
  "\<not> contains (redact_urls ''x http://h y'') ''http://'' \<and> redact_urls ''x http://h y'' \<noteq> ''x http://h y'' \<and>
   (\<exists>msg. snd (snd (answer_verdict (Inl ''to http://h''))) = Some msg \<and> \<not> contains msg ''http://'')"
proof -
  obtain b e msg where v: "answer_verdict (Inl ''to http://h'') = (b, e, Some msg)"
    by (cases "answer_verdict (Inl ''to http://h'')") (auto simp: answer_verdict_def post_signed_def)
  show ?thesis
    using redact_urls_clean [of "''x http://h y''" "Inl ''to http://h''"] unfolding v
    by (auto simp: contains_def starts_with_def)
qed

definition sample_ext :: dispatch_ext where
  "sample_ext = \<lparr>dx_hmac = (\<lambda>k b. k @ b), dx_hex_encode = (\<lambda>b. ''00''), dx_hex_decode = (\<lambda>s. Some [1]),
     dx_parse_url = (\<lambda>u. if u = ''https://a.example/''
        then Some \<lparr>url_scheme = ''https'', url_host_str = Some (v4_text 0x08080808)\<rparr> else None)\<rparr>"

definition sample_match :: "string \<Rightarrow> alert_match" where
  "sample_match h = \<lparr>am_subscription_id = 1, am_tx_hash = h, am_webhook_url = sub_webhook_url sample_sub,
     am_signing_secret = sub_signing_secret sample_sub\<rparr>"

lemma public_ip_safe: "ip_is_safe (V4 0x08080808) = Inr ()"
  by (simp add: ip_is_safe_def v4_is_safe_def v4_classes)

lemma sample_url_safe: "webhook_url_is_safe (dx_parse_url sample_ext) (sub_webhook_url sample_sub) = Inr ()"
  using v4_text_start public_ip_safe
  by (simp add: webhook_url_is_safe_def sample_ext_def sample_sub_def ip_from_str_v4_text)

lemma signed_request_exact_witness:
  "(\<exists>rq. request_plan sample_ext (sub_webhook_url sample_sub) ''00'' ''{}'' = Inr rq \<and> rq_body rq = ''{}'') \<and>
   build_payload (sample_match ''0xa'') \<noteq> build_payload (sample_match ''0xb'')"
proof -
  have "\<exists>rq. request_plan sample_ext (sub_webhook_url sample_sub) ''00'' ''{}'' = Inr rq \<and> rq_body rq = ''{}''"
    unfolding signed_request_exact [THEN conjunct1] using sample_url_safe by (simp add: sample_ext_def)
  moreover have "pair_of (sample_match ''0xa'') \<noteq> pair_of (sample_match ''0xb'')"
    by (simp add: pair_of_def sample_match_def)
  ultimately show ?thesis
    using signed_request_exact by blast
qed

definition zero_metrics :: dispatch_metrics where
  "zero_metrics = \<lparr>dm_cycles = 0, dm_attempted = 0, dm_delivered = 0, dm_failed = 0,
     dm_unsafe_url_skipped = 0, dm_claim_skipped = 0, dm_rate_attempted = 0, dm_rate_delivered = 0,
     dm_rate_failed = 0\<rparr>"

lemma sample_pool_run:
  "(pool_step attempt join_metrics)\<^sup>*\<^sup>* (pool_start attempt [sample_match h] zero_metrics)
     ([], [], join_metrics (TaskDone Failed) (attempt zero_metrics))"
proof -
  have p: "prime att 10 ([i], [], m) = ([], [i], att m)" for att :: "dispatch_metrics \<Rightarrow> dispatch_metrics" and i :: alert_match and m
    by (simp add: eval_nat_numeral)
  have "pool_step attempt join_metrics ([], [] @ sample_match h # [], attempt zero_metrics)
      ([], [] @ [], join_metrics (TaskDone Failed) (attempt zero_metrics))"
    by (rule Drain)
  then show ?thesis
    by (simp add: pool_start_def max_concurrent_posts_def p r_into_rtranclp)
qed

lemma dispatch_pool_complete_witness:
  "dm_attempted (join_metrics (TaskDone Failed) (attempt zero_metrics)) = 1 \<and>
   finished_items (join_metrics (TaskDone Failed) (attempt zero_metrics)) = 1"
proof -
  have "dm_attempted zero_metrics = 0" "finished_items zero_metrics = 0"
    by (simp_all add: zero_metrics_def finished_items_def)
  with dispatch_pool_complete [THEN conjunct1, THEN mp, OF sample_pool_run] show ?thesis
    by simp
qed

lemma dispatch_item_ledger_witness:
  "\<exists>d'. dispatch_item (sample_ext\<lparr>dx_parse_url := \<lambda>_. None\<rparr>) (\<lambda>_. Inl []) 100 101 (sample_match ''t6'')
      (sample_service Map.empty) = (Inr UnsafeUrl, d') \<and> ledger_view d' (1, ''t6'') = Free"
proof -
  let ?X = "sample_ext\<lparr>dx_parse_url := \<lambda>_. None\<rparr>" and ?m = "sample_match ''t6''"
  obtain d' where d': "dispatch_item ?X (\<lambda>_. Inl []) 100 101 ?m (sample_service Map.empty) = (Inr UnsafeUrl, d')"
    by (simp add: dispatch_item_def sample_match_def claim_stale_after_secs_def sample_claim item_verdict_def
        request_plan_def webhook_url_is_safe_def record_alert_delivery_def text_ok_def char_code_def
        opt_ok_def int4_ok_def)
  from dispatch_item_ledger [OF sample_empty_ok(2) d'] d' show ?thesis
    by (simp add: pair_of_def sample_match_def)
qed

end
