(* ===== verification/Delivery.thy ===== *)
theory Delivery
  imports Dispatch
begin

text \<open>
  The dispatchers at work on the shared ledger: any number of dispatcher processes fetch matches,
  claim them, send requests and record the results, their statements interleaved with each other,
  with the passing of time and with the statements of the API and the indexer; a task may be lost
  at any point. The properties say when an alert is delivered at most once, what goes wrong when a
  task outlives its claim, and which alerts one dispatcher alone never attempts.
\<close>

section \<open>The interleaved system\<close>

datatype dispatch_task =
    Queued alert_match
  | Holding alert_match timestamp
  | Answered alert_match timestamp verdict

record dispatch_state =
  ds_clock :: timestamp
  ds_db :: service_db
  ds_tasks :: "dispatch_task list"
  ds_posts :: "(int \<times> string) list"

text \<open>Statements of the API, of the rate dispatcher and of the indexer.\<close>

inductive env_step :: "service_db \<Rightarrow> service_db \<Rightarrow> bool" where
  Subscribe: "insert_alert_subscription now cat a url secret d = Inr (s, d') \<Longrightarrow> env_step d d'"
| SubscribeRate: "insert_alert_subscription_rate now cat a url secret n w b d = Inr (s, d') \<Longrightarrow> env_step d d'"
| Deactivate: "env_step d (snd (deactivate_alert_subscription sid d))"
| Rotate: "rotate_alert_subscription_secret sid secret d = Inr (x, d') \<Longrightarrow> env_step d d'"
| Delete: "env_step d (snd (delete_alert_subscription sid d))"
| RateRecord: "record_rate_alert_dispatch now sid n ok err d = Inr d' \<Longrightarrow> env_step d d'"
| Index: "\<lbrakk>db_subs d' = db_subs d; db_deliveries d' = db_deliveries d; db_seq_sub d' = db_seq_sub d;
     db_rate_dispatches d' = db_rate_dispatches d\<rbrakk> \<Longrightarrow> env_step d d'"

text \<open>The steps of \<open>dispatch_item\<close>, the batch query, and everything else that may happen. \<open>ds_posts\<close>
  logs the requests that were answered with success.\<close>

inductive dispatch_step :: "dispatch_ext \<Rightarrow> dispatch_state \<Rightarrow> dispatch_state \<Rightarrow> bool" for X where
  Tick: "ds_clock s \<le> t \<Longrightarrow> dispatch_step X s (s\<lparr>ds_clock := t\<rparr>)"
| Fetch: "find_pending_alert_matches r (ds_clock s) lim claim_stale_after_secs (ds_db s) = Inr ms \<Longrightarrow>
    dispatch_step X s (s\<lparr>ds_tasks := ds_tasks s @ map Queued ms\<rparr>)"
| Claim: "\<lbrakk>ds_tasks s = a @ Queued m # b;
    try_claim_alert_match (ds_clock s) (am_subscription_id m) (am_tx_hash m) claim_stale_after_secs (ds_db s)
      = Inr (True, d')\<rbrakk> \<Longrightarrow>
    dispatch_step X s (s\<lparr>ds_db := d', ds_tasks := a @ Holding m (ds_clock s) # b\<rparr>)"
| Skip: "\<lbrakk>ds_tasks s = a @ Queued m # b;
    try_claim_alert_match (ds_clock s) (am_subscription_id m) (am_tx_hash m) claim_stale_after_secs (ds_db s)
      = Inr (False, d')\<rbrakk> \<Longrightarrow>
    dispatch_step X s (s\<lparr>ds_db := d', ds_tasks := a @ b\<rparr>)"
| Refuse: "\<lbrakk>ds_tasks s = a @ Holding m c # b;
    request_plan X (am_webhook_url m) (am_signing_secret m) (build_payload m) = Inl (out, msg)\<rbrakk> \<Longrightarrow>
    dispatch_step X s (s\<lparr>ds_tasks := a @ Answered m c (out, False, Some msg) # b\<rparr>)"
| Post: "\<lbrakk>ds_tasks s = a @ Holding m c # b;
    request_plan X (am_webhook_url m) (am_signing_secret m) (build_payload m) = Inr rq;
    answer_verdict resp = (out, ok, err)\<rbrakk> \<Longrightarrow>
    dispatch_step X s (s\<lparr>ds_tasks := a @ Answered m c (out, ok, err) # b,
      ds_posts := (if ok then pair_of m # ds_posts s else ds_posts s)\<rparr>)"
| Record: "\<lbrakk>ds_tasks s = a @ Answered m c (out, ok, err) # b;
    record_alert_delivery (ds_clock s) (am_subscription_id m) (am_tx_hash m) ok err (ds_db s) = Inr d'\<rbrakk> \<Longrightarrow>
    dispatch_step X s (s\<lparr>ds_db := d', ds_tasks := a @ b\<rparr>)"
| Lose: "ds_tasks s = a @ t # b \<Longrightarrow> dispatch_step X s (s\<lparr>ds_tasks := a @ b\<rparr>)"
| Other: "env_step (ds_db s) d' \<Longrightarrow> dispatch_step X s (s\<lparr>ds_db := d'\<rparr>)"

inductive_cases env_stepE: "env_step d d'"

text \<open>The claims the tasks hold: the pair, the time of the claim, and whether its request succeeded.\<close>

fun claims_of :: "dispatch_task \<Rightarrow> ((int \<times> string) \<times> timestamp \<times> bool) list" where
  "claims_of (Queued m) = []"
| "claims_of (Holding m c) = [(pair_of m, c, False)]"
| "claims_of (Answered m c (out, ok, err)) = [(pair_of m, c, ok)]"

definition task_claims :: "dispatch_task list \<Rightarrow> ((int \<times> string) \<times> timestamp \<times> bool) list" where
  "task_claims ts = concat (map claims_of ts)"

definition claims :: "dispatch_state \<Rightarrow> ((int \<times> string) \<times> timestamp \<times> bool) list" where
  "claims s = task_claims (ds_tasks s)"

lemma task_claims_simps [simp]:
  "task_claims [] = []" "task_claims (t # ts) = claims_of t @ task_claims ts"
  "task_claims (ts @ us) = task_claims ts @ task_claims us" "task_claims (map Queued ms) = []"
  by (simp_all add: task_claims_def)

text \<open>Every task ends before its claim is stale; the result of a successful request is recorded.\<close>

definition punctual :: "dispatch_state \<Rightarrow> bool" where
  "punctual s \<longleftrightarrow> (\<forall>(k, c, ok)\<in>set (claims s). ds_clock s \<le> c + seconds claim_stale_after_secs)"

definition graceful :: "dispatch_state \<Rightarrow> dispatch_state \<Rightarrow> bool" where
  "graceful s s' \<longleftrightarrow> (\<forall>k c. (k, c, True) \<in> set (claims s) \<longrightarrow> (k, c, True) \<notin> set (claims s') \<longrightarrow>
     ledger_view (ds_db s') k = Sent \<or> \<not> sub_known (ds_db s') (fst k))"

definition good_step :: "dispatch_ext \<Rightarrow> dispatch_state \<Rightarrow> dispatch_state \<Rightarrow> bool" where
  "good_step X s s' \<longleftrightarrow> dispatch_step X s s' \<and> punctual s' \<and> graceful s s'"

section \<open>Frames\<close>

lemma env_frame:
  assumes "service_ok d" "env_step d d'"
  shows "service_ok d' \<and> db_seq_sub d \<le> db_seq_sub d' \<and>
    (\<forall>k. fst k < db_seq_sub d \<longrightarrow> sub_known d' (fst k) \<longrightarrow>
       sub_known d (fst k) \<and> ledger_view d' k = ledger_view d k)"
  using assms(2)
proof cases
  case (Subscribe now cat a url secret s)
  then show ?thesis
    using add_subscription_ok [OF Subscribe [unfolded insert_alert_subscription_def] _ assms(1)]
    by (auto simp: insert_alert_subscription_def add_subscription_def sub_known_def ledger_view_def
        split: if_splits)
next
  case (SubscribeRate now cat a url secret n w b s)
  then show ?thesis
    using add_subscription_ok [OF SubscribeRate [unfolded insert_alert_subscription_rate_def] _ assms(1)]
    by (auto simp: insert_alert_subscription_rate_def add_subscription_def sub_known_def ledger_view_def
        split: if_splits)
next
  case (Deactivate sid)
  then show ?thesis
    using deactivate_ok [OF assms(1), of sid]
    by (auto simp: deactivate_alert_subscription_def update_sub_def sub_known_def ledger_view_def Let_def
        split: if_splits)
next
  case (Rotate sid secret x)
  then show ?thesis
    using rotate_ok [OF Rotate assms(1)]
    by (auto simp: rotate_alert_subscription_secret_def update_sub_def sub_known_def ledger_view_def Let_def
        split: if_splits)
next
  case (Delete sid)
  then show ?thesis
    using delete_ok [OF assms(1), of sid] delete_known [of sid d]
    by (auto simp: delete_alert_subscription_def ledger_view_def)
next
  case (RateRecord now sid n ok err)
  then show ?thesis
    using rate_record_ok [OF RateRecord assms(1)]
    by (auto simp: rate_record_Inr sub_known_def ledger_view_def)
next
  case Index
  with assms(1) show ?thesis
    by (simp add: service_ok_def sub_known_def statuses_ok_def ledger_view_def)
qed

lemma claim_frame:
  "try_claim_alert_match now sid h stale d = Inr (b, d') \<Longrightarrow>
   sub_known d' = sub_known d \<and> db_seq_sub d' = db_seq_sub d"
  by (auto simp: sub_known_def fun_eq_iff try_claim_alert_match_def split: if_splits option.splits)

lemma record_frame:
  "record_alert_delivery now sid h ok err d = Inr d' \<Longrightarrow>
   sub_known d' = sub_known d \<and> db_seq_sub d' = db_seq_sub d"
  by (auto simp: sub_known_def fun_eq_iff record_alert_delivery_def Let_def split: if_splits option.splits)

lemma known_below: "service_ok d \<Longrightarrow> sub_known d sid \<Longrightarrow> sid < db_seq_sub d"
  by (auto simp: service_ok_def sub_known_def)

lemma row_known: "service_ok d \<Longrightarrow> db_deliveries d (sid, h) = Some r \<Longrightarrow> sub_known d sid"
  by (auto simp: service_ok_def)

lemma claim_known:
  assumes "try_claim_alert_match now sid h stale d = Inr (True, d')" "service_ok d"
  shows "sub_known d sid \<and> sid < db_seq_sub d"
proof -
  have "sub_known d sid"
    using assms row_known [OF assms(2), of sid h]
    by (cases "db_deliveries d (sid, h)") (auto simp: try_claim_alert_match_def split: if_splits)
  with known_below [OF assms(2)] show ?thesis by blast
qed

section \<open>The invariant of punctual dispatchers\<close>

definition delivery_inv :: "dispatch_state \<Rightarrow> bool" where
  "delivery_inv s \<longleftrightarrow> service_ok (ds_db s) \<and> punctual s \<and> distinct (map fst (claims s)) \<and>
     (\<forall>(k, c, ok)\<in>set (claims s). fst k < db_seq_sub (ds_db s) \<and>
        (sub_known (ds_db s) (fst k) \<longrightarrow> ledger_view (ds_db s) k = Held c) \<and>
        count_list (ds_posts s) k = (if ok then 1 else 0)) \<and>
     (\<forall>k. count_list (ds_posts s) k \<le> 1 \<and> (k \<in> set (ds_posts s) \<longrightarrow> fst k < db_seq_sub (ds_db s) \<and>
        (ledger_view (ds_db s) k = Sent \<or> \<not> sub_known (ds_db s) (fst k) \<or>
           (\<exists>c. (k, c, True) \<in> set (claims s)))))"

lemma delivery_claim:
  "delivery_inv s \<Longrightarrow> (k, c, ok) \<in> set (claims s) \<Longrightarrow>
   fst k < db_seq_sub (ds_db s) \<and> (sub_known (ds_db s) (fst k) \<longrightarrow> ledger_view (ds_db s) k = Held c) \<and>
   count_list (ds_posts s) k = (if ok then 1 else 0) \<and> ds_clock s \<le> c + seconds claim_stale_after_secs"
  unfolding delivery_inv_def punctual_def by blast

lemma delivery_post:
  "delivery_inv s \<Longrightarrow> count_list (ds_posts s) k \<le> 1 \<and> (k \<in> set (ds_posts s) \<longrightarrow>
     fst k < db_seq_sub (ds_db s) \<and> (ledger_view (ds_db s) k = Sent \<or> \<not> sub_known (ds_db s) (fst k) \<or>
       (\<exists>c. (k, c, True) \<in> set (claims s))))"
  unfolding delivery_inv_def by blast

text \<open>A step that changes only the database, or only drops tasks.\<close>

lemma delivery_frame:
  assumes inv: "delivery_inv s" and ok: "service_ok (ds_db s')" and p: "punctual s'" and g: "graceful s s'"
    and posts: "ds_posts s' = ds_posts s"
    and seq: "db_seq_sub (ds_db s) \<le> db_seq_sub (ds_db s')"
    and cl: "set (claims s') \<subseteq> set (claims s)" "distinct (map fst (claims s'))"
    and older: "\<And>i. i < db_seq_sub (ds_db s) \<Longrightarrow> sub_known (ds_db s') i \<Longrightarrow> sub_known (ds_db s) i"
    and keep: "\<And>k. fst k < db_seq_sub (ds_db s) \<Longrightarrow> sub_known (ds_db s') (fst k) \<Longrightarrow>
       k \<in> fst ` set (claims s') \<or> ledger_view (ds_db s) k = Sent \<Longrightarrow>
       ledger_view (ds_db s') k = ledger_view (ds_db s) k"
  shows "delivery_inv s'"
proof -
  have 1: "fst k < db_seq_sub (ds_db s') \<and> (sub_known (ds_db s') (fst k) \<longrightarrow> ledger_view (ds_db s') k = Held c) \<and>
        count_list (ds_posts s') k = (if ok then 1 else 0)" if m: "(k, c, ok) \<in> set (claims s')" for k c ok
  proof -
    have "(k, c, ok) \<in> set (claims s)" using m cl by blast
    note d = delivery_claim [OF inv this]
    moreover have "k \<in> fst ` set (claims s')" using m by force
    ultimately show ?thesis using keep [of k] older [of "fst k"] seq posts by simp
  qed
  have 2: "count_list (ds_posts s') k \<le> 1 \<and> (k \<in> set (ds_posts s') \<longrightarrow> fst k < db_seq_sub (ds_db s') \<and>
        (ledger_view (ds_db s') k = Sent \<or> \<not> sub_known (ds_db s') (fst k) \<or>
           (\<exists>c. (k, c, True) \<in> set (claims s'))))" for k
  proof -
    have c: "count_list (ds_posts s) k \<le> 1" and
      m: "k \<in> set (ds_posts s) \<Longrightarrow> fst k < db_seq_sub (ds_db s) \<and>
        (ledger_view (ds_db s) k = Sent \<or> \<not> sub_known (ds_db s) (fst k) \<or> (\<exists>c. (k, c, True) \<in> set (claims s)))"
      using delivery_post [OF inv, of k] by blast+
    have "ledger_view (ds_db s') k = Sent \<or> \<not> sub_known (ds_db s') (fst k) \<or>
           (\<exists>c. (k, c, True) \<in> set (claims s'))" if "k \<in> set (ds_posts s)"
      using m [OF that] g keep [of k] older [of "fst k"] unfolding graceful_def by metis
    with c m seq posts show ?thesis by auto
  qed
  show ?thesis
    using ok p cl(2) 1 2 unfolding delivery_inv_def by blast
qed

lemma claim_new_pair:
  assumes inv: "delivery_inv s"
    and cl: "try_claim_alert_match (ds_clock s) (fst p) (snd p) claim_stale_after_secs (ds_db s) = Inr (True, d')"
  shows "p \<notin> fst ` set (claims s) \<and> count_list (ds_posts s) p = 0 \<and> sub_known (ds_db s) (fst p) \<and>
    fst p < db_seq_sub (ds_db s) \<and> ledger_view d' = (ledger_view (ds_db s))(p := Held (ds_clock s))"
proof -
  have ok: "service_ok (ds_db s)" using inv by (simp add: delivery_inv_def)
  note won = ledger.claim_won [OF service_statuses [OF ok] cl]
  note known = claim_known [OF cl ok]
  have p: "p \<notin> fst ` set (claims s)"
  proof
    assume "p \<in> fst ` set (claims s)"
    then obtain c b where "(p, c, b) \<in> set (claims s)" by force
    from delivery_claim [OF inv this] known won show False
      by (simp add: claimable_def claim_stale_after_secs_def)
  qed
  moreover have "p \<notin> set (ds_posts s)"
  proof
    assume "p \<in> set (ds_posts s)"
    with delivery_post [OF inv, of p] known have "ledger_view (ds_db s) p = Sent \<or> (\<exists>c. (p, c, True) \<in> set (claims s))"
      by blast
    with won p show False by (force simp: claimable_def)
  qed
  ultimately show ?thesis
    using won known by (simp add: count_list_0_iff)
qed

lemma delivery_claim_step:
  assumes inv: "delivery_inv s" and t: "ds_tasks s = a @ Queued m # b"
    and cl: "try_claim_alert_match (ds_clock s) (am_subscription_id m) (am_tx_hash m) claim_stale_after_secs (ds_db s)
      = Inr (True, d')"
    and s': "s' = s\<lparr>ds_db := d', ds_tasks := a @ Holding m (ds_clock s) # b\<rparr>" and p: "punctual s'"
  shows "delivery_inv s'"
proof -
  let ?p = "pair_of m"
  have ok: "service_ok (ds_db s)" using inv by (simp add: delivery_inv_def)
  note new = claim_new_pair [OF inv, of ?p d', unfolded pair_of_def fst_conv snd_conv, OF cl, folded pair_of_def]
  have cs: "claims s = task_claims a @ task_claims b"
      "claims s' = task_claims a @ (?p, ds_clock s, False) # task_claims b"
    by (simp_all add: claims_def t s')
  have db: "ds_db s' = d'" "ds_posts s' = ds_posts s" "db_seq_sub d' = db_seq_sub (ds_db s)"
      "sub_known d' = sub_known (ds_db s)"
    using claim_frame [OF cl] by (simp_all add: s')
  have d: "distinct (map fst (claims s'))"
    using inv new by (auto simp: delivery_inv_def cs)
  have 1: "fst k < db_seq_sub d' \<and> (sub_known d' (fst k) \<longrightarrow> ledger_view d' k = Held c) \<and>
      count_list (ds_posts s) k = (if ok then 1 else 0)" if "(k, c, ok) \<in> set (claims s')" for k c ok
  proof (cases "k = ?p")
    case True
    with that have "c = ds_clock s \<and> \<not> ok \<or> (?p, c, ok) \<in> set (claims s)"
      by (auto simp: cs)
    moreover have "(?p, c, ok) \<notin> set (claims s)"
      using new by (metis fst_conv image_eqI)
    ultimately have "c = ds_clock s \<and> \<not> ok" by blast
    with True new db show ?thesis by (simp add: pair_of_def)
  next
    case False
    with that have m: "(k, c, ok) \<in> set (claims s)" by (auto simp: cs)
    from delivery_claim [OF inv m] False new db show ?thesis by simp
  qed
  have 2: "count_list (ds_posts s) k \<le> 1 \<and> (k \<in> set (ds_posts s) \<longrightarrow> fst k < db_seq_sub d' \<and>
        (ledger_view d' k = Sent \<or> \<not> sub_known d' (fst k) \<or> (\<exists>c. (k, c, True) \<in> set (claims s'))))" for k
  proof -
    have "k \<noteq> ?p" if "k \<in> set (ds_posts s)"
      using that new by (auto simp: count_list_0_iff)
    moreover have "(k, c, True) \<in> set (claims s) \<Longrightarrow> (k, c, True) \<in> set (claims s')" for c
      by (auto simp: cs)
    ultimately show ?thesis
      using delivery_post [OF inv, of k] new db by auto
  qed
  show ?thesis
    using claim_ok [OF cl ok] p d 1 2 unfolding delivery_inv_def db by blast
qed

lemma delivery_answer_step:
  assumes inv: "delivery_inv s" and t: "ds_tasks s = a @ Holding m c # b"
    and s': "s' = s\<lparr>ds_tasks := a @ Answered m c (out, ok, err) # b,
      ds_posts := (if ok then pair_of m # ds_posts s else ds_posts s)\<rparr>" and p: "punctual s'"
  shows "delivery_inv s'"
proof -
  let ?p = "pair_of m"
  have cs: "claims s = task_claims a @ (?p, c, False) # task_claims b"
      "claims s' = task_claims a @ (?p, c, ok) # task_claims b"
    by (simp_all add: claims_def t s')
  have d: "distinct (map fst (claims s))" "distinct (map fst (claims s'))"
    using inv by (simp_all add: delivery_inv_def cs)
  have here: "(?p, c, False) \<in> set (claims s)" by (simp add: cs)
  note held = delivery_claim [OF inv here]
  have posts: "count_list (ds_posts s') k = count_list (ds_posts s) k + (if k = ?p \<and> ok then 1 else 0)" for k
    by (simp add: s')
  have other: "(k, e, x) \<in> set (claims s') \<Longrightarrow> k \<noteq> ?p \<Longrightarrow> (k, e, x) \<in> set (claims s)"
      "(k, e, x) \<in> set (claims s) \<Longrightarrow> k \<noteq> ?p \<Longrightarrow> (k, e, x) \<in> set (claims s')" for k e x
    by (auto simp: cs)
  have same: "e = c \<and> x = ok" if "(?p, e, x) \<in> set (claims s')" for e x
    using d(2) that here by (auto simp: cs image_iff; force)
  have 1: "fst k < db_seq_sub (ds_db s) \<and> (sub_known (ds_db s) (fst k) \<longrightarrow> ledger_view (ds_db s) k = Held e) \<and>
      count_list (ds_posts s') k = (if x then 1 else 0)" if "(k, e, x) \<in> set (claims s')" for k e x
  proof (cases "k = ?p")
    case True
    with same that held posts show ?thesis by simp
  next
    case False
    from delivery_claim [OF inv other(1) [OF that False]] posts False show ?thesis by simp
  qed
  have 2: "count_list (ds_posts s') k \<le> 1 \<and> (k \<in> set (ds_posts s') \<longrightarrow> fst k < db_seq_sub (ds_db s) \<and>
        (ledger_view (ds_db s) k = Sent \<or> \<not> sub_known (ds_db s) (fst k) \<or> (\<exists>e. (k, e, True) \<in> set (claims s'))))" for k
  proof (cases "k = ?p")
    case True
    have "(?p, c, ok) \<in> set (claims s')" by (simp add: cs)
    from 1 [OF this] True show ?thesis
      using \<open>(?p, c, ok) \<in> set (claims s')\<close> by (cases ok) (auto simp: count_list_0_iff)
  next
    case False
    then have "k \<in> set (ds_posts s') \<longleftrightarrow> k \<in> set (ds_posts s)"
      by (simp add: s')
    moreover have "count_list (ds_posts s') k = count_list (ds_posts s) k"
      using posts [of k] False by simp
    moreover have "\<exists>e. (k, e, True) \<in> set (claims s')" if "\<exists>e. (k, e, True) \<in> set (claims s)"
      using that other(2) False by blast
    ultimately show ?thesis
      using delivery_post [OF inv, of k] by metis
  qed
  have "ds_db s' = ds_db s" by (simp add: s')
  then show ?thesis
    using inv p d(2) 1 2 unfolding delivery_inv_def by (simp only:) blast
qed

lemma claim_lost_same:
  "try_claim_alert_match now sid h stale d = Inr (False, d') \<Longrightarrow> d' = d"
  by (auto simp: try_claim_alert_match_def split: if_splits option.splits)

lemma delivery_record_step:
  assumes inv: "delivery_inv s" and t: "ds_tasks s = a @ Answered m c (out, ok, err) # b"
    and rec: "record_alert_delivery (ds_clock s) (am_subscription_id m) (am_tx_hash m) ok err (ds_db s) = Inr d'"
    and s': "s' = s\<lparr>ds_db := d', ds_tasks := a @ b\<rparr>" and p: "punctual s'" and g: "graceful s s'"
  shows "delivery_inv s'"
proof -
  let ?p = "pair_of m"
  have ok: "service_ok (ds_db s)" using inv by (simp add: delivery_inv_def)
  have cs: "claims s = task_claims a @ (?p, c, ok) # task_claims b" "claims s' = task_claims a @ task_claims b"
    by (simp_all add: claims_def t s')
  have d: "distinct (map fst (claims s))" using inv by (simp add: delivery_inv_def)
  have here: "(?p, c, ok) \<in> set (claims s)" by (simp add: cs)
  note held = delivery_claim [OF inv here]
  have view: "ledger_view d' k = ledger_view (ds_db s) k" if "k \<noteq> ?p" for k
    using record_view [OF service_statuses [OF ok], of _ ?p] rec that
    by (auto simp: record_spec_def pair_of_def)
  show ?thesis
  proof (rule delivery_frame [OF inv _ p g])
    show "service_ok (ds_db s')" using record_ok [OF rec ok] by (simp add: s')
    show "ds_posts s' = ds_posts s" "db_seq_sub (ds_db s) \<le> db_seq_sub (ds_db s')"
      using record_frame [OF rec] by (simp_all add: s')
    show "set (claims s') \<subseteq> set (claims s)" by (auto simp: cs)
    show "distinct (map fst (claims s'))" using d by (simp add: cs)
    show "sub_known (ds_db s') i \<Longrightarrow> sub_known (ds_db s) i" for i
      using record_frame [OF rec] by (simp add: s')
    fix k assume k: "sub_known (ds_db s') (fst k)" "k \<in> fst ` set (claims s') \<or> ledger_view (ds_db s) k = Sent"
    have "k \<noteq> ?p"
    proof
      assume "k = ?p"
      moreover have "?p \<notin> fst ` set (claims s')" using d by (auto simp: cs)
      ultimately have "ledger_view (ds_db s) ?p = Sent" "sub_known (ds_db s) (fst ?p)"
        using k record_frame [OF rec] by (auto simp: s')
      with held show False by simp
    qed
    with view show "ledger_view (ds_db s') k = ledger_view (ds_db s) k" by (simp add: s')
  qed
qed

lemma delivery_step:
  assumes inv: "delivery_inv s" and step: "good_step X s s'"
  shows "delivery_inv s'"
proof -
  have ok: "service_ok (ds_db s)" and d: "distinct (map fst (claims s))"
    using inv by (simp_all add: delivery_inv_def)
  from step have st: "dispatch_step X s s'" and p: "punctual s'" and g: "graceful s s'"
    by (simp_all add: good_step_def)
  have same_db: "delivery_inv s'" if "ds_db s' = ds_db s" "ds_posts s' = ds_posts s"
      "set (claims s') \<subseteq> set (claims s)" "distinct (map fst (claims s'))"
    by (rule delivery_frame [OF inv _ p g]) (use that ok in simp_all)
  from st show ?thesis
  proof cases
    case (Tick t)
    with d show ?thesis by (intro same_db) (simp_all add: claims_def)
  next
    case (Fetch r lim ms)
    with d show ?thesis by (intro same_db) (simp_all add: claims_def)
  next
    case (Claim a m b d')
    then show ?thesis using delivery_claim_step [OF inv] p by blast
  next
    case (Skip a m b d')
    with d claim_lost_same show ?thesis
      by (intro same_db) (auto simp: claims_def)
  next
    case (Refuse a m c b out msg)
    with d show ?thesis by (intro same_db) (simp_all add: claims_def)
  next
    case (Post a m c b rq resp out ok err)
    then show ?thesis using delivery_answer_step [OF inv] p by blast
  next
    case (Record a m c out ok err b d')
    then show ?thesis using delivery_record_step [OF inv] p g by blast
  next
    case (Lose a t b)
    with d show ?thesis by (intro same_db) (auto simp: claims_def)
  next
    case (Other d')
    note e = env_frame [OF ok Other(2)]
    show ?thesis
      by (rule delivery_frame [OF inv _ p g]) (use e d Other in \<open>auto simp: claims_def\<close>)
  qed
qed

interpretation delivery: invariant_system "good_step X" delivery_inv
  by unfold_locales (rule delivery_step)

section \<open>At most once\<close>

text \<open>C7. However many dispatchers share the ledger, and however their statements interleave with each
  other, with the API and with the indexer: as long as every task ends before its claim is stale
  and the result of every successful request gets recorded, no two tasks ever hold the same pair,
  and every pair of a subscription and a transaction gets at most one successful request.\<close>

theorem delivered_at_most_once:
  assumes "service_ok (ds_db s)" "ds_tasks s = []" "ds_posts s = []" "(good_step X)\<^sup>*\<^sup>* s s'"
  shows "service_ok (ds_db s') \<and> (\<forall>k. count_list (ds_posts s') k \<le> 1) \<and> distinct (map fst (claims s'))"
proof -
  have "delivery_inv s"
    using assms(1-3) by (simp add: delivery_inv_def punctual_def claims_def)
  with assms(4) have "delivery_inv s'"
    by (rule delivery.reachable_inv)
  then show ?thesis by (simp add: delivery_inv_def)
qed

section \<open>Instances\<close>

lemma sample_service_upd [simp]: "sample_service dels\<lparr>db_deliveries := x\<rparr> = sample_service x"
  by (simp add: sample_service_def service_of_def)

lemma sample_pending_again:
  assumes "\<not> withheld now 60 (sample_service dels) (1, ''t6'')"
  shows "find_pending_alert_matches r now 10 60 (sample_service dels) = Inr [sample_match ''t6'']"
proof -
  have "pending_rows now 60 (sample_service dels) = [sample_match ''t6'']"
    using assms by (simp add: pending_rows_def sample_joined category_matches_def address_matches_def sample_match_def)
  then show ?thesis
    by (simp add: find_pending_alert_matches_def page_def int4_ok_def)
qed

definition ledger_row :: "string \<Rightarrow> int \<Rightarrow> timestamp \<Rightarrow> (int \<times> string \<rightharpoonup> alert_delivery)" where
  "ledger_row st n c = [(1, ''t6'') \<mapsto> \<lparr>ad_status = st, ad_attempts = n, ad_last_error = None,
     ad_delivered_at = None, ad_created_at = c\<rparr>]"

lemma t6_text: "text_ok ''t6''"
  by (simp add: text_ok_def char_code_def)

lemma sample_claim_new:
  "try_claim_alert_match now 1 ''t6'' 60 (sample_service Map.empty) =
     Inr (True, sample_service (ledger_row ''claimed'' 1 now))"
  by (simp add: try_claim_alert_match_def int4_ok_def t6_text sub_known_def ledger_row_def)

lemma sample_claim_again:
  "st = ''failed'' \<or> st = ''claimed'' \<and> c < now - 60000000 \<Longrightarrow> 0 \<le> n \<Longrightarrow> n < 100 \<Longrightarrow>
   try_claim_alert_match now 1 ''t6'' 60 (sample_service (ledger_row st n c)) =
     Inr (True, sample_service (ledger_row ''claimed'' (n + 1) now))"
  by (auto simp: try_claim_alert_match_def int4_ok_def ledger_row_def seconds_def)

text \<open>A run of a dispatcher on the sample database: fetch, claim, post.\<close>

definition run_state :: "timestamp \<Rightarrow> service_db \<Rightarrow> dispatch_task list \<Rightarrow> nat \<Rightarrow> dispatch_state" where
  "run_state t d ts n = \<lparr>ds_clock = t, ds_db = d, ds_tasks = ts, ds_posts = replicate n (1, ''t6'')\<rparr>"

abbreviation (input) "sm \<equiv> sample_match ''t6''"

lemma sm_fields [simp]: "am_subscription_id sm = 1" "am_tx_hash sm = ''t6''" "pair_of sm = (1, ''t6'')"
    "am_webhook_url sm = sub_webhook_url sample_sub" "am_signing_secret sm = sub_signing_secret sample_sub"
  by (simp_all add: sample_match_def pair_of_def)

lemma run_fetch:
  "\<not> withheld t 60 (sample_service dels) (1, ''t6'') \<Longrightarrow>
   dispatch_step X (run_state t (sample_service dels) ts n) (run_state t (sample_service dels) (ts @ [Queued sm]) n)"
  using Fetch [of _ "run_state t (sample_service dels) ts n" 10 "[sm]" X]
  by (simp add: run_state_def claim_stale_after_secs_def sample_pending_again)

lemma run_claim:
  "try_claim_alert_match t 1 ''t6'' 60 d = Inr (True, d') \<Longrightarrow>
   dispatch_step X (run_state t d (a @ Queued sm # b) n) (run_state t d' (a @ Holding sm t # b) n)"
  using Claim [of "run_state t d (a @ Queued sm # b) n" a sm b d' X]
  by (simp add: run_state_def claim_stale_after_secs_def)

lemma run_post:
  "answer_verdict resp = (out, ok, err) \<Longrightarrow>
   dispatch_step sample_ext (run_state t d (a @ Holding sm c # b) n)
     (run_state t d (a @ Answered sm c (out, ok, err) # b) (if ok then Suc n else n))"
proof -
  assume v: "answer_verdict resp = (out, ok, err)"
  obtain rq where rq: "request_plan sample_ext (sub_webhook_url sample_sub) (sub_signing_secret sample_sub)
      (build_payload sm) = Inr rq"
    using sample_url_safe by (auto simp: request_plan_def sample_ext_def)
  from Post [of "run_state t d (a @ Holding sm c # b) n" a sm c b sample_ext rq resp out ok err] rq v
  show ?thesis
    by (auto simp: run_state_def split: if_splits)
qed

lemma run_record:
  "record_alert_delivery t 1 ''t6'' ok err d = Inr d' \<Longrightarrow>
   dispatch_step X (run_state t d (a @ Answered sm c (out, ok, err) # b) n) (run_state t d' (a @ b) n)"
  using Record [of "run_state t d (a @ Answered sm c (out, ok, err) # b) n" a sm c out ok err b d' X]
  by (simp add: run_state_def)

lemma run_tick: "t \<le> t' \<Longrightarrow> dispatch_step X (run_state t d ts n) (run_state t' d ts n)"
  using Tick [of "run_state t d ts n" t' X] by (simp add: run_state_def)

lemma answer_ok: "answer_verdict (Inr (200, [])) = (Delivered, True, None)"
  by (simp add: answer_verdict_def post_signed_def)

lemma delivered_at_most_once_witness:
  "\<exists>s'. (good_step sample_ext)\<^sup>*\<^sup>* (run_state 100 (sample_service Map.empty) [] 0) s' \<and>
     ds_posts s' = [(1, ''t6'')] \<and> (\<forall>k. count_list (ds_posts s') k \<le> 1)"
proof -
  let ?s0 = "run_state 100 (sample_service Map.empty) [] 0"
  let ?s1 = "run_state 100 (sample_service Map.empty) ([] @ [Queued sm]) 0"
  let ?s2 = "run_state 100 (sample_service (ledger_row ''claimed'' 1 100)) ([] @ Holding sm 100 # []) 0"
  let ?s3 = "run_state 100 (sample_service (ledger_row ''claimed'' 1 100))
      ([] @ Answered sm 100 (Delivered, True, None) # []) (Suc 0)"
  have "good_step sample_ext ?s0 ?s1"
    unfolding good_step_def
    by (rule conjI, rule run_fetch)
      (simp_all add: withheld_def punctual_def graceful_def claims_def run_state_def)
  moreover have "good_step sample_ext ?s1 ?s2"
    unfolding good_step_def
    by (rule conjI, rule run_claim [OF sample_claim_new])
      (simp_all add: punctual_def graceful_def claims_def run_state_def claim_stale_after_secs_def seconds_def)
  moreover have "good_step sample_ext ?s2 ?s3"
    using run_post [OF answer_ok, of 100 _ "[]" 100 "[]" 0]
    by (auto simp: good_step_def punctual_def graceful_def claims_def claim_stale_after_secs_def seconds_def
        run_state_def)
  ultimately have run: "(good_step sample_ext)\<^sup>*\<^sup>* ?s0 ?s3"
    by (meson rtranclp.rtrancl_refl converse_rtranclp_into_rtranclp)
  have "service_ok (ds_db ?s0)" "ds_tasks ?s0 = []" "ds_posts ?s0 = []"
    using sample_empty_ok(2) by (simp_all add: run_state_def)
  from delivered_at_most_once [OF this run] run show ?thesis
    by (intro exI [of _ ?s3]) (simp add: run_state_def)
qed

text \<open>A row with its error and delivery time, and the statements on it.\<close>

definition full_row :: "string \<Rightarrow> int \<Rightarrow> timestamp \<Rightarrow> string option \<Rightarrow> timestamp option \<Rightarrow>
    (int \<times> string \<rightharpoonup> alert_delivery)" where
  "full_row st n c e da = [(1, ''t6'') \<mapsto> \<lparr>ad_status = st, ad_attempts = n, ad_last_error = e,
     ad_delivered_at = da, ad_created_at = c\<rparr>]"

lemma ledger_row_full: "ledger_row st n c = full_row st n c None None"
  by (simp add: ledger_row_def full_row_def)

lemma full_row_claim:
  "st = ''failed'' \<or> st = ''claimed'' \<and> c < now - 60000000 \<Longrightarrow> 0 \<le> n \<Longrightarrow> n < 100 \<Longrightarrow>
   try_claim_alert_match now 1 ''t6'' 60 (sample_service (full_row st n c e da)) =
     Inr (True, sample_service (full_row ''claimed'' (n + 1) now None None))"
  by (auto simp: try_claim_alert_match_def int4_ok_def full_row_def seconds_def)

lemma full_row_record:
  "opt_ok text_ok err \<Longrightarrow> 0 \<le> n \<Longrightarrow> n < 100 \<Longrightarrow>
   record_alert_delivery now 1 ''t6'' ok err (sample_service (full_row st n c e da)) =
     Inr (sample_service (full_row (if ok then ''delivered'' else ''failed'') (n + 1) c err
       (if ok then Some now else da)))"
  by (simp add: record_alert_delivery_def int4_ok_def full_row_def t6_text)

lemma full_row_view:
  "ledger_view (sample_service (full_row st n c e da)) (1, ''t6'') =
     (if st = ''delivered'' then Sent else if st = ''claimed'' then Held c else Free)"
  by (simp add: ledger_view_def full_row_def)

lemma answer_error: "answer_verdict (Inr (500, [])) = (Failed, False, Some ''http status '')"
proof -
  have "clean ''http status ''"
    unfolding clean_def contains_sublist [symmetric] by (simp add: contains_def starts_with_def)
  then have "redact_urls ''http status '' = ''http status ''" by (rule redact_clean)
  moreover have "take_chars 500 ''http status '' = ''http status ''"
    by (simp add: char_code_def)
  ultimately show ?thesis
    by (simp add: answer_verdict_def post_signed_def)
qed

lemma error_text: "opt_ok text_ok (Some ''http status '')"
  by (simp add: opt_ok_def text_ok_def char_code_def)

text \<open>C9. Without punctuality the ledger does not prevent a second delivery: a worker that records a
  failure after its claim has gone stale overwrites \<open>delivered\<close>, and the alert is sent again.
  Concretely, two workers fetch the same match; the first one claims it and stalls for more than
  60 seconds; the second one claims, posts successfully and records the delivery; the first one's
  request fails and it records the failure; the next cycle posts the alert a second time.\<close>

theorem stalled_worker_delivers_twice:
  "\<exists>s1 s2. (dispatch_step sample_ext)\<^sup>*\<^sup>* (run_state 0 (sample_service Map.empty) [] 0) s1 \<and>
     ledger_view (ds_db s1) (1, ''t6'') = Sent \<and> (dispatch_step sample_ext)\<^sup>*\<^sup>* s1 s2 \<and>
     count_list (ds_posts s2) (1, ''t6'') = 2"
proof -
  let ?S = "sample_service" and ?T = "60000001 :: int"
  let ?del = "full_row ''delivered'' 3 ?T None (Some ?T)"
  let ?fail = "full_row ''failed'' 4 ?T (Some ''http status '') (Some ?T)"
  let ?held = "full_row ''claimed'' 5 ?T None None"
  let ?R = "dispatch_step sample_ext"
  have "?R (run_state 0 (?S Map.empty) [] 0) (run_state 0 (?S Map.empty) ([] @ [Queued sm]) 0)"
    by (rule run_fetch) (simp add: withheld_def)
  moreover have "?R (run_state 0 (?S Map.empty) ([] @ [Queued sm]) 0)
      (run_state 0 (?S Map.empty) (([] @ [Queued sm]) @ [Queued sm]) 0)"
    by (rule run_fetch) (simp add: withheld_def)
  moreover have "?R (run_state 0 (?S Map.empty) ([] @ Queued sm # [Queued sm]) 0)
      (run_state 0 (?S (full_row ''claimed'' 1 0 None None)) ([] @ Holding sm 0 # [Queued sm]) 0)"
    by (rule run_claim) (simp add: sample_claim_new ledger_row_full)
  moreover have "?R (run_state 0 (?S (full_row ''claimed'' 1 0 None None)) ([] @ Holding sm 0 # [Queued sm]) 0)
      (run_state ?T (?S (full_row ''claimed'' 1 0 None None)) ([] @ Holding sm 0 # [Queued sm]) 0)"
    by (rule run_tick) simp
  moreover have "?R (run_state ?T (?S (full_row ''claimed'' 1 0 None None)) ([Holding sm 0] @ Queued sm # []) 0)
      (run_state ?T (?S (full_row ''claimed'' 2 ?T None None)) ([Holding sm 0] @ Holding sm ?T # []) 0)"
    by (rule run_claim) (simp add: full_row_claim)
  moreover have "?R (run_state ?T (?S (full_row ''claimed'' 2 ?T None None)) ([Holding sm 0] @ Holding sm ?T # []) 0)
      (run_state ?T (?S (full_row ''claimed'' 2 ?T None None)) ([Holding sm 0] @ Answered sm ?T (Delivered, True, None) # []) 1)"
    using run_post [OF answer_ok, of ?T _ "[Holding sm 0]" ?T "[]" 0] by simp
  moreover have "?R (run_state ?T (?S (full_row ''claimed'' 2 ?T None None)) ([Holding sm 0] @ Answered sm ?T (Delivered, True, None) # []) 1)
      (run_state ?T (?S ?del) ([Holding sm 0] @ []) 1)"
    by (rule run_record) (simp add: full_row_record opt_ok_def)
  ultimately have first: "?R\<^sup>*\<^sup>* (run_state 0 (?S Map.empty) [] 0) (run_state ?T (?S ?del) [Holding sm 0] 1)"
    by (simp del: sample_service_upd)
  have "?R (run_state ?T (?S ?del) ([] @ Holding sm 0 # []) 1)
      (run_state ?T (?S ?del) ([] @ Answered sm 0 (Failed, False, Some ''http status '') # []) 1)"
    using run_post [OF answer_error, of ?T _ "[]" 0 "[]" 1] by simp
  moreover have "?R (run_state ?T (?S ?del) ([] @ Answered sm 0 (Failed, False, Some ''http status '') # []) 1)
      (run_state ?T (?S ?fail) ([] @ []) 1)"
    by (rule run_record) (simp add: full_row_record error_text)
  moreover have "?R (run_state ?T (?S ?fail) [] 1) (run_state ?T (?S ?fail) ([] @ [Queued sm]) 1)"
    by (rule run_fetch) (simp add: withheld_def full_row_def)
  moreover have "?R (run_state ?T (?S ?fail) ([] @ Queued sm # []) 1) (run_state ?T (?S ?held) ([] @ Holding sm ?T # []) 1)"
    by (rule run_claim) (simp add: full_row_claim)
  moreover have "?R (run_state ?T (?S ?held) ([] @ Holding sm ?T # []) 1)
      (run_state ?T (?S ?held) ([] @ Answered sm ?T (Delivered, True, None) # []) 2)"
    using run_post [OF answer_ok, of ?T _ "[]" ?T "[]" 1] by (simp add: numeral_2_eq_2)
  ultimately have "?R\<^sup>*\<^sup>* (run_state ?T (?S ?del) [Holding sm 0] 1)
      (run_state ?T (?S ?held) [Answered sm ?T (Delivered, True, None)] 2)"
    by (simp del: sample_service_upd)
  with first show ?thesis
    by (intro exI [of _ "run_state ?T (?S ?del) [Holding sm 0] 1"]
        exI [of _ "run_state ?T (?S ?held) [Answered sm ?T (Delivered, True, None)] 2"])
      (simp add: run_state_def full_row_view numeral_2_eq_2)
qed

section \<open>Alerts that are never attempted\<close>

definition only_ledger :: "service_db \<Rightarrow> service_db \<Rightarrow> bool" where
  "only_ledger d d' \<longleftrightarrow> db_subs d' = db_subs d \<and> db_failed d' = db_failed d \<and> db_txs d' = db_txs d"

lemma only_ledger_claim: "try_claim_alert_match now sid h stale d = Inr (b, d') \<Longrightarrow> only_ledger d d'"
  by (auto simp: only_ledger_def try_claim_alert_match_def split: if_splits option.splits)

lemma only_ledger_record: "record_alert_delivery now sid h ok err d = Inr d' \<Longrightarrow> only_ledger d d'"
  by (auto simp: only_ledger_def record_alert_delivery_def Let_def split: if_splits option.splits)

lemma withheld_view:
  "withheld now stale d k \<longleftrightarrow> ledger_view d k = Sent \<or> (\<exists>c. ledger_view d k = Held c \<and> now - seconds stale < c)"
  by (auto simp: withheld_def ledger_view_def split: option.splits)

lemma pending_rows_cong:
  assumes "only_ledger d d'" "\<And>k. withheld now' stale d' k = withheld now stale d k"
  shows "pending_rows now' stale d' = pending_rows now stale d"
proof -
  have "joined_to_addrs d' = joined_to_addrs d"
    using assms(1) by (intro ext) (simp only: joined_to_addrs_def only_ledger_def)
  moreover have "db_subs d' = db_subs d" "db_failed d' = db_failed d"
    using assms(1) by (simp_all add: only_ledger_def)
  ultimately show ?thesis
    by (simp only: pending_rows_def assms(2))
qed

abbreviation waiting :: "service_db \<Rightarrow> alert_match list" where
  "waiting d \<equiv> pending_rows 0 claim_stale_after_secs d"

lemma withheld_sent:
  assumes "\<forall>k c. ledger_view d k \<noteq> Held c"
  shows "withheld now stale d k \<longleftrightarrow> ledger_view d k = Sent"
  using assms unfolding withheld_view by blast

text \<open>One dispatcher alone, with a batch size, whose requests are refused or fail: a cycle starts when
  the tasks of the last one have ended, the tasks of a cycle interleave in any order and take any
  time, and none is lost. Rate alerts are recorded in between; the tables of the API and of the indexer
  do not change.\<close>

inductive lone_step :: "dispatch_ext \<Rightarrow> int \<Rightarrow> dispatch_state \<Rightarrow> dispatch_state \<Rightarrow> bool" for X batch where
  Tick: "ds_clock s \<le> t \<Longrightarrow> lone_step X batch s (s\<lparr>ds_clock := t\<rparr>)"
| Cycle: "\<lbrakk>ds_tasks s = [];
    find_pending_alert_matches r (ds_clock s) batch claim_stale_after_secs (ds_db s) = Inr ms\<rbrakk> \<Longrightarrow>
    lone_step X batch s (s\<lparr>ds_tasks := map Queued ms\<rparr>)"
| Claim: "\<lbrakk>ds_tasks s = a @ Queued m # b;
    try_claim_alert_match (ds_clock s) (am_subscription_id m) (am_tx_hash m) claim_stale_after_secs (ds_db s)
      = Inr (True, d')\<rbrakk> \<Longrightarrow>
    lone_step X batch s (s\<lparr>ds_db := d', ds_tasks := a @ Holding m (ds_clock s) # b\<rparr>)"
| Skip: "\<lbrakk>ds_tasks s = a @ Queued m # b;
    try_claim_alert_match (ds_clock s) (am_subscription_id m) (am_tx_hash m) claim_stale_after_secs (ds_db s)
      = Inr (False, d')\<rbrakk> \<Longrightarrow>
    lone_step X batch s (s\<lparr>ds_db := d', ds_tasks := a @ b\<rparr>)"
| Refuse: "\<lbrakk>ds_tasks s = a @ Holding m c # b;
    request_plan X (am_webhook_url m) (am_signing_secret m) (build_payload m) = Inl (out, msg)\<rbrakk> \<Longrightarrow>
    lone_step X batch s (s\<lparr>ds_tasks := a @ Answered m c (out, False, Some msg) # b\<rparr>)"
| Fail: "\<lbrakk>ds_tasks s = a @ Holding m c # b;
    request_plan X (am_webhook_url m) (am_signing_secret m) (build_payload m) = Inr rq;
    answer_verdict resp = (out, False, err)\<rbrakk> \<Longrightarrow>
    lone_step X batch s (s\<lparr>ds_tasks := a @ Answered m c (out, False, err) # b\<rparr>)"
| Record: "\<lbrakk>ds_tasks s = a @ Answered m c (out, ok, err) # b;
    record_alert_delivery (ds_clock s) (am_subscription_id m) (am_tx_hash m) ok err (ds_db s) = Inr d'\<rbrakk> \<Longrightarrow>
    lone_step X batch s (s\<lparr>ds_db := d', ds_tasks := a @ b\<rparr>)"
| Rate: "record_rate_alert_dispatch now sid n sent msg (ds_db s) = Inr d' \<Longrightarrow> lone_step X batch s (s\<lparr>ds_db := d'\<rparr>)"

text \<open>These are steps of the system above.\<close>

lemma lone_step_is_dispatch: "lone_step X batch s s' \<Longrightarrow> dispatch_step X s s'"
proof (induction rule: lone_step.induct)
  case (Cycle s r ms)
  then show ?case using dispatch_step.Fetch [of r s batch ms X] by simp
next
  case (Fail s a m c b rq resp out err)
  then show ?case using dispatch_step.Post [of s a m c b X rq resp out False err] by simp
next
  case (Rate now sid n sent msg s d')
  then show ?case by (intro dispatch_step.Other env_step.RateRecord)
qed (blast intro: dispatch_step.intros)+

fun match_of :: "dispatch_task \<Rightarrow> alert_match" where
  "match_of (Queued m) = m"
| "match_of (Holding m c) = m"
| "match_of (Answered m c v) = m"

text \<open>At least a batch of the waiting alerts have hashes below \<open>h\<close>.\<close>

definition jammed :: "int \<Rightarrow> service_db \<Rightarrow> string \<Rightarrow> bool" where
  "jammed batch d h \<longleftrightarrow> db_ok d \<and> service_ok d \<and> (\<forall>k c. ledger_view d k \<noteq> Held c) \<and>
     batch \<le> int (length (filter (\<lambda>m. am_tx_hash m < h) (waiting d)))"

definition starving :: "int \<Rightarrow> service_db \<Rightarrow> string \<Rightarrow> (int \<times> string) list \<Rightarrow> dispatch_state \<Rightarrow> bool" where
  "starving batch d h posts s \<longleftrightarrow> jammed batch d h \<and> only_ledger d (ds_db s) \<and> service_ok (ds_db s) \<and>
     ds_posts s = posts \<and> (\<forall>k. ledger_view (ds_db s) k = Sent \<longleftrightarrow> ledger_view d k = Sent) \<and>
     (\<forall>k c. ledger_view (ds_db s) k = Held c \<longrightarrow> k \<in> fst ` set (claims s)) \<and>
     (\<forall>k c ok. (k, c, ok) \<in> set (claims s) \<longrightarrow> \<not> ok \<and> ledger_view d k \<noteq> Sent) \<and>
     (\<forall>t\<in>set (ds_tasks s). am_tx_hash (match_of t) < h) \<and>
     (\<forall>k. h \<le> snd k \<longrightarrow> db_deliveries (ds_db s) k = db_deliveries d k)"

lemma starvingD:
  assumes "starving batch d h posts s"
  shows "jammed batch d h" "only_ledger d (ds_db s)" "service_ok (ds_db s)" "ds_posts s = posts"
    "ledger_view (ds_db s) k = Sent \<longleftrightarrow> ledger_view d k = Sent"
    "ledger_view (ds_db s) k = Held c \<Longrightarrow> k \<in> fst ` set (claims s)"
    "(k, c, ok) \<in> set (claims s) \<Longrightarrow> \<not> ok \<and> ledger_view d k \<noteq> Sent"
    "t \<in> set (ds_tasks s) \<Longrightarrow> am_tx_hash (match_of t) < h"
    "h \<le> snd k \<Longrightarrow> db_deliveries (ds_db s) k = db_deliveries d k"
  using assms unfolding starving_def by blast+

lemma first_keys:
  assumes "sorted (map key xs)" "n \<le> length (filter (\<lambda>x. key x < h) xs)" "x \<in> set (take n xs)"
  shows "key x < (h :: 'k::linorder)"
proof (rule ccontr)
  assume "\<not> key x < h"
  obtain i where i: "i < n" "i < length xs" "xs ! i = x"
    using assms(3) by (auto simp: in_set_conv_nth)
  have "\<not> key (xs ! j) < h" if "i \<le> j" "j < length xs" for j
    using sorted_nth_mono [OF assms(1), of i j] that i(3) \<open>\<not> key x < h\<close> by simp
  then have "filter (\<lambda>x. key x < h) (drop i xs) = []"
    by (auto simp: filter_empty_conv in_set_conv_nth)
  then have "filter (\<lambda>x. key x < h) xs = filter (\<lambda>x. key x < h) (take i xs)"
    by (metis append_Nil2 append_take_drop_id filter_append)
  then have "length (filter (\<lambda>x. key x < h) xs) \<le> i"
    by (metis length_filter_le length_take min.boundedE)
  with assms(2) i(1) show False by simp
qed

lemma starving_rest:
  assumes s: "starving batch d h posts s" and t: "ds_tasks s = []"
  shows "pending_rows now claim_stale_after_secs (ds_db s) = waiting d"
proof -
  have "ledger_view (ds_db s) k \<noteq> Held c" for k c
    using starvingD(6) [OF s, of k c] t by (auto simp: claims_def)
  moreover have "\<forall>k c. ledger_view d k \<noteq> Held c"
    using starvingD(1) [OF s] by (simp add: jammed_def)
  ultimately show ?thesis
    by (intro pending_rows_cong starvingD(2) [OF s]) (simp add: withheld_sent starvingD(5) [OF s])
qed

lemma starving_batch:
  assumes s: "starving batch d h posts s" and t: "ds_tasks s = []"
    and ms: "find_pending_alert_matches r now batch claim_stale_after_secs (ds_db s) = Inr ms"
  shows "int (length ms) = batch" "m \<in> set ms \<Longrightarrow> am_tx_hash m < h"
proof -
  let ?all = "order_by r am_tx_hash (waiting d)"
  have ms: "ms = take (nat batch) ?all" "0 \<le> batch"
    using ms unfolding find_pending_alert_matches_def starving_rest [OF s t]
    by (auto simp: page_Inr_iff split: if_splits)
  have "length (filter (\<lambda>m. am_tx_hash m < h) ?all) = length (filter (\<lambda>m. am_tx_hash m < h) (waiting d))"
    by (metis mset_filter mset_order_by size_mset)
  then have full: "nat batch \<le> length (filter (\<lambda>m. am_tx_hash m < h) ?all)"
    using starvingD(1) [OF s] unfolding jammed_def by (simp only: nat_le_iff)
  then have "nat batch \<le> length ?all" by (meson le_trans length_filter_le)
  with ms show "int (length ms) = batch" by simp
  show "am_tx_hash m < h" if "m \<in> set ms"
    by (rule first_keys [OF sorted_order_by full]) (use that ms in simp)
qed

lemma claim_row: "try_claim_alert_match now sid h stale d = Inr (b, d') \<Longrightarrow> k \<noteq> (sid, h) \<Longrightarrow>
    db_deliveries d' k = db_deliveries d k"
  by (auto simp: try_claim_alert_match_def split: if_splits option.splits)

lemma record_row: "record_alert_delivery now sid h ok err d = Inr d' \<Longrightarrow> k \<noteq> (sid, h) \<Longrightarrow>
    db_deliveries d' k = db_deliveries d k"
  by (auto simp: record_alert_delivery_def Let_def split: if_splits option.splits)

lemma only_ledger_trans: "only_ledger d d1 \<Longrightarrow> only_ledger d1 d2 \<Longrightarrow> only_ledger d d2"
  by (simp add: only_ledger_def)

text \<open>A step that changes no row of the ledger.\<close>

lemma starving_frame:
  assumes s: "starving batch d h posts s" and db: "ds_db s' = ds_db s" "ds_posts s' = ds_posts s"
    and cl: "fst ` set (claims s') = fst ` set (claims s)" "\<forall>(k, c, ok)\<in>set (claims s'). \<not> ok"
    and ts: "\<forall>t\<in>set (ds_tasks s'). am_tx_hash (match_of t) < h"
  shows "starving batch d h posts s'"
proof -
  have "\<not> ok \<and> ledger_view d k \<noteq> Sent" if m: "(k, c, ok) \<in> set (claims s')" for k c ok
  proof -
    from m have "k \<in> fst ` set (claims s)" unfolding cl(1) [symmetric] by force
    then obtain c' ok' where "(k, c', ok') \<in> set (claims s)" by force
    from starvingD(7) [OF s this] m cl(2) show ?thesis by blast
  qed
  moreover have "k \<in> fst ` set (claims s')" if "ledger_view (ds_db s) k = Held c" for k c
    unfolding cl(1) by (rule starvingD(6) [OF s that])
  ultimately show ?thesis
    unfolding starving_def db using starvingD [OF s] ts by blast
qed

lemma starving_claim:
  assumes s: "starving batch d h posts s" and t: "ds_tasks s = a @ Queued m # b"
    and cl: "try_claim_alert_match (ds_clock s) (am_subscription_id m) (am_tx_hash m) claim_stale_after_secs (ds_db s)
      = Inr (True, d')"
  shows "starving batch d h posts (s\<lparr>ds_db := d', ds_tasks := a @ Holding m (ds_clock s) # b\<rparr>)" (is "starving _ _ _ _ ?s'")
proof -
  note ok = service_statuses [OF starvingD(3) [OF s]]
  have won: "claimable (seconds claim_stale_after_secs) (ds_clock s) (ledger_view (ds_db s) (pair_of m))"
    "ledger_view d' = (ledger_view (ds_db s))(pair_of m := Held (ds_clock s))"
    using ledger.claim_won [OF ok, of "ds_clock s" "pair_of m" claim_stale_after_secs d'] cl by (simp_all add: pair_of_def)
  have free: "ledger_view d (pair_of m) \<noteq> Sent"
    using won(1) starvingD(5) [OF s, of "pair_of m"] by (auto simp: claimable_def)
  have h: "am_tx_hash m < h" using starvingD(8) [OF s, of "Queued m"] t by simp
  have claims: "claims s = task_claims a @ task_claims b"
    "claims ?s' = task_claims a @ (pair_of m, ds_clock s, False) # task_claims b"
    by (simp_all add: claims_def t)
  have "ledger_view d' k = Sent \<longleftrightarrow> ledger_view d k = Sent" for k
    using starvingD(5) [OF s, of k] free by (simp add: won(2))
  moreover have "k \<in> fst ` set (claims ?s')" if "ledger_view d' k = Held c" for k c
    using that starvingD(6) [OF s, of k c] by (auto simp: won(2) claims split: if_splits)
  moreover have "\<not> ok \<and> ledger_view d k \<noteq> Sent" if "(k, c, ok) \<in> set (claims ?s')" for k c ok
    using that starvingD(7) [OF s, of k c ok] free by (auto simp: claims)
  moreover have "am_tx_hash (match_of x) < h" if "x \<in> set (ds_tasks ?s')" for x
    using that starvingD(8) [OF s, of x] h t by auto
  moreover have "db_deliveries d' k = db_deliveries d k" if "h \<le> snd k" for k
  proof -
    have "k \<noteq> (am_subscription_id m, am_tx_hash m)" using that h by (metis leD snd_conv)
    then show ?thesis using claim_row [OF cl, of k] starvingD(9) [OF s that] by simp
  qed
  moreover have "only_ledger d d'"
    using starvingD(2) [OF s] only_ledger_claim [OF cl] by (rule only_ledger_trans)
  moreover have "service_ok d'" using cl starvingD(3) [OF s] by (rule claim_ok)
  moreover have db: "ds_db ?s' = d'" "ds_posts ?s' = ds_posts s" by simp_all
  ultimately show ?thesis
    unfolding starving_def db using starvingD(1,4) [OF s] by blast
qed

lemma starving_record:
  assumes s: "starving batch d h posts s" and t: "ds_tasks s = a @ Answered m c (out, ok, err) # b"
    and rec: "record_alert_delivery (ds_clock s) (am_subscription_id m) (am_tx_hash m) ok err (ds_db s) = Inr d'"
  shows "starving batch d h posts (s\<lparr>ds_db := d', ds_tasks := a @ b\<rparr>)" (is "starving _ _ _ _ ?s'")
proof -
  have claims: "claims s = task_claims a @ (pair_of m, c, ok) # task_claims b" "claims ?s' = task_claims a @ task_claims b"
    by (simp_all add: claims_def t)
  have m: "\<not> ok" "ledger_view d (pair_of m) \<noteq> Sent"
    using starvingD(7) [OF s, of "pair_of m" c ok] by (simp_all add: claims)
  have h: "am_tx_hash m < h" using starvingD(8) [OF s, of "Answered m c (out, ok, err)"] t by simp
  have view: "ledger_view d' = (ledger_view (ds_db s))(pair_of m := Free)"
    using record_view [OF service_statuses [OF starvingD(3) [OF s]], of _ "pair_of m"] rec m(1)
    by (auto simp: record_spec_def pair_of_def)
  have "ledger_view d' k = Sent \<longleftrightarrow> ledger_view d k = Sent" for k
    using starvingD(5) [OF s, of k] m(2) by (simp add: view)
  moreover have "k \<in> fst ` set (claims ?s')" if "ledger_view d' k = Held e" for k e
    using that starvingD(6) [OF s, of k e] by (auto simp: view claims split: if_splits)
  moreover have "\<not> x \<and> ledger_view d k \<noteq> Sent" if "(k, e, x) \<in> set (claims ?s')" for k e x
    using that starvingD(7) [OF s, of k e x] by (auto simp: claims)
  moreover have "am_tx_hash (match_of x) < h" if "x \<in> set (ds_tasks ?s')" for x
    using that starvingD(8) [OF s, of x] t by auto
  moreover have "db_deliveries d' k = db_deliveries d k" if "h \<le> snd k" for k
  proof -
    have "k \<noteq> (am_subscription_id m, am_tx_hash m)" using that h by (metis leD snd_conv)
    then show ?thesis using record_row [OF rec, of k] starvingD(9) [OF s that] by simp
  qed
  moreover have "only_ledger d d'"
    using starvingD(2) [OF s] only_ledger_record [OF rec] by (rule only_ledger_trans)
  moreover have "service_ok d'" using rec starvingD(3) [OF s] by (rule record_ok)
  moreover have db: "ds_db ?s' = d'" "ds_posts ?s' = ds_posts s" by simp_all
  ultimately show ?thesis
    unfolding starving_def db using starvingD(1,4) [OF s] by blast
qed

lemma starving_rate:
  assumes s: "starving batch d h posts s" and rec: "record_rate_alert_dispatch now sid n sent msg (ds_db s) = Inr d'"
  shows "starving batch d h posts (s\<lparr>ds_db := d'\<rparr>)"
proof -
  have "db_deliveries d' = db_deliveries (ds_db s)" "only_ledger (ds_db s) d'"
    using rec by (auto simp: rate_record_Inr only_ledger_def)
  then have "db_deliveries d' = db_deliveries (ds_db s)" "ledger_view d' = ledger_view (ds_db s)" "only_ledger d d'"
    using only_ledger_trans [OF starvingD(2) [OF s]] by (auto simp: ledger_view_def fun_eq_iff)
  moreover have "service_ok d'" using rec starvingD(3) [OF s] by (rule rate_record_ok)
  moreover have db: "ds_db (s\<lparr>ds_db := d'\<rparr>) = d'" "ds_tasks (s\<lparr>ds_db := d'\<rparr>) = ds_tasks s"
    "ds_posts (s\<lparr>ds_db := d'\<rparr>) = ds_posts s" "claims (s\<lparr>ds_db := d'\<rparr>) = claims s"
    by (simp_all add: claims_def)
  ultimately show ?thesis
    using s unfolding starving_def db by metis
qed

lemma starving_step:
  assumes s: "starving batch d h posts s" and step: "lone_step X batch s s'"
  shows "starving batch d h posts s'"
proof -
  have old: "\<forall>(k, c, ok)\<in>set (claims s). \<not> ok" "\<forall>t\<in>set (ds_tasks s). am_tx_hash (match_of t) < h"
    using starvingD(7,8) [OF s] by blast+
  from step show ?thesis
  proof cases
    case (Tick t)
    with old show ?thesis by (intro starving_frame [OF s]) (simp_all add: claims_def)
  next
    case (Cycle r ms)
    with starving_batch(2) [OF s Cycle(2,3)] show ?thesis
      by (intro starving_frame [OF s]) (simp_all add: claims_def)
  next
    case (Claim a m b d')
    with starving_claim [OF s Claim(2,3)] show ?thesis by simp
  next
    case (Skip a m b d')
    with claim_lost_same [OF Skip(3)] old show ?thesis
      by (intro starving_frame [OF s]) (simp_all add: claims_def)
  next
    case (Refuse a m c b out msg)
    with old show ?thesis by (intro starving_frame [OF s]) (auto simp: claims_def)
  next
    case (Fail a m c b rq resp out err)
    with old show ?thesis by (intro starving_frame [OF s]) (auto simp: claims_def)
  next
    case (Record a m c out ok err b d')
    with starving_record [OF s Record(2,3)] show ?thesis by simp
  next
    case (Rate now sid n sent msg d')
    with starving_rate [OF s Rate(2)] show ?thesis by simp
  qed
qed

interpretation lone: invariant_system "lone_step X batch" "starving batch d h posts"
  by unfold_locales (rule starving_step)

text \<open>C10. Alerts behind a batch of failing ones are never attempted: the matcher orders by hash and has
  no limit of attempts and no backoff. Let one dispatcher work alone from a database in which no
  claim is held and at least a batch of the waiting alerts have a hash below \<open>h\<close>, and let every
  request be refused or fail. Then in every cycle, however many there were, however their tasks
  interleave, whatever time they take and however PostgreSQL orders the alerts of one hash: no task
  is about an alert with hash \<open>h\<close> or a larger one, and no row of such an alert is ever written; between two
  cycles the waiting alerts are those of the beginning, and the next batch is full of alerts with
  hashes below \<open>h\<close> again.\<close>

theorem later_alerts_starve:
  assumes "db_ok d" "service_ok d" "\<forall>k c. ledger_view d k \<noteq> Held c" "0 \<le> batch"
    and "batch \<le> int (length (filter (\<lambda>m. am_tx_hash m < h) (waiting d)))"
    and "ds_db s0 = d" "ds_tasks s0 = []" "(lone_step X batch)\<^sup>*\<^sup>* s0 s"
  shows "(\<forall>t\<in>set (ds_tasks s). am_tx_hash (match_of t) < h) \<and>
    (\<forall>k. h \<le> snd k \<longrightarrow> db_deliveries (ds_db s) k = db_deliveries d k) \<and> ds_posts s = ds_posts s0 \<and>
    (ds_tasks s = [] \<longrightarrow> waiting (ds_db s) = waiting d \<and>
      (\<forall>r. \<exists>ms. find_pending_alert_matches r (ds_clock s) batch claim_stale_after_secs (ds_db s) = Inr ms \<and>
         int (length ms) = batch \<and> (\<forall>m\<in>set ms. am_tx_hash m < h)))"
proof -
  have "starving batch d h (ds_posts s0) s0"
    using assms(1-3,5-7) by (simp add: starving_def jammed_def only_ledger_def claims_def)
  with assms(8) have s: "starving batch d h (ds_posts s0) s"
    by (rule lone.reachable_inv)
  have "\<exists>ms. find_pending_alert_matches r (ds_clock s) batch claim_stale_after_secs (ds_db s) = Inr ms \<and>
      int (length ms) = batch \<and> (\<forall>m\<in>set ms. am_tx_hash m < h)" if t: "ds_tasks s = []" for r
  proof -
    have "\<exists>ms. find_pending_alert_matches r (ds_clock s) batch claim_stale_after_secs (ds_db s) = Inr ms"
      using assms(4) by (simp add: find_pending_alert_matches_def page_def int4_ok_def claim_stale_after_secs_def)
    with starving_batch [OF s t] show ?thesis by blast
  qed
  moreover have "waiting (ds_db s) = waiting d" if "ds_tasks s = []"
    by (rule starving_rest [OF s that])
  ultimately show ?thesis
    using starvingD(4,8,9) [OF s] by blast
qed

text \<open>Two alerts of one subscription whose URL is refused, and a batch of one: a whole cycle, after which
  the first alert has failed and the second one was not touched.\<close>

definition jam_chain :: chain_db where
  "jam_chain = sample_db\<lparr>
     db_txs := map (\<lambda>h. \<lparr>tx_hash = h, tx_from_addr = ''a'', tx_to_addr = None, tx_block_number = 6, tx_gas_used = 1,
       tx_gas_price = 1, tx_value = 0, tx_status = 0, tx_input_data = None\<rparr>) [''t6'', ''t7''],
     db_failed := map (\<lambda>h. \<lparr>ft_tx_hash = h, ft_error_category = Unknown, ft_revert_reason = None,
       ft_failing_function = None, ft_gas_used = 1, ft_timestamp = 1\<rparr>) [''t6'', ''t7'']\<rparr>"

abbreviation jam_db :: "(int \<times> string \<rightharpoonup> alert_delivery) \<Rightarrow> service_db" where
  "jam_db dels \<equiv> service_of jam_chain [sample_sub] dels []"

lemma jam_db_upd [simp]: "jam_db dels\<lparr>db_deliveries := x\<rparr> = jam_db x"
  by (simp add: service_of_def)

lemma jam_db_ok: "db_ok (jam_db Map.empty)" "service_ok (jam_db Map.empty)"
  by (simp add: jam_chain_def sample_db_def empty_db_def db_ok_unfold)
    (simp add: service_ok_def statuses_ok_def sample_sub_ok)

lemma jam_joined: "joined_to_addrs (jam_db dels) ''t6'' = [None]" "joined_to_addrs (jam_db dels) ''t7'' = [None]"
  by (simp_all add: joined_to_addrs_def jam_chain_def)

lemma jam_failed: "db_failed jam_chain = map (\<lambda>h. \<lparr>ft_tx_hash = h, ft_error_category = Unknown,
    ft_revert_reason = None, ft_failing_function = None, ft_gas_used = 1, ft_timestamp = 1\<rparr>) [''t6'', ''t7'']"
  by (simp add: jam_chain_def)

lemma jam_waiting: "waiting (jam_db Map.empty) = [sm, sample_match ''t7'']"
  by (simp add: pending_rows_def jam_failed jam_joined category_matches_def address_matches_def withheld_def
      sample_match_def)

lemma jam_batch: "find_pending_alert_matches id 0 1 claim_stale_after_secs (jam_db Map.empty) = Inr [sm]"
proof -
  have "order_by id am_tx_hash [sm, sample_match ''t7''] = [sm, sample_match ''t7'']"
    by (simp add: order_by_def sample_match_def)
  moreover have "pending_rows 0 claim_stale_after_secs (jam_db Map.empty) = [sm, sample_match ''t7'']"
    by (rule jam_waiting)
  ultimately show ?thesis
    unfolding find_pending_alert_matches_def by (simp only: int4_ok_def claim_stale_after_secs_def page_def) simp
qed

lemma later_alerts_starve_witness:
  "\<exists>s. (lone_step (sample_ext\<lparr>dx_parse_url := \<lambda>_. None\<rparr>) 1)\<^sup>*\<^sup>* (run_state 0 (jam_db Map.empty) [] 0) s \<and>
     ds_tasks s = [] \<and> db_deliveries (ds_db s) (1, ''t6'') \<noteq> None \<and> db_deliveries (ds_db s) (1, ''t7'') = None \<and>
     waiting (ds_db s) = [sm, sample_match ''t7'']"
proof -
  let ?X = "sample_ext\<lparr>dx_parse_url := \<lambda>_. None\<rparr>" and ?T = claim_stale_after_secs
  let ?d = "jam_db Map.empty" and ?d1 = "jam_db (full_row ''claimed'' 1 0 None None)"
  let ?s0 = "run_state 0 ?d [] 0" and ?s1 = "run_state 0 ?d [Queued sm] 0" and ?s2 = "run_state 0 ?d1 [Holding sm 0] 0"
  let ?R = "lone_step ?X 1"
  have 1: "?R ?s0 ?s1"
    using Cycle [of ?s0 id 1 "[sm]" ?X] jam_batch by (simp add: run_state_def)
  have known: "sub_known ?d 1" by (simp add: sub_known_def)
  then have "try_claim_alert_match 0 1 ''t6'' ?T ?d = Inr (True, ?d1)"
    by (simp add: try_claim_alert_match_def int4_ok_def claim_stale_after_secs_def t6_text full_row_def)
  then have 2: "?R ?s1 ?s2"
    using Claim [of ?s1 "[]" sm "[]" ?d1 ?X 1] by (simp add: run_state_def)
  let ?out = "UnsafeUrl" and ?msg = "''unsafe url: '' @ reason_debug InvalidUrl"
  let ?s3 = "run_state 0 ?d1 [Answered sm 0 (?out, False, Some ?msg)] 0"
  have 3: "?R ?s2 ?s3"
    using Refuse [of ?s2 "[]" sm 0 "[]" ?X ?out ?msg 1]
    by (simp add: run_state_def request_plan_def webhook_url_is_safe_def)
  let ?d4 = "jam_db (full_row ''failed'' 2 0 (Some ?msg) None)"
  have "opt_ok text_ok (Some ?msg)"
    by (simp add: opt_ok_def text_ok_def char_code_def)
  then have "record_alert_delivery 0 1 ''t6'' False (Some ?msg) ?d1 = Inr ?d4"
    by (simp add: record_alert_delivery_def t6_text int4_ok_def full_row_def)
  then have 4: "?R ?s3 (run_state 0 ?d4 [] 0)"
    using Record [of ?s3 "[]" sm 0 ?out False "Some ?msg" "[]" ?d4 ?X 1] by (simp add: run_state_def)
  from 1 2 3 4 have run: "?R\<^sup>*\<^sup>* ?s0 (run_state 0 ?d4 [] 0)"
    by (meson rtranclp.rtrancl_refl converse_rtranclp_into_rtranclp)
  have free: "\<forall>k c. ledger_view ?d k \<noteq> Held c" by (simp add: ledger_view_def)
  have "1 \<le> int (length (filter (\<lambda>m. am_tx_hash m < ''t7'') (waiting ?d)))"
    unfolding jam_waiting by (simp add: sample_match_def)
  from later_alerts_starve [OF jam_db_ok free _ this _ _ run] show ?thesis
    using run by (intro exI [of _ "run_state 0 ?d4 [] 0"]) (auto simp: run_state_def jam_waiting full_row_def)
qed

end
