(* ===== verification/Dispatch_Loop.thy ===== *)
theory Dispatch_Loop
  imports Delivery
begin

text \<open>
  The loop of \<open>src/crates/indexer/src/alerts.rs\<close>: cycle after cycle of \<open>dispatch_once\<close> and
  \<open>dispatch_rate_once\<close>, and what it achieves when the receivers answer. The matches of a batch have
  different pairs, so its tasks touch different rows; here they take effect one after another in an
  order that is an input of the cycle, like the order of equal hashes, the times of every task and the answers. How the steps of several
  dispatchers interleave is the subject of \<open>Delivery\<close>, the pool of tasks that of \<open>Dispatch\<close>.
\<close>

section \<open>The loop\<close>

text \<open>The tasks of a batch, each with the times of its claim and of its record.\<close>

fun dispatch_batch_seq :: "dispatch_ext \<Rightarrow> (http_request \<Rightarrow> http_answer) \<Rightarrow> (alert_match \<Rightarrow> timestamp) \<Rightarrow>
    (alert_match \<Rightarrow> timestamp) \<Rightarrow> alert_match list \<Rightarrow> service_db \<Rightarrow> (db_error + dispatch_outcome) list \<times> service_db" where
  "dispatch_batch_seq X respond t1 t2 [] d = ([], d)"
| "dispatch_batch_seq X respond t1 t2 (m # ms) d =
     (let (r, d1) = dispatch_item X respond (t1 m) (t2 m) m d;
          (rs, d2) = dispatch_batch_seq X respond t1 t2 ms d1 in (r # rs, d2))"

record cycle_input =
  ci_time :: timestamp
  ci_ties :: tie_order
  ci_claimed :: "alert_match \<Rightarrow> timestamp"
  ci_recorded :: "alert_match \<Rightarrow> timestamp"
  ci_rate_time :: timestamp
  ci_rate_recorded :: "rate_alert_match \<Rightarrow> timestamp"
  ci_order :: "alert_match list \<Rightarrow> alert_match list"
  ci_rate_order :: "rate_alert_match list \<Rightarrow> rate_alert_match list"
  ci_respond :: "http_request \<Rightarrow> http_answer"

definition joined_of :: "db_error + dispatch_outcome \<Rightarrow> joined" where
  "joined_of r = (case r of Inl e \<Rightarrow> TaskError | Inr out \<Rightarrow> TaskDone out)"

definition dispatch_once :: "dispatch_ext \<Rightarrow> int \<Rightarrow> cycle_input \<Rightarrow> dispatch_metrics \<times> service_db \<Rightarrow>
    db_error + dispatch_metrics \<times> service_db" where
  "dispatch_once X batch c = (\<lambda>(m, d).
     bind_res (find_pending_alert_matches (ci_ties c) (ci_time c) batch claim_stale_after_secs d) (\<lambda>ms.
       let (rs, d') = dispatch_batch_seq X (ci_respond c) (ci_claimed c) (ci_recorded c) (ci_order c ms) d in
       Inr (fold (\<lambda>r m. join_metrics (joined_of r) (attempt m)) rs m, d')))"

fun dispatch_rate_batch_seq :: "dispatch_ext \<Rightarrow> (http_request \<Rightarrow> http_answer) \<Rightarrow> (rate_alert_match \<Rightarrow> timestamp) \<Rightarrow>
    rate_alert_match list \<Rightarrow> service_db \<Rightarrow> (db_error + dispatch_outcome) list \<times> service_db" where
  "dispatch_rate_batch_seq X respond t [] d = ([], d)"
| "dispatch_rate_batch_seq X respond t (m # ms) d =
     (let (r, d1) = dispatch_rate_item X respond (t m) m d;
          (rs, d2) = dispatch_rate_batch_seq X respond t ms d1 in (r # rs, d2))"

definition dispatch_rate_once :: "dispatch_ext \<Rightarrow> int \<Rightarrow> cycle_input \<Rightarrow> dispatch_metrics \<times> service_db \<Rightarrow>
    db_error + dispatch_metrics \<times> service_db" where
  "dispatch_rate_once X batch c = (\<lambda>(m, d).
     bind_res (find_pending_rate_alert_matches (ci_rate_time c) batch d) (\<lambda>ms.
       let (rs, d') = dispatch_rate_batch_seq X (ci_respond c) (ci_rate_recorded c) (ci_rate_order c ms) d in
       Inr (fold (\<lambda>r m. join_rate_metrics (joined_of r) (attempt_rate m)) rs m, d')))"

text \<open>The cycles up to Ctrl-C; an error of a query ends the loop.\<close>

fun dispatch_loop :: "dispatch_ext \<Rightarrow> cycle_input list \<Rightarrow> dispatch_metrics \<times> service_db \<Rightarrow>
    db_error + dispatch_metrics \<times> service_db" where
  "dispatch_loop X [] s = Inr s"
| "dispatch_loop X (c # cs) (m, d) =
     bind_res (dispatch_once X dispatch_batch c (m\<lparr>dm_cycles := dm_cycles m + 1\<rparr>, d)) (\<lambda>s.
     bind_res (dispatch_rate_once X dispatch_batch c s) (dispatch_loop X cs))"

section \<open>A receptive environment\<close>

definition answers_ok :: "cycle_input \<Rightarrow> bool" where
  "answers_ok c \<longleftrightarrow> (\<forall>ms. mset (ci_order c ms) = mset ms) \<and>
     (\<forall>rq. \<exists>code text. ci_respond c rq = Inr (code, text) \<and> 200 \<le> code \<and> code < 300)"

text \<open>Every subscription can be delivered to, nobody holds a claim, and the counters are far from
  their bound.\<close>

definition deliverable :: "dispatch_ext \<Rightarrow> service_db \<Rightarrow> bool" where
  "deliverable X d \<longleftrightarrow> db_ok d \<and> service_ok d \<and> (\<forall>k c. ledger_view d k \<noteq> Held c) \<and>
     (\<forall>k r. db_deliveries d k = Some r \<longrightarrow> ad_status r \<noteq> ''delivered'' \<longrightarrow>
        0 \<le> ad_attempts r \<and> ad_attempts r < 2 ^ 31 - 2) \<and>
     (\<forall>f\<in>set (db_failed d). text_ok (ft_tx_hash f)) \<and>
     (\<forall>s\<in>set (db_subs d). webhook_url_is_safe (dx_parse_url X) (sub_webhook_url s) = Inr () \<and>
        dx_hex_decode X (sub_signing_secret s) \<noteq> None)"

lemma deliverableD:
  assumes "deliverable X d"
  shows "db_ok d" "service_ok d" "\<forall>k c. ledger_view d k \<noteq> Held c"
    "db_deliveries d k = Some r \<Longrightarrow> ad_status r \<noteq> ''delivered'' \<Longrightarrow>
       0 \<le> ad_attempts r \<and> ad_attempts r < 2 ^ 31 - 2"
    "f \<in> set (db_failed d) \<Longrightarrow> text_ok (ft_tx_hash f)"
    "s \<in> set (db_subs d) \<Longrightarrow> webhook_url_is_safe (dx_parse_url X) (sub_webhook_url s) = Inr () \<and>
       dx_hex_decode X (sub_signing_secret s) \<noteq> None"
  using assms unfolding deliverable_def by blast+

lemma waiting_any_time:
  assumes "\<forall>k c. ledger_view d k \<noteq> Held c"
  shows "pending_rows now claim_stale_after_secs d = waiting d"
  unfolding pending_rows_def withheld_sent [OF assms] ..

section \<open>One item\<close>

lemma item_delivered:
  assumes free: "ledger_view d k \<noteq> Sent" "\<forall>c. ledger_view d k \<noteq> Held c" and st: "statuses_ok d"
    and k: "k = pair_of m" and known: "sub_known d (am_subscription_id m)" and utf: "text_ok (am_tx_hash m)"
    and few: "\<forall>r. db_deliveries d k = Some r \<longrightarrow> 0 \<le> ad_attempts r \<and> ad_attempts r < 2 ^ 31 - 2"
    and plan: "request_plan X (am_webhook_url m) (am_signing_secret m) (build_payload m) = Inr rq"
    and ans: "respond rq = Inr (code, body)" "200 \<le> code" "code < 300"
  shows "\<exists>row. ad_status row = ''delivered'' \<and>
    dispatch_item X respond t1 t2 m d = (Inr Delivered, d\<lparr>db_deliveries := (db_deliveries d)(k \<mapsto> row)\<rparr>)"
proof -
  have v: "item_verdict X respond (am_webhook_url m) (am_signing_secret m) (build_payload m) = (Delivered, True, None)"
    using ans by (simp add: item_verdict_def plan answer_verdict_def post_signed_def)
  show ?thesis
  proof (cases "db_deliveries d k")
    case None
    then show ?thesis
      using known utf k
      by (simp add: dispatch_item_def try_claim_alert_match_def record_alert_delivery_def int4_ok_def
          claim_stale_after_secs_def pair_of_def v opt_ok_def)
        (rule exI, rule conjI [rotated], rule refl, simp)
  next
    case (Some r)
    then have "ad_status r = ''failed''"
      using free statuses_ok_row [OF st Some] by (auto simp: ledger_view_def)
    with Some few utf k show ?thesis
      by (simp add: dispatch_item_def try_claim_alert_match_def record_alert_delivery_def int4_ok_def
          claim_stale_after_secs_def pair_of_def v opt_ok_def)
        (rule exI, rule conjI [rotated], rule refl, simp)
  qed
qed

section \<open>One batch\<close>

text \<open>The database after deliveries: other rows of the ledger at the pairs \<open>K\<close>, all delivered.\<close>

definition delivered_at :: "(int \<times> string) set \<Rightarrow> service_db \<Rightarrow> service_db \<Rightarrow> bool" where
  "delivered_at K d d' \<longleftrightarrow> (\<exists>g. d' = d\<lparr>db_deliveries := g\<rparr> \<and> (\<forall>k. k \<notin> K \<longrightarrow> g k = db_deliveries d k) \<and>
     (\<forall>k\<in>K. \<exists>row. g k = Some row \<and> ad_status row = ''delivered''))"

lemma delivered_at_refl: "delivered_at {} d d"
  unfolding delivered_at_def by (intro exI [of _ "db_deliveries d"]) simp

lemma delivered_at_step:
  assumes "ad_status row = ''delivered''" "k \<notin> K"
    and "delivered_at K (d\<lparr>db_deliveries := (db_deliveries d)(k \<mapsto> row)\<rparr>) d'"
  shows "delivered_at (insert k K) d d'"
proof -
  obtain g where g: "d' = d\<lparr>db_deliveries := g\<rparr>"
    "\<forall>q. q \<notin> K \<longrightarrow> g q = ((db_deliveries d)(k \<mapsto> row)) q"
    "\<forall>q\<in>K. \<exists>row. g q = Some row \<and> ad_status row = ''delivered''"
    using assms(3) unfolding delivered_at_def by auto
  have "g k = Some row" using g(2) assms(2) by (metis fun_upd_same)
  with g(3) assms(1) have "\<forall>q\<in>insert k K. \<exists>row. g q = Some row \<and> ad_status row = ''delivered''" by blast
  moreover have "g q = db_deliveries d q" if "q \<notin> insert k K" for q
    using g(2) that by (metis fun_upd_apply insertCI)
  ultimately show ?thesis
    unfolding delivered_at_def using g(1) by blast
qed

lemma delivered_at_view:
  assumes "delivered_at K d d'"
  shows "ledger_view d' k = (if k \<in> K then Sent else ledger_view d k)"
proof -
  obtain g where g: "d' = d\<lparr>db_deliveries := g\<rparr>" "k \<notin> K \<Longrightarrow> g k = db_deliveries d k"
    "k \<in> K \<Longrightarrow> \<exists>row. g k = Some row \<and> ad_status row = ''delivered''"
    using assms unfolding delivered_at_def by blast
  show ?thesis
  proof (cases "k \<in> K")
    case True
    with g(3) obtain row where "g k = Some row" "ad_status row = ''delivered''" by blast
    with True g(1) show ?thesis by (simp add: ledger_view_def)
  next
    case False
    with g(1,2) show ?thesis by (simp add: ledger_view_def)
  qed
qed

lemma delivered_at_tables:
  "delivered_at K d d' \<Longrightarrow> db_subs d' = db_subs d \<and> db_failed d' = db_failed d \<and> db_txs d' = db_txs d"
  by (auto simp: delivered_at_def)

definition sendable :: "dispatch_ext \<Rightarrow> service_db \<Rightarrow> alert_match \<Rightarrow> bool" where
  "sendable X d m \<longleftrightarrow> ledger_view d (pair_of m) = Free \<and> sub_known d (am_subscription_id m) \<and>
     text_ok (am_tx_hash m) \<and>
     (\<forall>r. db_deliveries d (pair_of m) = Some r \<longrightarrow> 0 \<le> ad_attempts r \<and> ad_attempts r < 2 ^ 31 - 2) \<and>
     (\<exists>rq. request_plan X (am_webhook_url m) (am_signing_secret m) (build_payload m) = Inr rq)"

lemma sendable_other:
  "sendable X d m \<Longrightarrow> k \<noteq> pair_of m \<Longrightarrow> sendable X (d\<lparr>db_deliveries := (db_deliveries d)(k \<mapsto> row)\<rparr>) m"
  by (simp add: sendable_def ledger_view_def sub_known_def)

lemma batch_delivered:
  assumes "statuses_ok d" "distinct (map pair_of ms)" "\<forall>m\<in>set ms. sendable X d m"
    and ans: "\<forall>rq. \<exists>code body. respond rq = Inr (code, body) \<and> 200 \<le> code \<and> code < 300"
  shows "\<exists>d'. dispatch_batch_seq X respond t1 t2 ms d = (replicate (length ms) (Inr Delivered), d') \<and>
    delivered_at (pair_of ` set ms) d d'"
  using assms(1-3)
proof (induction ms arbitrary: d)
  case Nil
  then show ?case by (simp add: delivered_at_refl)
next
  case (Cons m ms)
  from Cons.prems(3) have m: "sendable X d m" by simp
  then obtain rq where rq: "request_plan X (am_webhook_url m) (am_signing_secret m) (build_payload m) = Inr rq"
    by (auto simp: sendable_def)
  obtain code body where c: "respond rq = Inr (code, body)" "200 \<le> code" "code < 300"
    using ans by blast
  note deliver = item_delivered [where k = "pair_of m" and m = m and d = d and rq = rq and code = code and respond = respond, OF _ _ Cons.prems(1) refl _ _ _ rq c]
  from m
  obtain row where row: "ad_status row = ''delivered''"
    "dispatch_item X respond (t1 m) (t2 m) m d = (Inr Delivered, d\<lparr>db_deliveries := (db_deliveries d)(pair_of m \<mapsto> row)\<rparr>)"
    using deliver [of "t1 m" "t2 m"] by (auto simp: sendable_def)
  let ?d = "d\<lparr>db_deliveries := (db_deliveries d)(pair_of m \<mapsto> row)\<rparr>"
  have new: "pair_of m \<notin> pair_of ` set ms" using Cons.prems(2) by simp
  have "statuses_ok ?d"
    using Cons.prems(1) row(1) by (auto simp: statuses_ok_def)
  moreover have "\<forall>q\<in>set ms. sendable X ?d q"
    using Cons.prems(3) new by (auto intro: sendable_other)
  ultimately obtain d' where d': "dispatch_batch_seq X respond t1 t2 ms ?d = (replicate (length ms) (Inr Delivered), d')"
    "delivered_at (pair_of ` set ms) ?d d'"
    using Cons.IH [of ?d] Cons.prems(2) by auto
  with row delivered_at_step [OF row(1) new d'(2)] show ?case by simp
qed

section \<open>What is left\<close>

lemma filter_if: "filter P (if c then xs else []) = (if c then filter P xs else [])"
  by simp

lemma alert_kept:
  "(if sub_active s \<and> t \<and> a \<and> \<not> (if (sub_id s, ft_tx_hash f) \<in> K then Sent else v) = Sent then [alert_of s f] else []) =
   filter (\<lambda>m. pair_of m \<notin> K) (if sub_active s \<and> t \<and> a \<and> \<not> v = Sent then [alert_of s f] else [])"
  by (simp add: pair_of_def alert_of_def)

lemma waiting_after:
  assumes "delivered_at K d d'" "\<forall>k c. ledger_view d k \<noteq> Held c"
  shows "waiting d' = filter (\<lambda>m. pair_of m \<notin> K) (waiting d)"
proof -
  note v = delivered_at_view [OF assms(1)] and tab = delivered_at_tables [OF assms(1)]
  have "\<forall>k c. ledger_view d' k \<noteq> Held c" using v assms(2) by (metis ledger.distinct(5))
  note w = withheld_sent [OF assms(2)] withheld_sent [OF this]
  have j: "joined_to_addrs d' = joined_to_addrs d"
    using tab by (intro ext) (simp only: joined_to_addrs_def)
  show ?thesis
    unfolding pending_rows_def w v alert_of_def [symmetric]
    by (simp only: tab j alert_kept filter_concat map_map o_def filter_if)
qed

section \<open>One cycle\<close>

lemma deliverable_waiting:
  assumes "deliverable X d" "m \<in> set (waiting d)"
  shows "sendable X d m"
proof -
  from assms obtain s f where due: "alert_due 0 claim_stale_after_secs d s f" and m: "m = alert_of s f"
    using pending_rows_due [OF deliverableD(1) [OF assms(1)]] by blast
  then have s: "s \<in> set (db_subs d)" and f: "f \<in> set (db_failed d)"
    and free: "\<not> withheld 0 claim_stale_after_secs d (pair_of m)"
    by (simp_all add: alert_due_def pair_of_def alert_of_def)
  note no = deliverableD(3) [OF assms(1)]
  then have view: "ledger_view d (pair_of m) = Free"
    using free withheld_sent [OF no] by (metis ledger.exhaust)
  moreover have "\<forall>r. db_deliveries d (pair_of m) = Some r \<longrightarrow> 0 \<le> ad_attempts r \<and> ad_attempts r < 2 ^ 31 - 2"
  proof (intro allI impI)
    fix r assume r: "db_deliveries d (pair_of m) = Some r"
    then have "ad_status r \<noteq> ''delivered''" using view by (auto simp: ledger_view_def)
    with r show "0 \<le> ad_attempts r \<and> ad_attempts r < 2 ^ 31 - 2" by (rule deliverableD(4) [OF assms(1)])
  qed
  moreover have "sub_known d (am_subscription_id m)" "text_ok (am_tx_hash m)"
    using s deliverableD(5) [OF assms(1) f] by (auto simp: m alert_of_def sub_known_def)
  moreover have "\<exists>rq. request_plan X (am_webhook_url m) (am_signing_secret m) (build_payload m) = Inr rq"
    using deliverableD(6) [OF assms(1) s] by (auto simp: m alert_of_def request_plan_def)
  ultimately show ?thesis unfolding sendable_def by blast
qed

lemma delivered_service_ok:
  assumes "service_ok d" "delivered_at K d d'" "\<forall>k\<in>K. sub_known d (fst k)"
  shows "service_ok d'"
proof -
  obtain g where g: "d' = d\<lparr>db_deliveries := g\<rparr>" "\<forall>k. k \<notin> K \<longrightarrow> g k = db_deliveries d k"
    "\<forall>k\<in>K. \<exists>row. g k = Some row \<and> ad_status row = ''delivered''"
    using assms(2) unfolding delivered_at_def by blast
  have "known_status (ad_status r) \<and> sub_known d sid" if r: "g (sid, h) = Some r" for sid h r
  proof (cases "(sid, h) \<in> K")
    case True
    with g(3) r have "ad_status r = ''delivered''" by fastforce
    then show ?thesis using True assms(3) by force
  next
    case False
    with g(2) r have "db_deliveries d (sid, h) = Some r" by metis
    with assms(1) show ?thesis unfolding service_ok_def statuses_ok_def by blast
  qed
  then show ?thesis
    using assms(1) by (simp add: g(1) service_ok_def statuses_ok_def sub_known_def) 
qed

lemma deliverable_delivered:
  assumes "deliverable X d" "delivered_at K d d'" "service_ok d'"
  shows "deliverable X d'"
proof -
  obtain g where g: "d' = d\<lparr>db_deliveries := g\<rparr>" "\<forall>k. k \<notin> K \<longrightarrow> g k = db_deliveries d k"
    "\<forall>k\<in>K. \<exists>row. g k = Some row \<and> ad_status row = ''delivered''"
    using assms(2) unfolding delivered_at_def by blast
  have "\<forall>k c. ledger_view d' k \<noteq> Held c"
    using delivered_at_view [OF assms(2)] deliverableD(3) [OF assms(1)] by (metis ledger.distinct(5))
  moreover have "0 \<le> ad_attempts r \<and> ad_attempts r < 2 ^ 31 - 2"
    if r: "db_deliveries d' k = Some r" "ad_status r \<noteq> ''delivered''" for k r
  proof -
    have "g k = Some r" using r(1) g(1) by simp
    with r(2) g(3) have "k \<notin> K" by fastforce
    with \<open>g k = Some r\<close> g(2) have "db_deliveries d k = Some r" by simp
    then show ?thesis using r(2) by (rule deliverableD(4) [OF assms(1)])
  qed
  moreover have "db_ok d'" using deliverableD(1) [OF assms(1)] g(1) by (simp add: db_ok_unfold)
  moreover have "db_failed d' = db_failed d" "db_subs d' = db_subs d"
    using delivered_at_tables [OF assms(2)] by simp_all
  ultimately show ?thesis
    unfolding deliverable_def using assms(3) deliverableD(5,6) [OF assms(1)] by simp
qed

text \<open>The share of the alerts: everything that the batch query returns is delivered.\<close>

lemma dispatch_once_delivers:
  assumes d: "deliverable X d" and c: "answers_ok c" and b: "0 \<le> batch"
  shows "\<exists>d' ms. dispatch_once X batch c (m, d) =
      Inr (fold (\<lambda>r m. join_metrics (joined_of r) (attempt m)) (replicate (length ms) (Inr Delivered)) m, d') \<and>
    length ms = min (nat batch) (length (waiting d)) \<and> set ms \<subseteq> set (waiting d) \<and> distinct (map pair_of ms) \<and>
    delivered_at (pair_of ` set ms) d d' \<and> deliverable X d'"
proof -
  let ?ms = "take (nat batch) (order_by (ci_ties c) am_tx_hash (waiting d))"
  have found: "find_pending_alert_matches (ci_ties c) (ci_time c) batch claim_stale_after_secs d = Inr ?ms"
    using b unfolding find_pending_alert_matches_def waiting_any_time [OF deliverableD(3) [OF d], of "ci_time c"]
    by (simp add: page_def claim_stale_after_secs_def int4_ok_def)
  have "mset (ci_order c ?ms) = mset ?ms" using c unfolding answers_ok_def by blast
  note perm = this
  then have "mset (map pair_of (ci_order c ?ms)) = mset (map pair_of ?ms)" by simp
  note same = mset_eq_setD [OF perm] mset_eq_length [OF perm] mset_eq_imp_distinct_iff [OF this]
  have dist: "distinct (map pair_of (waiting d))"
    using deliverableD(1,2) [OF d] by (rule pending_rows_distinct)
  have "distinct (map pair_of (order_by (ci_ties c) am_tx_hash (waiting d)))"
    using dist by (rule distinct_order_by)
  then have "distinct (map pair_of ?ms)" by (simp add: take_map [symmetric])
  then have ms: "distinct (map pair_of (ci_order c ?ms))" using same by simp
  have sub: "set ?ms \<subseteq> set (waiting d)" using set_take_subset by fastforce
  have "\<forall>q\<in>set (ci_order c ?ms). sendable X d q"
    using deliverable_waiting [OF d] sub same by blast
  moreover have "\<forall>rq. \<exists>code body. ci_respond c rq = Inr (code, body) \<and> 200 \<le> code \<and> code < 300"
    using c unfolding answers_ok_def by blast
  ultimately obtain d' where d': "dispatch_batch_seq X (ci_respond c) (ci_claimed c) (ci_recorded c) (ci_order c ?ms) d =
      (replicate (length (ci_order c ?ms)) (Inr Delivered), d')"
    "delivered_at (pair_of ` set (ci_order c ?ms)) d d'"
    using batch_delivered [OF service_statuses [OF deliverableD(2) [OF d]] ms] by blast
  have "\<forall>q\<in>set (ci_order c ?ms). sub_known d (am_subscription_id q)"
    using deliverable_waiting [OF d] sub same unfolding sendable_def by blast
  then have "service_ok d'"
    by (intro delivered_service_ok [OF deliverableD(2) [OF d] d'(2)]) (simp add: pair_of_def)
  then have "deliverable X d'" using deliverable_delivered [OF d d'(2)] by simp
  with d' ms sub same found show ?thesis
    by (intro exI [of _ d'] exI [of _ "ci_order c ?ms"]) (simp add: dispatch_once_def)
qed

text \<open>The share of the rate alerts leaves the ledger alone.\<close>

lemma rate_item_frame:
  assumes "dispatch_rate_item X respond t m d = (r, d')" "service_ok d"
  shows "service_ok d' \<and> (\<exists>rows n. d' = d\<lparr>db_rate_dispatches := rows, db_seq_dispatch := n\<rparr>)"
proof -
  obtain out ok err where v: "item_verdict X respond (rm_webhook_url m) (rm_signing_secret m) (build_rate_payload m) =
      (out, ok, err)" by (rule prod_cases3)
  have "d' = d \<or> record_rate_alert_dispatch t (rm_subscription_id m) (count_as_i32 (rm_match_count m)) ok err d = Inr d'"
    using assms(1) by (auto simp: dispatch_rate_item_def v split: sum.splits)
  then show ?thesis
  proof
    assume "d' = d"
    then have "d' = d\<lparr>db_rate_dispatches := db_rate_dispatches d, db_seq_dispatch := db_seq_dispatch d\<rparr>" by simp
    with assms(2) \<open>d' = d\<close> show ?thesis by blast
  next
    assume r: "record_rate_alert_dispatch t (rm_subscription_id m) (count_as_i32 (rm_match_count m)) ok err d = Inr d'"
    with rate_record_ok [OF r assms(2)] show ?thesis unfolding rate_record_Inr by blast
  qed
qed

lemma rate_batch_frame:
  "dispatch_rate_batch_seq X respond t ms d = (rs, d') \<Longrightarrow> service_ok d \<Longrightarrow>
   service_ok d' \<and> (\<exists>rows n. d' = d\<lparr>db_rate_dispatches := rows, db_seq_dispatch := n\<rparr>)"
proof (induction ms arbitrary: d rs)
  case Nil
  then have "d' = d\<lparr>db_rate_dispatches := db_rate_dispatches d, db_seq_dispatch := db_seq_dispatch d\<rparr>"
    "service_ok d'" by simp_all
  then show ?case by blast
next
  case (Cons m ms)
  obtain r d1 where i: "dispatch_rate_item X respond (t m) m d = (r, d1)" by (rule prod.exhaust)
  obtain rs1 where b: "dispatch_rate_batch_seq X respond t ms d1 = (rs1, d')"
    using Cons.prems(1) i by (auto split: prod.splits)
  obtain rows n where d1: "service_ok d1" "d1 = d\<lparr>db_rate_dispatches := rows, db_seq_dispatch := n\<rparr>"
    using rate_item_frame [OF i Cons.prems(2)] by blast
  obtain rows' n' where "service_ok d'" "d' = d1\<lparr>db_rate_dispatches := rows', db_seq_dispatch := n'\<rparr>"
    using Cons.IH [OF b d1(1)] by blast
  then have "service_ok d'" "d' = d\<lparr>db_rate_dispatches := rows', db_seq_dispatch := n'\<rparr>" by (simp_all add: d1(2))
  then show ?case by blast
qed

definition same_alerts :: "dispatch_metrics \<Rightarrow> dispatch_metrics \<Rightarrow> bool" where
  "same_alerts m m' \<longleftrightarrow> dm_cycles m' = dm_cycles m \<and> dm_attempted m' = dm_attempted m \<and>
     dm_delivered m' = dm_delivered m \<and> dm_failed m' = dm_failed m \<and>
     dm_unsafe_url_skipped m' = dm_unsafe_url_skipped m \<and> dm_claim_skipped m' = dm_claim_skipped m"

lemma rate_metrics_alerts: "same_alerts m (fold (\<lambda>r m. join_rate_metrics (joined_of r) (attempt_rate m)) rs m)"
proof (induction rs arbitrary: m)
  case (Cons r rs)
  have "same_alerts m (join_rate_metrics (joined_of r) (attempt_rate m))"
  proof (cases r)
    case (Inr out)
    then show ?thesis by (cases out) (simp_all add: same_alerts_def attempt_rate_def joined_of_def)
  qed (simp add: same_alerts_def attempt_rate_def joined_of_def)
  with Cons.IH [of "join_rate_metrics (joined_of r) (attempt_rate m)"] show ?case
    by (simp add: same_alerts_def)
qed (simp add: same_alerts_def)

lemma dispatch_rate_once_frame:
  assumes "deliverable X d" "0 \<le> batch"
  shows "\<exists>m' d'. dispatch_rate_once X batch c (m, d) = Inr (m', d') \<and> same_alerts m m' \<and> deliverable X d' \<and>
    waiting d' = waiting d \<and> (\<forall>k. ledger_view d' k = ledger_view d k)"
proof -
  obtain ms where ms: "find_pending_rate_alert_matches (ci_rate_time c) batch d = Inr ms"
    using assms(2) by (simp add: find_pending_rate_alert_matches_def page_def)
  obtain rs d' where b: "dispatch_rate_batch_seq X (ci_respond c) (ci_rate_recorded c) (ci_rate_order c ms) d = (rs, d')"
    by (rule prod.exhaust)
  obtain rows n where d': "service_ok d'" "d' = d\<lparr>db_rate_dispatches := rows, db_seq_dispatch := n\<rparr>"
    using rate_batch_frame [OF b deliverableD(2) [OF assms(1)]] by blast
  have view: "ledger_view d' = ledger_view d" by (rule ext) (simp add: d'(2) ledger_view_def)
  have "waiting d' = waiting d"
    by (rule pending_rows_cong) (simp_all add: only_ledger_def withheld_view view, simp_all add: d'(2))
  moreover have "deliverable X d'"
    using assms(1) d'(1) view unfolding deliverable_def by (simp add: d'(2) db_ok_unfold)
  ultimately show ?thesis
    using view rate_metrics_alerts by (simp add: dispatch_rate_once_def ms b)
qed

lemma delivered_metrics:
  "fold (\<lambda>r m. join_metrics (joined_of r) (attempt m)) (replicate n (Inr Delivered)) m =
     m\<lparr>dm_attempted := dm_attempted m + n, dm_delivered := dm_delivered m + n\<rparr>"
  by (induction n arbitrary: m) (simp_all add: joined_of_def attempt_def)

lemma left_after:
  assumes "distinct (map pair_of ws)" "set ms \<subseteq> set ws" "distinct (map pair_of ms)"
  shows "length (filter (\<lambda>m. pair_of m \<notin> pair_of ` set ms) ws) = length ws - length ms"
proof -
  have "pair_of m \<in> pair_of ` set ms \<longleftrightarrow> m \<in> set ms" if "m \<in> set ws" for m
    using that assms(1,2) inj_onD [of pair_of "set ws"] by (auto simp: distinct_map)
  then have "filter (\<lambda>m. pair_of m \<in> pair_of ` set ms) ws = filter (\<lambda>m. m \<in> set ms) ws"
    by (simp cong: filter_cong)
  moreover have "length (filter (\<lambda>m. m \<in> set ms) ws) = length ms"
  proof -
    have "set ws \<inter> set ms = set ms" using assms(2) by blast
    then show ?thesis
      using assms(1,3) distinct_card [of ms] by (simp add: distinct_map distinct_length_filter Int_commute)
  qed
  ultimately show ?thesis
    using sum_length_filter_compl [of "\<lambda>m. pair_of m \<in> pair_of ` set ms" ws] by simp
qed

text \<open>One cycle of the loop.\<close>

lemma cycle_delivers:
  assumes d: "deliverable X d" and c: "answers_ok c"
  shows "\<exists>m' d'. (\<forall>cs. dispatch_loop X (c # cs) (m, d) = dispatch_loop X cs (m', d')) \<and> deliverable X d' \<and>
    length (waiting d') = length (waiting d) - 100 \<and> set (waiting d') \<subseteq> set (waiting d) \<and>
    (\<forall>k. ledger_view d' k = Sent \<longleftrightarrow>
       ledger_view d k = Sent \<or> k \<in> pair_of ` set (waiting d) - pair_of ` set (waiting d')) \<and>
    dm_delivered m' = dm_delivered m + min 100 (length (waiting d)) \<and> dm_failed m' = dm_failed m \<and>
    dm_claim_skipped m' = dm_claim_skipped m \<and> dm_cycles m' = dm_cycles m + 1"
proof -
  let ?m = "m\<lparr>dm_cycles := dm_cycles m + 1\<rparr>"
  have batch: "0 \<le> dispatch_batch" "nat dispatch_batch = 100" by (simp_all add: dispatch_batch_def)
  obtain d1 ms where once: "dispatch_once X dispatch_batch c (?m, d) = Inr (fold (\<lambda>r m. join_metrics (joined_of r) (attempt m))
      (replicate (length ms) (Inr Delivered)) ?m, d1)"
    and ms: "length ms = min 100 (length (waiting d))" "set ms \<subseteq> set (waiting d)" "distinct (map pair_of ms)"
    and d1: "delivered_at (pair_of ` set ms) d d1" "deliverable X d1"
    using dispatch_once_delivers [OF d c batch(1), of ?m] unfolding batch(2) by blast
  let ?m1 = "?m\<lparr>dm_attempted := dm_attempted ?m + length ms, dm_delivered := dm_delivered ?m + length ms\<rparr>"
  obtain m' d' where rate: "dispatch_rate_once X dispatch_batch c (?m1, d1) = Inr (m', d')" "same_alerts ?m1 m'"
      "deliverable X d'" "waiting d' = waiting d1" "\<forall>k. ledger_view d' k = ledger_view d1 k"
    using dispatch_rate_once_frame [OF d1(2) batch(1), of c ?m1] by blast
  note left = waiting_after [OF d1(1) deliverableD(3) [OF d]]
  have dist: "distinct (map pair_of (waiting d))"
    using deliverableD(1,2) [OF d] by (rule pending_rows_distinct)
  have "length (waiting d') = length (waiting d) - 100"
    using left_after [OF dist ms(2,3)] ms(1) by (simp add: rate(4) left)
  moreover have "set (waiting d') \<subseteq> set (waiting d)"
    by (simp only: rate(4) left filter_is_subset)
  moreover have gone: "pair_of ` set (waiting d) - pair_of ` set (waiting d') = pair_of ` set ms"
    using ms(2) unfolding rate(4) left by auto
  have "ledger_view d' k = Sent \<longleftrightarrow> ledger_view d k = Sent \<or> k \<in> pair_of ` set ms" for k
    using delivered_at_view [OF d1(1), of k] unfolding rate(5) [THEN spec, of k] by (metis ledger.distinct(1))
  then have "\<forall>k. ledger_view d' k = Sent \<longleftrightarrow>
      ledger_view d k = Sent \<or> k \<in> pair_of ` set (waiting d) - pair_of ` set (waiting d')"
    unfolding gone by blast
  moreover have "\<forall>cs. dispatch_loop X (c # cs) (m, d) = dispatch_loop X cs (m', d')"
    by (simp only: dispatch_loop.simps once delivered_metrics bind_res_simps rate(1) simp_thms)
  moreover have "dm_delivered m' = dm_delivered m + min 100 (length (waiting d))" "dm_failed m' = dm_failed m"
      "dm_claim_skipped m' = dm_claim_skipped m" "dm_cycles m' = dm_cycles m + 1"
    using rate(2) ms(1) by (simp_all add: same_alerts_def)
  ultimately show ?thesis using rate(3) by blast
qed

section \<open>The loop delivers everything\<close>

text \<open>C11. With receivers that answer, no alert waits for ever and none is sent twice. If every
  subscription can be delivered to, no claim is held and every request is answered 2xx, then the loop
  never fails, and each cycle delivers the next 100 waiting alerts: after \<open>n\<close> cycles, whatever the
  times, the order of equal hashes and the order in which the tasks end, exactly the remaining ones wait, every other one is
  sent, and the number of successful deliveries is the number of alerts that no longer wait. In
  particular nothing is left after \<open>length (waiting d) div 100 + 1\<close> cycles.\<close>

theorem dispatcher_drains:
  assumes "deliverable X d" "\<forall>c\<in>set cs. answers_ok c"
  shows "\<exists>m' d'. dispatch_loop X cs (m, d) = Inr (m', d') \<and> deliverable X d' \<and>
    length (waiting d') = length (waiting d) - 100 * length cs \<and> set (waiting d') \<subseteq> set (waiting d) \<and>
    (\<forall>k. ledger_view d' k = Sent \<longleftrightarrow>
       ledger_view d k = Sent \<or> k \<in> pair_of ` set (waiting d) - pair_of ` set (waiting d')) \<and>
    dm_delivered m' = dm_delivered m + min (100 * length cs) (length (waiting d)) \<and>
    dm_failed m' = dm_failed m \<and> dm_claim_skipped m' = dm_claim_skipped m \<and>
    dm_cycles m' = dm_cycles m + length cs"
  using assms
proof (induction cs arbitrary: m d)
  case Nil
  then show ?case by (intro exI [of _ m] exI [of _ d]) simp
next
  case (Cons c cs)
  obtain m1 d1 where step: "\<forall>cs. dispatch_loop X (c # cs) (m, d) = dispatch_loop X cs (m1, d1)" "deliverable X d1"
    and len: "length (waiting d1) = length (waiting d) - 100" and sub: "set (waiting d1) \<subseteq> set (waiting d)"
    and view: "\<forall>k. ledger_view d1 k = Sent \<longleftrightarrow>
       ledger_view d k = Sent \<or> k \<in> pair_of ` set (waiting d) - pair_of ` set (waiting d1)"
    and count: "dm_delivered m1 = dm_delivered m + min 100 (length (waiting d))" "dm_failed m1 = dm_failed m"
      "dm_claim_skipped m1 = dm_claim_skipped m" "dm_cycles m1 = dm_cycles m + 1"
    using cycle_delivers [OF Cons.prems(1), of c m] Cons.prems(2) by auto
  have "\<forall>c\<in>set cs. answers_ok c" using Cons.prems(2) by simp
  from Cons.IH [OF step(2) this, of m1] obtain m' d' where
    run: "dispatch_loop X cs (m1, d1) = Inr (m', d')" "deliverable X d'"
      "length (waiting d') = length (waiting d1) - 100 * length cs" "set (waiting d') \<subseteq> set (waiting d1)"
    and view': "\<forall>k. ledger_view d' k = Sent \<longleftrightarrow>
       ledger_view d1 k = Sent \<or> k \<in> pair_of ` set (waiting d1) - pair_of ` set (waiting d')"
    and count': "dm_delivered m' = dm_delivered m1 + min (100 * length cs) (length (waiting d1))"
      "dm_failed m' = dm_failed m1" "dm_claim_skipped m' = dm_claim_skipped m1"
      "dm_cycles m' = dm_cycles m1 + length cs"
    by blast
  have "\<forall>k. ledger_view d' k = Sent \<longleftrightarrow>
       ledger_view d k = Sent \<or> k \<in> pair_of ` set (waiting d) - pair_of ` set (waiting d')"
    using view view' sub run(4) by blast
  moreover have "dm_delivered m' = dm_delivered m + min (100 * length (c # cs)) (length (waiting d))"
    unfolding count'(1) count(1) len by simp
  moreover have "length (waiting d') = length (waiting d) - 100 * length (c # cs)"
    unfolding run(3) len by simp
  moreover have "dispatch_loop X (c # cs) (m, d) = Inr (m', d')"
    unfolding step(1) [THEN spec, of cs] by (rule run(1))
  moreover have "dm_cycles m' = dm_cycles m + length (c # cs)"
    unfolding count'(4) count(4) by simp
  moreover have "dm_failed m' = dm_failed m" "dm_claim_skipped m' = dm_claim_skipped m"
    unfolding count'(2,3) by (rule count)+
  ultimately show ?case
    using run(2) subset_trans [OF run(4) sub] by blast
qed

lemma dispatcher_drains_witness:
  "\<exists>m' d'. dispatch_loop sample_ext
      [\<lparr>ci_time = 100, ci_ties = id, ci_claimed = \<lambda>_. 101, ci_recorded = \<lambda>_. 103, ci_rate_time = 104, ci_rate_recorded = \<lambda>_. 105, ci_order = rev, ci_rate_order = rev, ci_respond = \<lambda>_. Inr (200, [])\<rparr>]
      (zero_metrics, sample_service Map.empty) = Inr (m', d') \<and>
    waiting d' = [] \<and> dm_delivered m' = 1 \<and> ledger_view d' (1, ''t6'') = Sent"
proof -
  let ?d = "sample_service Map.empty"
    and ?c = "\<lparr>ci_time = 100, ci_ties = id, ci_claimed = \<lambda>_. 101, ci_recorded = \<lambda>_. 103, ci_rate_time = 104, ci_rate_recorded = \<lambda>_. 105, ci_order = rev, ci_rate_order = rev, ci_respond = \<lambda>_. Inr (200, [])\<rparr> :: cycle_input"
  have url: "sub_webhook_url sample_rate_sub = sub_webhook_url sample_sub" by (simp add: sample_rate_sub_def)
  have d: "deliverable sample_ext ?d"
    unfolding deliverable_def using sample_empty_ok sample_url_safe
    by (simp add: ledger_view_def text_ok_def char_code_def url) (simp add: sample_ext_def)
  have c: "\<forall>c\<in>set [?c]. answers_ok c" by (simp add: answers_ok_def)
  have w: "waiting ?d = [sm]"
    by (simp add: pending_rows_def sample_joined category_matches_def address_matches_def withheld_def sample_match_def)
  obtain m' d' where run: "dispatch_loop sample_ext [?c] (zero_metrics, ?d) = Inr (m', d')"
      "length (waiting d') = length [sm] - 100 * length [?c]"
      "dm_delivered m' = dm_delivered zero_metrics + min (100 * length [?c]) (length [sm])"
    and sent: "\<forall>k. ledger_view d' k = Sent \<longleftrightarrow>
       ledger_view ?d k = Sent \<or> k \<in> pair_of ` set [sm] - pair_of ` set (waiting d')"
    using dispatcher_drains [OF d c, of zero_metrics, unfolded w] by blast
  have empty: "waiting d' = []" using run(2) by simp
  then have "pair_of sm \<in> pair_of ` set [sm] - pair_of ` set (waiting d')" by simp
  then have "ledger_view d' (pair_of sm) = Sent" using sent by blast
  moreover have "pair_of sm = (1, ''t6'')" by (simp add: pair_of_def)
  moreover have "dm_delivered m' = 1" using run(3) by (simp add: zero_metrics_def)
  ultimately show ?thesis using run(1) empty by metis
qed

end
