(* ===== verification/Queries.thy ===== *)
theory Queries
  imports Ledger Abi "HOL-Library.Product_Lexorder"
begin

text \<open>
  The read statements of \<open>src/crates/db/src/queries.rs\<close> behind the API: pools, tokens and swaps;
  the list, the count and the time series of the failed transactions; the call trace of a
  transaction and its first failing frame; contract labels and the failures per label; the look-up
  of function signatures and diagnoses. Where the key of an \<open>ORDER BY\<close> is not unique, the order of
  the rows with equal keys is an argument of the query (\<open>order_by\<close> of \<open>Alerts_Db\<close>), so that two
  queries for two pages may differ in it. The statements over views and SQL functions are in \<open>Analytics\<close>. \<open>LOWER\<close> is applied to ASCII texts only.
\<close>

section \<open>The order of the categories\<close>

text \<open>PostgreSQL orders an enum by the order of its values: those of the first migration, then the
  four added later.\<close>

fun pg_rank :: "error_category \<Rightarrow> nat" where
  "pg_rank InsufficientBalance = 0"
| "pg_rank SlippageExceeded = 1"
| "pg_rank DeadlineExpired = 2"
| "pg_rank Unauthorized = 3"
| "pg_rank TransferFailed = 4"
| "pg_rank Unknown = 5"
| "pg_rank SlippageAmountOut = 6"
| "pg_rank SlippageAmountIn = 7"
| "pg_rank SlippagePriceImpact = 8"
| "pg_rank InsufficientAllowance = 9"

lemma pg_rank_inject: "pg_rank a = pg_rank b \<longleftrightarrow> a = b"
  by (cases a; cases b) simp_all

instantiation error_category :: linorder
begin

definition less_eq_error_category :: "error_category \<Rightarrow> error_category \<Rightarrow> bool" where
  "a \<le> b \<longleftrightarrow> pg_rank a \<le> pg_rank b"

definition less_error_category :: "error_category \<Rightarrow> error_category \<Rightarrow> bool" where
  "a < b \<longleftrightarrow> pg_rank a < pg_rank b"

instance
  by standard (auto simp: less_eq_error_category_def less_error_category_def pg_rank_inject)

end

section \<open>Pools, tokens and swaps\<close>

text \<open>A text parameter with a NUL character is refused by the server.\<close>

definition text_param :: "string \<Rightarrow> 'r \<Rightarrow> db_error + 'r" where
  "text_param s r = (if text_ok s then Inr r else Inl (Sqlx ''invalid byte sequence''))"

definition fetch_one :: "string \<Rightarrow> 'r option \<Rightarrow> db_error + 'r" where
  "fetch_one msg r = (case r of Some x \<Rightarrow> Inr x | None \<Rightarrow> Inl (DbNotFound msg))"

definition list_pools :: "tie_order \<Rightarrow> int \<Rightarrow> int \<Rightarrow> 'a chain_db_scheme \<Rightarrow> db_error + pool list" where
  "list_pools r lim offset d = page lim offset (order_by r (\<lambda>p. - pool_created_at p) (db_pools d))"

definition get_pool_by_address :: "string \<Rightarrow> 'a chain_db_scheme \<Rightarrow> db_error + pool" where
  "get_pool_by_address address d =
     bind_res (text_param address (find (\<lambda>p. pool_address p = address) (db_pools d)))
       (fetch_one (''pool '' @ address))"

text \<open>The order of the texts is that of the collation of the database.\<close>

definition list_tokens ::
    "(string \<Rightarrow> 'k::linorder) \<Rightarrow> tie_order \<Rightarrow> int \<Rightarrow> int \<Rightarrow> 'a chain_db_scheme \<Rightarrow> db_error + token list" where
  "list_tokens collate r lim offset d =
     page lim offset (order_by r (\<lambda>t. collate (tok_symbol t)) (db_tokens d))"

definition get_token_by_address :: "string \<Rightarrow> 'a chain_db_scheme \<Rightarrow> db_error + token" where
  "get_token_by_address address d =
     bind_res (text_param address (find (\<lambda>t. tok_address t = address) (db_tokens d)))
       (fetch_one (''token '' @ address))"

definition list_swap_events ::
    "tie_order \<Rightarrow> string option \<Rightarrow> int \<Rightarrow> int \<Rightarrow> 'a chain_db_scheme \<Rightarrow> db_error + swap_event list" where
  "list_swap_events r pool lim offset d =
     (if \<not> opt_ok text_ok pool then Inl (Sqlx ''invalid byte sequence'')
      else page lim offset (order_by r (\<lambda>s. - sw_timestamp s)
        (filter (\<lambda>s. pool = None \<or> pool = Some (sw_pool_address s)) (db_swaps d))))"

definition get_swap_events_by_block :: "int \<Rightarrow> 'a chain_db_scheme \<Rightarrow> swap_event list" where
  "get_swap_events_by_block n d = sort_key sw_event_id
     (filter (\<lambda>s. \<exists>t\<in>set (db_txs d). tx_hash t = sw_tx_hash s \<and> tx_block_number t = n) (db_swaps d))"

section \<open>Failed transactions\<close>

definition get_failed_transaction :: "string \<Rightarrow> 'a chain_db_scheme \<Rightarrow> db_error + failed_transaction" where
  "get_failed_transaction h d =
     bind_res (text_param h (find (\<lambda>f. ft_tx_hash f = h) (db_failed d)))
       (fetch_one (''failed transaction '' @ h))"

definition traces_of :: "string \<Rightarrow> 'a chain_db_scheme \<Rightarrow> trace_log list" where
  "traces_of h d = sort_key tl_trace_id (filter (\<lambda>t. tl_tx_hash t = h) (db_traces d))"

definition list_trace_logs_by_tx :: "string \<Rightarrow> int \<Rightarrow> 'a chain_db_scheme \<Rightarrow> db_error + trace_log list" where
  "list_trace_logs_by_tx h lim d = bind_res (text_param h (traces_of h d)) (page lim 0)"

definition get_first_error_frame :: "string \<Rightarrow> 'a chain_db_scheme \<Rightarrow> db_error + trace_log option" where
  "get_first_error_frame h d =
     text_param h (case sort_key tl_trace_id (filter (\<lambda>t. tl_tx_hash t = h \<and> tl_error t \<noteq> None) (db_traces d)) of
       [] \<Rightarrow> None | t # _ \<Rightarrow> Some t)"

definition in_period :: "timestamp option \<Rightarrow> timestamp option \<Rightarrow> timestamp \<Rightarrow> bool" where
  "in_period since until t \<longleftrightarrow> (case since of None \<Rightarrow> True | Some a \<Rightarrow> a \<le> t) \<and>
     (case until of None \<Rightarrow> True | Some b \<Rightarrow> t \<le> b)"

definition failed_where :: "error_category option \<Rightarrow> timestamp option \<Rightarrow> timestamp option \<Rightarrow>
    'a chain_db_scheme \<Rightarrow> failed_transaction list" where
  "failed_where cat since until d = filter (\<lambda>f. (cat = None \<or> cat = Some (ft_error_category f)) \<and>
     in_period since until (ft_timestamp f)) (db_failed d)"

definition list_failed_transactions :: "tie_order \<Rightarrow> error_category option \<Rightarrow> timestamp option \<Rightarrow>
    timestamp option \<Rightarrow> int \<Rightarrow> int \<Rightarrow> 'a chain_db_scheme \<Rightarrow> db_error + failed_transaction list" where
  "list_failed_transactions r cat since until lim offset d =
     page lim offset (order_by r (\<lambda>f. - ft_timestamp f) (failed_where cat since until d))"

definition count_failed_transactions :: "error_category option \<Rightarrow> timestamp option \<Rightarrow>
    timestamp option \<Rightarrow> 'a chain_db_scheme \<Rightarrow> int" where
  "count_failed_transactions cat since until d = int (length (failed_where cat since until d))"

text \<open>\<open>date_trunc\<close> in a session whose time zone is UTC, the server's default; weeks start on Monday,
  and the epoch is a Thursday.\<close>

fun date_trunc :: "time_bucket \<Rightarrow> timestamp \<Rightarrow> timestamp" where
  "date_trunc Hour t = t div seconds 3600 * seconds 3600"
| "date_trunc Day t = t div seconds 86400 * seconds 86400"
| "date_trunc Week t = (t + seconds 259200) div seconds 604800 * seconds 604800 - seconds 259200"

record failed_tx_trend_point =
  tp_bucket :: timestamp
  tp_error_category :: error_category
  tp_failure_count :: int

definition trend_keys :: "time_bucket \<Rightarrow> failed_transaction list \<Rightarrow> (timestamp \<times> error_category) list" where
  "trend_keys bucket fs = map (\<lambda>f. (date_trunc bucket (ft_timestamp f), ft_error_category f)) fs"

definition failed_tx_timeseries :: "time_bucket \<Rightarrow> timestamp option \<Rightarrow> timestamp option \<Rightarrow>
    'a chain_db_scheme \<Rightarrow> failed_tx_trend_point list" where
  "failed_tx_timeseries bucket since until d =
     (let keys = trend_keys bucket (failed_where None since until d) in
      map (\<lambda>(b, c). \<lparr>tp_bucket = b, tp_error_category = c, tp_failure_count = int (count_list keys (b, c))\<rparr>)
        (sort (remdups keys)))"

section \<open>Contract labels\<close>

definition label_row_ok :: "contract_label \<Rightarrow> bool" where
  "label_row_ok l = (text_ok (cl_address l) \<and> text_ok (cl_label l) \<and> opt_ok text_ok (cl_owner_id l))"

definition insert_contract_label ::
    "timestamp \<Rightarrow> string \<Rightarrow> string \<Rightarrow> string option \<Rightarrow> service_db \<Rightarrow> db_error + service_db" where
  "insert_contract_label now address label owner d =
     (let l = \<lparr>cl_address = to_ascii_lowercase address, cl_label = label, cl_owner_id = owner,
               cl_created_at = now\<rparr> in
      if \<not> label_row_ok l then Inl (Sqlx ''invalid byte sequence'')
      else if cl_address l \<in> set (map cl_address (db_labels d)) then Inr d
      else Inr (d\<lparr>db_labels := db_labels d @ [l]\<rparr>))"

definition upsert_contract_label :: "timestamp \<Rightarrow> string \<Rightarrow> string \<Rightarrow> string option \<Rightarrow> service_db \<Rightarrow>
    db_error + contract_label \<times> service_db" where
  "upsert_contract_label now address label owner d =
     (let l = \<lparr>cl_address = to_ascii_lowercase address, cl_label = label, cl_owner_id = owner,
               cl_created_at = now\<rparr>;
          upd = (\<lambda>r. r\<lparr>cl_label := label, cl_owner_id := owner\<rparr>) in
      if \<not> label_row_ok l then Inl (Sqlx ''invalid byte sequence'')
      else case find (\<lambda>r. cl_address r = cl_address l) (db_labels d) of
             None \<Rightarrow> Inr (l, d\<lparr>db_labels := db_labels d @ [l]\<rparr>)
           | Some r \<Rightarrow> Inr (upd r, d\<lparr>db_labels :=
                 map (\<lambda>x. if cl_address x = cl_address l then upd x else x) (db_labels d)\<rparr>))"

definition delete_contract_label :: "string \<Rightarrow> service_db \<Rightarrow> db_error + nat \<times> service_db" where
  "delete_contract_label address d =
     (let P = (\<lambda>l. cl_address l = to_ascii_lowercase address) in
      text_param address (length (filter P (db_labels d)),
        d\<lparr>db_labels := filter (\<lambda>l. \<not> P l) (db_labels d)\<rparr>))"

definition list_contract_labels ::
    "tie_order \<Rightarrow> string option \<Rightarrow> int \<Rightarrow> service_db \<Rightarrow> db_error + contract_label list" where
  "list_contract_labels r owner lim d =
     (if \<not> opt_ok text_ok owner then Inl (Sqlx ''invalid byte sequence'')
      else page lim 0 (order_by r (\<lambda>l. - cl_created_at l)
        (filter (\<lambda>l. owner = None \<or> owner = cl_owner_id l) (db_labels d))))"

section \<open>Failures per label\<close>

text \<open>The rows of the join, each as its group.\<close>

definition failures_to :: "timestamp option \<Rightarrow> timestamp option \<Rightarrow> 'a chain_db_scheme \<Rightarrow> string \<Rightarrow>
    failed_transaction list" where
  "failures_to since until d a = [f. t \<leftarrow> db_txs d, tx_to_addr t = Some a, f \<leftarrow> db_failed d,
     ft_tx_hash f = tx_hash t \<and> in_period since until (ft_timestamp f)]"

definition label_rows :: "string option \<Rightarrow> timestamp option \<Rightarrow> timestamp option \<Rightarrow> service_db \<Rightarrow>
    ((string \<times> string) \<times> string) list" where
  "label_rows owner since until d =
     [((cl_label cl, cl_address cl), as_wire (ft_error_category f)).
        cl \<leftarrow> db_labels d, owner = None \<or> owner = cl_owner_id cl, f \<leftarrow> failures_to since until d (cl_address cl)]"

definition label_counts :: "((string \<times> string) \<times> string) list \<Rightarrow>
    (((string \<times> string) \<times> string) \<times> int) list" where
  "label_counts rows = map (\<lambda>k. (k, int (count_list rows k))) (remdups rows)"

text \<open>The pivot in Rust: a \<open>HashMap\<close> from label and address to the total and the counts.\<close>

fun pivot :: "(((string \<times> string) \<times> string) \<times> int) list \<Rightarrow>
    (string \<times> string \<rightharpoonup> int \<times> (string \<rightharpoonup> int)) \<Rightarrow> (string \<times> string \<rightharpoonup> int \<times> (string \<rightharpoonup> int))" where
  "pivot [] groups = groups"
| "pivot (((key, cat), cnt) # rs) groups =
     (let (acc, by_cat) = (case groups key of None \<Rightarrow> (0, Map.empty) | Some e \<Rightarrow> e) in
      pivot rs (groups(key \<mapsto> (acc + cnt, by_cat(cat \<mapsto> cnt)))))"

text \<open>\<open>iter\<close> is the order in which the \<open>HashMap\<close> is iterated; the sort is stable.\<close>

definition failed_tx_by_label_aggregate :: "((string \<times> string) list \<Rightarrow> (string \<times> string) list) \<Rightarrow>
    string option \<Rightarrow> timestamp option \<Rightarrow> timestamp option \<Rightarrow> int \<Rightarrow> service_db \<Rightarrow>
    db_error + failed_tx_by_label_point list" where
  "failed_tx_by_label_aggregate iter owner since until lim d =
     (if \<not> opt_ok text_ok owner then Inl (Sqlx ''invalid byte sequence'')
      else let rows = label_rows owner since until d;
               groups = pivot (label_counts rows) Map.empty;
               out = List.map_filter (\<lambda>k. map_option (\<lambda>(n, by_cat).
                       \<lparr>bl_label = fst k, bl_address = snd k, bl_total_failures = n, bl_by_category = by_cat\<rparr>)
                       (groups k)) (iter (remdups (map fst rows)));
               sorted_out = sort_key (\<lambda>p. - bl_total_failures p) out
           in Inr (if 0 < lim then take (nat lim) sorted_out else sorted_out))"

section \<open>Look-ups\<close>

definition get_category_diagnosis :: "string \<Rightarrow> service_db \<Rightarrow> category_diagnosis option" where
  "get_category_diagnosis wire d = find (\<lambda>c. cd_error_category c = wire) (db_diagnoses d)"

definition get_function_signature :: "string \<Rightarrow> service_db \<Rightarrow> db_error + function_signature option" where
  "get_function_signature selector d =
     text_param selector (find (\<lambda>s. fs_selector s = to_ascii_lowercase selector) (db_signatures d))"

record decoded_function =
  df_selector :: string
  df_name :: string
  df_signature :: string
  df_source :: "string option"
  df_args :: "decoded_arg list option"

definition decoded_function_from :: "function_signature \<Rightarrow> decoded_function" where
  "decoded_function_from fs = \<lparr>df_selector = fs_selector fs, df_name = fs_name fs,
     df_signature = fs_signature fs, df_source = fs_source fs, df_args = None\<rparr>"

section \<open>Buckets of the time series\<close>

fun bucket_width :: "time_bucket \<Rightarrow> timestamp" where
  "bucket_width Hour = seconds 3600"
| "bucket_width Day = seconds 86400"
| "bucket_width Week = seconds 604800"

lemma div_mult_interval:
  fixes t w :: int
  assumes "0 < w"
  shows "t div w * w \<le> t \<and> t < t div w * w + w"
proof -
  have "t div w * w + t mod w = t" "0 \<le> t mod w" "t mod w < w"
    using assms by simp_all
  then show ?thesis by linarith
qed

lemma date_trunc_bounds: "date_trunc b t \<le> t \<and> t < date_trunc b t + bucket_width b"
  using div_mult_interval [of "seconds 3600" t] div_mult_interval [of "seconds 86400" t]
    div_mult_interval [of "seconds 604800" "t + seconds 259200"]
  by (cases b) (simp_all add: seconds_def)

lemma div_mult_unique:
  fixes t w k :: int
  assumes "0 < w" "k * w \<le> t" "t < k * w + w"
  shows "t div w = k"
proof -
  have "t div w = (k * w + (t - k * w)) div w" by simp
  also have "\<dots> = k + (t - k * w) div w"
    using assms(1) by (simp only: div_mult_self3)
  also have "(t - k * w) div w = 0"
    using assms by (intro div_pos_pos_trivial) simp_all
  finally show ?thesis by simp
qed

lemma date_trunc_same:
  "date_trunc b t = date_trunc b u \<longleftrightarrow> date_trunc b u \<le> t \<and> t < date_trunc b u + bucket_width b"
proof
  assume "date_trunc b t = date_trunc b u"
  with date_trunc_bounds [of b t] show "date_trunc b u \<le> t \<and> t < date_trunc b u + bucket_width b"
    by simp
next
  assume "date_trunc b u \<le> t \<and> t < date_trunc b u + bucket_width b"
  then show "date_trunc b t = date_trunc b u"
    using div_mult_unique [of "seconds 3600" "u div seconds 3600" t]
      div_mult_unique [of "seconds 86400" "u div seconds 86400" t]
      div_mult_unique [of "seconds 604800" "(u + seconds 259200) div seconds 604800" "t + seconds 259200"]
    by (cases b) (simp_all add: seconds_def)
qed

lemma count_list_map: "count_list (map f xs) k = length (filter (\<lambda>x. f x = k) xs)"
  by (induction xs) auto

lemma sum_counts: "sum_list (map (\<lambda>k. int (count_list ks k)) (remdups ks)) = int (length ks)"
proof -
  have "sum_list (map (\<lambda>k. int (count_list ks k)) (remdups ks)) = (\<Sum>k\<in>set ks. int (count_list ks k))"
    by (simp add: sum_list_distinct_conv_sum_set)
  also have "\<dots> = int (\<Sum>k\<in>set ks. count_list ks k)"
    by simp
  also have "\<dots> = int (length ks)"
    by (simp add: sum_count_set)
  finally show ?thesis .
qed

lemma sorted_remdups_strict: "sorted_wrt (<) (sort (remdups ks))"
  by (simp add: strict_sorted_iff)

lemma timeseries_keys:
  "map (\<lambda>p. (tp_bucket p, tp_error_category p)) (failed_tx_timeseries b since until d) =
     sort (remdups (trend_keys b (failed_where None since until d)))"
  by (simp add: failed_tx_timeseries_def Let_def comp_def split_def)

lemma timeseries_counts:
  "map tp_failure_count (failed_tx_timeseries b since until d) =
     map (\<lambda>k. int (count_list (trend_keys b (failed_where None since until d)) k))
       (sort (remdups (trend_keys b (failed_where None since until d))))"
  by (simp add: failed_tx_timeseries_def Let_def comp_def split_def)

lemma timeseries_point:
  assumes "p \<in> set (failed_tx_timeseries b since until d)"
  shows "0 < tp_failure_count p \<and> tp_failure_count p = int (length (filter (\<lambda>f.
           ft_error_category f = tp_error_category p \<and> tp_bucket p \<le> ft_timestamp f \<and>
           ft_timestamp f < tp_bucket p + bucket_width b) (failed_where None since until d)))"
proof -
  let ?fs = "failed_where None since until d"
  from assms have "(tp_bucket p, tp_error_category p) \<in> set (trend_keys b ?fs)"
      and n: "tp_failure_count p = int (count_list (trend_keys b ?fs) (tp_bucket p, tp_error_category p))"
    by (auto simp: failed_tx_timeseries_def Let_def)
  then obtain g where g: "g \<in> set ?fs" "tp_bucket p = date_trunc b (ft_timestamp g)"
      "tp_error_category p = ft_error_category g"
    by (auto simp: trend_keys_def)
  have eq: "count_list (trend_keys b ?fs) (tp_bucket p, tp_error_category p) = length (filter (\<lambda>f.
      ft_error_category f = tp_error_category p \<and> tp_bucket p \<le> ft_timestamp f \<and>
      ft_timestamp f < tp_bucket p + bucket_width b) ?fs)"
    unfolding trend_keys_def count_list_map
    by (intro arg_cong [of _ _ length] filter_cong) (auto simp: g(2,3) date_trunc_same)
  have "g \<in> set (filter (\<lambda>f. ft_error_category f = tp_error_category p \<and>
      tp_bucket p \<le> ft_timestamp f \<and> ft_timestamp f < tp_bucket p + bucket_width b) ?fs)"
    using g date_trunc_bounds [of b "ft_timestamp g"] by simp
  from length_pos_if_in_set [OF this] show ?thesis
    unfolding n eq by (simp only: of_nat_0_less_iff simp_thms)
qed

lemma timeseries_sum: "sum_list (map tp_failure_count (failed_tx_timeseries b since until d)) =
    count_failed_transactions None since until d"
proof -
  let ?ks = "trend_keys b (failed_where None since until d)"
  have "mset (map (\<lambda>k. int (count_list ?ks k)) (sort (remdups ?ks))) =
      mset (map (\<lambda>k. int (count_list ?ks k)) (remdups ?ks))"
    by simp
  then have "sum_list (map (\<lambda>k. int (count_list ?ks k)) (sort (remdups ?ks))) =
      sum_list (map (\<lambda>k. int (count_list ?ks k)) (remdups ?ks))"
    by (metis sum_mset_sum_list)
  then show ?thesis
    by (simp add: timeseries_counts sum_counts count_failed_transactions_def) (simp add: trend_keys_def)
qed

section \<open>Properties\<close>

text \<open>One page of the list, and the order of the timestamps: newest first.\<close>

abbreviation newest :: "failed_transaction \<Rightarrow> int" where
  "newest f \<equiv> - ft_timestamp f"

lemma failed_page:
  assumes "0 < lim"
  shows "list_failed_transactions r cat since until lim (int i * lim) d =
    Inr (page_rows (\<lambda>_. r) newest (nat lim) (failed_where cat since until d) i)"
  using assms by (simp add: list_failed_transactions_def page_def page_rows_def nat_mult_distrib mult_less_0_iff)

lemma newest_sorted: "map uminus (sort (map newest fs)) = rev (sort (map ft_timestamp fs))"
proof -
  have "sort (map newest fs) = map uminus (rev (sort (map ft_timestamp fs)))"
  proof (rule properties_for_sort)
    have "sorted (sort (map ft_timestamp fs))" by simp
    then show "sorted (map uminus (rev (sort (map ft_timestamp fs))))"
      by (simp add: sorted_map sorted_wrt_rev del: sorted_sort)
  qed (simp add: image_mset.compositionality comp_def)
  then show ?thesis by (simp add: comp_def)
qed

text \<open>What the pages show, whatever the order of equal timestamps in each of them.\<close>

lemma newest_pages:
  "map ft_timestamp (read_pages ties newest L fs n) = take (n * L) (rev (sort (map ft_timestamp fs)))"
  "mset (page_rows ties newest L fs i) \<subseteq># mset fs"
  "length fs \<le> n * L \<Longrightarrow> f \<in> set fs \<Longrightarrow> length (filter (\<lambda>g. ft_timestamp g = ft_timestamp f) fs) = 1 \<Longrightarrow>
     filter (\<lambda>g. ft_timestamp g = ft_timestamp f) (read_pages ties newest L fs n) = [f]"
  "length fs \<le> n * L \<Longrightarrow> distinct (map ft_timestamp fs) \<or> n = 1 \<Longrightarrow>
     mset (read_pages ties newest L fs n) = mset fs"
proof -
  let ?ps = "read_pages ties newest L fs n"
  have "map ft_timestamp ?ps = map uminus (map newest ?ps)" by (simp add: comp_def)
  also have "\<dots> = take (n * L) (map uminus (sort (map newest fs)))"
    by (simp only: read_pages_keys take_map)
  finally show "map ft_timestamp ?ps = take (n * L) (rev (sort (map ft_timestamp fs)))"
    by (simp only: newest_sorted)
  show "mset (page_rows ties newest L fs i) \<subseteq># mset fs"
    using mset_piece [of L "i * L" "order_by (ties i) newest fs"] by (simp only: page_rows_def mset_order_by)
  show "filter (\<lambda>g. ft_timestamp g = ft_timestamp f) ?ps = [f]"
    if "length fs \<le> n * L" "f \<in> set fs" "length (filter (\<lambda>g. ft_timestamp g = ft_timestamp f) fs) = 1"
    using read_pages_once [of f fs newest n L ties] that by simp
  assume long: "length fs \<le> n * L" and "distinct (map ft_timestamp fs) \<or> n = 1"
  then consider "inj_on newest (set fs)" | "n = 1"
    by (auto simp: distinct_map inj_on_def)
  then show "mset ?ps = mset fs"
  proof cases
    case 1
    from read_pages_unique [OF this] long show ?thesis by simp
  next
    case 2
    with long show ?thesis by (simp add: read_pages_def page_rows_def)
  qed
qed

text \<open>C26. The list, the count and the time series of the failed transactions agree. Read page after
  page of any size, where PostgreSQL may order the failures of equal timestamps differently for every
  query: the pages hold failures of the filter, their timestamps are those of all of them newest
  first, no failure is more often on a page than in the table, and once \<open>n\<close> pages reach the count,
  every failure whose timestamp no other has is on exactly one page, once; without equal timestamps
  the pages are the sorted failures, and one page that takes in the count has every failure in any
  case. The points of the time series are in order, one per bucket and category, each counts the
  failures of its category in its time interval and is not zero, and together they count every
  failure of the period.\<close>

theorem failed_tx_reports_agree:
  assumes "0 < lim"
  shows "(let rows = failed_where cat since until d; total = count_failed_transactions cat since until d in
      \<exists>pages. map (\<lambda>i. list_failed_transactions (ties i) cat since until lim (int i * lim) d) [0..<n] =
          map Inr pages \<and>
        map ft_timestamp (concat pages) = take (n * nat lim) (rev (sort (map ft_timestamp rows))) \<and>
        (\<forall>p\<in>set pages. mset p \<subseteq># mset rows) \<and> total = int (length rows) \<and>
        (total \<le> int n * lim \<longrightarrow>
          (\<forall>f\<in>set rows. length (filter (\<lambda>g. ft_timestamp g = ft_timestamp f) rows) = 1 \<longrightarrow>
             filter (\<lambda>g. ft_timestamp g = ft_timestamp f) (concat pages) = [f]) \<and>
          (distinct (map ft_timestamp rows) \<or> n = 1 \<longrightarrow> mset (concat pages) = mset rows))) \<and>
    sorted_wrt (<) (map (\<lambda>p. (tp_bucket p, tp_error_category p)) (failed_tx_timeseries b since until d)) \<and>
    (\<forall>p\<in>set (failed_tx_timeseries b since until d). 0 < tp_failure_count p \<and>
      tp_failure_count p = int (length (filter (\<lambda>f. ft_error_category f = tp_error_category p \<and>
        tp_bucket p \<le> ft_timestamp f \<and> ft_timestamp f < tp_bucket p + bucket_width b)
        (failed_where None since until d)))) \<and>
    sum_list (map tp_failure_count (failed_tx_timeseries b since until d)) =
      count_failed_transactions None since until d"
proof -
  let ?rows = "failed_where cat since until d"
  let ?pages = "map (page_rows ties newest (nat lim) ?rows) [0..<n]"
  have read: "map (\<lambda>i. list_failed_transactions (ties i) cat since until lim (int i * lim) d) [0..<n] = map Inr ?pages"
    using failed_page [OF assms, of _ cat since until _ d] by (simp add: page_rows_def)
  have all: "concat ?pages = read_pages ties newest (nat lim) ?rows n"
    by (simp only: read_pages_def)
  have total: "count_failed_transactions cat since until d = int (length ?rows)"
    by (simp only: count_failed_transactions_def)
  have long: "length ?rows \<le> n * nat lim" if "int (length ?rows) \<le> int n * lim"
  proof -
    have "int n * lim = int (n * nat lim)" using assms by simp
    with that show ?thesis by (simp only: of_nat_le_iff)
  qed
  have parts: "\<forall>p\<in>set ?pages. mset p \<subseteq># mset ?rows"
    using newest_pages(2) by (auto simp del: mset_subset_eq_multiset_union_diff_commute)
  have pages: "let rows = ?rows; total = count_failed_transactions cat since until d in
      \<exists>pages. map (\<lambda>i. list_failed_transactions (ties i) cat since until lim (int i * lim) d) [0..<n] =
          map Inr pages \<and>
        map ft_timestamp (concat pages) = take (n * nat lim) (rev (sort (map ft_timestamp rows))) \<and>
        (\<forall>p\<in>set pages. mset p \<subseteq># mset rows) \<and> total = int (length rows) \<and>
        (total \<le> int n * lim \<longrightarrow>
          (\<forall>f\<in>set rows. length (filter (\<lambda>g. ft_timestamp g = ft_timestamp f) rows) = 1 \<longrightarrow>
             filter (\<lambda>g. ft_timestamp g = ft_timestamp f) (concat pages) = [f]) \<and>
          (distinct (map ft_timestamp rows) \<or> n = 1 \<longrightarrow> mset (concat pages) = mset rows))"
    unfolding Let_def total
    by (intro exI [of _ ?pages] conjI impI ballI, rule read, unfold all,
        rule newest_pages(1), rule parts [THEN bspec], assumption, rule refl,
        (rule newest_pages(3); use long in blast), (rule newest_pages(4); use long in blast))
  have order: "sorted_wrt (<) (map (\<lambda>p. (tp_bucket p, tp_error_category p)) (failed_tx_timeseries b since until d))"
    unfolding timeseries_keys by (rule sorted_remdups_strict)
  show ?thesis
    by (intro conjI) (rule pages, rule order, rule ballI, erule timeseries_point, rule timeseries_sum)
qed

section \<open>The report per label\<close>

definition entries :: "'k \<Rightarrow> (('k \<times> 'c) \<times> int) list \<Rightarrow> ('c \<times> int) list" where
  "entries key rs = map (\<lambda>r. (snd (fst r), snd r)) (filter (\<lambda>r. fst (fst r) = key) rs)"

lemma entries_simps [simp]:
  "entries key [] = []"
  "entries key (((k, c), n) # rs) = (if k = key then (c, n) # entries key rs else entries key rs)"
  by (simp_all add: entries_def)

lemma entries_member: "c \<in> fst ` set (entries key rs) \<longleftrightarrow> (key, c) \<in> fst ` set rs"
  by (force simp: entries_def)

lemma entries_distinct: "distinct (map fst rs) \<Longrightarrow> distinct (map fst (entries key rs))"
proof (induction rs)
  case (Cons r rs)
  obtain k c n where "r = ((k, c), n)" by (metis surj_pair)
  with Cons show ?case by (cases "k = key") (simp_all add: entries_member)
qed simp

lemma pivot_entries:
  "distinct (map fst rs) \<Longrightarrow> pivot rs g key =
     (if entries key rs = [] then g key
      else Some (fst (case g key of None \<Rightarrow> (0, Map.empty) | Some e \<Rightarrow> e) + sum_list (map snd (entries key rs)),
                 snd (case g key of None \<Rightarrow> (0, Map.empty) | Some e \<Rightarrow> e) ++ map_of (entries key rs)))"
proof (induction rs arbitrary: g)
  case (Cons r rs)
  obtain k c n where r: "r = ((k, c), n)" by (metis surj_pair)
  obtain t bc where e: "(case g k of None \<Rightarrow> (0, Map.empty) | Some e \<Rightarrow> e) = (t, bc)"
    by (metis surj_pair)
  have d: "distinct (map fst rs)" and new: "(k, c) \<notin> set (map fst rs)"
    using Cons.prems by (simp_all add: r)
  from new have "c \<notin> dom (map_of (entries k rs))"
    by (simp add: dom_map_of_conv_image_fst entries_member)
  then have upd: "bc(c \<mapsto> n) ++ map_of (entries k rs) = bc ++ (map_of (entries k rs))(c \<mapsto> n)"
    by (simp add: map_add_upd_left)
  define g' where "g' = g(k \<mapsto> (t + n, bc(c \<mapsto> n)))"
  have step: "pivot (r # rs) g = pivot rs g'"
    by (simp add: r e g'_def)
  have val: "g' key = (if key = k then Some (t + n, bc(c \<mapsto> n)) else g key)"
    by (simp add: g'_def)
  show ?case
  proof (cases "key = k")
    case True
    with upd e show ?thesis
      unfolding step Cons.IH [OF d] val by (simp add: r)
  next
    case False
    then show ?thesis
      unfolding step Cons.IH [OF d] val by (simp add: r)
  qed
qed simp

text \<open>The group of a key: how many rows it has, and how many of each category.\<close>

lemma entries_counts:
  "entries key (label_counts rows) =
     map (\<lambda>c. (c, int (count_list rows (key, c)))) (map snd (remdups (filter (\<lambda>r. fst r = key) rows)))"
  by (simp add: entries_def label_counts_def comp_def filter_map remdups_filter)

lemma label_group:
  assumes "key \<in> set (map fst rows)"
  shows "pivot (label_counts rows) Map.empty key =
     Some (int (length (filter (\<lambda>r. fst r = key) rows)),
           \<lambda>c. if (key, c) \<in> set rows then Some (int (count_list rows (key, c))) else None)"
proof -
  let ?own = "filter (\<lambda>r. fst r = key) rows"
  have d: "distinct (map fst (label_counts rows))"
    by (simp add: label_counts_def comp_def)
  have own: "r \<in> set (remdups ?own) \<Longrightarrow> count_list rows (key, snd r) = count_list ?own r" for r
    by (cases r) (auto simp: count_list_eq_length_filter conj_commute intro!: arg_cong [of _ _ length] filter_cong)
  have "sum_list (map snd (entries key (label_counts rows))) =
      sum_list (map (\<lambda>r. int (count_list ?own r)) (remdups ?own))"
    unfolding entries_counts by (intro arg_cong [of _ _ sum_list]) (simp add: own)
  also have "\<dots> = int (length ?own)"
    by (rule sum_counts)
  finally have s: "sum_list (map snd (entries key (label_counts rows))) = int (length ?own)" .
  have "map_of (entries key (label_counts rows)) c =
      (if (key, c) \<in> set rows then Some (int (count_list rows (key, c))) else None)" for c
    unfolding entries_counts map_of_map_restrict restrict_map_def by force
  then have "map_of (entries key (label_counts rows)) =
      (\<lambda>c. if (key, c) \<in> set rows then Some (int (count_list rows (key, c))) else None)" by blast
  moreover have "entries key (label_counts rows) \<noteq> []"
    using assms by (auto simp: entries_counts filter_empty_conv)
  ultimately show ?thesis
    using s by (simp add: pivot_entries [OF d])
qed

text \<open>What the report is about: the failed transactions of the period that were sent to an address.\<close>

definition failures_at :: "timestamp option \<Rightarrow> timestamp option \<Rightarrow> 'a chain_db_scheme \<Rightarrow> string \<Rightarrow>
    failed_transaction set" where
  "failures_at since until d a = {f \<in> set (db_failed d). in_period since until (ft_timestamp f) \<and>
     (\<exists>t\<in>set (db_txs d). tx_hash t = ft_tx_hash f \<and> tx_to_addr t = Some a)}"

lemma set_failures_to: "set (failures_to since until d a) = failures_at since until d a"
  by (auto simp: failures_to_def failures_at_def)

lemma distinct_failures_to:
  assumes "distinct (map tx_hash (db_txs d))" "distinct (map ft_tx_hash (db_failed d))"
  shows "distinct (failures_to since until d a)"
proof -
  let ?of = "\<lambda>t. filter (\<lambda>f. ft_tx_hash f = tx_hash t \<and> in_period since until (ft_timestamp f)) (db_failed d)"
  have "distinct (db_failed d)"
    using assms(2) by (simp add: distinct_map)
  then have "distinct (concat (map (\<lambda>t. if tx_to_addr t = Some a then ?of t else []) ts))"
    if "distinct (map tx_hash ts)" for ts
    using that
  proof (induction ts)
    case (Cons t ts)
    have "ft_tx_hash f \<noteq> tx_hash t"
      if "f \<in> set (concat (map (\<lambda>t. if tx_to_addr t = Some a then ?of t else []) ts))" for f
    proof -
      from that obtain u where "u \<in> set ts" "ft_tx_hash f = tx_hash u" by auto
      moreover have "tx_hash t \<notin> tx_hash ` set ts" using Cons.prems by simp
      ultimately show ?thesis by (metis imageI)
    qed
    then have "set (?of t) \<inter> set (concat (map (\<lambda>t. if tx_to_addr t = Some a then ?of t else []) ts)) = {}"
      by fastforce
    with Cons show ?case by (simp split: if_splits)
  qed simp
  from this [OF assms(1)] show ?thesis
    by (simp add: failures_to_def concat_if_filter cong: if_cong)
qed

abbreviation label_key :: "contract_label \<Rightarrow> string \<times> string" where
  "label_key cl \<equiv> (cl_label cl, cl_address cl)"

abbreviation owned :: "string option \<Rightarrow> contract_label \<Rightarrow> bool" where
  "owned owner cl \<equiv> owner = None \<or> owner = cl_owner_id cl"

lemma label_rows_of:
  assumes "distinct (map cl_address (db_labels d))" "cl \<in> set (db_labels d)" "owned owner cl"
  shows "filter (\<lambda>r. fst r = label_key cl) (label_rows owner since until d) =
    map (\<lambda>f. (label_key cl, as_wire (ft_error_category f))) (failures_to since until d (cl_address cl))"
proof -
  define g where "g = (\<lambda>c. if owned owner c then map (\<lambda>f. (label_key c, as_wire (ft_error_category f)))
      (failures_to since until d (cl_address c)) else [])"
  have other: "filter (\<lambda>r. fst r = label_key cl) (g c) = []" if "cl_address cl \<noteq> cl_address c" for c
    using that by (auto simp: g_def filter_empty_conv)
  have none: "filter (\<lambda>r. fst r = label_key cl) (concat (map g ls)) = []"
    if "cl_address cl \<notin> set (map cl_address ls)" for ls
    using that by (induction ls) (simp_all add: other)
  have own: "filter (\<lambda>r. fst r = label_key cl) (g cl) = g cl"
    by (auto simp: g_def filter_id_conv)
  have "filter (\<lambda>r. fst r = label_key cl) (concat (map g ls)) = g cl"
    if "distinct (map cl_address ls)" "cl \<in> set ls" for ls
    using that
  proof (induction ls)
    case (Cons c ls)
    show ?case
    proof (cases "c = cl")
      case True
      with Cons.prems none [of ls] own show ?thesis by simp
    next
      case False
      with Cons.prems have "cl \<in> set ls" "cl_address c \<notin> cl_address ` set ls" by auto
      then have "cl \<in> set ls" "cl_address cl \<noteq> cl_address c" by (blast, metis imageI)
      with Cons other [of c] show ?thesis by simp
    qed
  qed simp
  from this [OF assms(1,2)] assms(3) show ?thesis
    by (simp add: label_rows_def g_def)
qed

lemma label_rows_key:
  "key \<in> set (map fst (label_rows owner since until d)) \<longleftrightarrow>
   (\<exists>cl\<in>set (db_labels d). owned owner cl \<and> key = label_key cl \<and> failures_at since until d (cl_address cl) \<noteq> {})"
  unfolding set_failures_to [symmetric] ex_in_conv [symmetric]
  by (simp add: label_rows_def image_UN image_image image_iff) blast

lemma group_of_label:
  assumes "db_ok d" "distinct (map cl_address (db_labels d))" "cl \<in> set (db_labels d)" "owned owner cl"
    and "failures_at since until d (cl_address cl) \<noteq> {}"
  shows "pivot (label_counts (label_rows owner since until d)) Map.empty (label_key cl) =
    Some (int (card (failures_at since until d (cl_address cl))),
      \<lambda>c. if \<exists>f\<in>failures_at since until d (cl_address cl). as_wire (ft_error_category f) = c
          then Some (int (card {f \<in> failures_at since until d (cl_address cl). as_wire (ft_error_category f) = c}))
          else None)"
proof -
  let ?rows = "label_rows owner since until d"
  let ?fs = "failures_to since until d (cl_address cl)"
  note own = label_rows_of [OF assms(2-4), of since until]
  have d: "distinct ?fs"
    using assms(1) by (intro distinct_failures_to) (simp_all add: db_ok_unfold)
  have n: "length (filter (\<lambda>r. fst r = label_key cl) ?rows) = card (set ?fs)"
    unfolding own using d by (simp add: distinct_card)
  have "count_list ?rows (label_key cl, c) = length (filter (\<lambda>r. snd r = c) (filter (\<lambda>r. fst r = label_key cl) ?rows))" for c
    by (auto simp: count_list_eq_length_filter intro!: arg_cong [of _ _ length] filter_cong)
  then have cnt: "count_list ?rows (label_key cl, c) = card {f \<in> set ?fs. as_wire (ft_error_category f) = c}" for c
    unfolding own using d by (simp add: filter_map comp_def distinct_length_filter Int_def conj_commute)
  have mem: "(label_key cl, c) \<in> set ?rows \<longleftrightarrow> (\<exists>f\<in>set ?fs. as_wire (ft_error_category f) = c)" for c
  proof -
    have "(label_key cl, c) \<in> set ?rows \<longleftrightarrow> (label_key cl, c) \<in> set (filter (\<lambda>r. fst r = label_key cl) ?rows)"
      by simp
    then show ?thesis unfolding own by auto
  qed
  have key: "label_key cl \<in> set (map fst ?rows)"
    unfolding label_rows_key using assms(3-5) by blast
  show ?thesis
    unfolding label_group [OF key] n cnt mem set_failures_to ..
qed

lemma sorted_take_rest:
  assumes "sorted_wrt R xs" "x \<in> set xs"
  shows "x \<in> set (take n xs) \<or> length (take n xs) = n \<and> (\<forall>y\<in>set (take n xs). R y x)"
proof -
  have "sorted_wrt R (take n xs @ drop n xs)" "x \<in> set (take n xs @ drop n xs)"
    using assms by (simp_all only: append_take_drop_id)
  then consider "x \<in> set (take n xs)" | "x \<in> set (drop n xs)" "\<forall>y\<in>set (take n xs). R y x"
    unfolding sorted_wrt_append set_append by blast
  then show ?thesis
  proof cases
    case 2
    then have "n \<le> length xs" by (cases "n \<le> length xs") simp_all
    with 2 show ?thesis by simp
  qed blast
qed

lemma length_take_le: "length (take n xs) \<le> n"
  by simp

text \<open>What the report should say about a label.\<close>

definition label_point :: "timestamp option \<Rightarrow> timestamp option \<Rightarrow> service_db \<Rightarrow> contract_label \<Rightarrow>
    failed_tx_by_label_point" where
  "label_point since until d cl =
     \<lparr>bl_label = cl_label cl, bl_address = cl_address cl,
      bl_total_failures = int (card (failures_at since until d (cl_address cl))),
      bl_by_category = (\<lambda>c.
        let n = card {f \<in> failures_at since until d (cl_address cl). as_wire (ft_error_category f) = c}
        in if n = 0 then None else Some (int n))\<rparr>"

definition shown_labels :: "string option \<Rightarrow> timestamp option \<Rightarrow> timestamp option \<Rightarrow> service_db \<Rightarrow>
    contract_label set" where
  "shown_labels owner since until d = {cl \<in> set (db_labels d). owned owner cl \<and>
     failures_at since until d (cl_address cl) \<noteq> {}}"

lemma shown_by_key:
  assumes "distinct (map cl_address (db_labels d))" "cl \<in> shown_labels owner since until d"
    "cl' \<in> shown_labels owner since until d" "cl_address cl = cl_address cl'"
  shows "cl = cl'"
  using assms by (auto simp: shown_labels_def distinct_map inj_on_def)

lemma finite_failures_at: "finite (failures_at since until d a)"
  by (simp add: set_failures_to [symmetric])

lemma pivot_point:
  assumes "db_ok d" "distinct (map cl_address (db_labels d))" "cl \<in> shown_labels owner since until d"
  shows "map_option (\<lambda>(n, by_cat). \<lparr>bl_label = cl_label cl, bl_address = cl_address cl,
      bl_total_failures = n, bl_by_category = by_cat\<rparr>)
      (pivot (label_counts (label_rows owner since until d)) Map.empty (label_key cl)) =
    Some (label_point since until d cl)"
  using group_of_label [OF assms(1,2), of cl owner since until] assms(3)
  by (auto simp: shown_labels_def label_point_def Let_def finite_failures_at card_eq_0_iff)

lemma aggregate_points:
  assumes "db_ok d" "distinct (map cl_address (db_labels d))" "opt_ok text_ok owner" "0 < lim"
    and iter: "\<forall>ks. mset (iter ks) = mset ks"
  shows "\<exists>cls. distinct cls \<and> set cls = shown_labels owner since until d \<and>
    failed_tx_by_label_aggregate iter owner since until lim d =
      Inr (take (nat lim) (sort_key (\<lambda>p. - bl_total_failures p) (map (label_point since until d) cls)))"
proof -
  let ?rows = "label_rows owner since until d"
  let ?shown = "shown_labels owner since until d"
  let ?keys = "iter (remdups (map fst ?rows))"
  have keys: "distinct ?keys" "set ?keys = label_key ` ?shown"
  proof -
    from iter have m: "mset ?keys = mset (remdups (map fst ?rows))" by blast
    then show "distinct ?keys" by (metis distinct_remdups mset_eq_imp_distinct_iff)
    from m have "set ?keys = set (map fst ?rows)" by (metis mset_eq_setD set_remdups)
    also have "\<dots> = label_key ` ?shown"
      by (rule set_eqI, unfold label_rows_key shown_labels_def) blast
    finally show "set ?keys = label_key ` ?shown" .
  qed
  then have "\<forall>k\<in>set ?keys. \<exists>cl. cl \<in> ?shown \<and> label_key cl = k" by auto
  then obtain g where g: "\<forall>k\<in>set ?keys. g k \<in> ?shown \<and> label_key (g k) = k"
    using bchoice [of "set ?keys" "\<lambda>k cl. cl \<in> ?shown \<and> label_key cl = k"] by blast
  have keys_g: "?keys = map label_key (map g ?keys)"
    using g by (simp add: map_idI)
  have "cl \<in> g ` set ?keys" if "cl \<in> ?shown" for cl
  proof -
    from that have k: "label_key cl \<in> set ?keys" by (simp add: keys(2))
    with g have "g (label_key cl) \<in> ?shown" "cl_address (g (label_key cl)) = cl_address cl" by auto
    with shown_by_key [OF assms(2)] that k show ?thesis by (metis imageI)
  qed
  with g have members: "set (map g ?keys) = ?shown" by auto
  have out: "List.map_filter (\<lambda>k. map_option (\<lambda>(n, by_cat). \<lparr>bl_label = fst k, bl_address = snd k,
      bl_total_failures = n, bl_by_category = by_cat\<rparr>) (pivot (label_counts ?rows) Map.empty k)) (map label_key cls) =
      map (label_point since until d) cls" if "set cls \<subseteq> ?shown" for cls
    using that by (induction cls) (auto simp: map_filter_simps pivot_point [OF assms(1,2)])
  have "distinct (map label_key (map g ?keys))"
    using keys(1) by (subst keys_g [symmetric])
  then have "distinct (map g ?keys)"
    unfolding distinct_map [of label_key] by blast
  moreover have "failed_tx_by_label_aggregate iter owner since until lim d = Inr (take (nat lim)
      (sort_key (\<lambda>p. - bl_total_failures p) (map (label_point since until d) (map g ?keys))))"
    using assms(3,4) out [of "map g ?keys", folded keys_g] members
    by (simp only: failed_tx_by_label_aggregate_def Let_def) simp
  ultimately show ?thesis
    using members by blast
qed

text \<open>C27. The failures per label are counted exactly. In a consistent database whose labels have
  distinct addresses, whatever the iteration order of the \<open>HashMap\<close>: each point of the report
  belongs to one label of the owner, its total is the number of failed transactions of the period
  sent to the label's address and is not zero, and its counts per category are those of these
  transactions (a category without failures has no entry); the points are in descending order, at
  most \<open>limit\<close> of them, with distinct addresses, and a label with failures is missing only if the
  report is full and every listed label has at least as many.\<close>

theorem label_report_exact:
  assumes "db_ok d" "distinct (map cl_address (db_labels d))" "opt_ok text_ok owner" "0 < lim"
    and "\<forall>ks. mset (iter ks) = mset ks"
  shows "\<exists>pts. failed_tx_by_label_aggregate iter owner since until lim d = Inr pts \<and>
    length pts \<le> nat lim \<and> distinct (map bl_address pts) \<and>
    sorted_wrt (\<lambda>p q. bl_total_failures q \<le> bl_total_failures p) pts \<and>
    (\<forall>p\<in>set pts. 0 < bl_total_failures p \<and> (\<exists>cl\<in>set (db_labels d). owned owner cl \<and>
       p = \<lparr>bl_label = cl_label cl, bl_address = cl_address cl,
            bl_total_failures = int (card (failures_at since until d (cl_address cl))),
            bl_by_category = (\<lambda>c.
              let n = card {f \<in> failures_at since until d (cl_address cl). as_wire (ft_error_category f) = c}
              in if n = 0 then None else Some (int n))\<rparr>)) \<and>
    (\<forall>cl\<in>set (db_labels d). owned owner cl \<and> failures_at since until d (cl_address cl) \<noteq> {} \<longrightarrow>
       cl_address cl \<in> set (map bl_address pts) \<or>
       length pts = nat lim \<and>
       (\<forall>p\<in>set pts. int (card (failures_at since until d (cl_address cl))) \<le> bl_total_failures p))"
proof -
  obtain cls where cls: "distinct cls" "set cls = shown_labels owner since until d"
    and res: "failed_tx_by_label_aggregate iter owner since until lim d =
      Inr (take (nat lim) (sort_key (\<lambda>p. - bl_total_failures p) (map (label_point since until d) cls)))"
    using aggregate_points [OF assms] by blast
  let ?all = "sort_key (\<lambda>p. - bl_total_failures p) (map (label_point since until d) cls)"
  have fields: "bl_address (label_point since until d cl) = cl_address cl" "bl_total_failures
      (label_point since until d cl) = int (card (failures_at since until d (cl_address cl)))" for cl
    by (simp_all add: label_point_def)
  have order: "sorted_wrt (\<lambda>p q. bl_total_failures q \<le> bl_total_failures p) ?all"
    using sorted_sort_key [of "\<lambda>p. - bl_total_failures p"] by (simp add: sorted_map)
  have "inj_on cl_address (set cls)"
    using shown_by_key [OF assms(2), of _ owner since until] by (auto simp: inj_on_def cls(2))
  then have "distinct (map bl_address (map (label_point since until d) cls))"
    using cls(1) by (simp add: comp_def fields distinct_map)
  then have "distinct (map bl_address ?all)"
    by (auto simp: distinct_map intro: inj_on_imageI2 inj_on_imageI)
  then have dist: "distinct (map bl_address (take (nat lim) ?all))"
    by (simp only: take_map [symmetric] distinct_take)
  have point: "0 < bl_total_failures p \<and> (\<exists>cl\<in>set (db_labels d). owned owner cl \<and> p = label_point since until d cl)"
    if "p \<in> set (take (nat lim) ?all)" for p
    using in_set_takeD [OF that] by (auto simp: cls(2) shown_labels_def fields card_gt_0_iff finite_failures_at)
  have missing: "cl_address cl \<in> set (map bl_address (take (nat lim) ?all)) \<or> length (take (nat lim) ?all) = nat lim \<and>
      (\<forall>p\<in>set (take (nat lim) ?all). int (card (failures_at since until d (cl_address cl))) \<le> bl_total_failures p)"
    if "cl \<in> set (db_labels d)" "owned owner cl" "failures_at since until d (cl_address cl) \<noteq> {}" for cl
  proof -
    have "label_point since until d cl \<in> set ?all"
      using that by (simp add: cls(2) shown_labels_def)
    from sorted_take_rest [OF order this, of "nat lim", unfolded fields] show ?thesis
    proof
      assume "label_point since until d cl \<in> set (take (nat lim) ?all)"
      from imageI [OF this, of bl_address] show ?thesis
        unfolding fields set_map by blast
    qed blast
  qed
  show ?thesis
    unfolding label_point_def [symmetric]
    using res dist sorted_wrt_take [OF order] point missing length_take_le
    by (intro exI [of _ "take (nat lim) ?all"]) blast
qed

section \<open>Instances\<close>

definition sample_label :: contract_label where
  "sample_label = \<lparr>cl_address = ''a'', cl_label = ''Router'', cl_owner_id = None, cl_created_at = 0\<rparr>"

definition label_db :: service_db where
  "label_db = (sample_service Map.empty)\<lparr>
     db_txs := map (\<lambda>t. t\<lparr>tx_to_addr := Some ''a''\<rparr>) (db_txs sample_db), db_labels := [sample_label]\<rparr>"

lemma label_db_fields [simp]:
  "db_labels label_db = [sample_label]" "db_failed label_db = db_failed sample_db"
  "db_txs label_db = map (\<lambda>t. t\<lparr>tx_to_addr := Some ''a''\<rparr>) (db_txs sample_db)"
  by (simp_all add: label_db_def)

lemma label_db_ok: "db_ok label_db"
  using sample_service_ok(1) [of Map.empty]
  by (simp add: label_db_def db_ok_unfold comp_def image_image)

lemma label_db_failures: "failures_at None None label_db ''a'' = set (db_failed sample_db)"
  by (auto simp: failures_at_def in_period_def sample_db_def)

text \<open>Two failures of one block, in a database and in the list with pages of one row. The two queries may
  order them differently: then the first failure is on both pages and the second one on none.\<close>

definition twin_failure :: "string \<Rightarrow> failed_transaction" where
  "twin_failure h = \<lparr>ft_tx_hash = h, ft_error_category = Unknown, ft_revert_reason = None,
     ft_failing_function = None, ft_gas_used = 1, ft_timestamp = 1\<rparr>"

definition twin_db :: service_db where
  "twin_db = (sample_service Map.empty)\<lparr>db_failed := [twin_failure ''t6'', twin_failure ''t7'']\<rparr>"

lemma twin_rows: "failed_where None None None twin_db = [twin_failure ''t6'', twin_failure ''t7'']"
  by (simp add: failed_where_def in_period_def twin_db_def)

lemma page_repeats_row:
  "list_failed_transactions id None None None 1 0 twin_db = Inr [twin_failure ''t6''] \<and>
   list_failed_transactions (\<lambda>i. 1 - i) None None None 1 1 twin_db = Inr [twin_failure ''t6'']"
  by (simp add: list_failed_transactions_def twin_rows page_def order_by_def twin_failure_def)

lemma failed_tx_reports_agree_witness:
  "(\<exists>pages. map (\<lambda>i. list_failed_transactions (if i = 0 then id else (\<lambda>i. 1 - i)) None None None 1 (int i * 1) twin_db)
      [0..<2] = map Inr pages \<and> map ft_timestamp (concat pages) = [1, 1]) \<and>
   sum_list (map tp_failure_count (failed_tx_timeseries Day None None twin_db)) = 2"
proof -
  have "sort [1, 1 :: int] = [1, 1]" by simp
  with failed_tx_reports_agree [of 1 None None None twin_db "\<lambda>i. if i = 0 then id else (\<lambda>i. 1 - i)" 2 Day] show ?thesis
    by (simp only: twin_rows Let_def count_failed_transactions_def) (auto simp: twin_failure_def)
qed

lemma label_report_exact_witness:
  "\<exists>pts. failed_tx_by_label_aggregate rev None None None 5 label_db = Inr pts \<and> pts \<noteq> [] \<and>
     (\<forall>p\<in>set pts. bl_label p = ''Router'' \<and> bl_total_failures p = 1)"
proof -
  have one: "card (failures_at None None label_db ''a'') = 1"
    by (simp add: label_db_failures)
  from label_report_exact [of label_db None 5 rev None None]
  obtain pts where r: "failed_tx_by_label_aggregate rev None None None 5 label_db = Inr pts"
    and p: "\<forall>p\<in>set pts. 0 < bl_total_failures p \<and> (\<exists>cl\<in>set (db_labels label_db). owned None cl \<and>
       p = label_point None None label_db cl)"
    and m: "\<forall>cl\<in>set (db_labels label_db). owned None cl \<and> failures_at None None label_db (cl_address cl) \<noteq> {} \<longrightarrow>
       cl_address cl \<in> set (map bl_address pts) \<or> length pts = nat 5 \<and>
       (\<forall>p\<in>set pts. int (card (failures_at None None label_db (cl_address cl))) \<le> bl_total_failures p)"
    unfolding label_point_def [symmetric] by (auto simp: label_db_ok sample_label_def opt_ok_def)
  have "failures_at None None label_db (cl_address sample_label) \<noteq> {}"
    by (simp add: sample_label_def label_db_failures)
  with m have "pts \<noteq> []" by auto
  moreover have "\<forall>p\<in>set pts. bl_label p = ''Router'' \<and> bl_total_failures p = 1"
    using p one by (auto simp: label_point_def sample_label_def)
  ultimately show ?thesis
    using r by blast
qed

end
