(* ===== verification/Analytics.thy ===== *)
theory Analytics
  imports Queries
begin

text \<open>
  The reports over SQL views: the views of \<open>src/sql/views\<close> and the function \<open>fn_get_pool_stats\<close> of
  \<open>src/sql/procedures\<close> that \<open>queries.rs\<close> reads, their row structs, the queries over them, and the
  two writers of the tables behind them, price snapshots and user profiles. A day is a number of days since the
  epoch (the session's time zone is UTC). As in \<open>Queries\<close> the order of rows with equal keys is an
  argument. Division of \<open>NUMERIC\<close> values belongs to PostgreSQL and
  is an argument.
\<close>

section \<open>Numeric values\<close>

text \<open>The quotient rounded to the nearest integer, halves away from zero.\<close>

definition round_half :: "int \<Rightarrow> int \<Rightarrow> int" where
  "round_half a b = sgn a * ((2 * abs a + b) div (2 * b))"

text \<open>\<open>ROUND(x, n)\<close>, also applied when a value is assigned to a column \<open>NUMERIC(p, n)\<close>.\<close>

fun round_to :: "nat \<Rightarrow> numeric \<Rightarrow> numeric" where
  "round_to n (Numeric u s) =
     (if s \<le> n then Numeric (u * 10 ^ (n - s)) n else Numeric (round_half u (10 ^ (s - n))) n)"

lemma round_to_places [simp]: "places (round_to n x) = n"
  by (cases x) simp

lemma round_to_again [simp]: "round_to n (round_to n x) = round_to n x"
  by (cases x) simp

lemma round_half_bound:
  assumes "0 < b"
  shows "2 * abs (round_half a b * b - a) \<le> b"
proof -
  let ?q = "(2 * abs a + b) div (2 * b)" and ?r = "(2 * abs a + b) mod (2 * b)"
  have "2 * (?q * b) = 2 * abs a + b - ?r"
    using div_mult_mod_eq [of "2 * abs a + b" "2 * b"] by (simp add: algebra_simps)
  moreover have "0 \<le> ?r" "?r < 2 * b"
    using assms by simp_all
  ultimately have "2 * abs (?q * b - abs a) \<le> b"
    unfolding abs_if [of "?q * b - abs a"] by (simp split: if_split)
  moreover have "abs (round_half a b * b - a) = abs (?q * b - abs a)"
  proof (cases "a < 0")
    case True
    then show ?thesis by (simp add: round_half_def)
  next
    case False
    then show ?thesis using assms by (cases "a = 0") (simp_all add: round_half_def)
  qed
  ultimately show ?thesis by simp
qed

text \<open>What the reports rely on: a division is rounded correctly at the number of places it chooses,
  and a quotient below ten thousand gets at least twelve of them.\<close>

definition divides_rounded :: "(numeric \<Rightarrow> numeric \<Rightarrow> numeric) \<Rightarrow> bool" where
  "divides_rounded dv \<longleftrightarrow> (\<forall>u s v t. 0 < v \<longrightarrow>
     2 * abs (unscaled (dv (Numeric u s) (Numeric v t)) * (v * 10 ^ s) -
              u * 10 ^ t * 10 ^ places (dv (Numeric u s) (Numeric v t))) \<le> v * 10 ^ s \<and>
     (abs (u * 10 ^ t) < 10 ^ 4 * (v * 10 ^ s) \<longrightarrow>
        12 \<le> places (dv (Numeric u s) (Numeric v t))))"

text \<open>An instance: sixteen places.\<close>

fun div16 :: "numeric \<Rightarrow> numeric \<Rightarrow> numeric" where
  "div16 (Numeric u s) (Numeric v t) = Numeric (round_half (u * 10 ^ t * 10 ^ 16) (v * 10 ^ s)) 16"

lemma div16_rounded: "divides_rounded div16"
proof -
  have "2 * abs (unscaled (div16 (Numeric u s) (Numeric v t)) * (v * 10 ^ s) -
      u * 10 ^ t * 10 ^ places (div16 (Numeric u s) (Numeric v t))) \<le> v * 10 ^ s"
    if "0 < v" for u s v t
    using round_half_bound [of "v * 10 ^ s" "u * 10 ^ t * 10 ^ 16"] that by simp
  then show ?thesis
    by (simp add: divides_rounded_def)
qed

section \<open>Groups\<close>

definition group_rows :: "('r \<Rightarrow> 'k) \<Rightarrow> 'r list \<Rightarrow> ('k \<times> 'r list) list" where
  "group_rows key rs = map (\<lambda>k. (k, filter (\<lambda>r. key r = k) rs)) (remdups (map key rs))"

lemma group_keys [simp]: "map fst (group_rows key rs) = remdups (map key rs)"
  by (simp add: group_rows_def o_def)

lemma group_of: "(k, g) \<in> set (group_rows key rs) \<longleftrightarrow> k \<in> key ` set rs \<and> g = filter (\<lambda>r. key r = k) rs"
  by (auto simp: group_rows_def)

lemma group_nonempty: "(k, g) \<in> set (group_rows key rs) \<Longrightarrow> g \<noteq> []"
  by (auto simp: group_of filter_empty_conv)

lemma sum_one_group:
  "distinct ks \<Longrightarrow> sum_list (map (\<lambda>j. (if k = j then a else 0) + f j) ks) =
     (if k \<in> set ks then a else 0) + (sum_list (map f ks) :: int)"
  by (induction ks) auto

text \<open>Every row is in exactly one group: a sum over the groups is the sum over the rows.\<close>

lemma group_sums_over:
  "distinct ks \<Longrightarrow> key ` set rs \<subseteq> set ks \<Longrightarrow>
   sum_list (map (\<lambda>k. sum_list (map (h :: 'r \<Rightarrow> int) (filter (\<lambda>r. key r = k) rs))) ks) = sum_list (map h rs)"
proof (induction rs)
  case (Cons r rs)
  have "sum_list (map h (filter (\<lambda>x. key x = k) (r # rs))) =
      (if key r = k then h r else 0) + sum_list (map h (filter (\<lambda>x. key x = k) rs))" for k
    by simp
  then show ?case
    using Cons by (simp add: sum_one_group)
qed simp

lemma group_sums:
  "sum_list (map (\<lambda>(k, g). sum_list (map (h :: 'r \<Rightarrow> int) g)) (group_rows key rs)) = sum_list (map h rs)"
  by (simp add: group_rows_def o_def group_sums_over)

lemma int_length_sum: "int (length g) = sum_list (map (\<lambda>_. 1) g)"
  by (simp add: sum_list_triv)

lemmas group_lengths = group_sums [where h = "\<lambda>_. 1", folded int_length_sum]

text \<open>The same for the groups that pass a filter on the key.\<close>

lemma group_sums_if:
  "sum_list (map (\<lambda>(k, g). if Q k then sum_list (map (h :: 'r \<Rightarrow> int) g) else 0) (group_rows key rs)) =
     sum_list (map h (filter (\<lambda>r. Q (key r)) rs))"
proof -
  let ?h = "\<lambda>r. if Q (key r) then h r else 0"
  have "(case kg of (k, g) \<Rightarrow> if Q k then sum_list (map h g) else 0) =
      (case kg of (k, g) \<Rightarrow> sum_list (map ?h g))" if "kg \<in> set (group_rows key rs)" for kg
  proof -
    obtain k g where kg: "kg = (k, g)" by (rule prod.exhaust)
    with that have "key r = k" if "r \<in> set g" for r using that by (auto simp: group_of)
    then have eq: "map ?h g = map (\<lambda>r. if Q k then h r else 0) g" by (intro map_cong) simp_all
    show ?thesis unfolding kg case_prod_conv eq by simp
  qed
  then have "map (\<lambda>(k, g). if Q k then sum_list (map h g) else 0) (group_rows key rs) =
      map (\<lambda>(k, g). sum_list (map ?h g)) (group_rows key rs)" by (rule map_cong [OF refl])
  then show ?thesis by (simp only: group_sums sum_list_map_filter')
qed

section \<open>The tables behind the reports\<close>

text \<open>A column \<open>NUMERIC(p, n)\<close>: the rounded value has at most \<open>p\<close> digits.\<close>

definition fits_column :: "nat \<Rightarrow> nat \<Rightarrow> numeric \<Rightarrow> bool" where
  "fits_column p n x = numeric_ok p (unscaled (round_to n x))"

definition snapshot_row_ok :: "price_snapshot \<Rightarrow> bool" where
  "snapshot_row_ok s = (varchar_ok 42 (ps_pool_address s) \<and> fits_column 30 18 (ps_price s) \<and>
     fits_column 38 0 (ps_liquidity s))"

definition snapshot_key :: "price_snapshot \<Rightarrow> string \<times> timestamp \<times> snapshot_interval" where
  "snapshot_key s = (ps_pool_address s, ps_snapshot_ts s, ps_interval_type s)"

text \<open>The row as the table holds it, with the next number of the sequence.\<close>

definition stored_snapshot :: "int \<Rightarrow> price_snapshot \<Rightarrow> price_snapshot" where
  "stored_snapshot i s = s\<lparr>ps_price := round_to 18 (ps_price s),
     ps_liquidity := round_to 0 (ps_liquidity s), ps_snapshot_id := i\<rparr>"

definition pool_known :: "'a chain_db_scheme \<Rightarrow> string \<Rightarrow> bool" where
  "pool_known d a = (a \<in> set (map pool_address (db_pools d)))"

definition insert_price_snapshots ::
    "price_snapshot list \<Rightarrow> service_db \<Rightarrow> db_error + nat \<times> service_db" where
  "insert_price_snapshots rs d =
     (if rs = [] then Inr (0, d)
      else bind_res (insert_do_nothing snapshot_key snapshot_row_ok
             (\<lambda>s. pool_known d (ps_pool_address s))
             (number_rows stored_snapshot (db_seq_snapshot d) rs) (db_snapshots d))
        (\<lambda>(n, t). Inr (n, d\<lparr>db_snapshots := t,
                           db_seq_snapshot := db_seq_snapshot d + int (length rs)\<rparr>)))"

definition profile_row_ok :: "user_profile \<Rightarrow> bool" where
  "profile_row_ok u = (varchar_ok 42 (up_user_address u) \<and> opt_ok (varchar_ok 50) (up_label u) \<and>
     up_first_seen u \<le> up_last_seen u \<and> 0 \<le> up_total_swaps u \<and> int4_ok (up_total_swaps u) \<and>
     fits_column 20 2 (up_total_volume_usd u) \<and> 0 \<le> unscaled (round_to 2 (up_total_volume_usd u)))"

definition stored_profile :: "user_profile \<Rightarrow> user_profile" where
  "stored_profile u = u\<lparr>up_total_volume_usd := round_to 2 (up_total_volume_usd u)\<rparr>"

text \<open>\<open>ON CONFLICT (user_address) DO UPDATE\<close>: the row in the table keeps its label and its first
  sight; the sums may leave their columns.\<close>

definition merge_profile :: "user_profile \<Rightarrow> user_profile \<Rightarrow> user_profile" where
  "merge_profile new old = old\<lparr>up_last_seen := up_last_seen new,
     up_total_swaps := up_total_swaps old + up_total_swaps new,
     up_total_volume_usd := Numeric (unscaled (up_total_volume_usd old) + unscaled (up_total_volume_usd new)) 2\<rparr>"

text \<open>The statement row by row. \<open>touched\<close> are the addresses it has inserted or updated, which it
  must not meet again.\<close>

fun upsert_rows :: "string list \<Rightarrow> user_profile list \<Rightarrow> user_profile list \<Rightarrow> db_error + user_profile list" where
  "upsert_rows touched [] table = Inr table"
| "upsert_rows touched (u # us) table =
     (if \<not> profile_row_ok u then Inl (Sqlx ''constraint violation'')
      else if up_user_address u \<in> set touched
        then Inl (Sqlx ''ON CONFLICT DO UPDATE command cannot affect row a second time'')
      else let new = stored_profile u in
        (case find (\<lambda>o'. up_user_address o' = up_user_address u) table of
           None \<Rightarrow> upsert_rows (up_user_address u # touched) us (table @ [new])
         | Some old \<Rightarrow>
             if profile_row_ok (merge_profile new old)
             then upsert_rows (up_user_address u # touched) us
               (map (\<lambda>o'. if up_user_address o' = up_user_address u then merge_profile new o' else o') table)
             else Inl (Sqlx ''constraint violation'')))"

definition upsert_user_profiles ::
    "user_profile list \<Rightarrow> service_db \<Rightarrow> db_error + nat \<times> service_db" where
  "upsert_user_profiles us d =
     (if us = [] then Inr (0, d)
      else bind_res (upsert_rows [] us (db_profiles d)) (\<lambda>t.
        Inr (length us, d\<lparr>db_profiles := t\<rparr>)))"

interpretation snapshots_insert: idempotent_insert insert_price_snapshots db_snapshots snapshot_key
  by (rule idempotent_insertI [OF insert_price_snapshots_def])
    (simp_all add: number_rows_image number_rows_all snapshot_key_def stored_snapshot_def
      snapshot_row_ok_def fits_column_def)

section \<open>Views\<close>

record daily_swap_volume =
  sv_pool_address :: string
  sv_pair_name :: string
  sv_swap_date :: int
  sv_swap_count :: int
  sv_total_amount_in :: int
  sv_total_amount_out :: int

definition day_of :: "timestamp \<Rightarrow> int" where
  "day_of t = t div seconds 86400"

text \<open>\<open>swap_event s JOIN pool p\<close>, and its groups.\<close>

definition pooled_swaps :: "'a chain_db_scheme \<Rightarrow> (swap_event \<times> pool) list" where
  "pooled_swaps d = [(s, p). s \<leftarrow> db_swaps d, p \<leftarrow> db_pools d, sw_pool_address s = pool_address p]"

definition volume_key :: "swap_event \<times> pool \<Rightarrow> string \<times> string \<times> int" where
  "volume_key = (\<lambda>(s, p). (sw_pool_address s, pool_pair_name p, day_of (sw_timestamp s)))"

definition volume_row :: "(string \<times> string \<times> int) \<times> (swap_event \<times> pool) list \<Rightarrow> daily_swap_volume" where
  "volume_row = (\<lambda>((a, n, day), g).
     \<lparr>sv_pool_address = a, sv_pair_name = n, sv_swap_date = day, sv_swap_count = int (length g),
      sv_total_amount_in = sum_list (map (sw_amount_in \<circ> fst) g),
      sv_total_amount_out = sum_list (map (sw_amount_out \<circ> fst) g)\<rparr>)"

text \<open>The order of this view is not that of an answer: the query that reads it has an \<open>ORDER BY\<close> of
  its own.\<close>

definition vw_daily_swap_volume :: "'a chain_db_scheme \<Rightarrow> daily_swap_volume list" where
  "vw_daily_swap_volume d = sort_key (\<lambda>r. (- sv_swap_date r, - sv_swap_count r))
     (map volume_row (group_rows volume_key (pooled_swaps d)))"

record top_trader =
  tr_user_address :: string
  tr_label :: "string option"
  tr_total_swaps :: int
  tr_total_volume_usd :: numeric
  tr_volume_rank :: int

text \<open>\<open>DENSE_RANK() OVER (ORDER BY total_volume_usd DESC)\<close>\<close>

definition dense_rank :: "int list \<Rightarrow> int \<Rightarrow> int" where
  "dense_rank vs v = 1 + int (card {w \<in> set vs. v < w})"

definition vw_top_traders :: "tie_order \<Rightarrow> service_db \<Rightarrow> top_trader list" where
  "vw_top_traders r d =
     (let active = filter (\<lambda>u. 0 < up_total_swaps u) (db_profiles d);
          volumes = map (\<lambda>u. unscaled (up_total_volume_usd u)) active in
      order_by r tr_volume_rank (map (\<lambda>u.
        \<lparr>tr_user_address = up_user_address u, tr_label = up_label u,
         tr_total_swaps = up_total_swaps u, tr_total_volume_usd = up_total_volume_usd u,
         tr_volume_rank = dense_rank volumes (unscaled (up_total_volume_usd u))\<rparr>) active))"

record analysis_row =
  an_error_category :: error_category
  an_failure_count :: int
  an_avg_gas_wasted :: numeric
  an_pct_of_total :: numeric
  an_most_recent_failure :: timestamp

definition analysis_group :: "(numeric \<Rightarrow> numeric \<Rightarrow> numeric) \<Rightarrow> int \<Rightarrow>
    error_category \<times> failed_transaction list \<Rightarrow> analysis_row" where
  "analysis_group dv total_failures = (\<lambda>(c, fs). let n = int (length fs) in
     \<lparr>an_error_category = c, an_failure_count = n,
      an_avg_gas_wasted = round_to 0 (dv (Numeric (sum_list (map ft_gas_used fs)) 0) (Numeric n 0)),
      an_pct_of_total = round_to 2 (dv (Numeric (1000 * n) 1) (Numeric (max total_failures 1) 0)),
      an_most_recent_failure = Max (set (map ft_timestamp fs))\<rparr>)"

definition vw_failed_tx_analysis ::
    "tie_order \<Rightarrow> (numeric \<Rightarrow> numeric \<Rightarrow> numeric) \<Rightarrow> 'a chain_db_scheme \<Rightarrow> analysis_row list" where
  "vw_failed_tx_analysis ties dv d = order_by ties (\<lambda>r. - an_failure_count r)
     (map (analysis_group dv (int (length (db_failed d)))) (group_rows ft_error_category (db_failed d)))"

text \<open>The result row of \<open>fn_get_pool_stats\<close>: a \<open>SUM\<close> over no rows is NULL.\<close>

record pool_stats_row =
  sr_pair_name :: string
  sr_swap_count :: int
  sr_unique_traders :: int
  sr_total_volume_in :: "numeric option"
  sr_avg_trade_size :: numeric
  sr_liquidity_events :: int
  sr_estimated_fees :: "numeric option"

definition pool_swaps :: "string \<Rightarrow> timestamp \<Rightarrow> timestamp \<Rightarrow> 'a chain_db_scheme \<Rightarrow> swap_event list" where
  "pool_swaps a since until d = filter (\<lambda>s. sw_pool_address s = a \<and>
     since \<le> sw_timestamp s \<and> sw_timestamp s \<le> until) (db_swaps d)"

definition fn_get_pool_stats :: "(numeric \<Rightarrow> numeric \<Rightarrow> numeric) \<Rightarrow> string \<Rightarrow> timestamp \<Rightarrow> timestamp \<Rightarrow>
    'a chain_db_scheme \<Rightarrow> pool_stats_row list" where
  "fn_get_pool_stats dv a since until d =
     map (\<lambda>p. let ss = pool_swaps a since until d; n = int (length ss);
                 volume = sum_list (map sw_amount_in ss) in
       \<lparr>sr_pair_name = pool_pair_name p, sr_swap_count = n,
        sr_unique_traders = int (length (remdups (map sw_sender ss))),
        sr_total_volume_in = (if ss = [] then None else Some (Numeric volume 0)),
        sr_avg_trade_size = (if 0 < n then dv (Numeric volume 0) (Numeric n 0) else Numeric 0 0),
        sr_liquidity_events = int (length (filter (\<lambda>l. le_pool_address l = a \<and>
          since \<le> le_timestamp l \<and> le_timestamp l \<le> until) (db_liqs d))),
        sr_estimated_fees = (if ss = [] then None
          else Some (dv (Numeric (volume * pool_fee_tier p) 0) (Numeric 1000000 0)))\<rparr>)
      (filter (\<lambda>p. pool_address p = a) (db_pools d))"

section \<open>Queries\<close>

definition get_daily_swap_volume ::
    "tie_order \<Rightarrow> string option \<Rightarrow> int \<Rightarrow> int \<Rightarrow> 'a chain_db_scheme \<Rightarrow> db_error + daily_swap_volume list" where
  "get_daily_swap_volume ties pool lim offset d =
     (if \<not> opt_ok text_ok pool then Inl (Sqlx ''invalid byte sequence'')
      else page lim offset (order_by ties (\<lambda>r. - sv_swap_date r)
        (filter (\<lambda>r. pool = None \<or> pool = Some (sv_pool_address r)) (vw_daily_swap_volume d))))"

definition get_top_traders :: "tie_order \<Rightarrow> int \<Rightarrow> service_db \<Rightarrow> db_error + top_trader list" where
  "get_top_traders ties lim d = page lim 0 (vw_top_traders ties d)"

definition get_failed_tx_analysis ::
    "tie_order \<Rightarrow> (numeric \<Rightarrow> numeric \<Rightarrow> numeric) \<Rightarrow> 'a chain_db_scheme \<Rightarrow> analysis_row list" where
  "get_failed_tx_analysis ties dv d = vw_failed_tx_analysis ties dv d"

record pool_stats =
  st_pair_name :: string
  st_swap_count :: int
  st_unique_traders :: int
  st_total_volume_in :: numeric
  st_avg_trade_size :: numeric
  st_liquidity_events :: int
  st_estimated_fees :: numeric

text \<open>\<open>PoolStats\<close> has no optional field: a NULL does not decode.\<close>

definition decode_pool_stats :: "pool_stats_row \<Rightarrow> db_error + pool_stats" where
  "decode_pool_stats r = (case (sr_total_volume_in r, sr_estimated_fees r) of
     (Some v, Some f) \<Rightarrow> Inr \<lparr>st_pair_name = sr_pair_name r, st_swap_count = sr_swap_count r,
       st_unique_traders = sr_unique_traders r, st_total_volume_in = v,
       st_avg_trade_size = sr_avg_trade_size r, st_liquidity_events = sr_liquidity_events r,
       st_estimated_fees = f\<rparr>
   | _ \<Rightarrow> Inl (Sqlx ''unexpected null; try decoding as an Option''))"

definition get_pool_stats :: "(numeric \<Rightarrow> numeric \<Rightarrow> numeric) \<Rightarrow> string \<Rightarrow> timestamp \<Rightarrow> timestamp \<Rightarrow>
    'a chain_db_scheme \<Rightarrow> db_error + pool_stats" where
  "get_pool_stats dv a since until d =
     bind_res (text_param a (fn_get_pool_stats dv a since until d)) (\<lambda>rows. case rows of
       [] \<Rightarrow> Inl (DbNotFound (''pool stats for '' @ a))
     | r # _ \<Rightarrow> decode_pool_stats r)"

end
