(* ===== verification/Triggers.thy ===== *)
theory Triggers
  imports Block_Laws Analytics
begin

text \<open>
  The triggers of \<open>src/sql/triggers/001_triggers.sql\<close>, which the \<open>seed\<close> service of
  \<open>docker-compose.yml\<close> installs, and the statements of the indexer on a database that has them. The
  notification of trigger 3 changes no table. A row trigger after an insert fires for the rows that
  the statement has added, one before an insert for all proposed rows; an error in a trigger fails
  the statement. \<open>now\<close> is \<open>NOW()\<close>.
\<close>

section \<open>The triggers\<close>

text \<open>The audited event stands for the fields that the JSON of the column \<open>details\<close> holds.\<close>

record audit_row =
  au_table_name :: string
  au_event_type :: string
  au_record_id :: string
  au_details :: liquidity_event
  au_created_at :: timestamp

record triggered_db = service_db +
  db_audit :: "audit_row list"

text \<open>\<open>trg_block_timestamp_validate\<close>\<close>

definition fn_trg_block_timestamp_validate :: "timestamp \<Rightarrow> block \<Rightarrow> bool" where
  "fn_trg_block_timestamp_validate now b \<longleftrightarrow> blk_timestamp b \<le> now + seconds 15"

text \<open>\<open>trg_transaction_check_failed\<close>: the stub of a failed transaction, unless it has a row or its
  block none.\<close>

definition failed_stub :: "transaction \<Rightarrow> timestamp \<Rightarrow> failed_transaction" where
  "failed_stub t ts = \<lparr>ft_tx_hash = tx_hash t, ft_error_category = Unknown, ft_revert_reason = None,
     ft_failing_function = None, ft_gas_used = tx_gas_used t, ft_timestamp = ts\<rparr>"

definition fn_trg_transaction_check_failed ::
    "block list \<Rightarrow> transaction \<Rightarrow> failed_transaction list \<Rightarrow> failed_transaction list" where
  "fn_trg_transaction_check_failed bs t fs =
     (if tx_status t = 0 then
        (case find (\<lambda>b. blk_number b = tx_block_number t) bs of
           None \<Rightarrow> fs
         | Some b \<Rightarrow> if tx_hash t \<in> set (map ft_tx_hash fs) then fs else fs @ [failed_stub t (blk_timestamp b)])
      else fs)"

text \<open>\<open>trg_swap_update_user_profile\<close>: the sender counts a swap, another recipient is only seen.\<close>

definition touch_profile :: "string \<Rightarrow> timestamp \<Rightarrow> int \<Rightarrow> user_profile list \<Rightarrow> string + user_profile list" where
  "touch_profile a ts n us =
     (case find (\<lambda>u. up_user_address u = a) us of
        None \<Rightarrow> Inr (us @ [\<lparr>up_user_address = a, up_label = None, up_first_seen = ts, up_last_seen = ts,
                           up_total_swaps = n, up_total_volume_usd = Numeric 0 2\<rparr>])
      | Some u \<Rightarrow>
          let u' = u\<lparr>up_last_seen := max (up_last_seen u) ts, up_total_swaps := up_total_swaps u + n\<rparr> in
          if int4_ok (up_total_swaps u')
          then Inr (map (\<lambda>v. if up_user_address v = a then u' else v) us) else Inl ''integer out of range'')"

definition fn_trg_swap_update_user_profile :: "swap_event \<Rightarrow> user_profile list \<Rightarrow> string + user_profile list" where
  "fn_trg_swap_update_user_profile s us =
     bind_res (touch_profile (sw_sender s) (sw_timestamp s) 1 us) (\<lambda>us'.
       if sw_recipient s \<noteq> sw_sender s then touch_profile (sw_recipient s) (sw_timestamp s) 0 us' else Inr us')"

fun update_profiles :: "swap_event list \<Rightarrow> user_profile list \<Rightarrow> string + user_profile list" where
  "update_profiles [] us = Inr us"
| "update_profiles (s # ss) us = bind_res (fn_trg_swap_update_user_profile s us) (update_profiles ss)"

text \<open>\<open>trg_liquidity_event_audit\<close>\<close>

definition fn_trg_liquidity_event_audit :: "timestamp \<Rightarrow> liquidity_event \<Rightarrow> audit_row list" where
  "fn_trg_liquidity_event_audit now l =
     (if 10 ^ 18 < le_liquidity l
      then [\<lparr>au_table_name = ''liquidity_event'', au_event_type = liquidity_type_to_sql (le_event_type l),
             au_record_id = int_to_dec (le_event_id l), au_details = l, au_created_at = now\<rparr>]
      else [])"

section \<open>The statements of the indexer\<close>

text \<open>The rows that a statement has added to a table.\<close>

definition added :: "('d \<Rightarrow> 'r list) \<Rightarrow> 'd \<Rightarrow> 'd \<Rightarrow> 'r list" where
  "added table d d' = drop (length (table d)) (table d')"

fun fire_triggers :: "timestamp \<Rightarrow> action \<Rightarrow> triggered_db \<Rightarrow> triggered_db \<Rightarrow> string + triggered_db" where
  "fire_triggers now (InsTxs rs) d d' =
     Inr (d'\<lparr>db_failed := fold (fn_trg_transaction_check_failed (db_blocks d')) (added db_txs d d') (db_failed d')\<rparr>)"
| "fire_triggers now (InsSwaps rs) d d' =
     bind_res (update_profiles (added db_swaps d d') (db_profiles d')) (\<lambda>us. Inr (d'\<lparr>db_profiles := us\<rparr>))"
| "fire_triggers now (InsLiqs rs) d d' =
     Inr (d'\<lparr>db_audit := db_audit d' @ concat (map (fn_trg_liquidity_event_audit now) (added db_liqs d d'))\<rparr>)"
| "fire_triggers now (InsBlocks rs) d d' =
     (if list_all (fn_trg_block_timestamp_validate now) rs then Inr d' else Inl ''db'')"
| "fire_triggers now _ d d' = Inr d'"

definition exec_triggered :: "timestamp \<Rightarrow> action \<Rightarrow> triggered_db \<Rightarrow> string + triggered_db" where
  "exec_triggered now a d = bind_res (exec_action a d) (fire_triggers now a d)"

fun run_triggered :: "timestamp \<Rightarrow> action list \<Rightarrow> triggered_db \<Rightarrow> (string + unit) \<times> triggered_db" where
  "run_triggered now [] d = (Inr (), d)"
| "run_triggered now (a # as) d =
     (case exec_triggered now a d of Inl e \<Rightarrow> (Inl e, d) | Inr d' \<Rightarrow> run_triggered now as d')"

section \<open>What becomes of a diagnosis\<close>

definition rows_of :: "string \<Rightarrow> 'a chain_db_scheme \<Rightarrow> failed_transaction list" where
  "rows_of h d = filter (\<lambda>f. ft_tx_hash f = h) (db_failed d)"

lemma run_triggered_append:
  "run_triggered now (as @ bs) d =
     (case run_triggered now as d of (Inr _, d') \<Rightarrow> run_triggered now bs d' | (Inl e, d') \<Rightarrow> (Inl e, d'))"
  by (induction as arbitrary: d) (auto split: sum.splits)

text \<open>A statement other than \<open>InsTxs\<close> leaves the transactions alone, and a failed row that is there
  stays the only one of its hash.\<close>

fun is_ins_txs :: "action \<Rightarrow> bool" where
  "is_ins_txs (InsTxs rs) = True"
| "is_ins_txs _ = False"

lemma fresh_rows_keyed:
  "k \<in> set present \<Longrightarrow> filter (\<lambda>r. key r = k) (fresh_rows key present rs) = []"
  by (induction key present rs rule: fresh_rows.induct) auto

text \<open>The frames of the inserts, for the two tables that matter here.\<close>

lemma insert_keeps_txs:
  "insert_blocks bs d = Inr (n, d') \<Longrightarrow> db_txs d' = db_txs d"
  "insert_swap_events ss d = Inr (n, d') \<Longrightarrow> db_txs d' = db_txs d"
  "insert_liquidity_events ls d = Inr (n, d') \<Longrightarrow> db_txs d' = db_txs d"
  "insert_token_transfers tts d = Inr (n, d') \<Longrightarrow> db_txs d' = db_txs d"
  "insert_failed_transactions fs d = Inr (n, d') \<Longrightarrow> db_txs d' = db_txs d"
  "insert_trace_logs tls d = Inr (n, d') \<Longrightarrow> db_txs d' = db_txs d"
  by (drule insert_frames; elim exE; simp)+

lemma insert_keeps_failed:
  "insert_blocks bs d = Inr (n, d') \<Longrightarrow> db_failed d' = db_failed d"
  "insert_transactions ts d = Inr (n, d') \<Longrightarrow> db_failed d' = db_failed d"
  "insert_swap_events ss d = Inr (n, d') \<Longrightarrow> db_failed d' = db_failed d"
  "insert_liquidity_events ls d = Inr (n, d') \<Longrightarrow> db_failed d' = db_failed d"
  "insert_token_transfers tts d = Inr (n, d') \<Longrightarrow> db_failed d' = db_failed d"
  "insert_trace_logs tls d = Inr (n, d') \<Longrightarrow> db_failed d' = db_failed d"
  by (drule insert_frames; elim exE; simp)+

lemma exec_other_txs:
  assumes "exec_action a d = Inr d'" "\<not> is_ins_txs a"
  shows "db_txs d' = db_txs d"
  using assms by (cases a) (auto simp: map_sum_Inr_iff insert_keeps_txs)

lemma exec_failed_rows:
  assumes "exec_action a d = Inr d'"
  shows "db_failed d' = db_failed d \<or> (\<exists>fs. a = InsFailed fs \<and>
    db_failed d' = db_failed d @ fresh_rows ft_tx_hash (map ft_tx_hash (db_failed d)) fs)"
proof (cases a)
  case (InsFailed fs)
  with assms show ?thesis
    by (cases "fs = []") (auto simp: map_sum_Inr_iff insert_failed_transactions_def bind_res_split_Inr insert_do_nothing_Inr)
qed (use assms in \<open>auto simp: map_sum_Inr_iff insert_keeps_failed\<close>)

lemma kept_rows:
  assumes "rows_of h d \<noteq> []" "db_failed d' = db_failed d \<or> (\<exists>fs. db_failed d' = db_failed d @
    fresh_rows ft_tx_hash (map ft_tx_hash (db_failed d)) fs)"
  shows "rows_of h d' = rows_of h d"
proof -
  from assms(1) have "h \<in> set (map ft_tx_hash (db_failed d))"
    by (auto simp: rows_of_def filter_empty_conv)
  from fresh_rows_keyed [OF this] assms(2) show ?thesis by (auto simp: rows_of_def)
qed

lemma exec_triggered_Inr:
  "exec_triggered now a d = Inr d' \<longleftrightarrow> (\<exists>d1. exec_action a d = Inr d1 \<and> fire_triggers now a d d1 = Inr d')"
  by (cases "exec_action a d") (simp_all add: exec_triggered_def)

lemma exec_triggered_other:
  assumes "exec_triggered now a d = Inr d'" "\<not> is_ins_txs a"
  shows "db_txs d' = db_txs d" and "rows_of h d \<noteq> [] \<Longrightarrow> rows_of h d' = rows_of h d"
proof -
  from assms(1) obtain d1 where d1: "exec_action a d = Inr d1" "fire_triggers now a d d1 = Inr d'"
    by (auto simp: exec_triggered_Inr)
  then have same: "db_txs d' = db_txs d1 \<and> db_failed d' = db_failed d1"
    using assms(2) by (cases a) (auto simp: bind_res_Inr_iff split: if_splits)
  then show "db_txs d' = db_txs d" using exec_other_txs [OF d1(1) assms(2)] by simp
  show "rows_of h d' = rows_of h d" if "rows_of h d \<noteq> []"
    using that exec_failed_rows [OF d1(1)] same by (intro kept_rows) auto
qed

lemma run_triggered_other:
  assumes "\<forall>a\<in>set as. \<not> is_ins_txs a" "run_triggered now as d = (r, d')"
  shows "db_txs d' = db_txs d \<and> (rows_of h d \<noteq> [] \<longrightarrow> rows_of h d' = rows_of h d)"
  using assms
proof (induction as arbitrary: d)
  case (Cons a as)
  show ?case
  proof (cases "exec_triggered now a d")
    case (Inl e)
    with Cons.prems show ?thesis by auto
  next
    case (Inr d1)
    note step = exec_triggered_other [OF Inr]
    from Inr Cons.prems have "run_triggered now as d1 = (r, d')" "\<not> is_ins_txs a" by auto
    with Cons.IH [of d1] Cons.prems(1) step show ?thesis by auto
  qed
qed simp

lemma stub_other:
  "h \<notin> tx_hash ` set ts \<Longrightarrow>
   filter (\<lambda>f. ft_tx_hash f = h) (fold (fn_trg_transaction_check_failed bs) ts fs) =
   filter (\<lambda>f. ft_tx_hash f = h) fs"
  by (induction ts arbitrary: fs)
    (auto simp: fn_trg_transaction_check_failed_def failed_stub_def split: option.split)

lemma stub_added:
  assumes "distinct (map tx_hash ts)" "t \<in> set ts" "tx_status t = 0"
    and "find (\<lambda>b. blk_number b = tx_block_number t) bs = Some b"
    and "filter (\<lambda>f. ft_tx_hash f = tx_hash t) fs = []"
  shows "filter (\<lambda>f. ft_tx_hash f = tx_hash t) (fold (fn_trg_transaction_check_failed bs) ts fs) =
    [failed_stub t (blk_timestamp b)]"
  using assms
proof (induction ts arbitrary: fs)
  case (Cons u us)
  show ?case
  proof (cases "u = t")
    case True
    then have "tx_hash t \<notin> tx_hash ` set us" using Cons.prems(1) by simp
    with True Cons.prems(3-5) show ?thesis
      by (simp add: stub_other) (auto simp: fn_trg_transaction_check_failed_def failed_stub_def filter_empty_conv)
  next
    case False
    then have "t \<in> set us" "tx_hash u \<noteq> tx_hash t" using Cons.prems(1,2) by auto
    moreover have "filter (\<lambda>f. ft_tx_hash f = tx_hash t) (fn_trg_transaction_check_failed bs u fs) = []"
      using stub_other [of "tx_hash t" "[u]" bs fs] calculation(2) Cons.prems(5) by simp
    ultimately show ?thesis using Cons by simp
  qed
qed simp

lemma exec_triggered_txs:
  assumes e: "exec_triggered now (InsTxs rs) d = Inr d'"
    and t: "t \<in> set (db_txs d')" "t \<notin> set (db_txs d)" "tx_status t = 0" "rows_of (tx_hash t) d = []"
  shows "\<exists>b\<in>set (db_blocks d). blk_number b = tx_block_number t \<and>
    rows_of (tx_hash t) d' = [failed_stub t (blk_timestamp b)]"
proof -
  let ?new = "fresh_rows tx_hash (map tx_hash (db_txs d)) rs"
  from e obtain n d1 where d1: "insert_transactions rs d = Inr (n, d1)"
    and d': "d' = d1\<lparr>db_failed := fold (fn_trg_transaction_check_failed (db_blocks d1)) (added db_txs d d1) (db_failed d1)\<rparr>"
    by (auto simp: exec_triggered_Inr map_sum_Inr_iff)
  have "rs \<noteq> []"
    using d1 d' t(1,2) by (auto simp: insert_transactions_def)
  with d1 have fk: "list_all (\<lambda>t. block_known d (tx_block_number t)) ?new"
    and d1': "d1 = d\<lparr>db_txs := db_txs d @ ?new\<rparr>"
    by (auto simp: insert_transactions_def bind_res_split_Inr insert_do_nothing_Inr)
  have txs: "db_txs d' = db_txs d @ ?new"
    and failed: "db_failed d' = fold (fn_trg_transaction_check_failed (db_blocks d)) ?new (db_failed d)"
    by (simp_all add: d' d1' added_def)
  have new: "t \<in> set ?new" using t(1,2) txs by simp
  with fk have "block_known d (tx_block_number t)" by (simp add: list_all_iff)
  then obtain b where b: "find (\<lambda>b. blk_number b = tx_block_number t) (db_blocks d) = Some b"
    by (cases "find (\<lambda>b. blk_number b = tx_block_number t) (db_blocks d)")
      (auto simp: block_known_def find_None_iff)
  from stub_added [OF fresh_rows_distinct new t(3) b] t(4) have
    "rows_of (tx_hash t) d' = [failed_stub t (blk_timestamp b)]"
    by (simp add: rows_of_def failed)
  moreover from b have "b \<in> set (db_blocks d)" "blk_number b = tx_block_number t"
    by (auto simp: find_Some_iff)
  ultimately show ?thesis by blast
qed

section \<open>One block\<close>

fun is_ins_failed :: "action \<Rightarrow> bool" where
  "is_ins_failed (InsFailed rs) = True"
| "is_ins_failed _ = False"

lemma in_unless_empty: "a \<in> set (unless_empty f rs) \<longleftrightarrow> rs \<noteq> [] \<and> a = f rs"
  by (simp add: unless_empty_def)

lemma process_block_shape:
  obtains e where "process_block X rv n = [Abort e]"
  | bs ts rest where "process_block X rv n = InsBlocks bs # unless_empty InsTxs ts @ rest"
      "\<forall>a\<in>set rest. \<not> is_ins_txs a"
proof -
  have f: "\<forall>a\<in>set (failed_actions X rv ts rs). \<not> is_ins_txs a" for ts rs
    by (auto simp: failed_actions_def Let_def in_unless_empty split: outcome.split)
  show thesis
  proof (cases "\<exists>e. process_block X rv n = [Abort e]")
    case False
    then obtain bs ts ss ls tts stamp rs where
      "process_block X rv n = InsBlocks bs # unless_empty InsTxs ts @ (unless_empty InsSwaps ss @
        unless_empty InsLiqs ls @ unless_empty InsTransfers tts) @ failed_actions X rv stamp rs"
      by (auto simp: process_block_def Let_def split: sum.splits option.splits)
    with f show thesis by (intro that(2)) (auto simp: in_unless_empty)
  qed (use that in blast)
qed

lemma process_block_failed_end:
  assumes "InsFailed fs \<in> set (process_block X rv n)"
  obtains pre where "process_block X rv n = pre @ [InsFailed fs]" "\<forall>a\<in>set pre. \<not> is_ins_failed a"
proof -
  from assms have "\<not> (\<exists>e. process_block X rv n = [Abort e])" by auto
  then obtain bs ts ss ls tts stamp rs where
    pb: "process_block X rv n = (InsBlocks bs # unless_empty InsTxs ts @ unless_empty InsSwaps ss @
      unless_empty InsLiqs ls @ unless_empty InsTransfers tts) @ failed_actions X rv stamp rs"
    by (auto simp: process_block_def Let_def split: sum.splits option.splits)
  from assms have in_failed: "InsFailed fs \<in> set (failed_actions X rv stamp rs)"
    unfolding pb by (auto simp: in_unless_empty)
  then obtain trs fs' where fa: "failed_actions X rv stamp rs = unless_empty InsTraces trs @ unless_empty InsFailed fs'"
    by (auto simp: failed_actions_def Let_def split: outcome.splits if_splits)
  with in_failed have "unless_empty InsFailed fs' = [InsFailed fs]"
    by (auto simp: unless_empty_def split: if_splits)
  with fa show thesis
    using pb by (intro that [of "(InsBlocks bs # unless_empty InsTxs ts @ unless_empty InsSwaps ss @
      unless_empty InsLiqs ls @ unless_empty InsTransfers tts) @ unless_empty InsTraces trs"])
      (auto simp: in_unless_empty)
qed

text \<open>Without the triggers a first diagnosis is stored.\<close>

lemma fresh_rows_first:
  "find (\<lambda>r. key r = k) rs = Some r \<Longrightarrow> k \<notin> set present \<Longrightarrow>
   filter (\<lambda>r. key r = k) (fresh_rows key present rs) = [r]"
  by (induction key present rs rule: fresh_rows.induct) (auto simp: fresh_rows_keyed split: if_splits)

lemma run_without_failed:
  "\<forall>a\<in>set as. \<not> is_ins_failed a \<Longrightarrow> run_actions as d = (r, d') \<Longrightarrow> db_failed d' = db_failed d"
proof (induction as arbitrary: d)
  case (Cons a as)
  then show ?case
  proof (cases "exec_action a d")
    case (Inr d1)
    with Cons exec_failed_rows [OF Inr] show ?thesis by (cases a) auto
  qed auto
qed simp

lemma diagnosis_stored:
  assumes run: "run_actions (process_block X rv n) d = (Inr (), d')"
    and fs: "InsFailed fs \<in> set (process_block X rv n)" "find (\<lambda>f. ft_tx_hash f = h) fs = Some f"
    and none: "rows_of h d = []"
  shows "rows_of h d' = [f]"
proof -
  from process_block_failed_end [OF fs(1)] obtain pre where
    pre: "process_block X rv n = pre @ [InsFailed fs]" "\<forall>a\<in>set pre. \<not> is_ins_failed a" by blast
  from run pre(1) obtain d1 where d1: "run_actions pre d = (Inr (), d1)" "run_actions [InsFailed fs] d1 = (Inr (), d')"
    by (auto simp: run_actions_append split: prod.splits sum.splits)
  then have e: "exec_action (InsFailed fs) d1 = Inr d'" by (auto split: sum.splits)
  from fs(2) have "fs \<noteq> []" by auto
  with e have "db_failed d' = db_failed d1 @ fresh_rows ft_tx_hash (map ft_tx_hash (db_failed d1)) fs"
    by (auto simp: map_sum_Inr_iff insert_failed_transactions_def bind_res_split_Inr insert_do_nothing_Inr)
  moreover have "db_failed d1 = db_failed d" by (rule run_without_failed [OF pre(2) d1(1)])
  moreover from none have "h \<notin> set (map ft_tx_hash (db_failed d))"
    by (auto simp: rows_of_def filter_empty_conv)
  ultimately show ?thesis
    using none fresh_rows_first [OF fs(2), of "map ft_tx_hash (db_failed d)"] by (simp add: rows_of_def)
qed

lemma stub_stays:
  assumes run: "run_triggered now (process_block X rv n) d = (r, d')"
    and t: "t \<in> set (db_txs d')" "t \<notin> set (db_txs d)" "tx_status t = 0" "rows_of (tx_hash t) d = []"
  shows "\<exists>ts. rows_of (tx_hash t) d' = [failed_stub t ts]"
proof (rule process_block_shape [of X rv n])
  fix e
  assume "process_block X rv n = [Abort e]"
  with run t show ?thesis by (simp add: exec_triggered_def)
next
  fix bs ts rest
  assume pb: "process_block X rv n = InsBlocks bs # unless_empty InsTxs ts @ rest"
    and rest: "\<forall>a\<in>set rest. \<not> is_ins_txs a"
  show ?thesis
  proof (cases "exec_triggered now (InsBlocks bs) d")
    case (Inl e)
    with run t pb show ?thesis by simp
  next
    case (Inr d1)
    then have txs1: "db_txs d1 = db_txs d" using exec_triggered_other(1) [OF Inr] by simp
    have none1: "rows_of (tx_hash t) d1 = []"
    proof -
      from Inr obtain n where "insert_blocks bs d = Inr (n, d1)"
        by (auto simp: exec_triggered_Inr map_sum_Inr_iff split: if_splits)
      from insert_keeps_failed(1) [OF this] t(4) show ?thesis by (simp add: rows_of_def)
    qed
    have run1: "run_triggered now (unless_empty InsTxs ts @ rest) d1 = (r, d')"
      using run pb Inr by simp
    show ?thesis
    proof (cases "ts = []")
      case True
      with run1 have "run_triggered now rest d1 = (r, d')" by (simp add: unless_empty_def)
      from run_triggered_other [OF rest this] t(1,2) txs1 show ?thesis by simp
    next
      case False
      show ?thesis
      proof (cases "exec_triggered now (InsTxs ts) d1")
        case (Inl e)
        with run1 False t(1,2) txs1 show ?thesis by (simp add: unless_empty_def)
      next
        case (Inr d2)
        with run1 False have run2: "run_triggered now rest d2 = (r, d')" by (simp add: unless_empty_def)
        note kept = run_triggered_other [OF rest run2, of "tx_hash t"]
        from exec_triggered_txs [OF Inr _ _ t(3) none1] kept t(1,2) txs1 show ?thesis
          by (metis list.distinct(1))
      qed
    qed
  qed
qed

text \<open>C18. The triggers destroy the diagnosis. On a database without the triggers, processing a block
  stores the diagnosis that the indexer has made of a failed transaction. On a database with them,
  the row of the transaction has already made the trigger insert a stub when the diagnosis comes,
  and the insert of the diagnosis, which does nothing on conflict, is dropped: whatever the rest of
  the run does, each failed transaction that the run has added is left with exactly the stub, with
  category UNKNOWN and neither reason nor function, and no listing by another category has it.\<close>

theorem triggers_lose_diagnosis:
  assumes none: "rows_of h d = []"
  shows "(\<forall>r d' t. run_triggered now (process_block X rv n) d = (r, d') \<and> t \<in> set (db_txs d') \<and>
       t \<notin> set (db_txs d) \<and> tx_status t = 0 \<and> tx_hash t = h \<longrightarrow>
       (\<exists>ts. rows_of h d' = [failed_stub t ts]) \<and>
       (\<forall>c since until. c \<noteq> Unknown \<longrightarrow> h \<notin> ft_tx_hash ` set (failed_where (Some c) since until d'))) \<and>
    (\<forall>d' fs f. run_actions (process_block X rv n) d = (Inr (), d') \<and>
       InsFailed fs \<in> set (process_block X rv n) \<and> find (\<lambda>f. ft_tx_hash f = h) fs = Some f \<longrightarrow>
       rows_of h d' = [f])"
proof (intro conjI allI impI; elim conjE)
  fix r d' t
  assume run: "run_triggered now (process_block X rv n) d = (r, d')" "t \<in> set (db_txs d')"
    "t \<notin> set (db_txs d)" "tx_status t = 0" "tx_hash t = h"
  from stub_stays [OF run(1-4)] none run(5) show stub: "\<exists>ts. rows_of h d' = [failed_stub t ts]" by simp
  fix c since until
  assume "c \<noteq> Unknown"
  show "h \<notin> ft_tx_hash ` set (failed_where (Some c) since until d')"
  proof
    assume "h \<in> ft_tx_hash ` set (failed_where (Some c) since until d')"
    then obtain f where "f \<in> set (rows_of h d')" "ft_error_category f = c"
      by (auto simp: failed_where_def rows_of_def)
    with stub \<open>c \<noteq> Unknown\<close> show False by (auto simp: failed_stub_def)
  qed
next
  fix d' fs f
  assume "run_actions (process_block X rv n) d = (Inr (), d')" "InsFailed fs \<in> set (process_block X rv n)"
    "find (\<lambda>f. ft_tx_hash f = h) fs = Some f"
  then show "rows_of h d' = [f]" using none by (rule diagnosis_stored)
qed

definition empty_triggered :: triggered_db where
  "empty_triggered = \<lparr>db_blocks = [], db_txs = [], db_tokens = [], db_pools = [], db_swaps = [],
     db_liqs = [], db_transfers = [], db_failed = [], db_traces = [], db_checkpoints = Map.empty,
     db_seq_swap = 1, db_seq_liq = 1, db_seq_transfer = 1, db_seq_trace = 1, db_subs = [],
     db_deliveries = Map.empty, db_rate_dispatches = [], db_labels = [], db_signatures = [],
     db_diagnoses = [], db_seq_sub = 1, db_seq_dispatch = 1, db_profiles = [], db_snapshots = [],
     db_seq_snapshot = 1, db_audit = []\<rparr>"

lemma sample_run_triggered:
  "\<exists>d1. run_triggered (seconds 100) (process_block sample_wx sample_view 18) empty_triggered = (Inr (), d1) \<and>
     (\<exists>t\<in>set (db_txs d1). tx_status t = 0 \<and> tx_hash t = ''0x4d'')"
  using sample_rows_ok unfolding sample_process_block
  by (simp add: sample_actions_def exec_triggered_def insert_defs insert_do_nothing_def empty_triggered_def
      fn_trg_block_timestamp_validate_def fn_trg_transaction_check_failed_def added_def seconds_def
      block_known_def tx_known_def sample_trace_def sample_failure_def failed_stub_def)

lemma triggers_lose_diagnosis_witness:
  "\<exists>d1 d2. run_triggered (seconds 100) (process_block sample_wx sample_view 18) empty_triggered = (Inr (), d1) \<and>
     run_actions (process_block sample_wx sample_view 18) empty_triggered = (Inr (), d2) \<and>
     map ft_revert_reason (rows_of ''0x4d'' d1) = [None] \<and>
     map ft_revert_reason (rows_of ''0x4d'' d2) = [Some ''no allowance'']"
proof -
  obtain d1 t where d1: "run_triggered (seconds 100) (process_block sample_wx sample_view 18) empty_triggered = (Inr (), d1)"
    "t \<in> set (db_txs d1)" "tx_status t = 0" "tx_hash t = ''0x4d''"
    using sample_run_triggered by blast
  have "list_all action_rows_ok (process_block sample_wx sample_view 18)"
    by (simp only: sample_process_block sample_rows_ok)
  with process_block_runs [OF sample_view_block [of 18], of sample_wx empty_triggered]
  obtain d2 where d2: "run_actions (process_block sample_wx sample_view 18) empty_triggered = (Inr (), d2)"
    by auto
  have e: "rows_of ''0x4d'' empty_triggered = []" "t \<notin> set (db_txs empty_triggered)"
    by (simp_all add: rows_of_def empty_triggered_def)
  note both = triggers_lose_diagnosis [OF e(1), where X = sample_wx and rv = sample_view and n = 18]
  from both d1 e(2) obtain ts where "rows_of ''0x4d'' d1 = [failed_stub t ts]" by blast
  moreover have "InsFailed [sample_failure (seconds 3) ''0x4d''] \<in> set (process_block sample_wx sample_view 18)"
    "find (\<lambda>f. ft_tx_hash f = ''0x4d'') [sample_failure (seconds 3) ''0x4d''] = Some (sample_failure (seconds 3) ''0x4d'')"
    by (simp_all add: sample_process_block sample_actions_def sample_failure_def)
  with both d2 have "rows_of ''0x4d'' d2 = [sample_failure (seconds 3) ''0x4d'']" by blast
  ultimately show ?thesis
    using d1(1) d2 by (intro exI [of _ d1] exI [of _ d2]) (simp add: failed_stub_def sample_failure_def)
qed

end
