(* ===== verification/Api.thy ===== *)
theory Api
  imports Analytics Dispatch Process
begin

text \<open>
  The REST server, \<open>src/crates/api/src\<close>: its configuration, the authentication of the write routes,
  the errors and their HTTP statuses, one definition per handler, and the router. What the
  extractors of axum deliver (a query string, a path parameter, a JSON body) is an argument, with
  the status of the rejection on the left; a handler evaluates its extractors in the order of its
  parameters, so the authentication comes first where it is declared. The database is only
  changed by the last step of a handler: a handler that fails returns no new database. The value
  of \<open>NOW()\<close>, the random bytes, and the external crates (\<open>http\<close>, \<open>subtle\<close>, \<open>hex\<close>, \<open>url\<close>, \<open>chrono\<close>,
  Unicode lower case, alloy) are arguments.
\<close>

section \<open>Configuration\<close>

record api_config =
  ac_database_url :: string
  ac_host :: string
  ac_port :: nat
  ac_max_db_connections :: nat
  ac_admin_api_key :: string

definition api_config_from_env_with :: "(string \<Rightarrow> string option) \<Rightarrow> string + api_config" where
  "api_config_from_env_with env =
     (case env ''DATABASE_URL'' of
        None \<Rightarrow> Inl ''DATABASE_URL environment variable is required''
      | Some database_url \<Rightarrow>
          if str_trim database_url = [] then Inl ''DATABASE_URL environment variable is required''
          else (case env ''AMARILLO_ADMIN_API_KEY'' of
              None \<Rightarrow> Inl ''AMARILLO_ADMIN_API_KEY environment variable is required (S16/M006/D023, no silent default)''
            | Some v \<Rightarrow>
                if str_trim v = []
                then Inl ''AMARILLO_ADMIN_API_KEY environment variable is required (S16/M006/D023, no silent default)''
                else Inr \<lparr>ac_database_url = database_url,
                          ac_host = (case env ''API_HOST'' of None \<Rightarrow> ''0.0.0.0'' | Some h \<Rightarrow> h),
                          ac_port = (case Option.bind (env ''API_PORT'') (from_str_radix 16 10) of
                                       None \<Rightarrow> 3000 | Some p \<Rightarrow> p),
                          ac_max_db_connections =
                            (case Option.bind (env ''MAX_DB_CONNECTIONS'') (from_str_radix 32 10) of
                               None \<Rightarrow> 10 | Some n \<Rightarrow> n),
                          ac_admin_api_key = str_trim v\<rparr>))"

text \<open>The fields that \<open>Debug\<close> shows, with the secrets masked.\<close>

definition api_config_debug :: "api_config \<Rightarrow> (string \<times> string) list" where
  "api_config_debug c =
     [(''database_url'', ''***''), (''host'', ac_host c), (''port'', nat_to_dec (ac_port c)),
      (''max_db_connections'', nat_to_dec (ac_max_db_connections c)), (''admin_api_key'', ''***'')]"

section \<open>Errors and responses\<close>

datatype api_error =
    ApiNotFound string
  | ApiBadRequest string
  | ApiUnauthorized
  | ApiInternal string

fun api_error_from :: "db_error \<Rightarrow> api_error" where
  "api_error_from (DbNotFound msg) = ApiNotFound msg"
| "api_error_from (DbDuplicate msg) = ApiBadRequest msg"
| "api_error_from (Sqlx e) = ApiInternal ''database error''"
| "api_error_from (Migration e) = ApiInternal ''internal error''"

fun into_response :: "api_error \<Rightarrow> nat \<times> string" where
  "into_response (ApiNotFound msg) = (404, msg)"
| "into_response (ApiBadRequest msg) = (400, msg)"
| "into_response ApiUnauthorized = (401, ''unauthorized'')"
| "into_response (ApiInternal msg) = (500, msg)"

text \<open>Why a handler produced no success: its error, the rejection of an extractor with its status,
  or a panic.\<close>

datatype refusal = Refused api_error | Rejected nat | Panicked

definition lift_db :: "db_error + 'a \<Rightarrow> refusal + 'a" where
  "lift_db = map_sum (\<lambda>e. Refused (api_error_from e)) (\<lambda>x. x)"

definition extracted :: "nat + 'a \<Rightarrow> refusal + 'a" where
  "extracted = map_sum Rejected (\<lambda>x. x)"

definition bad_request :: "string \<Rightarrow> refusal + 'a" where
  "bad_request msg = Inl (Refused (ApiBadRequest msg))"

definition not_found :: "string \<Rightarrow> refusal + 'a" where
  "not_found msg = Inl (Refused (ApiNotFound msg))"

lemma lift_db_simps [simp]:
  "lift_db (Inl e) = Inl (Refused (api_error_from e))"
  "lift_db (Inr x) = Inr x"
  by (simp_all add: lift_db_def)

lemma extracted_simps [simp]:
  "extracted (Inl s) = Inl (Rejected s)"
  "extracted (Inr x) = Inr x"
  by (simp_all add: extracted_def)

section \<open>Pages\<close>

definition clamp :: "int \<Rightarrow> int \<Rightarrow> int \<Rightarrow> int" where
  "clamp lo hi n = max lo (min hi n)"

definition or_default :: "'a option \<Rightarrow> 'a \<Rightarrow> 'a" where
  "or_default v dflt = (case v of None \<Rightarrow> dflt | Some x \<Rightarrow> x)"

record pagination_params =
  pp_limit :: "int option"
  pp_offset :: "int option"

definition page_limit :: "pagination_params \<Rightarrow> int" where
  "page_limit p = clamp 1 100 (or_default (pp_limit p) 20)"

definition page_offset :: "pagination_params \<Rightarrow> int" where
  "page_offset p = max (or_default (pp_offset p) 0) 0"

record pagination_info =
  pi_limit :: int
  pi_offset :: int
  pi_count :: int

record pagination_meta = pagination_info +
  pm_total :: int

definition paginated :: "pagination_params \<Rightarrow> (int \<Rightarrow> int \<Rightarrow> db_error + 'r list) \<Rightarrow>
    refusal + 'r list \<times> pagination_info" where
  "paginated p fetch =
     bind_res (lift_db (fetch (page_limit p) (page_offset p))) (\<lambda>rows.
       Inr (rows, \<lparr>pi_limit = page_limit p, pi_offset = page_offset p, pi_count = int (length rows)\<rparr>))"

section \<open>External code\<close>

record 'ty api_ext =
  ax_to_str :: "u8 list \<Rightarrow> string option"
  ax_ct_eq :: "u8 list \<Rightarrow> u8 list \<Rightarrow> bool"
  ax_hex_encode :: "u8 list \<Rightarrow> string"
  ax_parse_url :: "string \<Rightarrow> parsed_url option"
  ax_from_rfc3339 :: "string \<Rightarrow> timestamp option"
  ax_lowercase :: "string \<Rightarrow> string"
  ax_collate :: "string \<Rightarrow> nat list"
  ax_hash_iter :: "(string \<times> string) list \<Rightarrow> (string \<times> string) list"
  ax_abi :: "'ty abi_ext"
  ax_divide :: "numeric \<Rightarrow> numeric \<Rightarrow> numeric"
  ax_probe :: "string + unit"

section \<open>Authentication\<close>

text \<open>\<open>AdminAuth\<close>; \<open>header\<close> is the value of \<open>Authorization\<close>.\<close>

definition admin_auth :: "'ty api_ext \<Rightarrow> string \<Rightarrow> u8 list option \<Rightarrow> api_error + unit" where
  "admin_auth X key header =
     (case header of
        None \<Rightarrow> Inl ApiUnauthorized
      | Some h \<Rightarrow> (case ax_to_str X h of
          None \<Rightarrow> Inl ApiUnauthorized
        | Some v \<Rightarrow> (case strip_prefix ''Bearer '' v of
            None \<Rightarrow> Inl ApiUnauthorized
          | Some token \<Rightarrow>
              if ax_ct_eq X (string_to_bytes token) (string_to_bytes key) then Inr ()
              else Inl ApiUnauthorized)))"

definition guarded :: "'ty api_ext \<Rightarrow> string \<Rightarrow> u8 list option \<Rightarrow> (unit \<Rightarrow> refusal + 'a) \<Rightarrow> refusal + 'a" where
  "guarded X key header f = bind_res (map_sum Refused (\<lambda>u. u) (admin_auth X key header)) f"

section \<open>Alert subscriptions\<close>

definition max_webhook_url_len :: nat where "max_webhook_url_len = 2048"
definition default_list_limit :: int where "default_list_limit = 100"
definition max_list_limit :: int where "max_list_limit = 500"
definition secret_bytes :: nat where "secret_bytes = 32"
definition addr_hex_len :: nat where "addr_hex_len = 40"

record create_body =
  cb_webhook_url :: string
  cb_error_category :: "string option"
  cb_to_addr :: "string option"
  cb_sub_type :: "string option"
  cb_threshold_count :: "int option"
  cb_threshold_window_secs :: "int option"
  cb_debounce_secs :: "int option"

text \<open>\<open>rng\<close> is the outcome of \<open>getrandom\<close>.\<close>

definition generate_signing_secret :: "'ty api_ext \<Rightarrow> u8 list option \<Rightarrow> refusal + string" where
  "generate_signing_secret X rng =
     (case rng of None \<Rightarrow> Inl (Refused (ApiInternal ''rng unavailable'')) | Some buf \<Rightarrow> Inr (ax_hex_encode X buf))"

definition is_evm_address :: "string \<Rightarrow> bool" where
  "is_evm_address lower = (case strip_prefix ''0x'' lower of
     Some hex \<Rightarrow> length hex = addr_hex_len \<and> list_all is_ascii_hexdigit hex
   | None \<Rightarrow> False)"

definition parse_category :: "string \<Rightarrow> string option \<Rightarrow> refusal + error_category option" where
  "parse_category field v = (case v of
     None \<Rightarrow> Inr None
   | Some s \<Rightarrow> if s = [] then Inr None
       else (case error_category_from_str s of
               Inr c \<Rightarrow> Inr (Some c)
             | Inl _ \<Rightarrow> bad_request (''invalid `'' @ field @ ''`: '' @ s)))"

definition normal_to_addr :: "string option \<Rightarrow> refusal + string option" where
  "normal_to_addr v = (case v of
     None \<Rightarrow> Inr None
   | Some s \<Rightarrow> if s = [] then Inr None
       else let lower = to_ascii_lowercase s in
         if \<not> is_evm_address lower then bad_request (''invalid `to_addr` (expected 0x + 40 hex): '' @ s)
         else Inr (Some lower))"

definition parse_sub_type :: "string option \<Rightarrow> refusal + string" where
  "parse_sub_type v = (case v of
     None \<Rightarrow> Inr ''per_event''
   | Some s \<Rightarrow> if s = [] \<or> s = ''per_event'' then Inr ''per_event''
       else if s = ''rate_threshold'' then Inr ''rate_threshold''
       else bad_request (''invalid `sub_type` (expected 'per_event' or 'rate_threshold'): '' @ s))"

definition required :: "string \<Rightarrow> 'a option \<Rightarrow> refusal + 'a" where
  "required msg v = (case v of None \<Rightarrow> bad_request msg | Some x \<Rightarrow> Inr x)"

definition check :: "bool \<Rightarrow> string \<Rightarrow> refusal + unit" where
  "check b msg = (if b then Inr () else bad_request msg)"

record subscription_created =
  sc_subscription_id :: int
  sc_error_category :: "error_category option"
  sc_to_addr :: "string option"
  sc_webhook_url :: string
  sc_signing_secret :: string
  sc_active :: bool
  sc_created_at :: timestamp
  sc_sub_type :: string
  sc_threshold_count :: "int option"
  sc_threshold_window_secs :: "int option"
  sc_debounce_secs :: "int option"

definition created_from :: "alert_subscription \<Rightarrow> subscription_created" where
  "created_from s =
     \<lparr>sc_subscription_id = sub_id s, sc_error_category = sub_error_category s, sc_to_addr = sub_to_addr s,
      sc_webhook_url = sub_webhook_url s, sc_signing_secret = sub_signing_secret s, sc_active = sub_active s,
      sc_created_at = sub_created_at s, sc_sub_type = sub_type s,
      sc_threshold_count = sub_threshold_count s,
      sc_threshold_window_secs = sub_threshold_window_secs s, sc_debounce_secs = sub_debounce_secs s\<rparr>"

definition create_alert_subscription :: "'ty api_ext \<Rightarrow> string \<Rightarrow> timestamp \<Rightarrow> u8 list option \<Rightarrow>
    u8 list option \<Rightarrow> nat + create_body \<Rightarrow> service_db \<Rightarrow> refusal + subscription_created \<times> service_db" where
  "create_alert_subscription X key now rng header json d =
     guarded X key header (\<lambda>_. bind_res (extracted json) (\<lambda>body.
     bind_res (check (length (cb_webhook_url body) \<le> max_webhook_url_len)
       (''webhook_url too long (max '' @ nat_to_dec max_webhook_url_len @ '')'')) (\<lambda>_.
     bind_res (case webhook_url_is_safe (ax_parse_url X) (cb_webhook_url body) of
         Inl reason \<Rightarrow> bad_request (''unsafe webhook_url: '' @ reason_debug reason)
       | Inr _ \<Rightarrow> Inr ()) (\<lambda>_.
     bind_res (parse_category ''error_category'' (cb_error_category body)) (\<lambda>category.
     bind_res (normal_to_addr (cb_to_addr body)) (\<lambda>to_addr_norm.
     bind_res (parse_sub_type (cb_sub_type body)) (\<lambda>typ.
     bind_res (generate_signing_secret X rng) (\<lambda>signing_secret.
     bind_res
       (if typ = ''per_event'' then
          bind_res (check (cb_threshold_count body = None \<and> cb_threshold_window_secs body = None \<and>
              cb_debounce_secs body = None)
            ''per_event sub_type must not carry threshold_count / threshold_window_secs / debounce_secs'') (\<lambda>_.
          lift_db (insert_alert_subscription now category to_addr_norm (cb_webhook_url body) signing_secret d))
        else
          bind_res (required ''rate_threshold requires `threshold_count` (> 0)'' (cb_threshold_count body)) (\<lambda>count.
          bind_res (required ''rate_threshold requires `threshold_window_secs` (> 0)''
            (cb_threshold_window_secs body)) (\<lambda>window.
          bind_res (required ''rate_threshold requires `debounce_secs` (>= 0)'' (cb_debounce_secs body)) (\<lambda>debounce.
          bind_res (check (0 < count) (''`threshold_count` must be > 0; got '' @ int_to_dec count)) (\<lambda>_.
          bind_res (check (0 < window) (''`threshold_window_secs` must be > 0; got '' @ int_to_dec window)) (\<lambda>_.
          bind_res (check (0 \<le> debounce) (''`debounce_secs` must be >= 0; got '' @ int_to_dec debounce)) (\<lambda>_.
          lift_db (insert_alert_subscription_rate now category to_addr_norm (cb_webhook_url body)
            signing_secret count window debounce d))))))))
       (\<lambda>(row, d'). Inr (created_from row, d'))))))))))"

text \<open>The list leaves the secrets out (\<open>skip_serializing\<close>).\<close>

record subscription_view =
  sv_subscription_id :: int
  sv_error_category :: "error_category option"
  sv_to_addr :: "string option"
  sv_webhook_url :: string
  sv_active :: bool
  sv_created_at :: timestamp
  sv_sub_type :: string
  sv_threshold_count :: "int option"
  sv_threshold_window_secs :: "int option"
  sv_debounce_secs :: "int option"

definition serialized :: "alert_subscription \<Rightarrow> subscription_view" where
  "serialized s =
     \<lparr>sv_subscription_id = sub_id s, sv_error_category = sub_error_category s, sv_to_addr = sub_to_addr s,
      sv_webhook_url = sub_webhook_url s, sv_active = sub_active s, sv_created_at = sub_created_at s,
      sv_sub_type = sub_type s, sv_threshold_count = sub_threshold_count s,
      sv_threshold_window_secs = sub_threshold_window_secs s, sv_debounce_secs = sub_debounce_secs s\<rparr>"

definition list_subscriptions_handler :: "nat + int option \<Rightarrow> service_db \<Rightarrow> refusal + subscription_view list" where
  "list_subscriptions_handler query d =
     bind_res (extracted query) (\<lambda>lim.
     bind_res (lift_db (list_alert_subscriptions (clamp 1 max_list_limit (or_default lim default_list_limit)) d))
       (\<lambda>rows. Inr (map serialized rows)))"

definition deactivate_handler :: "'ty api_ext \<Rightarrow> string \<Rightarrow> u8 list option \<Rightarrow> nat + int \<Rightarrow> service_db \<Rightarrow>
    refusal + unit \<times> service_db" where
  "deactivate_handler X key header path d =
     guarded X key header (\<lambda>_. bind_res (extracted path) (\<lambda>i.
     let (affected, d') = deactivate_alert_subscription i d in
     if affected = 0 then not_found (''alert subscription '' @ int_to_dec i @ '' (not found or already inactive)'')
     else Inr ((), d')))"

definition em_dash :: string where "em_dash = map char_of [0xE2 :: nat, 0x80, 0x94]"

definition rotate_handler :: "'ty api_ext \<Rightarrow> string \<Rightarrow> u8 list option \<Rightarrow> u8 list option \<Rightarrow> nat + int \<Rightarrow>
    service_db \<Rightarrow> refusal + subscription_created \<times> service_db" where
  "rotate_handler X key rng header path d =
     guarded X key header (\<lambda>_. bind_res (extracted path) (\<lambda>i.
     bind_res (generate_signing_secret X rng) (\<lambda>new_secret.
     bind_res (lift_db (rotate_alert_subscription_secret i new_secret d)) (\<lambda>(row, d').
     (case row of
        None \<Rightarrow> not_found (''alert subscription '' @ int_to_dec i @ '' (not found or inactive '' @ em_dash @ '' cannot rotate)'')
      | Some s \<Rightarrow> Inr (created_from s, d'))))))"

section \<open>Contract labels\<close>

definition max_label_len :: nat where "max_label_len = 100"
definition max_owner_id_len :: nat where "max_owner_id_len = 100"

record create_label_body =
  lb_address :: string
  lb_label :: string
  lb_owner_id :: "string option"

definition create_contract_label :: "'ty api_ext \<Rightarrow> string \<Rightarrow> timestamp \<Rightarrow> u8 list option \<Rightarrow>
    nat + create_label_body \<Rightarrow> service_db \<Rightarrow> refusal + contract_label \<times> service_db" where
  "create_contract_label X key now header json d =
     guarded X key header (\<lambda>_. bind_res (extracted json) (\<lambda>body.
     let address = to_ascii_lowercase (str_trim (lb_address body));
         label = str_trim (lb_label body);
         owner_id_norm = Option.bind (lb_owner_id body) (\<lambda>s. if str_trim s = [] then None else Some (str_trim s))
     in bind_res (check (is_evm_address address)
          (''invalid `address` (expected 0x + 40 hex): '' @ lb_address body)) (\<lambda>_.
        bind_res (check (label \<noteq> []) ''`label` must be non-empty'') (\<lambda>_.
        bind_res (check (length label \<le> max_label_len)
          (''`label` too long (max '' @ nat_to_dec max_label_len @ '' bytes)'')) (\<lambda>_.
        bind_res (check (case owner_id_norm of Some ow \<Rightarrow> length ow \<le> max_owner_id_len | None \<Rightarrow> True)
          (''`owner_id` too long (max '' @ nat_to_dec max_owner_id_len @ '' bytes)'')) (\<lambda>_.
        lift_db (upsert_contract_label now address label owner_id_norm d)))))))"

definition delete_label_handler :: "'ty api_ext \<Rightarrow> string \<Rightarrow> u8 list option \<Rightarrow> nat + string \<Rightarrow> service_db \<Rightarrow>
    refusal + unit \<times> service_db" where
  "delete_label_handler X key header path d =
     guarded X key header (\<lambda>_. bind_res (extracted path) (\<lambda>address.
     let lower = to_ascii_lowercase (str_trim address) in
     bind_res (check (is_evm_address lower)
       (''invalid `address` (expected 0x + 40 hex): '' @ address)) (\<lambda>_.
     bind_res (lift_db (delete_contract_label lower d)) (\<lambda>(affected, d').
     if affected = 0 then not_found (''contract_label '' @ lower @ '' (not found)'') else Inr ((), d')))))"
section \<open>Failed transactions\<close>

definition max_call_tree_frames :: int where "max_call_tree_frames = 2000"

definition is_tx_hash :: "string \<Rightarrow> bool" where
  "is_tx_hash s = (case strip_prefix ''0x'' s of
     Some h \<Rightarrow> length h = 64 \<and> list_all is_ascii_hexdigit h
   | None \<Rightarrow> False)"

definition extract_selector :: "'ty api_ext \<Rightarrow> string \<Rightarrow> (unit, string option) outcome" where
  "extract_selector X input_hex =
     (let stripped = strip_0x input_hex in
      if length stripped < 8 then Ret None
      else if is_char_boundary stripped 8 then Ret (Some (''0x'' @ ax_lowercase X (take 8 stripped)))
      else Panic)"

record failed_tx_detail =
  fd_failed :: failed_transaction
  fd_call_tree :: "trace_log list"
  fd_call_tree_truncated :: bool
  fd_root_cause :: "trace_log option"
  fd_failing_function_decoded :: "decoded_function option"
  fd_root_cause_decoded :: "decoded_function option"
  fd_diagnosis :: "diagnosis option"

definition with_args :: "'ty api_ext \<Rightarrow> function_signature \<Rightarrow> string \<Rightarrow> decoded_function" where
  "with_args X fs input = (case decode_args (ax_abi X) (fs_signature fs) input of
     Inr args \<Rightarrow> (decoded_function_from fs)\<lparr>df_args := Some args\<rparr>
   | Inl _ \<Rightarrow> decoded_function_from fs)"

definition decode_failing_function :: "'ty api_ext \<Rightarrow> service_db \<Rightarrow> failed_transaction \<Rightarrow> trace_log list \<Rightarrow>
    refusal + decoded_function option" where
  "decode_failing_function X d failed call_tree =
     (case ft_failing_function failed of
        None \<Rightarrow> Inr None
      | Some selector \<Rightarrow> bind_res (lift_db (get_function_signature selector d)) (\<lambda>r.
          Inr (map_option (\<lambda>fs.
            case Option.bind (find (\<lambda>f. tl_call_depth f = 0) call_tree) tl_input of
              Some root_input \<Rightarrow> with_args X fs root_input
            | None \<Rightarrow> decoded_function_from fs) r)))"

definition decode_root_cause :: "'ty api_ext \<Rightarrow> service_db \<Rightarrow> trace_log option \<Rightarrow>
    refusal + decoded_function option" where
  "decode_root_cause X d root_cause =
     (case Option.bind root_cause tl_input of
        None \<Rightarrow> Inr None
      | Some input_hex \<Rightarrow> (case extract_selector X input_hex of
          Ret None \<Rightarrow> Inr None
        | Ret (Some selector) \<Rightarrow> bind_res (lift_db (get_function_signature selector d)) (\<lambda>r.
            Inr (map_option (\<lambda>fs. with_args X fs input_hex) r))
        | _ \<Rightarrow> Inl Panicked))"

definition get_failed_tx :: "'ty api_ext \<Rightarrow> nat + string \<Rightarrow> service_db \<Rightarrow> refusal + failed_tx_detail" where
  "get_failed_tx X path d =
     bind_res (extracted path) (\<lambda>h.
     bind_res (check (is_tx_hash h) (''invalid tx_hash (expected 0x + 64 hex): '' @ h)) (\<lambda>_.
     bind_res (lift_db (get_failed_transaction h d)) (\<lambda>failed.
     bind_res (lift_db (list_trace_logs_by_tx h (max_call_tree_frames + 1) d)) (\<lambda>logs.
     let truncated = max_call_tree_frames < int (length logs);
         call_tree = (if truncated then take (nat max_call_tree_frames) logs else logs) in
     bind_res (lift_db (get_first_error_frame h d)) (\<lambda>root_cause.
     bind_res (decode_failing_function X d failed call_tree) (\<lambda>failing_function_decoded.
     bind_res (decode_root_cause X d root_cause) (\<lambda>root_cause_decoded.
     Inr \<lparr>fd_failed = failed, fd_call_tree = call_tree, fd_call_tree_truncated = truncated,
          fd_root_cause = root_cause, fd_failing_function_decoded = failing_function_decoded,
          fd_root_cause_decoded = root_cause_decoded,
          fd_diagnosis = map_option diagnosis_from
            (get_category_diagnosis (as_wire (ft_error_category failed)) d)\<rparr>)))))))"

definition parse_ts :: "'ty api_ext \<Rightarrow> string option \<Rightarrow> string \<Rightarrow> refusal + timestamp option" where
  "parse_ts X v field = (case v of
     None \<Rightarrow> Inr None
   | Some s \<Rightarrow> if s = [] then Inr None
       else (case ax_from_rfc3339 X s of
               Some t \<Rightarrow> Inr (Some t)
             | None \<Rightarrow> bad_request (''invalid `'' @ field @ ''` timestamp (expected RFC3339): '' @ s)))"

record failed_tx_query =
  fq_category :: "string option"
  fq_since :: "string option"
  fq_until :: "string option"
  fq_page :: pagination_params

definition list_failed_tx :: "'ty api_ext \<Rightarrow> tie_order \<Rightarrow> nat + failed_tx_query \<Rightarrow> service_db \<Rightarrow>
    refusal + failed_transaction list \<times> pagination_meta" where
  "list_failed_tx X ties query d =
     bind_res (extracted query) (\<lambda>q.
     bind_res (parse_category ''category'' (fq_category q)) (\<lambda>category.
     bind_res (parse_ts X (fq_since q) ''from'') (\<lambda>since.
     bind_res (parse_ts X (fq_until q) ''to'') (\<lambda>until.
     let lim = page_limit (fq_page q); offset = page_offset (fq_page q) in
     bind_res (lift_db (list_failed_transactions ties category since until lim offset d)) (\<lambda>rows.
     Inr (rows, \<lparr>pi_limit = lim, pi_offset = offset, pi_count = int (length rows),
                 pm_total = count_failed_transactions category since until d\<rparr>))))))"

record trend_query =
  tq_interval :: "string option"
  tq_since :: "string option"
  tq_until :: "string option"

definition parse_bucket :: "string option \<Rightarrow> refusal + time_bucket" where
  "parse_bucket v = (case v of
     None \<Rightarrow> Inr Day
   | Some s \<Rightarrow> if s = [] then Inr Day
       else (case time_bucket_from_str s of
               Inr b \<Rightarrow> Inr b
             | Inl _ \<Rightarrow> bad_request (''invalid `interval` (hour|day|week): '' @ s)))"

definition timeseries_handler :: "'ty api_ext \<Rightarrow> nat + trend_query \<Rightarrow> service_db \<Rightarrow>
    refusal + failed_tx_trend_point list" where
  "timeseries_handler X query d =
     bind_res (extracted query) (\<lambda>q.
     bind_res (parse_bucket (tq_interval q)) (\<lambda>bucket.
     bind_res (parse_ts X (tq_since q) ''from'') (\<lambda>since.
     bind_res (parse_ts X (tq_until q) ''to'') (\<lambda>until.
     Inr (failed_tx_timeseries bucket since until d)))))"

record by_label_query =
  bq_since :: "string option"
  bq_until :: "string option"
  bq_owner :: "string option"
  bq_limit :: "int option"

definition by_label_handler :: "'ty api_ext \<Rightarrow> nat + by_label_query \<Rightarrow> service_db \<Rightarrow>
    refusal + failed_tx_by_label_point list" where
  "by_label_handler X query d =
     bind_res (extracted query) (\<lambda>q.
     bind_res (parse_ts X (bq_since q) ''from'') (\<lambda>since.
     bind_res (parse_ts X (bq_until q) ''to'') (\<lambda>until.
     let owner = (if bq_owner q = Some [] then None else bq_owner q);
         lim = clamp 1 200 (or_default (bq_limit q) 50) in
     lift_db (failed_tx_by_label_aggregate (ax_hash_iter X) owner since until lim d))))"

section \<open>Chain data\<close>

text \<open>The handlers of \<open>routes/blocks.rs\<close>, \<open>pools.rs\<close>, \<open>tokens.rs\<close> and \<open>swaps.rs\<close>.\<close>

definition get_latest_block_handler :: "'a chain_db_scheme \<Rightarrow> refusal + int option" where
  "get_latest_block_handler d = lift_db (get_latest_block_number d)"

definition get_block_handler :: "nat + int \<Rightarrow> 'a chain_db_scheme \<Rightarrow> refusal + block" where
  "get_block_handler path d = bind_res (extracted path) (\<lambda>n. lift_db (get_block_by_number n d))"

definition list_pools_handler :: "tie_order \<Rightarrow> nat + pagination_params \<Rightarrow> 'a chain_db_scheme \<Rightarrow>
    refusal + pool list \<times> pagination_info" where
  "list_pools_handler ties query d = bind_res (extracted query) (\<lambda>p.
     paginated p (\<lambda>lim offset. list_pools ties lim offset d))"

definition get_pool_handler :: "nat + string \<Rightarrow> 'a chain_db_scheme \<Rightarrow> refusal + pool" where
  "get_pool_handler path d = bind_res (extracted path) (\<lambda>address. lift_db (get_pool_by_address address d))"

definition list_tokens_handler :: "(string \<Rightarrow> nat list) \<Rightarrow> tie_order \<Rightarrow> nat + pagination_params \<Rightarrow> 'a chain_db_scheme \<Rightarrow>
    refusal + token list \<times> pagination_info" where
  "list_tokens_handler collate ties query d = bind_res (extracted query) (\<lambda>p.
     paginated p (\<lambda>lim offset. list_tokens collate ties lim offset d))"

definition get_token_handler :: "nat + string \<Rightarrow> 'a chain_db_scheme \<Rightarrow> refusal + token" where
  "get_token_handler path d = bind_res (extracted path) (\<lambda>address. lift_db (get_token_by_address address d))"

definition list_swaps_handler :: "tie_order \<Rightarrow> nat + string option \<times> pagination_params \<Rightarrow> 'a chain_db_scheme \<Rightarrow>
    refusal + swap_event list \<times> pagination_info" where
  "list_swaps_handler ties query d = bind_res (extracted query) (\<lambda>(pool, p).
     paginated p (\<lambda>lim offset. list_swap_events ties pool lim offset d))"

section \<open>Reports and health\<close>

text \<open>The handlers of \<open>routes/analytics.rs\<close>, \<open>traders.rs\<close>, \<open>pools.rs\<close> and \<open>health.rs\<close>.\<close>

definition daily_volume :: "tie_order \<Rightarrow> nat + string option \<times> pagination_params \<Rightarrow> 'a chain_db_scheme \<Rightarrow>
    refusal + daily_swap_volume list \<times> pagination_info" where
  "daily_volume ties query d = bind_res (extracted query) (\<lambda>(pool, p).
     paginated p (\<lambda>lim offset. get_daily_swap_volume ties pool lim offset d))"

definition failed_tx_analysis_handler ::
    "tie_order \<Rightarrow> (numeric \<Rightarrow> numeric \<Rightarrow> numeric) \<Rightarrow> 'a chain_db_scheme \<Rightarrow> refusal + analysis_row list" where
  "failed_tx_analysis_handler ties dv d = Inr (get_failed_tx_analysis ties dv d)"

definition top_traders_handler :: "tie_order \<Rightarrow> nat + int option \<Rightarrow> service_db \<Rightarrow>
    refusal + top_trader list \<times> pagination_info" where
  "top_traders_handler ties query d = bind_res (extracted query) (\<lambda>q.
     let lim = clamp 1 100 (or_default q 10) in
     bind_res (lift_db (get_top_traders ties lim d)) (\<lambda>traders.
     Inr (traders, \<lparr>pi_limit = lim, pi_offset = 0, pi_count = int (length traders)\<rparr>)))"

definition pool_stats_handler :: "(numeric \<Rightarrow> numeric \<Rightarrow> numeric) \<Rightarrow> nat + string \<Rightarrow>
    nat + timestamp \<times> timestamp \<Rightarrow> 'a chain_db_scheme \<Rightarrow> refusal + pool_stats" where
  "pool_stats_handler dv path query d =
     bind_res (extracted path) (\<lambda>address. bind_res (extracted query) (\<lambda>(from_date, to_date).
       lift_db (get_pool_stats dv address from_date to_date d)))"

text \<open>The health check; \<open>probe\<close> is the outcome of \<open>SELECT 1\<close>.\<close>

definition health_check :: "string + unit \<Rightarrow> refusal + string \<times> string" where
  "health_check probe = (case probe of
     Inl e \<Rightarrow> Inl (Refused (ApiInternal ''database unreachable''))
   | Inr _ \<Rightarrow> Inr (''ok'', ''connected''))"

section \<open>The router\<close>

datatype http_method = GET | POST | DELETE | OtherMethod

datatype route_name =
    LatestBlock | GetBlock | ListPools | GetPool | PoolStats | ListTokens | GetToken | ListSwaps
  | TopTraders | DailyVolume | FailedAnalysis | FailedTimeseries | FailedByLabel | ListFailed
  | GetFailed | CreateSub | ListSubs | DeactivateSub | RotateSub | CreateLabel | DeleteLabel | Health

text \<open>The methods and handlers of a path, given by its non-empty segments; a static segment wins over
  a parameter, and the parameter is handed to the handler. A HEAD request is answered as GET without
  the body, and OPTIONS by the CORS layer; \<open>OtherMethod\<close> is any other method.\<close>

definition v1_router :: "string list \<Rightarrow> ((http_method \<times> route_name) list \<times> string option) option" where
  "v1_router segs =
     (case segs of
        [a] \<Rightarrow>
          if a = ''pools'' then Some ([(GET, ListPools)], None)
          else if a = ''tokens'' then Some ([(GET, ListTokens)], None)
          else if a = ''swaps'' then Some ([(GET, ListSwaps)], None)
          else if a = ''failed-tx'' then Some ([(GET, ListFailed)], None)
          else if a = ''alert-subscriptions'' then Some ([(POST, CreateSub), (GET, ListSubs)], None)
          else if a = ''contract-labels'' then Some ([(POST, CreateLabel)], None)
          else None
      | [a, b] \<Rightarrow>
          if a = ''blocks'' then
            if b = ''latest'' then Some ([(GET, LatestBlock)], None) else Some ([(GET, GetBlock)], Some b)
          else if a = ''pools'' then Some ([(GET, GetPool)], Some b)
          else if a = ''tokens'' then Some ([(GET, GetToken)], Some b)
          else if a = ''traders'' \<and> b = ''top'' then Some ([(GET, TopTraders)], None)
          else if a = ''analytics'' \<and> b = ''daily-volume'' then Some ([(GET, DailyVolume)], None)
          else if a = ''analytics'' \<and> b = ''failed-tx'' then Some ([(GET, FailedAnalysis)], None)
          else if a = ''failed-tx'' then Some ([(GET, GetFailed)], Some b)
          else if a = ''alert-subscriptions'' then Some ([(DELETE, DeactivateSub)], Some b)
          else if a = ''contract-labels'' then Some ([(DELETE, DeleteLabel)], Some b)
          else None
      | [a, b, c] \<Rightarrow>
          if a = ''pools'' \<and> c = ''stats'' then Some ([(GET, PoolStats)], Some b)
          else if a = ''analytics'' \<and> b = ''failed-tx'' \<and> c = ''timeseries''
            then Some ([(GET, FailedTimeseries)], None)
          else if a = ''analytics'' \<and> b = ''failed-tx'' \<and> c = ''by-label'' then Some ([(GET, FailedByLabel)], None)
          else if a = ''alert-subscriptions'' \<and> c = ''rotate-secret'' then Some ([(POST, RotateSub)], Some b)
          else None
      | _ \<Rightarrow> None)"

definition build_router :: "string list \<Rightarrow> ((http_method \<times> route_name) list \<times> string option) option" where
  "build_router segs = (case segs of
     [] \<Rightarrow> None
   | s # rest \<Rightarrow> if segs = [''health''] then Some ([(GET, Health)], None)
       else if s = ''v1'' then v1_router rest else None)"

text \<open>What the extractors make of the rest of the request, and the order that PostgreSQL gives to rows
  with equal keys while it answers it. A numeric parameter that does not parse is a rejection.\<close>

record inputs =
  in_create :: "nat + create_body"
  in_label :: "nat + create_label_body"
  in_page :: "nat + pagination_params"
  in_swaps :: "nat + string option \<times> pagination_params"
  in_limit :: "nat + int option"
  in_failed :: "nat + failed_tx_query"
  in_trend :: "nat + trend_query"
  in_by_label :: "nat + by_label_query"
  in_dates :: "nat + timestamp \<times> timestamp"
  in_number :: "string \<Rightarrow> nat + int"
  in_ties :: tie_order

datatype payload =
    PNone
  | PCreated subscription_created
  | PSubs "subscription_view list"
  | PLabel contract_label
  | PDetail failed_tx_detail
  | PFailed "failed_transaction list" pagination_meta
  | PTrend "failed_tx_trend_point list"
  | PByLabel "failed_tx_by_label_point list"
  | PPools "pool list" pagination_info
  | PPool pool
  | PTokens "token list" pagination_info
  | PToken token
  | PSwaps "swap_event list" pagination_info
  | PBlock block
  | PLatest "int option"
  | PStats pool_stats
  | PTraders "top_trader list" pagination_info
  | PVolumes "daily_swap_volume list" pagination_info
  | PAnalysis "analysis_row list"
  | PHealth string string
  | PError string

text \<open>A read handler answers 200 and leaves the database alone; a write handler has its own status
  and the new database.\<close>

definition reading :: "service_db \<Rightarrow> ('a \<Rightarrow> payload) \<Rightarrow> refusal + 'a \<Rightarrow> refusal + (nat \<times> payload) \<times> service_db" where
  "reading d p r = map_sum (\<lambda>e. e) (\<lambda>x. ((200, p x), d)) r"

definition writing :: "nat \<Rightarrow> ('a \<Rightarrow> payload) \<Rightarrow> refusal + 'a \<times> service_db \<Rightarrow>
    refusal + (nat \<times> payload) \<times> service_db" where
  "writing status p r = map_sum (\<lambda>e. e) (\<lambda>(x, d'). ((status, p x), d')) r"

definition run_handler :: "'ty api_ext \<Rightarrow> string \<Rightarrow> timestamp \<Rightarrow> u8 list option \<Rightarrow> u8 list option \<Rightarrow> inputs \<Rightarrow>
    string \<Rightarrow> route_name \<Rightarrow> service_db \<Rightarrow> refusal + (nat \<times> payload) \<times> service_db" where
  "run_handler X key now rng header inp param name d =
     (case name of
        CreateSub \<Rightarrow> writing 201 PCreated (create_alert_subscription X key now rng header (in_create inp) d)
      | ListSubs \<Rightarrow> reading d PSubs (list_subscriptions_handler (in_limit inp) d)
      | DeactivateSub \<Rightarrow> writing 204 (\<lambda>_. PNone) (deactivate_handler X key header (in_number inp param) d)
      | RotateSub \<Rightarrow> writing 200 PCreated (rotate_handler X key rng header (in_number inp param) d)
      | CreateLabel \<Rightarrow> writing 201 PLabel (create_contract_label X key now header (in_label inp) d)
      | DeleteLabel \<Rightarrow> writing 204 (\<lambda>_. PNone) (delete_label_handler X key header (Inr param) d)
      | GetFailed \<Rightarrow> reading d PDetail (get_failed_tx X (Inr param) d)
      | ListFailed \<Rightarrow> reading d (\<lambda>(rs, m). PFailed rs m) (list_failed_tx X (in_ties inp) (in_failed inp) d)
      | FailedTimeseries \<Rightarrow> reading d PTrend (timeseries_handler X (in_trend inp) d)
      | FailedByLabel \<Rightarrow> reading d PByLabel (by_label_handler X (in_by_label inp) d)
      | ListPools \<Rightarrow> reading d (\<lambda>(rs, m). PPools rs m) (list_pools_handler (in_ties inp) (in_page inp) d)
      | GetPool \<Rightarrow> reading d PPool (get_pool_handler (Inr param) d)
      | ListTokens \<Rightarrow> reading d (\<lambda>(rs, m). PTokens rs m) (list_tokens_handler (ax_collate X) (in_ties inp) (in_page inp) d)
      | GetToken \<Rightarrow> reading d PToken (get_token_handler (Inr param) d)
      | ListSwaps \<Rightarrow> reading d (\<lambda>(rs, m). PSwaps rs m) (list_swaps_handler (in_ties inp) (in_swaps inp) d)
      | LatestBlock \<Rightarrow> reading d PLatest (get_latest_block_handler d)
      | GetBlock \<Rightarrow> reading d PBlock (get_block_handler (in_number inp param) d)
      | PoolStats \<Rightarrow> reading d PStats (pool_stats_handler (ax_divide X) (Inr param) (in_dates inp) d)
      | TopTraders \<Rightarrow> reading d (\<lambda>(rs, m). PTraders rs m) (top_traders_handler (in_ties inp) (in_limit inp) d)
      | DailyVolume \<Rightarrow> reading d (\<lambda>(rs, m). PVolumes rs m) (daily_volume (in_ties inp) (in_swaps inp) d)
      | FailedAnalysis \<Rightarrow> reading d PAnalysis (failed_tx_analysis_handler (in_ties inp) (ax_divide X) d)
      | Health \<Rightarrow> reading d (\<lambda>(s, b). PHealth s b) (health_check (ax_probe X)))"

text \<open>A request: an unknown path is 404, a known path with another method 405.\<close>

definition answer_refusal :: "refusal \<Rightarrow> nat \<times> payload" where
  "answer_refusal r = (case r of
     Refused e \<Rightarrow> (fst (into_response e), PError (snd (into_response e)))
   | Rejected status \<Rightarrow> (status, PNone)
   | Panicked \<Rightarrow> (0, PNone))"

definition serve :: "'ty api_ext \<Rightarrow> string \<Rightarrow> timestamp \<Rightarrow> u8 list option \<Rightarrow> http_method \<Rightarrow> string list \<Rightarrow>
    u8 list option \<Rightarrow> inputs \<Rightarrow> service_db \<Rightarrow> (nat \<times> payload) \<times> service_db" where
  "serve X key now rng meth segs header inp d =
     (case build_router segs of
        None \<Rightarrow> ((404, PNone), d)
      | Some (methods, param) \<Rightarrow> (case map_of methods meth of
          None \<Rightarrow> ((405, PNone), d)
        | Some name \<Rightarrow> (case run_handler X key now rng header inp (or_default param []) name d of
            Inr (resp, d') \<Rightarrow> (resp, d')
          | Inl r \<Rightarrow> (answer_refusal r, d))))"

end
