(* ===== verification/Wire.thy ===== *)
theory Wire
  imports Api "HOL-Library.Monad_Syntax"
begin

text \<open>
  The JSON between the REST server and the terminal client. The first half is what the server
  writes: \<open>Serialize\<close> of \<open>db::models\<close> and of the response wrappers of
  \<open>src/crates/api/src/response.rs\<close>; the second half is what \<open>src/crates/tui/src/dto.rs\<close> reads
  back. The two sides share no type: the client has its own structs, in which an error category
  is a string in the spelling of the Rust variant, and a \<open>BigDecimal\<close> or a timestamp is text.
  How \<open>chrono\<close> and \<open>bigdecimal\<close> print their values and the order in which a \<open>HashMap\<close> is
  iterated are arguments. A derived \<open>Deserialize\<close>
  reads a struct from an object: a missing or repeated field is an error unless a missing one is
  an \<open>Option\<close>, and unknown fields are skipped; the array form, which the server never sends, is
  left out.
\<close>

section \<open>What the server writes\<close>

record text_ext =
  te_decimal :: "int \<Rightarrow> string"
  te_rfc3339 :: "timestamp \<Rightarrow> string"
  te_numeric :: "numeric \<Rightarrow> string"
  te_date :: "int \<Rightarrow> string"
  te_hash_iter :: "(string \<rightharpoonup> int) \<Rightarrow> (string \<times> int) list"

text \<open>The derived \<open>Serialize\<close> of \<open>ErrorCategory\<close> writes the name of the variant.\<close>

fun category_variant :: "error_category \<Rightarrow> string" where
  "category_variant InsufficientBalance = ''InsufficientBalance''"
| "category_variant InsufficientAllowance = ''InsufficientAllowance''"
| "category_variant SlippageExceeded = ''SlippageExceeded''"
| "category_variant SlippageAmountOut = ''SlippageAmountOut''"
| "category_variant SlippageAmountIn = ''SlippageAmountIn''"
| "category_variant SlippagePriceImpact = ''SlippagePriceImpact''"
| "category_variant DeadlineExpired = ''DeadlineExpired''"
| "category_variant Unauthorized = ''Unauthorized''"
| "category_variant TransferFailed = ''TransferFailed''"
| "category_variant Unknown = ''Unknown''"

definition opt_json :: "('a \<Rightarrow> json) \<Rightarrow> 'a option \<Rightarrow> json" where
  "opt_json f v = (case v of None \<Rightarrow> JNull | Some x \<Rightarrow> f x)"

definition int_json :: "int \<Rightarrow> json" where
  "int_json n = JNum (int_to_dec n)"

definition failed_json :: "text_ext \<Rightarrow> failed_transaction \<Rightarrow> json" where
  "failed_json T f = JObj
     [(''tx_hash'', JStr (ft_tx_hash f)),
      (''error_category'', JStr (category_variant (ft_error_category f))),
      (''revert_reason'', opt_json JStr (ft_revert_reason f)),
      (''failing_function'', opt_json JStr (ft_failing_function f)),
      (''gas_used'', int_json (ft_gas_used f)),
      (''timestamp'', JStr (te_rfc3339 T (ft_timestamp f)))]"

definition trace_json :: "text_ext \<Rightarrow> trace_log \<Rightarrow> json" where
  "trace_json T t = JObj
     [(''tx_hash'', JStr (tl_tx_hash t)),
      (''call_depth'', int_json (tl_call_depth t)),
      (''call_type'', JStr (tl_call_type t)),
      (''from_addr'', JStr (tl_from_addr t)),
      (''to_addr'', opt_json JStr (tl_to_addr t)),
      (''value'', JStr (te_decimal T (tl_value t))),
      (''gas_used'', int_json (tl_gas_used t)),
      (''input'', opt_json JStr (tl_input t)),
      (''output'', opt_json JStr (tl_output t)),
      (''error'', opt_json JStr (tl_error t)),
      (''trace_id'', int_json (tl_trace_id t))]"

definition arg_json :: "decoded_arg \<Rightarrow> json" where
  "arg_json a = JObj [(''type'', JStr (arg_ty a)), (''value'', arg_value a)]"

definition decoded_function_json :: "decoded_function \<Rightarrow> json" where
  "decoded_function_json df = JObj
     [(''selector'', JStr (df_selector df)),
      (''name'', JStr (df_name df)),
      (''signature'', JStr (df_signature df)),
      (''source'', opt_json JStr (df_source df)),
      (''args'', opt_json (\<lambda>args. JArr (map arg_json args)) (df_args df))]"

definition diagnosis_json :: "diagnosis \<Rightarrow> json" where
  "diagnosis_json dg = JObj
     [(''message'', JStr (dg_message dg)),
      (''recommended_action'', opt_json JStr (dg_recommended_action dg)),
      (''source'', opt_json JStr (dg_source dg))]"

definition detail_json :: "text_ext \<Rightarrow> failed_tx_detail \<Rightarrow> json" where
  "detail_json T d = JObj
     [(''failed'', failed_json T (fd_failed d)),
      (''call_tree'', JArr (map (trace_json T) (fd_call_tree d))),
      (''call_tree_truncated'', JBool (fd_call_tree_truncated d)),
      (''root_cause'', opt_json (trace_json T) (fd_root_cause d)),
      (''failing_function_decoded'', opt_json decoded_function_json (fd_failing_function_decoded d)),
      (''root_cause_decoded'', opt_json decoded_function_json (fd_root_cause_decoded d)),
      (''diagnosis'', opt_json diagnosis_json (fd_diagnosis d))]"

definition api_response_json :: "json \<Rightarrow> json" where
  "api_response_json v = JObj [(''data'', v)]"

definition block_json :: "text_ext \<Rightarrow> block \<Rightarrow> json" where
  "block_json T b = JObj
     [(''block_number'', int_json (blk_number b)), (''timestamp'', JStr (te_rfc3339 T (blk_timestamp b))),
      (''gas_used'', int_json (blk_gas_used b)), (''block_hash'', opt_json JStr (blk_hash b)),
      (''parent_hash'', opt_json JStr (blk_parent_hash b))]"

definition token_json :: "token \<Rightarrow> json" where
  "token_json t = JObj
     [(''token_address'', JStr (tok_address t)), (''symbol'', JStr (tok_symbol t)),
      (''name'', JStr (tok_name t)), (''decimals'', int_json (tok_decimals t))]"

definition pool_json :: "text_ext \<Rightarrow> pool \<Rightarrow> json" where
  "pool_json T p = JObj
     [(''pool_address'', JStr (pool_address p)), (''pair_name'', JStr (pool_pair_name p)),
      (''token0_address'', JStr (pool_token0_address p)), (''token1_address'', JStr (pool_token1_address p)),
      (''fee_tier'', int_json (pool_fee_tier p)), (''created_at'', JStr (te_rfc3339 T (pool_created_at p)))]"

definition swap_json :: "text_ext \<Rightarrow> swap_event \<Rightarrow> json" where
  "swap_json T s = JObj
     [(''pool_address'', JStr (sw_pool_address s)), (''tx_hash'', JStr (sw_tx_hash s)),
      (''sender'', JStr (sw_sender s)), (''recipient'', JStr (sw_recipient s)),
      (''amount0'', JStr (te_decimal T (sw_amount0 s))), (''amount1'', JStr (te_decimal T (sw_amount1 s))),
      (''amount_in'', JStr (te_decimal T (sw_amount_in s))),
      (''amount_out'', JStr (te_decimal T (sw_amount_out s))),
      (''sqrt_price_x96'', JStr (te_decimal T (sw_sqrt_price_x96 s))),
      (''liquidity'', JStr (te_decimal T (sw_liquidity s))), (''tick'', int_json (sw_tick s)),
      (''log_index'', int_json (sw_log_index s)), (''timestamp'', JStr (te_rfc3339 T (sw_timestamp s))),
      (''event_id'', int_json (sw_event_id s))]"

definition volume_json :: "text_ext \<Rightarrow> daily_swap_volume \<Rightarrow> json" where
  "volume_json T v = JObj
     [(''pool_address'', JStr (sv_pool_address v)), (''pair_name'', JStr (sv_pair_name v)),
      (''swap_date'', JStr (te_date T (sv_swap_date v))), (''swap_count'', int_json (sv_swap_count v)),
      (''total_amount_in'', JStr (te_decimal T (sv_total_amount_in v))),
      (''total_amount_out'', JStr (te_decimal T (sv_total_amount_out v)))]"

definition trader_json :: "text_ext \<Rightarrow> top_trader \<Rightarrow> json" where
  "trader_json T t = JObj
     [(''user_address'', JStr (tr_user_address t)), (''label'', opt_json JStr (tr_label t)),
      (''total_swaps'', int_json (tr_total_swaps t)),
      (''total_volume_usd'', JStr (te_numeric T (tr_total_volume_usd t))),
      (''volume_rank'', int_json (tr_volume_rank t))]"

definition analysis_json :: "text_ext \<Rightarrow> analysis_row \<Rightarrow> json" where
  "analysis_json T r = JObj
     [(''error_category'', JStr (category_variant (an_error_category r))),
      (''failure_count'', int_json (an_failure_count r)),
      (''avg_gas_wasted'', JStr (te_numeric T (an_avg_gas_wasted r))),
      (''pct_of_total'', JStr (te_numeric T (an_pct_of_total r))),
      (''most_recent_failure'', JStr (te_rfc3339 T (an_most_recent_failure r)))]"

definition stats_json :: "text_ext \<Rightarrow> pool_stats \<Rightarrow> json" where
  "stats_json T s = JObj
     [(''pair_name'', JStr (st_pair_name s)), (''swap_count'', int_json (st_swap_count s)),
      (''unique_traders'', int_json (st_unique_traders s)),
      (''total_volume_in'', JStr (te_numeric T (st_total_volume_in s))),
      (''avg_trade_size'', JStr (te_numeric T (st_avg_trade_size s))),
      (''liquidity_events'', int_json (st_liquidity_events s)),
      (''estimated_fees'', JStr (te_numeric T (st_estimated_fees s)))]"

definition trend_json :: "text_ext \<Rightarrow> failed_tx_trend_point \<Rightarrow> json" where
  "trend_json T p = JObj
     [(''bucket'', JStr (te_rfc3339 T (tp_bucket p))),
      (''error_category'', JStr (category_variant (tp_error_category p))),
      (''failure_count'', int_json (tp_failure_count p))]"

definition by_label_json :: "text_ext \<Rightarrow> failed_tx_by_label_point \<Rightarrow> json" where
  "by_label_json T p = JObj
     [(''label'', JStr (bl_label p)), (''address'', JStr (bl_address p)),
      (''total_failures'', int_json (bl_total_failures p)),
      (''by_category'', JObj (map (\<lambda>(k, n). (k, int_json n)) (te_hash_iter T (bl_by_category p))))]"

definition label_json :: "text_ext \<Rightarrow> contract_label \<Rightarrow> json" where
  "label_json T l = JObj
     [(''address'', JStr (cl_address l)), (''label'', JStr (cl_label l)),
      (''owner_id'', opt_json JStr (cl_owner_id l)), (''created_at'', JStr (te_rfc3339 T (cl_created_at l)))]"

definition subscription_json :: "text_ext \<Rightarrow> subscription_view \<Rightarrow> json" where
  "subscription_json T s = JObj
     [(''subscription_id'', int_json (sv_subscription_id s)),
      (''error_category'', opt_json (\<lambda>c. JStr (category_variant c)) (sv_error_category s)),
      (''to_addr'', opt_json JStr (sv_to_addr s)), (''webhook_url'', JStr (sv_webhook_url s)),
      (''active'', JBool (sv_active s)), (''created_at'', JStr (te_rfc3339 T (sv_created_at s))),
      (''sub_type'', JStr (sv_sub_type s)), (''threshold_count'', opt_json int_json (sv_threshold_count s)),
      (''threshold_window_secs'', opt_json int_json (sv_threshold_window_secs s)),
      (''debounce_secs'', opt_json int_json (sv_debounce_secs s))]"

definition created_json :: "text_ext \<Rightarrow> subscription_created \<Rightarrow> json" where
  "created_json T s = JObj
     [(''subscription_id'', int_json (sc_subscription_id s)),
      (''error_category'', opt_json (\<lambda>c. JStr (category_variant c)) (sc_error_category s)),
      (''to_addr'', opt_json JStr (sc_to_addr s)), (''webhook_url'', JStr (sc_webhook_url s)),
      (''signing_secret'', JStr (sc_signing_secret s)),
      (''active'', JBool (sc_active s)), (''created_at'', JStr (te_rfc3339 T (sc_created_at s))),
      (''sub_type'', JStr (sc_sub_type s)), (''threshold_count'', opt_json int_json (sc_threshold_count s)),
      (''threshold_window_secs'', opt_json int_json (sc_threshold_window_secs s)),
      (''debounce_secs'', opt_json int_json (sc_debounce_secs s))]"

definition pagination_info_json :: "pagination_info \<Rightarrow> json" where
  "pagination_info_json m = JObj
     [(''limit'', int_json (pi_limit m)), (''offset'', int_json (pi_offset m)),
      (''count'', int_json (pi_count m))]"

definition paginated_json :: "json list \<Rightarrow> pagination_info \<Rightarrow> json" where
  "paginated_json rows m = JObj [(''data'', JArr rows), (''pagination'', pagination_info_json m)]"

definition pagination_meta_json :: "pagination_meta \<Rightarrow> json" where
  "pagination_meta_json m = JObj
     [(''limit'', int_json (pi_limit m)), (''offset'', int_json (pi_offset m)),
      (''count'', int_json (pi_count m)), (''total'', int_json (pm_total m))]"

definition total_paginated_json :: "json list \<Rightarrow> pagination_meta \<Rightarrow> json" where
  "total_paginated_json rows m =
     JObj [(''data'', JArr rows), (''pagination'', pagination_meta_json m)]"

text \<open>The body of an error response.\<close>

definition error_json :: "string \<Rightarrow> json" where
  "error_json msg = JObj [(''error'', JStr msg)]"

text \<open>The body of a response; a 204 has none and an extractor's rejection is a text of the framework,
  which both are \<open>None\<close> here.\<close>

fun payload_json :: "text_ext \<Rightarrow> payload \<Rightarrow> json option" where
  "payload_json T PNone = None"
| "payload_json T (PCreated s) = Some (api_response_json (created_json T s))"
| "payload_json T (PSubs rows) = Some (api_response_json (JArr (map (subscription_json T) rows)))"
| "payload_json T (PLabel l) = Some (api_response_json (label_json T l))"
| "payload_json T (PDetail dt) = Some (api_response_json (detail_json T dt))"
| "payload_json T (PFailed rows m) = Some (total_paginated_json (map (failed_json T) rows) m)"
| "payload_json T (PTrend rows) = Some (api_response_json (JArr (map (trend_json T) rows)))"
| "payload_json T (PByLabel rows) = Some (api_response_json (JArr (map (by_label_json T) rows)))"
| "payload_json T (PPools rows m) = Some (paginated_json (map (pool_json T) rows) m)"
| "payload_json T (PPool p) = Some (api_response_json (pool_json T p))"
| "payload_json T (PTokens rows m) = Some (paginated_json (map token_json rows) m)"
| "payload_json T (PToken t) = Some (api_response_json (token_json t))"
| "payload_json T (PSwaps rows m) = Some (paginated_json (map (swap_json T) rows) m)"
| "payload_json T (PBlock b) = Some (api_response_json (block_json T b))"
| "payload_json T (PLatest n) = Some (api_response_json (opt_json int_json n))"
| "payload_json T (PStats s) = Some (api_response_json (stats_json T s))"
| "payload_json T (PTraders rows m) = Some (paginated_json (map (trader_json T) rows) m)"
| "payload_json T (PVolumes rows m) = Some (paginated_json (map (volume_json T) rows) m)"
| "payload_json T (PAnalysis rows) = Some (api_response_json (JArr (map (analysis_json T) rows)))"
| "payload_json T (PHealth s b) = Some (JObj [(''status'', JStr s), (''database'', JStr b)])"
| "payload_json T (PError msg) = Some (error_json msg)"

section \<open>What the client reads\<close>

record tx_dto =
  dt_tx_hash :: string
  dt_error_category :: string
  dt_revert_reason :: "string option"
  dt_failing_function :: "string option"
  dt_gas_used :: int
  dt_timestamp :: string

record trace_dto =
  dl_tx_hash :: string
  dl_call_depth :: int
  dl_call_type :: string
  dl_from_addr :: string
  dl_to_addr :: "string option"
  dl_value :: string
  dl_gas_used :: int
  dl_input :: "string option"
  dl_output :: "string option"
  dl_error :: "string option"
  dl_trace_id :: int

record arg_dto =
  da_ty :: string
  da_value :: json

record function_dto =
  dd_selector :: string
  dd_name :: string
  dd_signature :: string
  dd_source :: "string option"
  dd_args :: "arg_dto list option"

record diagnosis_dto =
  dx_message :: string
  dx_recommended_action :: "string option"
  dx_source :: "string option"

record detail_dto =
  dv_failed :: tx_dto
  dv_call_tree :: "trace_dto list"
  dv_call_tree_truncated :: bool
  dv_root_cause :: "trace_dto option"
  dv_failing_function_decoded :: "function_dto option"
  dv_root_cause_decoded :: "function_dto option"
  dv_diagnosis :: "diagnosis_dto option"

record analysis_dto =
  dn_error_category :: string
  dn_failure_count :: int
  dn_avg_gas_wasted :: string
  dn_pct_of_total :: string
  dn_most_recent_failure :: string

record meta_dto =
  dm_limit :: int
  dm_offset :: int
  dm_count :: int
  dm_total :: int

record 'a page_dto =
  dp_data :: "'a list"
  dp_pagination :: meta_dto

text \<open>The derived \<open>Deserialize\<close>: primitives, fields, optional fields and lists.\<close>

fun read_str :: "json \<Rightarrow> string option" where
  "read_str (JStr s) = Some s"
| "read_str _ = None"

fun read_bool :: "json \<Rightarrow> bool option" where
  "read_bool (JBool b) = Some b"
| "read_bool _ = None"

text \<open>The text of a JSON number, as an integer; numbers with a fraction or an exponent, and \<open>-0\<close>,
  are floating-point numbers and refused.\<close>

definition dec_to_int :: "string \<Rightarrow> int option" where
  "dec_to_int s = (case s of
     [] \<Rightarrow> None
   | c # cs \<Rightarrow>
       if c = CHR ''-'' then (case digits_value 10 0 cs of Some n \<Rightarrow> if n = 0 then None else Some (- int n) | None \<Rightarrow> None)
       else map_option int (digits_value 10 0 s))"

fun read_int :: "nat \<Rightarrow> json \<Rightarrow> int option" where
  "read_int bits (JNum s) = (case dec_to_int s of
     Some n \<Rightarrow> if - (2 ^ (bits - 1)) \<le> n \<and> n < 2 ^ (bits - 1) then Some n else None
   | None \<Rightarrow> None)"
| "read_int bits _ = None"

fun all_read :: "('a \<Rightarrow> 'b option) \<Rightarrow> 'a list \<Rightarrow> 'b list option" where
  "all_read r [] = Some []"
| "all_read r (x # xs) = (case r x of
     None \<Rightarrow> None
   | Some y \<Rightarrow> (case all_read r xs of None \<Rightarrow> None | Some ys \<Rightarrow> Some (y # ys)))"

fun read_list :: "(json \<Rightarrow> 'a option) \<Rightarrow> json \<Rightarrow> 'a list option" where
  "read_list r (JArr vs) = all_read r vs"
| "read_list r _ = None"

definition read_opt :: "(json \<Rightarrow> 'a option) \<Rightarrow> json \<Rightarrow> 'a option option" where
  "read_opt r v = (if v = JNull then Some None else map_option Some (r v))"

definition fields_of :: "string \<Rightarrow> (string \<times> json) list \<Rightarrow> json list" where
  "fields_of k kvs = map snd (filter (\<lambda>kv. fst kv = k) kvs)"

definition field :: "string \<Rightarrow> (json \<Rightarrow> 'a option) \<Rightarrow> (string \<times> json) list \<Rightarrow> 'a option" where
  "field k r kvs = (case fields_of k kvs of [v] \<Rightarrow> r v | _ \<Rightarrow> None)"

definition opt_field :: "string \<Rightarrow> (json \<Rightarrow> 'a option) \<Rightarrow> (string \<times> json) list \<Rightarrow> 'a option option" where
  "opt_field k r kvs = (case fields_of k kvs of
     [] \<Rightarrow> Some None | [v] \<Rightarrow> read_opt r v | _ \<Rightarrow> None)"

fun read_struct :: "((string \<times> json) list \<Rightarrow> 'a option) \<Rightarrow> json \<Rightarrow> 'a option" where
  "read_struct r (JObj kvs) = r kvs"
| "read_struct r _ = None"


definition read_tx :: "json \<Rightarrow> tx_dto option" where
  "read_tx = read_struct (\<lambda>kvs. do {
     h \<leftarrow> field ''tx_hash'' read_str kvs;
     cat \<leftarrow> field ''error_category'' read_str kvs;
     reason \<leftarrow> opt_field ''revert_reason'' read_str kvs;
     fn \<leftarrow> opt_field ''failing_function'' read_str kvs;
     gas \<leftarrow> field ''gas_used'' (read_int 64) kvs;
     ts \<leftarrow> field ''timestamp'' read_str kvs;
     Some \<lparr>dt_tx_hash = h, dt_error_category = cat, dt_revert_reason = reason,
           dt_failing_function = fn, dt_gas_used = gas, dt_timestamp = ts\<rparr> })"

definition read_trace :: "json \<Rightarrow> trace_dto option" where
  "read_trace = read_struct (\<lambda>kvs. do {
     h \<leftarrow> field ''tx_hash'' read_str kvs;
     depth \<leftarrow> field ''call_depth'' (read_int 32) kvs;
     ct \<leftarrow> field ''call_type'' read_str kvs;
     sender \<leftarrow> field ''from_addr'' read_str kvs;
     target \<leftarrow> opt_field ''to_addr'' read_str kvs;
     v \<leftarrow> field ''value'' read_str kvs;
     gas \<leftarrow> field ''gas_used'' (read_int 64) kvs;
     inp \<leftarrow> opt_field ''input'' read_str kvs;
     out \<leftarrow> opt_field ''output'' read_str kvs;
     err \<leftarrow> opt_field ''error'' read_str kvs;
     i \<leftarrow> field ''trace_id'' (read_int 64) kvs;
     Some \<lparr>dl_tx_hash = h, dl_call_depth = depth, dl_call_type = ct, dl_from_addr = sender,
           dl_to_addr = target, dl_value = v, dl_gas_used = gas, dl_input = inp, dl_output = out,
           dl_error = err, dl_trace_id = i\<rparr> })"

definition read_arg :: "json \<Rightarrow> arg_dto option" where
  "read_arg = read_struct (\<lambda>kvs. do {
     ty \<leftarrow> field ''type'' read_str kvs;
     v \<leftarrow> field ''value'' Some kvs;
     Some \<lparr>da_ty = ty, da_value = v\<rparr> })"

definition read_function :: "json \<Rightarrow> function_dto option" where
  "read_function = read_struct (\<lambda>kvs. do {
     sel \<leftarrow> field ''selector'' read_str kvs;
     name \<leftarrow> field ''name'' read_str kvs;
     sig \<leftarrow> field ''signature'' read_str kvs;
     src \<leftarrow> opt_field ''source'' read_str kvs;
     args \<leftarrow> opt_field ''args'' (read_list read_arg) kvs;
     Some \<lparr>dd_selector = sel, dd_name = name, dd_signature = sig, dd_source = src, dd_args = args\<rparr> })"

definition read_diagnosis :: "json \<Rightarrow> diagnosis_dto option" where
  "read_diagnosis = read_struct (\<lambda>kvs. do {
     msg \<leftarrow> field ''message'' read_str kvs;
     act \<leftarrow> opt_field ''recommended_action'' read_str kvs;
     src \<leftarrow> opt_field ''source'' read_str kvs;
     Some \<lparr>dx_message = msg, dx_recommended_action = act, dx_source = src\<rparr> })"

definition read_detail :: "json \<Rightarrow> detail_dto option" where
  "read_detail = read_struct (\<lambda>kvs. do {
     f \<leftarrow> field ''failed'' read_tx kvs;
     tree \<leftarrow> field ''call_tree'' (read_list read_trace) kvs;
     cut \<leftarrow> field ''call_tree_truncated'' read_bool kvs;
     root \<leftarrow> opt_field ''root_cause'' read_trace kvs;
     ff \<leftarrow> opt_field ''failing_function_decoded'' read_function kvs;
     rc \<leftarrow> opt_field ''root_cause_decoded'' read_function kvs;
     dg \<leftarrow> opt_field ''diagnosis'' read_diagnosis kvs;
     Some \<lparr>dv_failed = f, dv_call_tree = tree, dv_call_tree_truncated = cut, dv_root_cause = root,
           dv_failing_function_decoded = ff, dv_root_cause_decoded = rc, dv_diagnosis = dg\<rparr> })"

definition read_analysis :: "json \<Rightarrow> analysis_dto option" where
  "read_analysis = read_struct (\<lambda>kvs. do {
     cat \<leftarrow> field ''error_category'' read_str kvs;
     n \<leftarrow> field ''failure_count'' (read_int 64) kvs;
     gas \<leftarrow> field ''avg_gas_wasted'' read_str kvs;
     pct \<leftarrow> field ''pct_of_total'' read_str kvs;
     ts \<leftarrow> field ''most_recent_failure'' read_str kvs;
     Some \<lparr>dn_error_category = cat, dn_failure_count = n, dn_avg_gas_wasted = gas,
           dn_pct_of_total = pct, dn_most_recent_failure = ts\<rparr> })"

definition read_meta :: "json \<Rightarrow> meta_dto option" where
  "read_meta = read_struct (\<lambda>kvs. do {
     lim \<leftarrow> field ''limit'' (read_int 64) kvs;
     off \<leftarrow> field ''offset'' (read_int 64) kvs;
     n \<leftarrow> field ''count'' (read_int 64) kvs;
     tot \<leftarrow> field ''total'' (read_int 64) kvs;
     Some \<lparr>dm_limit = lim, dm_offset = off, dm_count = n, dm_total = tot\<rparr> })"

definition read_page :: "(json \<Rightarrow> 'a option) \<Rightarrow> json \<Rightarrow> 'a page_dto option" where
  "read_page r = read_struct (\<lambda>kvs. do {
     rows \<leftarrow> field ''data'' (read_list r) kvs;
     m \<leftarrow> field ''pagination'' read_meta kvs;
     Some \<lparr>dp_data = rows, dp_pagination = m\<rparr> })"

definition read_response :: "(json \<Rightarrow> 'a option) \<Rightarrow> json \<Rightarrow> 'a option" where
  "read_response r = read_struct (field ''data'' r)"

definition read_opt_response :: "(json \<Rightarrow> 'a option) \<Rightarrow> json \<Rightarrow> 'a option option" where
  "read_opt_response r = read_struct (opt_field ''data'' r)"

definition read_error :: "json \<Rightarrow> string option" where
  "read_error = read_struct (field ''error'' read_str)"

section \<open>Reading back what was written\<close>

text \<open>The contract of a writer and the reader of the other program: \<open>view\<close> is what the reader
  makes of a value that the writer can send.\<close>

locale json_wire =
  fixes enc :: "'a \<Rightarrow> json"
    and dec :: "json \<Rightarrow> 'b option"
    and view :: "'a \<Rightarrow> 'b"
    and ok :: "'a \<Rightarrow> bool"
  assumes dec_enc: "ok x \<Longrightarrow> dec (enc x) = Some (view x)"
    and not_null: "ok x \<Longrightarrow> enc x \<noteq> JNull"
begin

lemma opt_back: "(\<forall>x. v = Some x \<longrightarrow> ok x) \<Longrightarrow> read_opt dec (opt_json enc v) = Some (map_option view v)"
  by (cases v) (simp_all add: read_opt_def opt_json_def dec_enc not_null)

lemma list_back: "\<forall>x\<in>set xs. ok x \<Longrightarrow> read_list dec (JArr (map enc xs)) = Some (map view xs)"
  by (induction xs) (simp_all add: dec_enc)

end

lemma dec_to_int_int_to_dec [simp]: "dec_to_int (int_to_dec n) = Some n"
proof (cases "n < 0")
  case True
  then show ?thesis
    by (simp add: dec_to_int_def int_to_dec_def digits_value_dec)
next
  case False
  obtain c cs where s: "nat_to_dec (nat n) = c # cs"
    by (cases "nat_to_dec (nat n)") auto
  with nat_to_dec_hd_not_sign [OF s] digits_value_dec [of "nat n"] False show ?thesis
    by (simp add: dec_to_int_def int_to_dec_def)
qed

definition fits :: "nat \<Rightarrow> int \<Rightarrow> bool" where
  "fits bits n \<longleftrightarrow> - (2 ^ (bits - 1)) \<le> n \<and> n < 2 ^ (bits - 1)"

lemma read_int_json [simp]: "fits bits n \<Longrightarrow> read_int bits (int_json n) = Some n"
  by (simp add: int_json_def fits_def)

lemma field_simps [simp]:
  "field k r ((k, v) # kvs) = (if fields_of k kvs = [] then r v else None)"
  "k \<noteq> k' \<Longrightarrow> field k r ((k', v) # kvs) = field k r kvs"
  "opt_field k r ((k, v) # kvs) = (if fields_of k kvs = [] then read_opt r v else None)"
  "k \<noteq> k' \<Longrightarrow> opt_field k r ((k', v) # kvs) = opt_field k r kvs"
  "fields_of k [] = []"
  "fields_of k ((k', v) # kvs) = (if k' = k then v # fields_of k kvs else fields_of k kvs)"
  by (auto simp: field_def opt_field_def fields_of_def split: list.splits)

text \<open>What the client sees of a value of the server.\<close>

definition tx_view :: "text_ext \<Rightarrow> failed_transaction \<Rightarrow> tx_dto" where
  "tx_view T f = \<lparr>dt_tx_hash = ft_tx_hash f, dt_error_category = category_variant (ft_error_category f),
     dt_revert_reason = ft_revert_reason f, dt_failing_function = ft_failing_function f,
     dt_gas_used = ft_gas_used f, dt_timestamp = te_rfc3339 T (ft_timestamp f)\<rparr>"

definition trace_view :: "text_ext \<Rightarrow> trace_log \<Rightarrow> trace_dto" where
  "trace_view T t = \<lparr>dl_tx_hash = tl_tx_hash t, dl_call_depth = tl_call_depth t,
     dl_call_type = tl_call_type t, dl_from_addr = tl_from_addr t, dl_to_addr = tl_to_addr t,
     dl_value = te_decimal T (tl_value t), dl_gas_used = tl_gas_used t, dl_input = tl_input t,
     dl_output = tl_output t, dl_error = tl_error t, dl_trace_id = tl_trace_id t\<rparr>"

definition arg_view :: "decoded_arg \<Rightarrow> arg_dto" where
  "arg_view a = \<lparr>da_ty = arg_ty a, da_value = arg_value a\<rparr>"

definition function_view :: "decoded_function \<Rightarrow> function_dto" where
  "function_view df = \<lparr>dd_selector = df_selector df, dd_name = df_name df, dd_signature = df_signature df,
     dd_source = df_source df, dd_args = map_option (map arg_view) (df_args df)\<rparr>"

definition diagnosis_view :: "diagnosis \<Rightarrow> diagnosis_dto" where
  "diagnosis_view dg = \<lparr>dx_message = dg_message dg, dx_recommended_action = dg_recommended_action dg,
     dx_source = dg_source dg\<rparr>"

definition detail_view :: "text_ext \<Rightarrow> failed_tx_detail \<Rightarrow> detail_dto" where
  "detail_view T d = \<lparr>dv_failed = tx_view T (fd_failed d),
     dv_call_tree = map (trace_view T) (fd_call_tree d),
     dv_call_tree_truncated = fd_call_tree_truncated d,
     dv_root_cause = map_option (trace_view T) (fd_root_cause d),
     dv_failing_function_decoded = map_option function_view (fd_failing_function_decoded d),
     dv_root_cause_decoded = map_option function_view (fd_root_cause_decoded d),
     dv_diagnosis = map_option diagnosis_view (fd_diagnosis d)\<rparr>"

definition analysis_view :: "text_ext \<Rightarrow> analysis_row \<Rightarrow> analysis_dto" where
  "analysis_view T r =
     \<lparr>dn_error_category = category_variant (an_error_category r), dn_failure_count = an_failure_count r,
      dn_avg_gas_wasted = te_numeric T (an_avg_gas_wasted r), dn_pct_of_total = te_numeric T (an_pct_of_total r),
      dn_most_recent_failure = te_rfc3339 T (an_most_recent_failure r)\<rparr>"

definition meta_view :: "pagination_meta \<Rightarrow> meta_dto" where
  "meta_view m = \<lparr>dm_limit = pi_limit m, dm_offset = pi_offset m, dm_count = pi_count m,
     dm_total = pm_total m\<rparr>"

text \<open>The integers of a value fit their types.\<close>

definition tx_fits :: "failed_transaction \<Rightarrow> bool" where
  "tx_fits f \<longleftrightarrow> fits 64 (ft_gas_used f)"

definition trace_fits :: "trace_log \<Rightarrow> bool" where
  "trace_fits t \<longleftrightarrow> fits 32 (tl_call_depth t) \<and> fits 64 (tl_gas_used t) \<and> fits 64 (tl_trace_id t)"

definition meta_fits :: "pagination_meta \<Rightarrow> bool" where
  "meta_fits m \<longleftrightarrow> fits 64 (pi_limit m) \<and> fits 64 (pi_offset m) \<and> fits 64 (pi_count m) \<and> fits 64 (pm_total m)"

definition detail_fits :: "failed_tx_detail \<Rightarrow> bool" where
  "detail_fits d \<longleftrightarrow> tx_fits (fd_failed d) \<and> (\<forall>t\<in>set (fd_call_tree d). trace_fits t) \<and>
     (\<forall>t. fd_root_cause d = Some t \<longrightarrow> trace_fits t)"

interpretation str_wire: json_wire JStr read_str "\<lambda>s. s" "\<lambda>_. True"
  by unfold_locales simp_all

lemmas opt_str_back = str_wire.opt_back [simplified, unfolded option.map_ident]

interpretation tx_wire: json_wire "failed_json T" read_tx "tx_view T" tx_fits
  by unfold_locales (simp_all add: failed_json_def read_tx_def tx_view_def tx_fits_def opt_str_back)

interpretation trace_wire: json_wire "trace_json T" read_trace "trace_view T" trace_fits
  by unfold_locales (simp_all add: trace_json_def read_trace_def trace_view_def trace_fits_def opt_str_back)

interpretation arg_wire: json_wire arg_json read_arg arg_view "\<lambda>_. True"
  by unfold_locales (simp_all add: arg_json_def read_arg_def arg_view_def)

interpretation args_wire: json_wire "\<lambda>args. JArr (map arg_json args)" "read_list read_arg" "map arg_view" "\<lambda>_. True"
  by unfold_locales (simp_all add: arg_wire.list_back del: read_list.simps)

interpretation function_wire: json_wire decoded_function_json read_function function_view "\<lambda>_. True"
  by unfold_locales
    (simp_all add: decoded_function_json_def read_function_def function_view_def opt_str_back args_wire.opt_back)

interpretation diagnosis_wire: json_wire diagnosis_json read_diagnosis diagnosis_view "\<lambda>_. True"
  by unfold_locales (simp_all add: diagnosis_json_def read_diagnosis_def diagnosis_view_def opt_str_back)

interpretation analysis_wire: json_wire "analysis_json T" read_analysis "analysis_view T"
    "\<lambda>r. fits 64 (an_failure_count r)"
  by unfold_locales (simp_all add: analysis_json_def read_analysis_def analysis_view_def)

interpretation meta_wire: json_wire pagination_meta_json read_meta meta_view meta_fits
  by unfold_locales (simp_all add: pagination_meta_json_def read_meta_def meta_view_def meta_fits_def)

interpretation detail_wire: json_wire "detail_json T" read_detail "detail_view T" detail_fits
  by unfold_locales
    (simp_all add: detail_json_def read_detail_def detail_view_def detail_fits_def tx_wire.dec_enc
      trace_wire.list_back trace_wire.opt_back function_wire.opt_back diagnosis_wire.opt_back del: read_list.simps)

end
