(* ===== verification/Client.thy ===== *)
theory Client
  imports Wire
begin

text \<open>
  The configuration, the errors and the HTTP client of the terminal program,
  \<open>src/crates/tui/src\<close> (\<open>config.rs\<close>, \<open>error.rs\<close>, \<open>client.rs\<close>). What \<open>reqwest\<close> returns for a
  request is a value of \<open>http_reply\<close>; \<open>serde_json\<close> parsing a text, and the message of its
  errors, are arguments.
\<close>

section \<open>Configuration\<close>

record tui_config =
  tc_api_url :: string
  tc_admin_api_key :: "string option"
  tc_refresh_interval_secs :: nat
  tc_request_timeout_secs :: nat
  tc_log_dir :: string
  tc_log_filter :: string

definition default_api_url :: string where "default_api_url = ''http://127.0.0.1:3000''"
definition default_refresh_secs :: nat where "default_refresh_secs = 10"
definition default_timeout_secs :: nat where "default_timeout_secs = 15"

definition trim_end_char :: "char \<Rightarrow> string \<Rightarrow> string" where
  "trim_end_char c s = rev (dropWhile (\<lambda>x. x = c) (rev s))"

definition nonempty :: "string \<Rightarrow> string option" where
  "nonempty s = (if s = [] then None else Some s)"

definition positive_number :: "string option \<Rightarrow> nat option" where
  "positive_number v = Option.bind v (\<lambda>s. case from_str_radix 64 10 (str_trim s) of
     Some n \<Rightarrow> if 0 < n then Some n else None
   | None \<Rightarrow> None)"

definition tui_config_from_env_with :: "(string \<Rightarrow> string option) \<Rightarrow> tui_config" where
  "tui_config_from_env_with get =
     \<lparr>tc_api_url = or_default (Option.bind (get ''AMARILLO_API_URL'')
        (\<lambda>s. nonempty (trim_end_char (CHR ''/'') (str_trim s)))) default_api_url,
      tc_admin_api_key = Option.bind (get ''AMARILLO_ADMIN_API_KEY'') (\<lambda>s. nonempty (str_trim s)),
      tc_refresh_interval_secs =
        or_default (positive_number (get ''AMARILLO_TUI_REFRESH_SECS'')) default_refresh_secs,
      tc_request_timeout_secs =
        or_default (positive_number (get ''AMARILLO_TUI_TIMEOUT_SECS'')) default_timeout_secs,
      tc_log_dir = or_default (Option.bind (get ''AMARILLO_TUI_LOG_DIR'') (\<lambda>s. nonempty (str_trim s))) ''.'',
      tc_log_filter = or_default (Option.bind (get ''RUST_LOG'') (\<lambda>s. nonempty (str_trim s))) ''info''\<rparr>"

text \<open>The fields that \<open>Debug\<close> shows.\<close>

definition tui_config_debug :: "tui_config \<Rightarrow> (string \<times> string) list" where
  "tui_config_debug c =
     [(''api_url'', tc_api_url c),
      (''admin_api_key'', case tc_admin_api_key c of Some _ \<Rightarrow> ''Some(***)'' | None \<Rightarrow> ''None''),
      (''refresh_interval_secs'', nat_to_dec (tc_refresh_interval_secs c)),
      (''request_timeout_secs'', nat_to_dec (tc_request_timeout_secs c)),
      (''log_dir'', tc_log_dir c), (''log_filter'', tc_log_filter c)]"

section \<open>Errors\<close>

datatype tui_error =
    TuiHttp string
  | TuiDecode string
  | TuiApi nat string
  | TuiIo string

fun tui_error_text :: "tui_error \<Rightarrow> string" where
  "tui_error_text (TuiHttp e) = ''http request failed: '' @ e"
| "tui_error_text (TuiDecode msg) = ''failed to decode response: '' @ msg"
| "tui_error_text (TuiApi status message) = ''api error ('' @ nat_to_dec status @ ''): '' @ message"
| "tui_error_text (TuiIo e) = ''io error: '' @ e"

section \<open>The client\<close>

record api_client =
  cl_base_url :: string
  cl_admin_api_key :: "string option"

definition api_client_new :: "tui_config \<Rightarrow> api_client" where
  "api_client_new cfg = \<lparr>cl_base_url = trim_end_char (CHR ''/'') (tc_api_url cfg),
     cl_admin_api_key = tc_admin_api_key cfg\<rparr>"

record get_request =
  gr_url :: string
  gr_query :: "(string \<times> string) list"
  gr_bearer :: "string option"

text \<open>The transport failed, or a status with the body; \<open>None\<close> is a body that could not be read.\<close>

datatype http_reply =
    NoReply string
  | HttpReply nat "string option"

record json_ext =
  je_parse :: "string \<Rightarrow> json option"
  je_message :: "string option \<Rightarrow> string"

definition get_json :: "json_ext \<Rightarrow> (json \<Rightarrow> 'a option) \<Rightarrow> http_reply \<Rightarrow> tui_error + 'a" where
  "get_json E r reply = (case reply of
     NoReply e \<Rightarrow> Inl (TuiHttp e)
   | HttpReply status body \<Rightarrow>
       if \<not> (200 \<le> status \<and> status < 300) then
         let text = or_default body [] in
         Inl (TuiApi status (or_default (Option.bind (je_parse E text) read_error) text))
       else (case Option.bind (Option.bind body (je_parse E)) r of
           Some v \<Rightarrow> Inr v
         | None \<Rightarrow> Inl (TuiDecode (je_message E body))))"

definition get_request_for :: "api_client \<Rightarrow> string \<Rightarrow> (string \<times> string) list \<Rightarrow> get_request" where
  "get_request_for c path query =
     \<lparr>gr_url = cl_base_url c @ path, gr_query = query, gr_bearer = cl_admin_api_key c\<rparr>"

text \<open>The four calls: the request and what is made of the reply.\<close>

definition latest_block_request :: "api_client \<Rightarrow> get_request" where
  "latest_block_request c = get_request_for c ''/v1/blocks/latest'' []"

definition latest_block :: "json_ext \<Rightarrow> http_reply \<Rightarrow> tui_error + int option" where
  "latest_block E reply = get_json E (read_opt_response (read_int 64)) reply"

definition failed_tx_analysis_request :: "api_client \<Rightarrow> get_request" where
  "failed_tx_analysis_request c = get_request_for c ''/v1/analytics/failed-tx'' []"

definition failed_tx_analysis :: "json_ext \<Rightarrow> http_reply \<Rightarrow> tui_error + analysis_dto list" where
  "failed_tx_analysis E reply = get_json E (read_response (read_list read_analysis)) reply"

definition list_failed_tx_request :: "api_client \<Rightarrow> (string \<times> string) list \<Rightarrow> get_request" where
  "list_failed_tx_request c query = get_request_for c ''/v1/failed-tx'' query"

definition list_failed_tx_reply :: "json_ext \<Rightarrow> http_reply \<Rightarrow> tui_error + tx_dto page_dto" where
  "list_failed_tx_reply E reply = get_json E (read_page read_tx) reply"

definition failed_tx_detail_request :: "api_client \<Rightarrow> string \<Rightarrow> get_request" where
  "failed_tx_detail_request c h = get_request_for c (''/v1/failed-tx/'' @ h) []"

definition failed_tx_detail_reply :: "json_ext \<Rightarrow> http_reply \<Rightarrow> tui_error + detail_dto" where
  "failed_tx_detail_reply E reply = get_json E (read_response read_detail) reply"

end
