(* ===== verification/Tui_Text.thy ===== *)
theory Tui_Text
  imports Client
begin

text \<open>
  What the terminal program prints: the formatters of \<open>src/crates/tui/src/format.rs\<close>, except those on
  \<open>f64\<close> (theory \<open>Floats\<close>), and the texts that the detail screen (\<open>ui/detail.rs\<close>) is assembled from. A
  line is a list of styled spans. \<open>parse_from_rfc3339\<close> of \<open>chrono\<close> and the compact printer of
  \<open>serde_json\<close> are arguments.
\<close>

section \<open>Categories\<close>

definition categories :: "string list" where
  "categories =
     [''INSUFFICIENT_BALANCE'', ''INSUFFICIENT_ALLOWANCE'', ''SLIPPAGE_EXCEEDED'',
      ''SLIPPAGE_AMOUNT_OUT'', ''SLIPPAGE_AMOUNT_IN'', ''SLIPPAGE_PRICE_IMPACT'',
      ''DEADLINE_EXPIRED'', ''UNAUTHORIZED'', ''TRANSFER_FAILED'', ''UNKNOWN'']"

definition normalize_category :: "string \<Rightarrow> string" where
  "normalize_category raw =
     (if raw = ''InsufficientBalance'' \<or> raw = ''INSUFFICIENT_BALANCE'' then ''INSUFFICIENT_BALANCE''
      else if raw = ''InsufficientAllowance'' \<or> raw = ''INSUFFICIENT_ALLOWANCE'' then ''INSUFFICIENT_ALLOWANCE''
      else if raw = ''SlippageExceeded'' \<or> raw = ''SLIPPAGE_EXCEEDED'' then ''SLIPPAGE_EXCEEDED''
      else if raw = ''SlippageAmountOut'' \<or> raw = ''SLIPPAGE_AMOUNT_OUT'' then ''SLIPPAGE_AMOUNT_OUT''
      else if raw = ''SlippageAmountIn'' \<or> raw = ''SLIPPAGE_AMOUNT_IN'' then ''SLIPPAGE_AMOUNT_IN''
      else if raw = ''SlippagePriceImpact'' \<or> raw = ''SLIPPAGE_PRICE_IMPACT'' then ''SLIPPAGE_PRICE_IMPACT''
      else if raw = ''DeadlineExpired'' \<or> raw = ''DEADLINE_EXPIRED'' then ''DEADLINE_EXPIRED''
      else if raw = ''Unauthorized'' \<or> raw = ''UNAUTHORIZED'' then ''UNAUTHORIZED''
      else if raw = ''TransferFailed'' \<or> raw = ''TRANSFER_FAILED'' then ''TRANSFER_FAILED''
      else ''UNKNOWN'')"

definition error_category_label :: "string \<Rightarrow> string" where
  "error_category_label raw =
     (let c = normalize_category raw in
      if c = ''INSUFFICIENT_BALANCE'' then ''Insufficient balance''
      else if c = ''INSUFFICIENT_ALLOWANCE'' then ''Insufficient allowance''
      else if c = ''SLIPPAGE_EXCEEDED'' then ''Slippage exceeded''
      else if c = ''SLIPPAGE_AMOUNT_OUT'' then ''Slippage (amount out)''
      else if c = ''SLIPPAGE_AMOUNT_IN'' then ''Slippage (amount in)''
      else if c = ''SLIPPAGE_PRICE_IMPACT'' then ''Slippage (price impact)''
      else if c = ''DEADLINE_EXPIRED'' then ''Deadline expired''
      else if c = ''UNAUTHORIZED'' then ''Unauthorized''
      else if c = ''TRANSFER_FAILED'' then ''Transfer failed''
      else ''Unknown'')"

datatype color = Rgb nat nat nat | Black | Red | Yellow | Cyan | Gray | DarkGray | White

definition error_category_color :: "string \<Rightarrow> color" where
  "error_category_color raw =
     (let c = normalize_category raw in
      if c = ''INSUFFICIENT_BALANCE'' then Rgb 0xF6 0x60 0x61
      else if c = ''INSUFFICIENT_ALLOWANCE'' then Rgb 0xFF 0x89 0x89
      else if c = ''SLIPPAGE_EXCEEDED'' then Rgb 0xF4 0xBD 0x50
      else if c = ''SLIPPAGE_AMOUNT_OUT'' then Rgb 0xFF 0xD5 0x80
      else if c = ''SLIPPAGE_AMOUNT_IN'' then Rgb 0xE5 0xA9 0x3D
      else if c = ''SLIPPAGE_PRICE_IMPACT'' then Rgb 0xC9 0x92 0x32
      else if c = ''DEADLINE_EXPIRED'' then Rgb 0xE8 0x89 0x57
      else if c = ''UNAUTHORIZED'' then Rgb 0xC9 0x81 0xE6
      else if c = ''TRANSFER_FAILED'' then Rgb 0xE0 0x6D 0x6E
      else Rgb 0x88 0x88 0x88)"

section \<open>Numbers, hashes and times\<close>

text \<open>The loop of \<open>group_thousands\<close>: \<open>i\<close> is the index of the next digit of \<open>len\<close>.\<close>

fun group_from :: "nat \<Rightarrow> nat \<Rightarrow> string \<Rightarrow> string" where
  "group_from len i [] = []"
| "group_from len i (b # bs) =
     (if 0 < i \<and> (len - i) mod 3 = 0 then CHR '','' # b # group_from len (Suc i) bs
      else b # group_from len (Suc i) bs)"

definition group_thousands :: "int \<Rightarrow> string" where
  "group_thousands n =
     (let digits = nat_to_dec (nat (abs n));
          out = group_from (length digits) 0 digits
      in if n < 0 then ''-'' @ out else out)"

definition ellipsis :: string where "ellipsis = map char_of [0xE2 :: nat, 0x80, 0xA6]"
definition long_dash :: string where "long_dash = map char_of [0xE2 :: nat, 0x80, 0x94]"
definition right_arrow :: string where "right_arrow = map char_of [0xE2 :: nat, 0x86, 0x92]"
definition revert_mark :: string where "revert_mark = map char_of [0xE2 :: nat, 0xAE, 0x95]"
definition middle_dot :: string where "middle_dot = map char_of [0xC2 :: nat, 0xB7]"

definition truncate_hash :: "string \<Rightarrow> (unit, string) outcome" where
  "truncate_hash s =
     (if length s \<le> 12 then Ret s
      else if is_char_boundary s 6 \<and> is_char_boundary s (length s - 4)
        then Ret (take 6 s @ ellipsis @ drop (length s - 4) s)
      else Panic)"

text \<open>\<open>num_seconds\<close> of a difference, which rounds towards zero.\<close>

definition num_seconds :: "timestamp \<Rightarrow> int" where
  "num_seconds d = (if 0 \<le> d then d div 1000000 else - (- d div 1000000))"

definition time_ago_at :: "(string \<Rightarrow> timestamp option) \<Rightarrow> string \<Rightarrow> timestamp \<Rightarrow> string" where
  "time_ago_at parse raw now = (case parse raw of
     None \<Rightarrow> raw
   | Some past \<Rightarrow>
       let secs = num_seconds (now - past) in
       if secs < 60 then ''just now''
       else let mins = secs div 60 in
         if mins < 60 then int_to_dec mins @ ''m ago''
         else let hours = mins div 60 in
           if hours < 24 then int_to_dec hours @ ''h ago''
           else let days = hours div 24 in
             if days < 30 then int_to_dec days @ ''d ago''
             else let months = days div 30 in
               if months < 12 then int_to_dec months @ ''mo ago''
               else int_to_dec (months div 12) @ ''y ago'')"

section \<open>Lines\<close>

record style =
  fg :: "color option"
  bold :: bool

type_synonym span = "style \<times> string"
type_synonym text_line = "span list"

definition plain :: style where "plain = \<lparr>fg = None, bold = False\<rparr>"
definition colored :: "color \<Rightarrow> style" where "colored c = \<lparr>fg = Some c, bold = False\<rparr>"
definition bold_colored :: "color \<Rightarrow> style" where "bold_colored c = \<lparr>fg = Some c, bold = True\<rparr>"

definition label_style :: style where "label_style = colored DarkGray"
definition header_style :: style where "header_style = bold_colored Cyan"

text \<open>\<open>{key:<12}\<close>: at least twelve columns, padded on the right.\<close>

definition padded :: "nat \<Rightarrow> string \<Rightarrow> string" where
  "padded n s = s @ replicate (n - char_count s) (CHR '' '')"

definition kv :: "string \<Rightarrow> string \<Rightarrow> text_line" where
  "kv key v = [(label_style, padded 12 key @ '' ''), (plain, v)]"

fun join_with :: "string \<Rightarrow> string list \<Rightarrow> string" where
  "join_with sep [] = []"
| "join_with sep [x] = x"
| "join_with sep (x # y # ys) = x @ sep @ join_with sep (y # ys)"

fun value_to_string :: "(json \<Rightarrow> string) \<Rightarrow> json \<Rightarrow> string" where
  "value_to_string print (JStr s) = s"
| "value_to_string print (JArr arr) = ''['' @ join_with '', '' (map (value_to_string print) arr) @ '']''"
| "value_to_string print other = print other"

fun arg_lines :: "(json \<Rightarrow> string) \<Rightarrow> nat \<Rightarrow> arg_dto list \<Rightarrow> text_line list" where
  "arg_lines print i [] = []"
| "arg_lines print i (a # as) =
     [(plain, ''    ['' @ nat_to_dec i @ ''] '' @ da_ty a @ '': '' @ value_to_string print (da_value a))] #
     arg_lines print (Suc i) as"

text \<open>\<open>push_decoded\<close>, as the lines that it adds.\<close>

definition decoded_lines :: "(json \<Rightarrow> string) \<Rightarrow> string \<Rightarrow> function_dto \<Rightarrow> text_line list" where
  "decoded_lines print title df =
     [[(header_style, title)], kv ''selector'' (dd_selector df), kv ''name'' (dd_name df),
      kv ''signature'' (dd_signature df)] @
     (case dd_source df of Some src \<Rightarrow> [kv ''source'' src] | None \<Rightarrow> []) @
     (case dd_args df of
        Some args \<Rightarrow> if args \<noteq> [] then [(label_style, ''  args:'')] # arg_lines print 0 args
          else [[(label_style, ''  args: (none)'')]]
      | None \<Rightarrow> [[(label_style, ''  args: (not decoded)'')]]) @
     [[(plain, [])]]"

text \<open>The line of one frame of the call tree; \<open>root_id\<close> is the frame to be highlighted.\<close>

definition frame_line :: "int option \<Rightarrow> trace_dto \<Rightarrow> (unit, text_line) outcome" where
  "frame_line root_id t =
     (case truncate_hash (dl_from_addr t) of
        Ret sender \<Rightarrow>
          (case truncate_hash (or_default (dl_to_addr t) ''(create)'') of
             Ret target \<Rightarrow>
               Ret [(if Some (dl_trace_id t) = root_id then bold_colored Red else plain,
                 concat (replicate (nat (max (dl_call_depth t) 0)) ''  '') @ dl_call_type t @ '' '' @ sender @
                 '' '' @ right_arrow @ '' '' @ target @ ''  gas '' @ group_thousands (dl_gas_used t) @
                 (if dl_value t \<noteq> ''0'' \<and> dl_value t \<noteq> [] then ''  value '' @ dl_value t else []) @
                 (case dl_error t of Some err \<Rightarrow> ''  '' @ revert_mark @ '' revert: '' @ err | None \<Rightarrow> []))]
           | _ \<Rightarrow> Panic)
      | _ \<Rightarrow> Panic)"

fun frame_lines :: "int option \<Rightarrow> trace_dto list \<Rightarrow> (unit, text_line list) outcome" where
  "frame_lines root_id [] = Ret []"
| "frame_lines root_id (t # ts) =
     (case frame_line root_id t of
        Ret l \<Rightarrow> (case frame_lines root_id ts of Ret ls \<Rightarrow> Ret (l # ls) | _ \<Rightarrow> Panic)
      | _ \<Rightarrow> Panic)"

text \<open>\<open>detail_lines\<close>: the header, the call tree, the decoded functions and the diagnosis.\<close>

definition head_lines :: "(string \<Rightarrow> timestamp option) \<Rightarrow> timestamp \<Rightarrow> tx_dto \<Rightarrow> text_line list" where
  "head_lines parse now f =
     (let cat = normalize_category (dt_error_category f) in
      [kv ''tx hash'' (dt_tx_hash f),
       [(label_style, padded 12 ''category'' @ '' ''), (bold_colored (error_category_color cat), error_category_label cat)],
       kv ''revert'' (or_default (dt_revert_reason f) long_dash),
       kv ''function'' (or_default (dt_failing_function f) long_dash),
       kv ''gas used'' (group_thousands (dt_gas_used f)),
       kv ''when'' (time_ago_at parse (dt_timestamp f) now),
       [(plain, [])]])"

definition tree_title :: "detail_dto \<Rightarrow> string" where
  "tree_title d = ''Call tree ('' @ nat_to_dec (length (dv_call_tree d)) @ '' frames)'' @
     (if dv_call_tree_truncated d then '' '' @ long_dash @ '' truncated'' else [])"

definition diagnosis_lines :: "diagnosis_dto option \<Rightarrow> text_line list" where
  "diagnosis_lines dg = (case dg of
     Some x \<Rightarrow> [kv ''why'' (dx_message x)] @
       (case dx_recommended_action x of Some act \<Rightarrow> [kv ''fix'' act] | None \<Rightarrow> []) @
       (case dx_source x of Some src \<Rightarrow> [kv ''source'' src] | None \<Rightarrow> [])
   | None \<Rightarrow> [[(label_style, ''  (no diagnosis seeded for this category)'')]])"

definition detail_lines :: "(string \<Rightarrow> timestamp option) \<Rightarrow> (json \<Rightarrow> string) \<Rightarrow> timestamp \<Rightarrow> detail_dto \<Rightarrow>
    (unit, text_line list) outcome" where
  "detail_lines parse print now d =
     (case frame_lines (map_option dl_trace_id (dv_root_cause d)) (dv_call_tree d) of
        Ret frames \<Rightarrow> Ret (head_lines parse now (dv_failed d) @ [[(header_style, tree_title d)]] @ frames @
          [[(plain, [])]] @
          (case dv_failing_function_decoded d of Some df \<Rightarrow> decoded_lines print ''Failing function'' df | None \<Rightarrow> []) @
          (case dv_root_cause_decoded d of Some df \<Rightarrow> decoded_lines print ''Root cause function'' df | None \<Rightarrow> []) @
          [[(header_style, ''Diagnosis'')]] @ diagnosis_lines (dv_diagnosis d))
      | _ \<Rightarrow> Panic)"

section \<open>Properties\<close>

lemma normalize_category_known [simp]:
  "normalize_category (category_variant c) = as_wire c"
  "normalize_category (as_wire c) = as_wire c"
  by (cases c; simp add: normalize_category_def)+

lemma categories_eq: "categories = map as_wire
    [InsufficientBalance, InsufficientAllowance, SlippageExceeded, SlippageAmountOut, SlippageAmountIn,
     SlippagePriceImpact, DeadlineExpired, Unauthorized, TransferFailed, Unknown]"
  by (simp add: categories_def)

lemma all_categories: "set [InsufficientBalance, InsufficientAllowance, SlippageExceeded, SlippageAmountOut,
    SlippageAmountIn, SlippagePriceImpact, DeadlineExpired, Unauthorized, TransferFailed, Unknown] = UNIV"
proof (rule set_eqI)
  show "c \<in> set [InsufficientBalance, InsufficientAllowance, SlippageExceeded, SlippageAmountOut,
    SlippageAmountIn, SlippagePriceImpact, DeadlineExpired, Unauthorized, TransferFailed, Unknown] \<longleftrightarrow> c \<in> UNIV" for c
    by (cases c) simp_all
qed

lemma set_categories: "set categories = range as_wire"
  unfolding categories_eq set_map all_categories ..

lemma distinct_categories: "distinct categories"
  by (simp add: categories_def)

lemma group_from_groups:
  assumes "0 < i" "len = i + length bs"
  shows "\<exists>g gs. group_from len i bs = g @ concat (map (\<lambda>h. CHR '','' # h) gs) \<and> length g = length bs mod 3 \<and>
    list_all (\<lambda>h. length h = 3) gs \<and> g @ concat gs = bs"
  using assms
proof (induction bs arbitrary: i)
  case Nil
  show ?case by (intro exI [of _ "[]"]) simp
next
  case (Cons b bs)
  have n: "len - i = Suc (length bs)" using Cons.prems(2) by simp
  obtain g gs where rest: "group_from len (Suc i) bs = g @ concat (map (\<lambda>h. CHR '','' # h) gs)"
    "length g = length bs mod 3" "list_all (\<lambda>h. length h = 3) gs" "g @ concat gs = bs"
    using Cons.IH [of "Suc i"] Cons.prems by auto
  show ?case
  proof (cases "Suc (length bs) mod 3 = 0")
    case True
    then have "length bs mod 3 = 2" by presburger
    with True n rest Cons.prems(1) show ?thesis
      by (intro exI [of _ "[]"] exI [of _ "(b # g) # gs"]) simp
  next
    case False
    then have "Suc (length bs) mod 3 = Suc (length bs mod 3)" by presburger
    with False n rest show ?thesis
      by (intro exI [of _ "b # g"] exI [of _ gs]) simp
  qed
qed

lemma group_thousands_groups:
  "\<exists>g gs. group_thousands n = (if n < 0 then ''-'' else []) @ g @ concat (map (\<lambda>h. CHR '','' # h) gs) \<and>
    1 \<le> length g \<and> length g \<le> 3 \<and> list_all (\<lambda>h. length h = 3) gs \<and> g @ concat gs = nat_to_dec (nat (abs n))"
proof -
  obtain b bs where d: "nat_to_dec (nat (abs n)) = b # bs"
    by (cases "nat_to_dec (nat (abs n))") auto
  obtain g gs where "group_from (Suc (length bs)) 1 bs = g @ concat (map (\<lambda>h. CHR '','' # h) gs)"
    "length g = length bs mod 3" "list_all (\<lambda>h. length h = 3) gs" "g @ concat gs = bs"
    using group_from_groups [of 1 "Suc (length bs)" bs] by auto
  moreover have "length bs mod 3 < 3" by simp
  ultimately show ?thesis
    using d by (intro exI [of _ "b # g"] exI [of _ gs]) (auto simp: group_thousands_def)
qed

end
