(* ===== verification/Tui.thy ===== *)
theory Tui
  imports Tui_Text
begin

text \<open>
  The terminal program as a state machine, \<open>src/crates/tui/src\<close> (\<open>app.rs\<close>, \<open>event.rs\<close>): the key
  map, the transitions of \<open>App\<close>, and the event loop of \<open>run\<close>. A transition returns the new state
  and the fetches that it spawns; the loop adds them to the running tasks, a task ends by putting
  a message into the channel, and the loop takes one event at a time: a terminal event, a tick or
  the oldest message. An overflow and a \<open>clamp\<close> with an empty range are panics (in a release build
  an overflow wraps instead). \<open>now\<close> is the clock.
\<close>

section \<open>Actions and keys\<close>

datatype screen = Overview | FailedTx | Detail

datatype action =
    Quit | NextTab | PrevTab | SelectScreen screen | Up | Down | Enter | Back | CycleCategory
  | CycleWindow | NextPage | PrevPage | RefreshNow | ToggleAutoPoll | ToggleHelp | NoAction

datatype key_code =
    KeyChar char | KeyTab | KeyBackTab | KeyEsc | KeyEnter | KeyDown | KeyUp | KeyPageDown | KeyPageUp
  | OtherKey

record key_event =
  ke_code :: key_code
  ke_control :: bool

definition map_key :: "key_event \<Rightarrow> bool \<Rightarrow> action" where
  "map_key key show_help =
     (if ke_control key \<and> ke_code key = KeyChar (CHR ''c'') then Quit
      else if show_help then
        (if ke_code key = KeyChar (CHR ''?'') \<or> ke_code key = KeyEsc \<or> ke_code key = KeyChar (CHR ''q'')
         then ToggleHelp else NoAction)
      else (case ke_code key of
          KeyChar c \<Rightarrow>
            if c = CHR ''q'' then Quit
            else if c = CHR ''?'' then ToggleHelp
            else if c = CHR ''r'' then RefreshNow
            else if c = CHR ''p'' then ToggleAutoPoll
            else if c = CHR ''1'' then SelectScreen Overview
            else if c = CHR ''2'' then SelectScreen FailedTx
            else if c = CHR ''3'' then SelectScreen Detail
            else if c = CHR ''j'' then Down
            else if c = CHR ''k'' then Up
            else if c = CHR ''c'' then CycleCategory
            else if c = CHR ''t'' then CycleWindow
            else if c = CHR ''n'' then NextPage
            else if c = CHR ''b'' then PrevPage
            else NoAction
        | KeyTab \<Rightarrow> NextTab
        | KeyBackTab \<Rightarrow> PrevTab
        | KeyEsc \<Rightarrow> Back
        | KeyEnter \<Rightarrow> Enter
        | KeyDown \<Rightarrow> Down
        | KeyUp \<Rightarrow> Up
        | KeyPageDown \<Rightarrow> NextPage
        | KeyPageUp \<Rightarrow> PrevPage
        | OtherKey \<Rightarrow> NoAction))"

section \<open>Messages and tasks\<close>

datatype data_msg =
    MsgLatestBlock "string + int option"
  | MsgAnalysis "string + analysis_dto list"
  | MsgFailedList "string + tx_dto page_dto"
  | MsgDetail "string + detail_dto"

datatype fetch =
    FetchLatestBlock get_request
  | FetchAnalysis get_request
  | FetchFailedList get_request
  | FetchDetail get_request

text \<open>What a task sends when its request is answered.\<close>

fun answer :: "json_ext \<Rightarrow> fetch \<Rightarrow> http_reply \<Rightarrow> data_msg" where
  "answer E (FetchLatestBlock r) reply = MsgLatestBlock (map_sum tui_error_text (\<lambda>v. v) (latest_block E reply))"
| "answer E (FetchAnalysis r) reply = MsgAnalysis (map_sum tui_error_text (\<lambda>v. v) (failed_tx_analysis E reply))"
| "answer E (FetchFailedList r) reply = MsgFailedList (map_sum tui_error_text (\<lambda>v. v) (list_failed_tx_reply E reply))"
| "answer E (FetchDetail r) reply = MsgDetail (map_sum tui_error_text (\<lambda>v. v) (failed_tx_detail_reply E reply))"

section \<open>State\<close>

datatype time_window = WindowAll | H24 | D7 | D30

fun window_label :: "time_window \<Rightarrow> string" where
  "window_label WindowAll = ''All''"
| "window_label H24 = ''24h''"
| "window_label D7 = ''7d''"
| "window_label D30 = ''30d''"

fun window_next :: "time_window \<Rightarrow> time_window" where
  "window_next WindowAll = H24"
| "window_next H24 = D7"
| "window_next D7 = D30"
| "window_next D30 = WindowAll"

fun window_span :: "time_window \<Rightarrow> int option" where
  "window_span WindowAll = None"
| "window_span H24 = Some (seconds (24 * 3600))"
| "window_span D7 = Some (seconds (7 * 24 * 3600))"
| "window_span D30 = Some (seconds (30 * 24 * 3600))"

definition start_iso :: "text_ext \<Rightarrow> timestamp \<Rightarrow> time_window \<Rightarrow> string option" where
  "start_iso T now w = map_option (\<lambda>dur. te_rfc3339 T (now - dur)) (window_span w)"

datatype 'a loadable = Idle | Loading | Loaded 'a | LoadFailed string

record tx_filter =
  fl_category :: "string option"
  fl_window :: time_window
  fl_limit :: int
  fl_offset :: int

definition query_pairs :: "text_ext \<Rightarrow> timestamp \<Rightarrow> tx_filter \<Rightarrow> (string \<times> string) list" where
  "query_pairs T now f =
     [(''limit'', int_to_dec (fl_limit f)), (''offset'', int_to_dec (fl_offset f))] @
     (case fl_category f of Some c \<Rightarrow> [(''category'', c)] | None \<Rightarrow> []) @
     (case start_iso T now (fl_window f) of Some t \<Rightarrow> [(''from'', t)] | None \<Rightarrow> [])"

record app =
  ap_client :: api_client
  ap_screen :: screen
  ap_prev_screen :: screen
  ap_should_quit :: bool
  ap_show_help :: bool
  ap_auto_poll :: bool
  ap_tick :: u64
  ap_inflight :: nat
  ap_last_updated :: "timestamp option"
  ap_latest_block :: "int option loadable"
  ap_analysis :: "analysis_dto list loadable"
  ap_failed :: "tx_dto page_dto loadable"
  ap_selected :: "nat option"
  ap_filter :: tx_filter
  ap_detail :: "detail_dto loadable"
  ap_detail_scroll :: nat
  ap_selected_hash :: "string option"

definition app_new :: "tui_config \<Rightarrow> app" where
  "app_new config =
     \<lparr>ap_client = api_client_new config, ap_screen = Overview, ap_prev_screen = Overview,
      ap_should_quit = False, ap_show_help = False, ap_auto_poll = True, ap_tick = 0, ap_inflight = 0,
      ap_last_updated = None, ap_latest_block = Idle, ap_analysis = Idle, ap_failed = Idle,
      ap_selected = None,
      ap_filter = \<lparr>fl_category = None, fl_window = WindowAll, fl_limit = 20, fl_offset = 0\<rparr>,
      ap_detail = Idle, ap_detail_scroll = 0, ap_selected_hash = None\<rparr>"

section \<open>Transitions\<close>

type_synonym transition = "(unit, app \<times> fetch list) outcome"

definition stay :: "app \<Rightarrow> transition" where
  "stay a = Ret (a, [])"

fun begin_load :: "'a loadable \<Rightarrow> 'a loadable" where
  "begin_load (Loaded x) = Loaded x"
| "begin_load _ = Loading"

fun settle_load :: "string + 'a \<Rightarrow> 'a loadable" where
  "settle_load (Inr v) = Loaded v"
| "settle_load (Inl e) = LoadFailed e"

text \<open>\<open>inflight\<close> is a \<open>u32\<close>.\<close>

definition add_inflight :: "nat \<Rightarrow> app \<Rightarrow> (unit, app) outcome" where
  "add_inflight n a =
     (if ap_inflight a + n < 2 ^ 32 then Ret (a\<lparr>ap_inflight := ap_inflight a + n\<rparr>) else Panic)"

definition with_fetches :: "nat \<Rightarrow> fetch list \<Rightarrow> app \<Rightarrow> transition" where
  "with_fetches n fs a = (case add_inflight n a of Ret a' \<Rightarrow> Ret (a', fs) | _ \<Rightarrow> Panic)"

definition spawn_fetch_active :: "text_ext \<Rightarrow> timestamp \<Rightarrow> app \<Rightarrow> transition" where
  "spawn_fetch_active T now a = (case ap_screen a of
     Overview \<Rightarrow> with_fetches 2
       [FetchLatestBlock (latest_block_request (ap_client a)),
        FetchAnalysis (failed_tx_analysis_request (ap_client a))]
       (a\<lparr>ap_latest_block := begin_load (ap_latest_block a), ap_analysis := begin_load (ap_analysis a)\<rparr>)
   | FailedTx \<Rightarrow> with_fetches 1
       [FetchFailedList (list_failed_tx_request (ap_client a) (query_pairs T now (ap_filter a)))]
       (a\<lparr>ap_failed := begin_load (ap_failed a)\<rparr>)
   | Detail \<Rightarrow> (case ap_selected_hash a of
       Some h \<Rightarrow> with_fetches 1 [FetchDetail (failed_tx_detail_request (ap_client a) h)]
         (a\<lparr>ap_detail := begin_load (ap_detail a)\<rparr>)
     | None \<Rightarrow> stay a))"

definition goto_screen :: "text_ext \<Rightarrow> timestamp \<Rightarrow> screen \<Rightarrow> app \<Rightarrow> transition" where
  "goto_screen T now s a =
     (if ap_screen a \<noteq> s then spawn_fetch_active T now (a\<lparr>ap_prev_screen := ap_screen a, ap_screen := s\<rparr>)
      else stay a)"

definition screen_order :: "screen list" where
  "screen_order = [Overview, FailedTx, Detail]"

fun screen_index :: "screen \<Rightarrow> nat" where
  "screen_index Overview = 0"
| "screen_index FailedTx = 1"
| "screen_index Detail = 2"

definition cycle_screen :: "text_ext \<Rightarrow> timestamp \<Rightarrow> int \<Rightarrow> app \<Rightarrow> transition" where
  "cycle_screen T now dir a =
     (let idx = int (or_default (find_idx (\<lambda>s. s = ap_screen a) screen_order) 0);
          nxt = screen_order ! nat ((idx + dir) mod int (length screen_order))
      in goto_screen T now nxt a)"

definition failed_len :: "app \<Rightarrow> nat" where
  "failed_len a = (case ap_failed a of Loaded p \<Rightarrow> length (dp_data p) | _ \<Rightarrow> 0)"

definition on_enter :: "text_ext \<Rightarrow> timestamp \<Rightarrow> app \<Rightarrow> transition" where
  "on_enter T now a =
     (if ap_screen a \<noteq> FailedTx then stay a
      else let hash = (case ap_failed a of
          Loaded p \<Rightarrow> Option.bind (ap_selected a) (\<lambda>i.
            if i < length (dp_data p) then Some (dt_tx_hash (dp_data p ! i)) else None)
        | _ \<Rightarrow> None)
      in case hash of
          Some h \<Rightarrow> goto_screen T now Detail (a\<lparr>ap_selected_hash := Some h, ap_detail_scroll := 0\<rparr>)
        | None \<Rightarrow> stay a)"

definition on_back :: "text_ext \<Rightarrow> timestamp \<Rightarrow> app \<Rightarrow> transition" where
  "on_back T now a = (if ap_screen a = Detail then goto_screen T now FailedTx a else stay a)"

definition i32_ok :: "int \<Rightarrow> bool" where
  "i32_ok n \<longleftrightarrow> - (2 ^ 31) \<le> n \<and> n < 2 ^ 31"

definition move_selection :: "int \<Rightarrow> app \<Rightarrow> transition" where
  "move_selection dir a =
     (let len = failed_len a in
      if len = 0 then stay a
      else let cur = count_as_i32 (int (or_default (ap_selected a) 0));
               hi = count_as_i32 (int len) - 1
           in if i32_ok (cur + dir) \<and> i32_ok hi \<and> 0 \<le> hi
              then stay (a\<lparr>ap_selected := Some (nat (clamp 0 hi (cur + dir)))\<rparr>)
              else Panic)"

definition clamp_selection :: "app \<Rightarrow> app" where
  "clamp_selection a =
     (let len = failed_len a in
      a\<lparr>ap_selected :=
          (if len = 0 then None
           else case ap_selected a of
               Some i \<Rightarrow> if len \<le> i then Some (len - 1) else Some i
             | None \<Rightarrow> Some 0)\<rparr>)"

text \<open>\<open>detail_scroll\<close> is a \<open>u16\<close> that saturates.\<close>

definition on_down :: "app \<Rightarrow> transition" where
  "on_down a = (case ap_screen a of
     FailedTx \<Rightarrow> move_selection 1 a
   | Detail \<Rightarrow> stay (a\<lparr>ap_detail_scroll := min (ap_detail_scroll a + 1) 65535\<rparr>)
   | Overview \<Rightarrow> stay a)"

definition on_up :: "app \<Rightarrow> transition" where
  "on_up a = (case ap_screen a of
     FailedTx \<Rightarrow> move_selection (-1) a
   | Detail \<Rightarrow> stay (a\<lparr>ap_detail_scroll := ap_detail_scroll a - 1\<rparr>)
   | Overview \<Rightarrow> stay a)"

definition next_category :: "string option \<Rightarrow> string option" where
  "next_category c = (case c of
     None \<Rightarrow> Some (categories ! 0)
   | Some cur \<Rightarrow>
       let idx = or_default (find_idx (\<lambda>x. x = cur) categories) 0 in
       if idx + 1 < length categories then Some (categories ! (idx + 1)) else None)"

definition cycle_category :: "text_ext \<Rightarrow> timestamp \<Rightarrow> app \<Rightarrow> transition" where
  "cycle_category T now a = spawn_fetch_active T now
     (a\<lparr>ap_filter := (ap_filter a)\<lparr>fl_category := next_category (fl_category (ap_filter a)), fl_offset := 0\<rparr>\<rparr>)"

definition cycle_window :: "text_ext \<Rightarrow> timestamp \<Rightarrow> app \<Rightarrow> transition" where
  "cycle_window T now a = spawn_fetch_active T now
     (a\<lparr>ap_filter := (ap_filter a)\<lparr>fl_window := window_next (fl_window (ap_filter a)), fl_offset := 0\<rparr>\<rparr>)"

definition i64_ok :: "int \<Rightarrow> bool" where
  "i64_ok n \<longleftrightarrow> - (2 ^ 63) \<le> n \<and> n < 2 ^ 63"

definition next_page :: "text_ext \<Rightarrow> timestamp \<Rightarrow> app \<Rightarrow> transition" where
  "next_page T now a = (case ap_failed a of
     Loaded p \<Rightarrow>
       let f = ap_filter a; nxt = fl_offset f + fl_limit f in
       if \<not> i64_ok nxt then Panic
       else if nxt < dm_total (dp_pagination p)
         then spawn_fetch_active T now (a\<lparr>ap_filter := f\<lparr>fl_offset := nxt\<rparr>\<rparr>)
       else stay a
   | _ \<Rightarrow> stay a)"

definition prev_page :: "text_ext \<Rightarrow> timestamp \<Rightarrow> app \<Rightarrow> transition" where
  "prev_page T now a =
     (let f = ap_filter a in
      if 0 < fl_offset f
      then spawn_fetch_active T now (a\<lparr>ap_filter := f\<lparr>fl_offset := max (fl_offset f - fl_limit f) 0\<rparr>\<rparr>)
      else stay a)"

fun apply_action :: "text_ext \<Rightarrow> timestamp \<Rightarrow> action \<Rightarrow> app \<Rightarrow> transition" where
  "apply_action T now Quit a = stay (a\<lparr>ap_should_quit := True\<rparr>)"
| "apply_action T now ToggleHelp a = stay (a\<lparr>ap_show_help := \<not> ap_show_help a\<rparr>)"
| "apply_action T now ToggleAutoPoll a = stay (a\<lparr>ap_auto_poll := \<not> ap_auto_poll a\<rparr>)"
| "apply_action T now RefreshNow a = spawn_fetch_active T now a"
| "apply_action T now NextTab a = cycle_screen T now 1 a"
| "apply_action T now PrevTab a = cycle_screen T now (-1) a"
| "apply_action T now (SelectScreen s) a = goto_screen T now s a"
| "apply_action T now Up a = on_up a"
| "apply_action T now Down a = on_down a"
| "apply_action T now Enter a = on_enter T now a"
| "apply_action T now Back a = on_back T now a"
| "apply_action T now CycleCategory a = (if ap_screen a = FailedTx then cycle_category T now a else stay a)"
| "apply_action T now CycleWindow a = (if ap_screen a = FailedTx then cycle_window T now a else stay a)"
| "apply_action T now NextPage a = (if ap_screen a = FailedTx then next_page T now a else stay a)"
| "apply_action T now PrevPage a = (if ap_screen a = FailedTx then prev_page T now a else stay a)"
| "apply_action T now NoAction a = stay a"

fun ingest_msg :: "data_msg \<Rightarrow> app \<Rightarrow> app" where
  "ingest_msg (MsgLatestBlock r) a = a\<lparr>ap_latest_block := settle_load r\<rparr>"
| "ingest_msg (MsgAnalysis r) a = a\<lparr>ap_analysis := settle_load r\<rparr>"
| "ingest_msg (MsgFailedList r) a = clamp_selection (a\<lparr>ap_failed := settle_load r\<rparr>)"
| "ingest_msg (MsgDetail r) a = a\<lparr>ap_detail := settle_load r\<rparr>"

definition ingest :: "timestamp \<Rightarrow> data_msg \<Rightarrow> app \<Rightarrow> app" where
  "ingest now msg a =
     ingest_msg msg (a\<lparr>ap_inflight := ap_inflight a - 1, ap_last_updated := Some now\<rparr>)"

definition is_busy :: "app \<Rightarrow> bool" where
  "is_busy a \<longleftrightarrow> 0 < ap_inflight a"

section \<open>The event loop\<close>

datatype loop_event =
    KeyPress key_event
  | OtherInput
  | InputError
  | InputClosed
  | Tick
  | Received

record world =
  w_app :: app
  w_tasks :: "fetch list"
  w_queue :: "data_msg list"

definition run_transition :: "transition \<Rightarrow> world \<Rightarrow> (unit, world) outcome" where
  "run_transition r w = (case r of
     Ret (a, fs) \<Rightarrow> Ret (w\<lparr>w_app := a, w_tasks := w_tasks w @ fs\<rparr>)
   | _ \<Rightarrow> Panic)"

text \<open>One turn of \<open>select!\<close>; \<open>Received\<close> is only enabled when the channel holds a message.\<close>

fun handle_event :: "text_ext \<Rightarrow> timestamp \<Rightarrow> loop_event \<Rightarrow> world \<Rightarrow> (unit, world) outcome" where
  "handle_event T now (KeyPress key) w =
     run_transition (apply_action T now (map_key key (ap_show_help (w_app w))) (w_app w)) w"
| "handle_event T now OtherInput w = Ret w"
| "handle_event T now InputError w = Ret w"
| "handle_event T now InputClosed w = Ret (w\<lparr>w_app := (w_app w)\<lparr>ap_should_quit := True\<rparr>\<rparr>)"
| "handle_event T now Tick w =
     (let a = (w_app w)\<lparr>ap_tick := ap_tick (w_app w) + 1\<rparr> in
      run_transition (if ap_auto_poll a then spawn_fetch_active T now a else stay a) w)"
| "handle_event T now Received w = (case w_queue w of
     [] \<Rightarrow> Ret w
   | m # ms \<Rightarrow> Ret (w\<lparr>w_app := ingest now m (w_app w), w_queue := ms\<rparr>))"

text \<open>The state in which \<open>run\<close> enters its loop.\<close>

definition run_start :: "text_ext \<Rightarrow> timestamp \<Rightarrow> tui_config \<Rightarrow> (unit, world) outcome" where
  "run_start T now config =
     run_transition (spawn_fetch_active T now (app_new config))
       \<lparr>w_app = app_new config, w_tasks = [], w_queue = []\<rparr>"

text \<open>A step: the loop takes an event unless it has been left, or a task gets a reply of \<open>server\<close>.\<close>

inductive tui_step :: "text_ext \<Rightarrow> json_ext \<Rightarrow> (fetch \<Rightarrow> http_reply \<Rightarrow> bool) \<Rightarrow> world \<Rightarrow> world \<Rightarrow> bool"
  for T E server where
  event: "\<not> ap_should_quit (w_app w) \<Longrightarrow> handle_event T now e w = Ret w' \<Longrightarrow> tui_step T E server w w'"
| reply: "w_tasks w = fs @ f # gs \<Longrightarrow> server f r \<Longrightarrow>
    tui_step T E server w (w\<lparr>w_tasks := fs @ gs, w_queue := w_queue w @ [answer E f r]\<rparr>)"

inductive_cases tui_stepE: "tui_step T E server w w'"

end
