(* ===== verification/Tui_Laws.thy ===== *)
theory Tui_Laws
  imports Tui "HOL-Library.Countable"
begin

text \<open>
  The laws of the terminal program: what holds in every state of its event loop, when it comes to
  rest, and what a late reply can do.
\<close>

section \<open>What is outstanding\<close>

datatype panel = LatestPanel | AnalysisPanel | ListPanel | DetailPanel

fun fetch_panel :: "fetch \<Rightarrow> panel" where
  "fetch_panel (FetchLatestBlock _) = LatestPanel"
| "fetch_panel (FetchAnalysis _) = AnalysisPanel"
| "fetch_panel (FetchFailedList _) = ListPanel"
| "fetch_panel (FetchDetail _) = DetailPanel"

fun msg_panel :: "data_msg \<Rightarrow> panel" where
  "msg_panel (MsgLatestBlock _) = LatestPanel"
| "msg_panel (MsgAnalysis _) = AnalysisPanel"
| "msg_panel (MsgFailedList _) = ListPanel"
| "msg_panel (MsgDetail _) = DetailPanel"

lemma answer_panel [simp]: "msg_panel (answer E f r) = fetch_panel f"
  by (cases f) simp_all

definition outstanding :: "world \<Rightarrow> panel list" where
  "outstanding w = map fetch_panel (w_tasks w) @ map msg_panel (w_queue w)"

fun shows_loading :: "app \<Rightarrow> panel \<Rightarrow> bool" where
  "shows_loading a LatestPanel = (ap_latest_block a = Loading)"
| "shows_loading a AnalysisPanel = (ap_analysis a = Loading)"
| "shows_loading a ListPanel = (ap_failed a = Loading)"
| "shows_loading a DetailPanel = (ap_detail a = Loading)"

section \<open>Invariants\<close>

text \<open>A row is selected exactly when the list shows rows, and it is one of them.\<close>

definition selection_ok :: "app \<Rightarrow> bool" where
  "selection_ok a \<longleftrightarrow> (case ap_selected a of None \<Rightarrow> failed_len a = 0 | Some i \<Rightarrow> i < failed_len a)"

definition filter_ok :: "tx_filter \<Rightarrow> bool" where
  "filter_ok f \<longleftrightarrow> (\<forall>c. fl_category f = Some c \<longrightarrow> c \<in> set categories) \<and> fl_limit f = 20 \<and>
     0 \<le> fl_offset f \<and> 20 dvd fl_offset f"

text \<open>Pages that a server with fewer than \<open>2 ^ 62\<close> failures sends.\<close>

definition page_modest :: "tx_dto page_dto \<Rightarrow> bool" where
  "page_modest p \<longleftrightarrow> length (dp_data p) < 2 ^ 31 \<and> dm_total (dp_pagination p) \<le> 2 ^ 62"

definition app_modest :: "app \<Rightarrow> bool" where
  "app_modest a \<longleftrightarrow> (\<forall>p. ap_failed a = Loaded p \<longrightarrow> page_modest p) \<and> fl_offset (ap_filter a) < 2 ^ 62"

text \<open>What a transition may do to the state, and when it must not panic.\<close>

definition sound_move :: "app \<Rightarrow> transition \<Rightarrow> bool" where
  "sound_move a r \<longleftrightarrow> (\<forall>b fs. r = Ret (b, fs) \<longrightarrow>
     ap_inflight b = ap_inflight a + length fs \<and>
     (\<forall>p. shows_loading b p \<longrightarrow> shows_loading a p \<or> p \<in> set (map fetch_panel fs)) \<and>
     (selection_ok a \<longrightarrow> selection_ok b) \<and> (filter_ok (ap_filter a) \<longrightarrow> filter_ok (ap_filter b)) \<and>
     (app_modest a \<and> filter_ok (ap_filter a) \<longrightarrow> app_modest b)) \<and>
   (app_modest a \<and> selection_ok a \<and> filter_ok (ap_filter a) \<and> ap_inflight a + 2 < 2 ^ 32 \<longrightarrow> (\<exists>b fs. r = Ret (b, fs)))"

text \<open>States that differ only in what the invariants do not speak about, or in the filter.\<close>

definition near :: "app \<Rightarrow> app \<Rightarrow> bool" where
  "near a b \<longleftrightarrow> ap_inflight a = ap_inflight b \<and> ap_latest_block a = ap_latest_block b \<and>
     ap_analysis a = ap_analysis b \<and> ap_failed a = ap_failed b \<and> ap_detail a = ap_detail b \<and>
     ap_selected a = ap_selected b \<and>
     (filter_ok (ap_filter a) \<longrightarrow> filter_ok (ap_filter b) \<and> (app_modest a \<longrightarrow> app_modest b))"

lemma near_laws:
  assumes "near a b"
  shows "ap_inflight a = ap_inflight b" "shows_loading a p = shows_loading b p"
    "selection_ok a = selection_ok b" "failed_len a = failed_len b"
    "filter_ok (ap_filter a) \<Longrightarrow> filter_ok (ap_filter b)"
    "app_modest a \<Longrightarrow> filter_ok (ap_filter a) \<Longrightarrow> app_modest b"
proof -
  from assms show "ap_inflight a = ap_inflight b" and len: "failed_len a = failed_len b"
    by (simp_all add: near_def failed_len_def)
  from assms show "shows_loading a p = shows_loading b p"
    by (cases p) (simp_all add: near_def)
  from assms len show "selection_ok a = selection_ok b"
    by (simp add: near_def selection_ok_def split: option.split)
  from assms show "filter_ok (ap_filter a) \<Longrightarrow> filter_ok (ap_filter b)"
    "app_modest a \<Longrightarrow> filter_ok (ap_filter a) \<Longrightarrow> app_modest b"
    by (simp_all add: near_def)
qed

lemma near_refl [simp]: "near a a"
  by (simp add: near_def)

lemma sound_from:
  assumes "near a b" "sound_move b r"
  shows "sound_move a r"
  using assms(2) near_laws [OF assms(1)] unfolding sound_move_def by simp

lemma sound_stay: "near a b \<Longrightarrow> sound_move a (stay b)"
  using near_laws by (simp add: sound_move_def stay_def)

lemma begin_load_simps [simp]:
  "begin_load x = Loading \<longleftrightarrow> (\<forall>v. x \<noteq> Loaded v)"
  "begin_load x = Loaded v \<longleftrightarrow> x = Loaded v"
  by (cases x; auto)+

lemma with_fetches_Ret:
  "with_fetches n fs a = Ret (b, gs) \<longleftrightarrow>
     ap_inflight a + n < 2 ^ 32 \<and> b = a\<lparr>ap_inflight := ap_inflight a + n\<rparr> \<and> gs = fs"
  by (auto simp: with_fetches_def add_inflight_def)

text \<open>The data of a panel is kept while it is loaded again.\<close>

lemma sound_spawn: "sound_move a (spawn_fetch_active T now a)"
proof -
  have "ap_inflight b = ap_inflight a + length fs \<and>
     (\<forall>p. shows_loading b p \<longrightarrow> shows_loading a p \<or> p \<in> set (map fetch_panel fs)) \<and>
     (selection_ok a \<longrightarrow> selection_ok b) \<and> ap_filter b = ap_filter a \<and> (app_modest a \<longrightarrow> app_modest b)"
    if r: "spawn_fetch_active T now a = Ret (b, fs)" for b fs
  proof -
    have "shows_loading b p \<longrightarrow> shows_loading a p \<or> p \<in> set (map fetch_panel fs)" for p
      using r by (cases p; cases "ap_screen a")
        (auto simp: spawn_fetch_active_def with_fetches_Ret stay_def split: option.splits)
    moreover have "ap_inflight b = ap_inflight a + length fs" "ap_filter b = ap_filter a" "ap_selected b = ap_selected a"
      using r by (cases "ap_screen a"; auto simp: spawn_fetch_active_def with_fetches_Ret stay_def split: option.splits)+
    moreover have "ap_failed b = Loaded p \<longleftrightarrow> ap_failed a = Loaded p" for p
      using r by (cases "ap_screen a") (auto simp: spawn_fetch_active_def with_fetches_Ret stay_def split: option.splits)
    moreover from this have "failed_len b = failed_len a"
      unfolding failed_len_def by (cases "ap_failed a"; cases "ap_failed b") (auto, metis)
    ultimately show ?thesis
      by (simp add: selection_ok_def app_modest_def split: option.split)
  qed
  moreover have "\<exists>b fs. spawn_fetch_active T now a = Ret (b, fs)" if "ap_inflight a + 2 < 2 ^ 32"
    using that by (cases "ap_screen a")
      (simp_all add: spawn_fetch_active_def with_fetches_def add_inflight_def stay_def split: option.split)
  ultimately show ?thesis
    unfolding sound_move_def by simp
qed

lemma sound_goto: "sound_move a (goto_screen T now s a)"
  by (auto simp: goto_screen_def near_def app_modest_def intro!: sound_from [OF _ sound_spawn] sound_stay)

lemma next_category_known: "next_category c = Some x \<Longrightarrow> x \<in> set categories"
proof -
  have n: "0 < length categories"
    by (simp add: categories_def)
  then show "next_category c = Some x \<Longrightarrow> x \<in> set categories"
    by (auto simp: next_category_def Let_def split: option.splits if_splits)
qed

text \<open>Moving the selection: inside the list, and without a panic on lists of a reasonable length.\<close>

lemma count_as_i32_le:
  assumes "0 \<le> n"
  shows "count_as_i32 n \<le> n"
  using assms zmod_le_nonneg_dividend [of "n + 2 ^ 31" "2 ^ 32"] by (simp add: count_as_i32_def int_word_sint)

lemma count_as_i32_small: "0 \<le> n \<Longrightarrow> n < 2 ^ 31 \<Longrightarrow> count_as_i32 n = n"
  by (simp add: count_as_i32_def int_word_sint)

lemma sound_select:
  assumes "i < failed_len a"
  shows "sound_move a (stay (a\<lparr>ap_selected := Some i\<rparr>))"
proof -
  have "shows_loading (a\<lparr>ap_selected := Some i\<rparr>) p = shows_loading a p" for p
    by (cases p) simp_all
  then show ?thesis
    using assms by (simp add: sound_move_def stay_def selection_ok_def failed_len_def app_modest_def)
qed

lemma modest_len: "app_modest a \<Longrightarrow> failed_len a < 2 ^ 31"
  by (cases "ap_failed a") (simp_all add: app_modest_def failed_len_def page_modest_def)

lemma sound_move_selection:
  assumes "dir \<in> {1, -1}"
  shows "sound_move a (move_selection dir a)"
proof (cases "failed_len a = 0")
  case True
  then show ?thesis
    by (simp add: move_selection_def sound_stay)
next
  case False
  let ?hi = "count_as_i32 (int (failed_len a)) - 1"
  let ?cur = "count_as_i32 (int (or_default (ap_selected a) 0))"
  let ?safe = "i32_ok (?cur + dir) \<and> i32_ok ?hi \<and> 0 \<le> ?hi"
  have "nat (clamp 0 ?hi c) < failed_len a" if "0 \<le> ?hi" for c
    using that count_as_i32_le [of "int (failed_len a)"] by (auto simp: clamp_def)
  moreover have ?safe if "app_modest a" "selection_ok a"
  proof -
    from that(2) False have "or_default (ap_selected a) 0 < failed_len a"
      by (simp add: selection_ok_def or_default_def split: option.splits)
    with modest_len [OF that(1)] assms False show ?thesis
      by (auto simp: count_as_i32_small i32_ok_def)
  qed
  ultimately show ?thesis
    using False by (auto simp: move_selection_def Let_def sound_move_def [of a Panic] intro!: sound_select)
qed

text \<open>Filters and pages.\<close>

lemma sound_filter:
  assumes "filter_ok (ap_filter a) \<Longrightarrow> filter_ok f"
    "app_modest a \<Longrightarrow> filter_ok (ap_filter a) \<Longrightarrow> fl_offset f < 2 ^ 62"
  shows "sound_move a (spawn_fetch_active T now (a\<lparr>ap_filter := f\<rparr>))"
  using assms by (intro sound_from [OF _ sound_spawn]) (simp add: near_def app_modest_def)

lemma sound_next_page: "sound_move a (next_page T now a)"
proof (cases "ap_failed a")
  case (Loaded p)
  let ?f = "ap_filter a" and ?r = "next_page T now a"
  let ?nxt = "fl_offset ?f + fl_limit ?f"
  have r: "?r = (if \<not> i64_ok ?nxt then Panic else if ?nxt < dm_total (dp_pagination p)
      then spawn_fetch_active T now (a\<lparr>ap_filter := ?f\<lparr>fl_offset := ?nxt\<rparr>\<rparr>) else stay a)"
    by (simp add: next_page_def Let_def Loaded)
  have "filter_ok ?f \<Longrightarrow> filter_ok (?f\<lparr>fl_offset := ?nxt\<rparr>)"
    by (simp add: filter_ok_def)
  moreover have "app_modest a \<Longrightarrow> dm_total (dp_pagination p) \<le> 2 ^ 62"
    by (simp add: app_modest_def Loaded page_modest_def)
  ultimately have s: "sound_move a (if ?nxt < dm_total (dp_pagination p)
      then spawn_fetch_active T now (a\<lparr>ap_filter := ?f\<lparr>fl_offset := ?nxt\<rparr>\<rparr>) else stay a)"
    by (auto intro!: sound_filter sound_stay)
  have "i64_ok ?nxt" if "app_modest a" "filter_ok ?f"
    using that by (simp add: app_modest_def filter_ok_def i64_ok_def)
  with s show ?thesis
    unfolding r by (auto simp: sound_move_def [of a Panic])
qed (simp_all add: next_page_def sound_stay)

lemma sound_prev_page: "sound_move a (prev_page T now a)"
proof -
  have "filter_ok f \<Longrightarrow> 0 < fl_offset f \<Longrightarrow> filter_ok (f\<lparr>fl_offset := max (fl_offset f - fl_limit f) 0\<rparr>)"
    "filter_ok f \<Longrightarrow> fl_offset f < 2 ^ 62 \<Longrightarrow> max (fl_offset f - fl_limit f) 0 < 2 ^ 62" for f
    by (auto simp: filter_ok_def max_def dvd_diff)
  then show ?thesis
    by (auto simp: prev_page_def Let_def app_modest_def intro!: sound_filter sound_stay)
qed

lemma sound_enter: "sound_move a (on_enter T now a)"
proof -
  have "sound_move a (goto_screen T now Detail (a\<lparr>ap_selected_hash := Some h, ap_detail_scroll := 0\<rparr>))" for h
    by (rule sound_from [OF _ sound_goto]) (simp add: near_def app_modest_def)
  then show ?thesis
    by (auto simp: on_enter_def Let_def intro!: sound_stay split: loadable.split option.split)
qed

lemma sound_scroll: "sound_move a (stay (a\<lparr>ap_detail_scroll := n\<rparr>))"
  by (rule sound_stay) (simp add: near_def app_modest_def)

lemma sound_apply: "sound_move a (apply_action T now x a)"
proof (cases x)
  case CycleCategory
  then show ?thesis
    by (auto simp: cycle_category_def filter_ok_def next_category_known intro!: sound_filter sound_stay)
next
  case CycleWindow
  then show ?thesis
    by (auto simp: cycle_window_def filter_ok_def intro!: sound_filter sound_stay)
next
  case Quit
  then show ?thesis by (auto simp: near_def app_modest_def intro!: sound_stay)
next
  case ToggleHelp
  then show ?thesis by (auto simp: near_def app_modest_def intro!: sound_stay)
next
  case ToggleAutoPoll
  then show ?thesis by (auto simp: near_def app_modest_def intro!: sound_stay)
qed (simp_all add: cycle_screen_def Let_def on_back_def on_up_def on_down_def sound_stay sound_spawn
    sound_goto sound_move_selection sound_next_page sound_prev_page sound_enter sound_scroll split: screen.split)

section \<open>Steps\<close>

definition world_ok :: "world \<Rightarrow> bool" where
  "world_ok w \<longleftrightarrow> ap_inflight (w_app w) = length (outstanding w) \<and>
     (\<forall>p. shows_loading (w_app w) p \<longrightarrow> p \<in> set (outstanding w)) \<and>
     selection_ok (w_app w) \<and> filter_ok (ap_filter (w_app w))"

definition world_modest :: "world \<Rightarrow> bool" where
  "world_modest w \<longleftrightarrow> app_modest (w_app w) \<and> (\<forall>p. MsgFailedList (Inr p) \<in> set (w_queue w) \<longrightarrow> page_modest p)"

lemma run_transition_Ret:
  "run_transition r w = Ret w' \<longleftrightarrow> (\<exists>a fs. r = Ret (a, fs) \<and> w' = w\<lparr>w_app := a, w_tasks := w_tasks w @ fs\<rparr>)"
  by (auto simp: run_transition_def split: outcome.splits)

lemma transition_ok:
  assumes "world_ok w" "sound_move (w_app w) r" "run_transition r w = Ret w'"
  shows "world_ok w'" "world_modest w \<Longrightarrow> world_modest w'"
proof -
  from assms(3) obtain a fs where r: "r = Ret (a, fs)" and w': "w' = w\<lparr>w_app := a, w_tasks := w_tasks w @ fs\<rparr>"
    by (auto simp: run_transition_Ret)
  from assms(2) r have m: "ap_inflight a = ap_inflight (w_app w) + length fs"
    "\<And>p. shows_loading a p \<Longrightarrow> shows_loading (w_app w) p \<or> p \<in> set (map fetch_panel fs)"
    "selection_ok (w_app w) \<Longrightarrow> selection_ok a" "filter_ok (ap_filter (w_app w)) \<Longrightarrow> filter_ok (ap_filter a)"
    "app_modest (w_app w) \<Longrightarrow> filter_ok (ap_filter (w_app w)) \<Longrightarrow> app_modest a"
    by (auto simp: sound_move_def)
  have o: "length (outstanding w') = length (outstanding w) + length fs"
    "set (outstanding w') = set (outstanding w) \<union> set (map fetch_panel fs)"
    by (auto simp: outstanding_def w')
  have "p \<in> set (outstanding w')" if "shows_loading a p" for p
    using m(2) [OF that] assms(1) unfolding o world_ok_def by blast
  then show "world_ok w'"
    using assms(1) m(1,3,4) o(1) by (simp add: world_ok_def w')
  show "world_modest w \<Longrightarrow> world_modest w'"
    using assms(1) m(5) by (simp add: world_ok_def world_modest_def w')
qed

lemma settle_simps [simp]:
  "settle_load r \<noteq> Loading"
  "settle_load r = Loaded v \<longleftrightarrow> r = Inr v"
  by (cases r; simp)+

lemma ingest_ok:
  assumes "world_ok w" "w_queue w = m # ms"
  shows "world_ok (w\<lparr>w_app := ingest now m (w_app w), w_queue := ms\<rparr>)"
    "world_modest w \<Longrightarrow> world_modest (w\<lparr>w_app := ingest now m (w_app w), w_queue := ms\<rparr>)"
proof -
  let ?a = "w_app w" and ?b = "ingest now m (w_app w)"
  have n: "ap_inflight ?b = ap_inflight ?a - 1" "ap_filter ?b = ap_filter ?a"
    by (cases m; simp add: ingest_def clamp_selection_def Let_def)+
  have load: "shows_loading ?b p \<longrightarrow> shows_loading ?a p \<and> p \<noteq> msg_panel m" for p
    by (cases p; cases m) (simp_all add: ingest_def clamp_selection_def Let_def)
  have sel: "selection_ok ?b" if "selection_ok ?a"
    using that by (cases m)
      (auto simp: ingest_def clamp_selection_def Let_def selection_ok_def failed_len_def split: option.splits loadable.splits)
  have "set (outstanding w) = insert (msg_panel m) (set (map fetch_panel (w_tasks w) @ map msg_panel ms))"
    using assms(2) by (auto simp: outstanding_def)
  then have "p \<in> set (map fetch_panel (w_tasks w) @ map msg_panel ms)" if "shows_loading ?b p" for p
    using load [of p] that assms(1) unfolding world_ok_def by blast
  then show "world_ok (w\<lparr>w_app := ?b, w_queue := ms\<rparr>)"
    using assms n sel by (simp add: world_ok_def outstanding_def)
  have "ap_failed ?b = Loaded p \<Longrightarrow> ap_failed ?a = Loaded p \<or> m = MsgFailedList (Inr p)" for p
    by (cases m) (simp_all add: ingest_def clamp_selection_def Let_def)
  then show "world_modest w \<Longrightarrow> world_modest (w\<lparr>w_app := ?b, w_queue := ms\<rparr>)"
    using assms(2) n(2) by (auto simp: world_modest_def app_modest_def)
qed

text \<open>The contract of the server that keeps the client away from the limits of its integers.\<close>

definition modest_server :: "json_ext \<Rightarrow> (fetch \<Rightarrow> http_reply \<Rightarrow> bool) \<Rightarrow> bool" where
  "modest_server E server \<longleftrightarrow>
     (\<forall>f r p. server f r \<and> answer E f r = MsgFailedList (Inr p) \<longrightarrow> page_modest p)"

lemma near_tick: "near a (a\<lparr>ap_tick := n\<rparr>)"
  by (simp add: near_def app_modest_def)

lemmas sound_tick = sound_from [OF near_tick sound_spawn] sound_stay [OF near_tick]

lemma near_quit: "near a (a\<lparr>ap_should_quit := q\<rparr>)"
  by (simp add: near_def app_modest_def)

lemma event_ok:
  assumes "world_ok w" "handle_event T now e w = Ret w'"
  shows "world_ok w'" "world_modest w \<Longrightarrow> world_modest w'"
proof -
  have "world_ok w' \<and> (world_modest w \<longrightarrow> world_modest w')"
  proof (cases e)
    case (KeyPress key)
    with assms show ?thesis by (auto intro: transition_ok sound_apply)
  next
    case InputClosed
    have "run_transition (stay ((w_app w)\<lparr>ap_should_quit := True\<rparr>)) w = handle_event T now e w"
      by (simp add: InputClosed run_transition_def stay_def)
    with assms transition_ok [OF assms(1) sound_stay [OF near_quit]] show ?thesis by metis
  next
    case Tick
    with assms show ?thesis
      by (auto simp: Let_def intro: transition_ok [OF _ sound_tick(1)] transition_ok [OF _ sound_tick(2)] split: if_splits)
  next
    case Received
    with assms show ?thesis by (auto split: list.splits intro: ingest_ok)
  qed (use assms in auto)
  then show "world_ok w'" "world_modest w \<Longrightarrow> world_modest w'" by simp_all
qed

lemma step_ok:
  assumes "tui_step T E server w w'" "world_ok w"
  shows "world_ok w'" "modest_server E server \<Longrightarrow> world_modest w \<Longrightarrow> world_modest w'"
  using assms
proof (induction rule: tui_step.induct)
  case (event w now e w')
  { case 1 with event show ?case by (blast intro: event_ok) }
  { case 2 with event show ?case by (blast intro: event_ok) }
next
  case (reply w fs f gs r)
  { case 1
    have "set (outstanding (w\<lparr>w_tasks := fs @ gs, w_queue := w_queue w @ [answer E f r]\<rparr>)) = set (outstanding w)"
      "length (outstanding (w\<lparr>w_tasks := fs @ gs, w_queue := w_queue w @ [answer E f r]\<rparr>)) = length (outstanding w)"
      using reply by (auto simp: outstanding_def)
    with 1 show ?case by (simp add: world_ok_def) }
  { case 2
    with reply show ?case by (fastforce simp: world_modest_def modest_server_def) }
qed

interpretation tui_loop: invariant_system "tui_step T E server"
    "\<lambda>w. world_ok w \<and> (modest_server E server \<longrightarrow> world_modest w)"
  by unfold_locales (blast intro: step_ok)

lemma world_ok_start:
  assumes "run_start T now config = Ret w"
  shows "world_ok w \<and> world_modest w"
proof -
  let ?w = "\<lparr>w_app = app_new config, w_tasks = [], w_queue = []\<rparr>"
  have "shows_loading (app_new config) p = False" for p
    by (cases p) (simp_all add: app_new_def)
  then have "world_ok ?w" "world_modest ?w"
    by (simp_all add: world_ok_def world_modest_def outstanding_def app_new_def selection_ok_def
        failed_len_def filter_ok_def app_modest_def)
  with assms transition_ok [of ?w "spawn_fetch_active T now (app_new config)" w] sound_spawn show ?thesis
    by (simp add: run_start_def)
qed

lemma reachable_ok:
  assumes "run_start T now0 config = Ret w0" "(tui_step T E server)\<^sup>*\<^sup>* w0 w"
  shows "world_ok w" "modest_server E server \<Longrightarrow> world_modest w"
  using tui_loop.reachable_inv [OF assms(2)] world_ok_start [OF assms(1)] by blast+

lemma event_no_panic:
  assumes "world_ok w" "world_modest w" "length (outstanding w) + 2 < 2 ^ 32"
  shows "\<exists>w'. handle_event T now e w = Ret w'"
proof -
  have move: "\<exists>w'. run_transition r w = Ret w'" if "sound_move (w_app w) r" for r
    using that assms by (fastforce simp: sound_move_def world_ok_def world_modest_def run_transition_def)
  show ?thesis
    by (cases e) (auto simp: Let_def intro!: move sound_apply sound_tick split: list.split)
qed

section \<open>Properties\<close>

text \<open>C21. The terminal program is well-formed in every state that its loop can reach, for every server:
  the counter of running fetches is exact, so the spinner turns exactly while a fetch is running or
  its result is waiting; a panel that shows that it is loading has a fetch on the way; a row is
  selected exactly when the list has rows, and it is one of them; the filter holds a known category,
  a page size of 20 and an offset that is a multiple of it. With a server of at most \<open>2 ^ 62\<close>
  failures and less than \<open>2 ^ 32 - 2\<close> running fetches no event makes it panic.\<close>

theorem tui_state_ok:
  assumes "run_start T now0 config = Ret w0" "(tui_step T E server)\<^sup>*\<^sup>* w0 w"
  shows "ap_inflight (w_app w) = length (w_tasks w) + length (w_queue w) \<and>
    (is_busy (w_app w) \<longleftrightarrow> w_tasks w \<noteq> [] \<or> w_queue w \<noteq> []) \<and>
    (\<forall>p. shows_loading (w_app w) p \<longrightarrow> p \<in> fetch_panel ` set (w_tasks w) \<union> msg_panel ` set (w_queue w)) \<and>
    (case ap_failed (w_app w) of
       Loaded pg \<Rightarrow> (if dp_data pg = [] then ap_selected (w_app w) = None
         else \<exists>i < length (dp_data pg). ap_selected (w_app w) = Some i)
     | _ \<Rightarrow> ap_selected (w_app w) = None) \<and>
    (\<forall>c. fl_category (ap_filter (w_app w)) = Some c \<longrightarrow> c \<in> set categories) \<and>
    fl_limit (ap_filter (w_app w)) = 20 \<and> 0 \<le> fl_offset (ap_filter (w_app w)) \<and>
    20 dvd fl_offset (ap_filter (w_app w)) \<and>
    (modest_server E server \<and> length (w_tasks w) + length (w_queue w) + 2 < 2 ^ 32 \<longrightarrow>
       (\<forall>now e. handle_event T now e w \<noteq> Panic))"
proof -
  note ok = reachable_ok [OF assms]
  have len: "length (outstanding w) = length (w_tasks w) + length (w_queue w)"
    "set (outstanding w) = fetch_panel ` set (w_tasks w) \<union> msg_panel ` set (w_queue w)"
    by (simp_all add: outstanding_def)
  have "case ap_failed (w_app w) of
       Loaded pg \<Rightarrow> (if dp_data pg = [] then ap_selected (w_app w) = None
         else \<exists>i < length (dp_data pg). ap_selected (w_app w) = Some i)
     | _ \<Rightarrow> ap_selected (w_app w) = None"
    using ok(1) by (auto simp: world_ok_def selection_ok_def failed_len_def split: loadable.splits option.splits)
  moreover have "\<forall>now e. handle_event T now e w \<noteq> Panic"
    if "modest_server E server" "length (w_tasks w) + length (w_queue w) + 2 < 2 ^ 32"
    using event_no_panic [OF ok(1) ok(2) [OF that(1)]] that(2) by (metis len(1) outcome.distinct(3))
  moreover have "is_busy (w_app w) \<longleftrightarrow> w_tasks w \<noteq> [] \<or> w_queue w \<noteq> []"
    using ok(1) len(1) by (simp add: is_busy_def world_ok_def)
  ultimately show ?thesis
    using ok(1) unfolding world_ok_def filter_ok_def len by blast
qed


text \<open>One turn that empties the outstanding work: a reply, and the receipt of a message.\<close>

lemma reply_first:
  assumes "w_tasks w = f # gs" "server f r"
  shows "tui_step T E server w (w\<lparr>w_tasks := gs, w_queue := w_queue w @ [answer E f r]\<rparr>)"
  using tui_step.reply [of w "[]" f gs server r T E] assms by simp

lemma receive_first:
  assumes "w_queue w = m # ms" "\<not> ap_should_quit (w_app w)"
  shows "tui_step T E server w (w\<lparr>w_app := ingest now m (w_app w), w_queue := ms\<rparr>)"
  using tui_step.event [of w T now Received] assms by simp

lemma ingest_frame [simp]:
  "ap_should_quit (ingest now m a) = ap_should_quit a" "ap_screen (ingest now m a) = ap_screen a"
  "ap_filter (ingest now m a) = ap_filter a" "ap_selected_hash (ingest now m a) = ap_selected_hash a"
  by (cases m; simp add: ingest_def clamp_selection_def Let_def)+

definition same_place :: "app \<Rightarrow> app \<Rightarrow> bool" where
  "same_place a b \<longleftrightarrow> ap_should_quit b = ap_should_quit a \<and> ap_screen b = ap_screen a \<and>
     ap_filter b = ap_filter a \<and> ap_selected_hash b = ap_selected_hash a"

lemma drain:
  assumes "\<forall>f. \<exists>r. server f r" "\<not> ap_should_quit (w_app w)"
  shows "\<exists>w'. ((tui_step T E server) ^^ (2 * length (w_tasks w) + length (w_queue w))) w w' \<and>
    w_tasks w' = [] \<and> w_queue w' = [] \<and> same_place (w_app w) (w_app w')"
  using assms(2)
proof (induction "2 * length (w_tasks w) + length (w_queue w)" arbitrary: w)
  case 0
  then show ?case by (auto simp: same_place_def)
next
  case (Suc n)
  have "\<exists>u. tui_step T E server w u \<and> n = 2 * length (w_tasks u) + length (w_queue u) \<and> same_place (w_app w) (w_app u)"
  proof (cases "w_queue w")
    case (Cons m ms)
    from receive_first [OF this Suc.prems] Cons Suc.hyps(2) show ?thesis
      by (intro exI [of _ "w\<lparr>w_app := ingest 0 m (w_app w), w_queue := ms\<rparr>"]) (auto simp: same_place_def)
  next
    case Nil
    with Suc.hyps(2) obtain f gs where t: "w_tasks w = f # gs" by (cases "w_tasks w") auto
    from assms(1) obtain r where "server f r" by blast
    then have "tui_step T E server w (w\<lparr>w_tasks := gs, w_queue := w_queue w @ [answer E f r]\<rparr>)"
      by (rule reply_first [OF t])
    with t Nil Suc.hyps(2) show ?thesis
      by (intro exI [of _ "w\<lparr>w_tasks := gs, w_queue := w_queue w @ [answer E f r]\<rparr>"]) (auto simp: same_place_def)
  qed
  then obtain u where u: "tui_step T E server w u" "n = 2 * length (w_tasks u) + length (w_queue u)"
    "same_place (w_app w) (w_app u)" by blast
  then have "\<not> ap_should_quit (w_app u)" using Suc.prems by (simp add: same_place_def)
  from Suc.hyps(1) [OF u(2) this] u obtain w' where "((tui_step T E server) ^^ n) u w'"
    "w_tasks w' = []" "w_queue w' = []" "same_place (w_app u) (w_app w')" by blast
  with u have "((tui_step T E server) ^^ Suc n) w w'" "same_place (w_app w) (w_app w')"
    by (blast intro: relpowp_Suc_I2, simp add: same_place_def)
  with Suc.hyps(2) \<open>w_tasks w' = []\<close> \<open>w_queue w' = []\<close> show ?case by metis
qed

text \<open>C33. The terminal program always can come to rest. From every reachable state in which it has not
  been left, with a server that answers every request (an error counts as an answer), two steps
  for each running fetch and one for each waiting message lead to a state with nothing outstanding,
  on the same screen with the same filter; there the spinner has stopped, and no panel shows that
  it is loading.\<close>

theorem tui_comes_to_rest:
  assumes "run_start T now0 config = Ret w0" "(tui_step T E server)\<^sup>*\<^sup>* w0 w"
    and "\<forall>f. \<exists>r. server f r" "\<not> ap_should_quit (w_app w)"
  shows "\<exists>w'. ((tui_step T E server) ^^ (2 * length (w_tasks w) + length (w_queue w))) w w' \<and>
    w_tasks w' = [] \<and> w_queue w' = [] \<and> \<not> is_busy (w_app w') \<and> (\<forall>q. \<not> shows_loading (w_app w') q) \<and>
    ap_screen (w_app w') = ap_screen (w_app w) \<and> ap_filter (w_app w') = ap_filter (w_app w)"
proof -
  from drain [OF assms(3,4)] obtain w' where
    w': "((tui_step T E server) ^^ (2 * length (w_tasks w) + length (w_queue w))) w w'"
      "w_tasks w' = []" "w_queue w' = []" "same_place (w_app w) (w_app w')" by blast
  have "(tui_step T E server)\<^sup>*\<^sup>* w0 w'"
    using assms(2) relpowp_imp_rtranclp [OF w'(1)] by simp
  from reachable_ok(1) [OF assms(1) this] have "world_ok w'" .
  then have "\<not> is_busy (w_app w')" "\<forall>q. \<not> shows_loading (w_app w') q"
    by (simp_all add: world_ok_def outstanding_def is_busy_def w'(2,3))
  with w' show ?thesis by (auto simp: same_place_def)
qed


text \<open>A server that answers the list with a category differently from the list without.\<close>

definition two_lists :: "http_reply \<Rightarrow> http_reply \<Rightarrow> fetch \<Rightarrow> http_reply \<Rightarrow> bool" where
  "two_lists r1 r2 f r = (case f of
     FetchFailedList q \<Rightarrow> r = (if ''category'' \<in> set (map fst (gr_query q)) then r2 else r1)
   | _ \<Rightarrow> r = NoReply [])"

definition key_of :: "char \<Rightarrow> key_event" where
  "key_of c = \<lparr>ke_code = KeyChar c, ke_control = False\<rparr>"

lemma map_key_list: "map_key (key_of (CHR ''2'')) False = SelectScreen FailedTx"
  and map_key_category: "map_key (key_of (CHR ''c'')) False = CycleCategory"
  and map_key_next: "map_key (key_of (CHR ''n'')) False = NextPage"
  by (simp_all add: map_key_def key_of_def)

lemma event_step:
  "handle_event T now e w = Ret w' \<Longrightarrow> \<not> ap_should_quit (w_app w) \<Longrightarrow> (tui_step T E server)\<^sup>*\<^sup>* w w'"
  by (blast intro: tui_step.event)

lemma reply_step:
  "server f r \<Longrightarrow> (tui_step T E server)\<^sup>*\<^sup>* \<lparr>w_app = a, w_tasks = fs @ f # gs, w_queue = ms\<rparr>
     \<lparr>w_app = a, w_tasks = fs @ gs, w_queue = ms @ [answer E f r]\<rparr>"
  using tui_step.reply [of "\<lparr>w_app = a, w_tasks = fs @ f # gs, w_queue = ms\<rparr>" fs f gs server r T E] by auto

lemma receive_all:
  "\<not> ap_should_quit a \<Longrightarrow> (tui_step T E server)\<^sup>*\<^sup>* \<lparr>w_app = a, w_tasks = ts, w_queue = ms\<rparr>
     \<lparr>w_app = fold (ingest now) ms a, w_tasks = ts, w_queue = []\<rparr>"
proof (induction ms arbitrary: a)
  case (Cons m ms)
  have "tui_step T E server \<lparr>w_app = a, w_tasks = ts, w_queue = m # ms\<rparr>
      \<lparr>w_app = ingest now m a, w_tasks = ts, w_queue = ms\<rparr>"
    using receive_first [of "\<lparr>w_app = a, w_tasks = ts, w_queue = m # ms\<rparr>"] Cons.prems by simp
  moreover have "(tui_step T E server)\<^sup>*\<^sup>* \<lparr>w_app = ingest now m a, w_tasks = ts, w_queue = ms\<rparr>
      \<lparr>w_app = fold (ingest now) ms (ingest now m a), w_tasks = ts, w_queue = []\<rparr>"
    using Cons by simp
  ultimately show ?case
    by (simp add: converse_rtranclp_into_rtranclp)
qed simp

text \<open>A late reply wins. Nothing relates a reply to the request that is on the screen: after the
  list is opened and a category is chosen, the reply to the first request may arrive after that to
  the second, and then the program comes to rest with the category in its filter and the list of
  all categories on the screen.\<close>

theorem late_reply_shown:
  assumes "list_failed_tx_reply E r1 = Inr p1" "list_failed_tx_reply E r2 = Inr p2"
  shows "\<exists>w0 w. run_start T now config = Ret w0 \<and> (tui_step T E (two_lists r1 r2))\<^sup>*\<^sup>* w0 w \<and>
    w_tasks w = [] \<and> w_queue w = [] \<and> \<not> is_busy (w_app w) \<and> ap_screen (w_app w) = FailedTx \<and>
    fl_category (ap_filter (w_app w)) = Some ''INSUFFICIENT_BALANCE'' \<and> ap_failed (w_app w) = Loaded p1"
proof -
  let ?S = "tui_step T E (two_lists r1 r2)" and ?c = "api_client_new config"
  define a1 where "a1 = (app_new config)\<lparr>ap_latest_block := Loading, ap_analysis := Loading, ap_inflight := 2\<rparr>"
  define f1 where "f1 = ap_filter (app_new config)"
  define a2 where "a2 = a1\<lparr>ap_prev_screen := Overview, ap_screen := FailedTx, ap_failed := Loading, ap_inflight := 3\<rparr>"
  define f2 where "f2 = f1\<lparr>fl_category := Some ''INSUFFICIENT_BALANCE'', fl_offset := 0\<rparr>"
  define a3 where "a3 = a2\<lparr>ap_filter := f2, ap_inflight := 4\<rparr>"
  let ?L = "FetchLatestBlock (latest_block_request ?c)" and ?A = "FetchAnalysis (failed_tx_analysis_request ?c)"
  let ?F = "\<lambda>f. FetchFailedList (list_failed_tx_request ?c (query_pairs T now f))"
  let ?w1 = "\<lparr>w_app = a1, w_tasks = [?L, ?A], w_queue = []\<rparr>"
  let ?w2 = "\<lparr>w_app = a2, w_tasks = [?L, ?A, ?F f1], w_queue = []\<rparr>"
  let ?w3 = "\<lparr>w_app = a3, w_tasks = [?L, ?A, ?F f1, ?F f2], w_queue = []\<rparr>"
  note spawn = spawn_fetch_active_def with_fetches_def add_inflight_def run_transition_def
  have start: "run_start T now config = Ret ?w1"
    by (simp add: run_start_def spawn app_new_def a1_def)
  have "handle_event T now (KeyPress (key_of (CHR ''2''))) ?w1 = Ret ?w2"
    by (simp add: a1_def app_new_def map_key_list goto_screen_def spawn a2_def f1_def)
  then have s1: "?S\<^sup>*\<^sup>* ?w1 ?w2"
    by (rule event_step) (simp add: a1_def app_new_def)
  have "handle_event T now (KeyPress (key_of (CHR ''c''))) ?w2 = Ret ?w3"
    by (simp add: a2_def a1_def app_new_def map_key_category cycle_category_def spawn a3_def f2_def f1_def
        next_category_def categories_def)
  then have s2: "?S\<^sup>*\<^sup>* ?w2 ?w3"
    by (rule event_step) (simp add: a2_def a1_def app_new_def)
  have kinds: "two_lists r1 r2 (?F f2) r2" "two_lists r1 r2 (?F f1) r1" "two_lists r1 r2 ?L (NoReply [])"
    "two_lists r1 r2 ?A (NoReply [])"
    by (simp_all add: two_lists_def list_failed_tx_request_def get_request_for_def query_pairs_def f1_def f2_def
        app_new_def start_iso_def)
  let ?m1 = "answer E (?F f1) r1" and ?m2 = "answer E (?F f2) r2"
  let ?mL = "answer E ?L (NoReply [])" and ?mA = "answer E ?A (NoReply [])"
  have "?S\<^sup>*\<^sup>* ?w3 \<lparr>w_app = a3, w_tasks = [?L, ?A, ?F f1], w_queue = [?m2]\<rparr>"
    using reply_step [where T = T and E = E and a = a3 and ms = "[]" and server = "two_lists r1 r2"
      and fs = "[?L, ?A, ?F f1]" and gs = "[]", OF kinds(1)] by simp
  also have "?S\<^sup>*\<^sup>* \<dots> \<lparr>w_app = a3, w_tasks = [?L, ?A], w_queue = [?m2, ?m1]\<rparr>"
    using reply_step [where T = T and E = E and a = a3 and ms = "[?m2]" and server = "two_lists r1 r2"
      and fs = "[?L, ?A]" and gs = "[]", OF kinds(2)] by simp
  also have "?S\<^sup>*\<^sup>* \<dots> \<lparr>w_app = a3, w_tasks = [?A], w_queue = [?m2, ?m1, ?mL]\<rparr>"
    using reply_step [where T = T and E = E and a = a3 and ms = "[?m2, ?m1]" and server = "two_lists r1 r2"
      and fs = "[]" and gs = "[?A]", OF kinds(3)] by simp
  also have "?S\<^sup>*\<^sup>* \<dots> \<lparr>w_app = a3, w_tasks = [], w_queue = [?m2, ?m1, ?mL, ?mA]\<rparr>"
    using reply_step [where T = T and E = E and a = a3 and ms = "[?m2, ?m1, ?mL]" and server = "two_lists r1 r2"
      and fs = "[]" and gs = "[]", OF kinds(4)] by simp
  also have "?S\<^sup>*\<^sup>* \<dots> \<lparr>w_app = fold (ingest now) [?m2, ?m1, ?mL, ?mA] a3, w_tasks = [], w_queue = []\<rparr>"
    by (rule receive_all) (simp add: a3_def a2_def a1_def app_new_def)
  finally have s3: "?S\<^sup>*\<^sup>* ?w3 \<lparr>w_app = fold (ingest now) [?m2, ?m1, ?mL, ?mA] a3, w_tasks = [], w_queue = []\<rparr>" .
  let ?a = "fold (ingest now) [?m2, ?m1, ?mL, ?mA] a3"
  have "ap_inflight ?a = 0" "ap_failed ?a = Loaded p1" "ap_screen ?a = FailedTx"
    "fl_category (ap_filter ?a) = Some ''INSUFFICIENT_BALANCE''"
    by (simp_all add: assms ingest_def clamp_selection_def Let_def a3_def a2_def f2_def)
  with start rtranclp_trans [OF s1 rtranclp_trans [OF s2 s3]] show ?thesis
    by (intro exI [of _ ?w1] exI [of _ "\<lparr>w_app = ?a, w_tasks = [], w_queue = []\<rparr>"]) (simp add: is_busy_def)
qed


section \<open>Instances\<close>

instance json :: countable
  by countable_datatype

text \<open>A printer and its parser.\<close>

definition sample_print :: "json \<Rightarrow> string" where
  "sample_print j = nat_to_dec (to_nat j)"

definition sample_json :: json_ext where
  "sample_json = \<lparr>je_parse = (\<lambda>s. map_option from_nat (digits_value 10 0 s)), je_message = (\<lambda>_. [])\<rparr>"

lemma sample_parse [simp]: "je_parse sample_json (sample_print j) = Some j"
  by (simp add: sample_json_def sample_print_def digits_value_dec)

definition sample_text :: text_ext where
  "sample_text = \<lparr>te_decimal = int_to_dec, te_rfc3339 = int_to_dec, te_numeric = (\<lambda>x. int_to_dec (unscaled x)),
     te_date = int_to_dec, te_hash_iter = (\<lambda>m. [])\<rparr>"

definition sample_config :: tui_config where
  "sample_config = tui_config_from_env_with (\<lambda>_. None)"

lemma sample_start:
  "\<exists>w. run_start sample_text 0 sample_config = Ret w \<and> length (w_tasks w) = 2 \<and> w_queue w = [] \<and>
     \<not> ap_should_quit (w_app w)"
  by (simp add: run_start_def run_transition_def spawn_fetch_active_def with_fetches_def add_inflight_def app_new_def)

lemma tui_state_ok_witness:
  "\<exists>w. run_start sample_text 0 sample_config = Ret w \<and> ap_inflight (w_app w) = 2 \<and> is_busy (w_app w) \<and>
     handle_event sample_text 1 Tick w \<noteq> Panic"
proof -
  obtain w where w: "run_start sample_text 0 sample_config = Ret w" "length (w_tasks w) = 2" "w_queue w = []"
    using sample_start by blast
  have "modest_server sample_json (\<lambda>f r. r = NoReply [])"
    by (auto simp: modest_server_def list_failed_tx_reply_def get_json_def elim!: answer.elims)
  with tui_state_ok [OF w(1) rtranclp.rtrancl_refl, of sample_json "\<lambda>f r. r = NoReply []"] w
  have "ap_inflight (w_app w) = 2" "is_busy (w_app w)" "\<forall>now e. handle_event sample_text now e w \<noteq> Panic"
    by auto
  with w(1) show ?thesis by blast
qed

lemma tui_comes_to_rest_witness:
  "\<exists>w0 w. run_start sample_text 0 sample_config = Ret w0 \<and>
     (tui_step sample_text sample_json (\<lambda>f r. r = NoReply []) ^^ 4) w0 w \<and> w_tasks w = [] \<and> \<not> is_busy (w_app w)"
proof -
  obtain w0 where w0: "run_start sample_text 0 sample_config = Ret w0" "length (w_tasks w0) = 2" "w_queue w0 = []"
    "\<not> ap_should_quit (w_app w0)"
    using sample_start by blast
  from tui_comes_to_rest [OF w0(1) rtranclp.rtrancl_refl _ w0(4), where E = sample_json and server = "\<lambda>f r. r = NoReply []"] w0
  obtain w where "(tui_step sample_text sample_json (\<lambda>f r. r = NoReply []) ^^ 4) w0 w" "w_tasks w = []" "\<not> is_busy (w_app w)"
    by auto
  with w0(1) show ?thesis by blast
qed

definition sample_reply :: "int \<Rightarrow> http_reply" where
  "sample_reply n = HttpReply 200 (Some (sample_print (total_paginated_json []
     \<lparr>pi_limit = 20, pi_offset = 0, pi_count = 0, pm_total = n\<rparr>)))"

lemma sample_reply_read:
  "fits 64 n \<Longrightarrow> list_failed_tx_reply sample_json (sample_reply n) = Inr
     \<lparr>dp_data = [], dp_pagination = \<lparr>dm_limit = 20, dm_offset = 0, dm_count = 0, dm_total = n\<rparr>\<rparr>"
  by (simp add: list_failed_tx_reply_def get_json_def sample_reply_def read_page_def total_paginated_json_def
      pagination_meta_json_def read_meta_def fits_def)

lemma late_reply_shown_witness:
  "\<exists>(w :: world) p. fl_category (ap_filter (w_app w)) = Some ''INSUFFICIENT_BALANCE'' \<and> ap_failed (w_app w) = Loaded p \<and>
     dm_total (dp_pagination p) = 7"
proof -
  have "fits 64 7" "fits 64 3" by (simp_all add: fits_def)
  from late_reply_shown [OF this [THEN sample_reply_read], of sample_text 0 sample_config] obtain w :: world where
    "fl_category (ap_filter (w_app w)) = Some ''INSUFFICIENT_BALANCE''" "ap_failed (w_app w) = Loaded
       \<lparr>dp_data = [], dp_pagination = \<lparr>dm_limit = 20, dm_offset = 0, dm_count = 0, dm_total = 7\<rparr>\<rparr>"
    by blast
  then show ?thesis
    by auto
qed

end
