(* ===== verification/Api_Laws.thy ===== *)
theory Api_Laws
  imports Api Block_Laws
begin

text \<open>
  What the REST server guarantees: who may change the database and who learns the signing secrets,
  that a subscription the API accepts can be stored and delivered to, and what the diagnosis of a
  failed transaction shows of the trace the indexer stored.
\<close>

section \<open>Authentication\<close>

definition protected_routes :: "route_name set" where
  "protected_routes = {CreateSub, DeactivateSub, RotateSub, CreateLabel, DeleteLabel}"

lemma string_to_bytes_inject: "string_to_bytes a = string_to_bytes b \<longleftrightarrow> a = b"
  using bytes_to_string_inverse by metis

lemma admin_auth_Inr_iff:
  assumes "\<forall>a b. ax_ct_eq X a b = (a = b)"
  shows "admin_auth X key header = Inr () \<longleftrightarrow>
    (\<exists>h. header = Some h \<and> ax_to_str X h = Some (''Bearer '' @ key))"
  using assms by (auto simp: admin_auth_def strip_prefix_Some_iff string_to_bytes_inject split: option.splits)

lemma admin_auth_Inl: "admin_auth X key header \<noteq> Inr () \<Longrightarrow> admin_auth X key header = Inl ApiUnauthorized"
  by (auto simp: admin_auth_def split: option.splits if_splits)

lemma guarded_refused:
  "admin_auth X key header \<noteq> Inr () \<Longrightarrow> guarded X key header f = Inl (Refused ApiUnauthorized)"
  by (drule admin_auth_Inl) (simp add: guarded_def)

lemma guarded_accepted: "admin_auth X key header = Inr () \<Longrightarrow> guarded X key header f = f ()"
  by (simp add: guarded_def)

lemma guarded_Inr: "guarded X key header f = Inr r \<Longrightarrow> admin_auth X key header = Inr () \<and> f () = Inr r"
  using guarded_refused guarded_accepted by (metis sum.distinct(1))

section \<open>Other secrets\<close>

text \<open>The same database with other signing secrets.\<close>

definition map_secrets :: "(string \<Rightarrow> string) \<Rightarrow> service_db \<Rightarrow> service_db" where
  "map_secrets f d = d\<lparr>db_subs := map (\<lambda>s. s\<lparr>sub_signing_secret := f (sub_signing_secret s)\<rparr>) (db_subs d)\<rparr>"

lemma map_secrets_fields [simp]:
  "db_blocks (map_secrets f d) = db_blocks d" "db_txs (map_secrets f d) = db_txs d"
  "db_tokens (map_secrets f d) = db_tokens d" "db_pools (map_secrets f d) = db_pools d"
  "db_swaps (map_secrets f d) = db_swaps d" "db_failed (map_secrets f d) = db_failed d"
  "db_traces (map_secrets f d) = db_traces d" "db_labels (map_secrets f d) = db_labels d"
  "db_signatures (map_secrets f d) = db_signatures d" "db_diagnoses (map_secrets f d) = db_diagnoses d"
  "db_liqs (map_secrets f d) = db_liqs d" "db_profiles (map_secrets f d) = db_profiles d"
  by (simp_all add: map_secrets_def)

lemma label_rows_no_secrets [simp]:
  "failures_to s u (map_secrets f d) = failures_to s u d"
  "label_rows ow s u (map_secrets f d) = label_rows ow s u d"
proof -
  show 1: "failures_to s u (map_secrets f d) = failures_to s u d"
    by (rule ext) (simp add: failures_to_def cong: if_cong)
  show "label_rows ow s u (map_secrets f d) = label_rows ow s u d"
    by (simp add: label_rows_def 1 cong: if_cong)
qed

lemma queries_no_secrets [simp]:
  "list_pools r l n (map_secrets f d) = list_pools r l n d"
  "get_pool_by_address a (map_secrets f d) = get_pool_by_address a d"
  "list_tokens c r l n (map_secrets f d) = list_tokens c r l n d"
  "get_token_by_address a (map_secrets f d) = get_token_by_address a d"
  "list_swap_events r p l n (map_secrets f d) = list_swap_events r p l n d"
  "get_block_by_number m (map_secrets f d) = get_block_by_number m d"
  "get_latest_block_number (map_secrets f d) = get_latest_block_number d"
  "get_failed_transaction h (map_secrets f d) = get_failed_transaction h d"
  "list_trace_logs_by_tx h l (map_secrets f d) = list_trace_logs_by_tx h l d"
  "get_first_error_frame h (map_secrets f d) = get_first_error_frame h d"
  "list_failed_transactions r cat s u l n (map_secrets f d) = list_failed_transactions r cat s u l n d"
  "count_failed_transactions cat s u (map_secrets f d) = count_failed_transactions cat s u d"
  "failed_tx_timeseries b s u (map_secrets f d) = failed_tx_timeseries b s u d"
  "failed_tx_by_label_aggregate it ow s u l (map_secrets f d) = failed_tx_by_label_aggregate it ow s u l d"
  "get_category_diagnosis w (map_secrets f d) = get_category_diagnosis w d"
  "get_function_signature sel (map_secrets f d) = get_function_signature sel d"
  by (simp_all add: list_pools_def get_pool_by_address_def list_tokens_def get_token_by_address_def
      list_swap_events_def get_block_by_number_def get_latest_block_number_def get_failed_transaction_def
      list_trace_logs_by_tx_def traces_of_def get_first_error_frame_def list_failed_transactions_def
      failed_where_def count_failed_transactions_def failed_tx_timeseries_def
      failed_tx_by_label_aggregate_def get_category_diagnosis_def
      get_function_signature_def)

lemma list_subscriptions_no_secrets [simp]:
  "list_subscriptions_handler q (map_secrets f d) = list_subscriptions_handler q d"
proof -
  let ?g = "\<lambda>s. s\<lparr>sub_signing_secret := f (sub_signing_secret s)\<rparr>"
  have "sort_key (\<lambda>s. - sub_id s) (map ?g (db_subs d)) = map ?g (sort_key (\<lambda>s. - sub_id s) (db_subs d))"
  proof (rule properties_for_sort_key)
    show "mset (map ?g (sort_key (\<lambda>s. - sub_id s) (db_subs d))) = mset (map ?g (db_subs d))" by simp
    show "sorted (map (\<lambda>s. - sub_id s) (map ?g (sort_key (\<lambda>s. - sub_id s) (db_subs d))))"
      by (simp add: comp_def)
    show "filter (\<lambda>x. - sub_id k = - sub_id x) (map ?g (sort_key (\<lambda>s. - sub_id s) (db_subs d))) =
        filter (\<lambda>x. - sub_id k = - sub_id x) (map ?g (db_subs d))" for k
      using sort_key_stable [of "\<lambda>s. - sub_id s" "- sub_id k" "db_subs d"]
      by (simp add: filter_map comp_def eq_commute)
  qed
  moreover have "serialized (?g s) = serialized s" for s
    by (simp add: serialized_def)
  ultimately show ?thesis
    by (cases q) (simp_all add: list_subscriptions_handler_def list_alert_subscriptions_def map_secrets_def
        page_def drop_map take_map comp_def)
qed

lemma failed_tx_no_secrets [simp]:
  "get_failed_tx X p (map_secrets f d) = get_failed_tx X p d"
  "list_failed_tx X r q (map_secrets f d) = list_failed_tx X r q d"
  "timeseries_handler X tq (map_secrets f d) = timeseries_handler X tq d"
  "by_label_handler X bq (map_secrets f d) = by_label_handler X bq d"
  by (simp_all only: get_failed_tx_def decode_failing_function_def decode_root_cause_def list_failed_tx_def
      timeseries_handler_def by_label_handler_def Let_def queries_no_secrets)

lemma chain_no_secrets [simp]:
  "get_latest_block_handler (map_secrets f d) = get_latest_block_handler d"
  "get_block_handler n (map_secrets f d) = get_block_handler n d"
  "list_pools_handler r pq (map_secrets f d) = list_pools_handler r pq d"
  "get_pool_handler a (map_secrets f d) = get_pool_handler a d"
  "list_tokens_handler c r pq (map_secrets f d) = list_tokens_handler c r pq d"
  "get_token_handler a (map_secrets f d) = get_token_handler a d"
  "list_swaps_handler r sq (map_secrets f d) = list_swaps_handler r sq d"
  by (simp_all only: get_latest_block_handler_def get_block_handler_def list_pools_handler_def
      get_pool_handler_def list_tokens_handler_def get_token_handler_def list_swaps_handler_def
      queries_no_secrets)

lemma reports_no_secrets [simp]:
  "daily_volume r q (map_secrets f d) = daily_volume r q d"
  "failed_tx_analysis_handler r dv (map_secrets f d) = failed_tx_analysis_handler r dv d"
  "top_traders_handler r t (map_secrets f d) = top_traders_handler r t d"
  "pool_stats_handler dv p dates (map_secrets f d) = pool_stats_handler dv p dates d"
  by (simp_all add: daily_volume_def get_daily_swap_volume_def vw_daily_swap_volume_def pooled_swaps_def
      failed_tx_analysis_handler_def get_failed_tx_analysis_def vw_failed_tx_analysis_def
      top_traders_handler_def get_top_traders_def vw_top_traders_def pool_stats_handler_def
      get_pool_stats_def fn_get_pool_stats_def pool_swaps_def cong: if_cong)

lemmas write_handler_defs = create_alert_subscription_def deactivate_handler_def rotate_handler_def
  create_contract_label_def delete_label_handler_def

lemma protected_refused:
  assumes "admin_auth X key header \<noteq> Inr ()" "name \<in> protected_routes"
  shows "run_handler X key now rng header inp param name d = Inl (Refused ApiUnauthorized)"
  using assms(2) unfolding protected_routes_def
  by (elim insertE emptyE; simp only: run_handler_def route_name.case write_handler_defs writing_def
      guarded_refused [OF assms(1)] map_sum.simps)

lemma readingI:
  "(\<And>f. g f = reading (map_secrets f d) p r) \<Longrightarrow>
   (\<exists>x. \<forall>f. g f = Inl x) \<or> (\<exists>resp. \<forall>f. g f = Inr (resp, map_secrets f d))"
  by (cases r) (auto simp: reading_def)

lemma reading_frame:
  assumes "name \<notin> protected_routes"
  shows "(\<exists>r. \<forall>f. run_handler X key now rng header inp param name (map_secrets f d) = Inl r) \<or>
         (\<exists>resp. \<forall>f. run_handler X key now rng header inp param name (map_secrets f d) =
            Inr (resp, map_secrets f d))"
  using assms
  by (cases name, simp_all only: protected_routes_def insert_iff empty_iff simp_thms)
    ((rule readingI, simp only: run_handler_def route_name.case list_subscriptions_no_secrets
        failed_tx_no_secrets chain_no_secrets reports_no_secrets)+)

lemma get_not_protected:
  "build_router segs = Some (methods, param) \<Longrightarrow> map_of methods GET = Some name \<Longrightarrow> name \<notin> protected_routes"
  by (auto simp: build_router_def v1_router_def protected_routes_def split: list.splits if_splits)

lemma serve_reading:
  assumes "build_router segs = Some (methods, param)" "map_of methods meth = Some name" "name \<notin> protected_routes"
  shows "\<exists>resp. \<forall>f. serve X key now rng meth segs header inp (map_secrets f d) = (resp, map_secrets f d)"
proof -
  let ?run = "run_handler X key now rng header inp (or_default param []) name"
  from reading_frame [OF assms(3), of X key now rng header inp "or_default param []" d]
  consider r where "\<forall>f. ?run (map_secrets f d) = Inl r"
    | resp where "\<forall>f. ?run (map_secrets f d) = Inr (resp, map_secrets f d)"
    by blast
  then show ?thesis
  proof cases
    case (1 r)
    with assms show ?thesis
      by (intro exI [of _ "answer_refusal r"]) (simp add: serve_def)
  next
    case (2 resp)
    with assms show ?thesis
      by (intro exI [of _ resp]) (simp add: serve_def)
  qed
qed

lemma serve_refused:
  assumes "build_router segs = Some (methods, param)" "map_of methods meth = Some name" "name \<in> protected_routes"
    and "admin_auth X key header \<noteq> Inr ()"
  shows "serve X key now rng meth segs header inp d = ((401, PError ''unauthorized''), d)"
  using assms protected_refused [OF assms(4,3)] by (simp add: serve_def answer_refusal_def)

lemma map_secrets_id [simp]: "map_secrets (\<lambda>x. x) d = d"
  by (simp add: map_secrets_def)

text \<open>C16. Who may write and who may see secrets. The authentication accepts exactly the header
  \<open>Bearer\<close> followed by the configured key. Every GET request, and every request of any kind without
  that header, leaves the database unchanged and gets a response that does not depend on the signing
  secrets stored in it; and a request without that header to one of the five protected routes is
  answered 401, before its body or path is looked at.\<close>

theorem api_confinement:
  assumes "\<forall>a b. ax_ct_eq X a b = (a = b)"
    and "meth = GET \<or> (\<forall>h. header = Some h \<longrightarrow> ax_to_str X h \<noteq> Some (''Bearer '' @ key))"
  shows "(admin_auth X key header = Inr () \<longleftrightarrow> (\<exists>h. header = Some h \<and> ax_to_str X h = Some (''Bearer '' @ key))) \<and>
    (\<exists>resp. serve X key now rng meth segs header inp d = (resp, d) \<and>
      (\<forall>f. serve X key now rng meth segs header inp (map_secrets f d) = (resp, map_secrets f d)) \<and>
      (\<forall>methods param name. build_router segs = Some (methods, param) \<and> map_of methods meth = Some name \<and>
         name \<in> protected_routes \<longrightarrow> resp = (401, PError ''unauthorized'')))"
proof -
  note auth = admin_auth_Inr_iff [OF assms(1), of key header]
  have "\<exists>resp. \<forall>f. serve X key now rng meth segs header inp (map_secrets f d) = (resp, map_secrets f d) \<and>
      (\<forall>methods param name. build_router segs = Some (methods, param) \<and> map_of methods meth = Some name \<and>
         name \<in> protected_routes \<longrightarrow> resp = (401, PError ''unauthorized''))"
  proof (cases "\<exists>methods param name. build_router segs = Some (methods, param) \<and> map_of methods meth = Some name")
    case True
    then obtain methods param name where r: "build_router segs = Some (methods, param)" "map_of methods meth = Some name"
      by blast
    show ?thesis
    proof (cases "name \<in> protected_routes")
      case True
      with r get_not_protected have "meth \<noteq> GET" by blast
      with assms(2) auth have "admin_auth X key header \<noteq> Inr ()" by blast
      from serve_refused [OF r True this] show ?thesis by blast
    next
      case False
      with serve_reading [OF r this, of X key now rng header inp d] r show ?thesis by auto
    qed
  next
    case False
    then have "serve X key now rng meth segs header inp (map_secrets f d) =
        (((if build_router segs = None then 404 else 405), PNone), map_secrets f d)" for f
      by (auto simp: serve_def split: option.splits prod.splits)
    with False show ?thesis by blast
  qed
  then show ?thesis
    using auth map_secrets_id by metis
qed

section \<open>Accepted subscriptions\<close>

lemma check_Inr [simp]: "check b msg = Inr u \<longleftrightarrow> b"
  by (simp add: check_def bad_request_def)

lemma required_Inr [simp]: "required msg v = Inr x \<longleftrightarrow> v = Some x"
  by (cases v) (auto simp: required_def bad_request_def)

lemma lift_db_Inr [simp]: "lift_db r = Inr x \<longleftrightarrow> r = Inr x"
  by (cases r) simp_all

lemma normal_to_addr_Inr: "normal_to_addr v = Inr (Some a) \<Longrightarrow> is_evm_address a \<and> to_ascii_lowercase a = a"
  by (auto simp: normal_to_addr_def bad_request_def Let_def to_ascii_lowercase_idem split: option.splits if_splits)

lemma hexdigit_text: "list_all is_ascii_hexdigit s \<Longrightarrow> text_ok s"
  by (induction s) (auto simp: text_ok_def is_ascii_hexdigit_def Let_def)

lemma evm_address_text: "is_evm_address a \<Longrightarrow> text_ok a"
  using hexdigit_text
  by (fastforce simp: is_evm_address_def strip_prefix_Some_iff text_ok_def char_code_def split: option.splits)

text \<open>The row of an accepted request.\<close>

definition accepted_row :: "timestamp \<Rightarrow> create_body \<Rightarrow> string \<Rightarrow> service_db \<Rightarrow> alert_subscription \<Rightarrow> bool" where
  "accepted_row now body secret d s \<longleftrightarrow>
     sub_id s = db_seq_sub d \<and> sub_webhook_url s = cb_webhook_url body \<and> sub_signing_secret s = secret \<and>
     sub_active s \<and> sub_created_at s = now \<and> rate_fields_chk s \<and>
     (\<forall>a. sub_to_addr s = Some a \<longrightarrow> is_evm_address a \<and> to_ascii_lowercase a = a)"

text \<open>A validation step succeeds or is a bad request; a chain of them satisfies what its last step does.\<close>

definition tested :: "refusal + 'a \<Rightarrow> bool" where
  "tested r \<longleftrightarrow> (\<exists>x. r = Inr x) \<or> (\<exists>m. r = Inl (Refused (ApiBadRequest m)))"

lemma tested_steps [simp]:
  "tested (check b msg)" "tested (required msg o1)" "tested (bad_request msg)" "tested (Inr x)"
  "tested (parse_category fld v)" "tested (normal_to_addr w)" "tested (parse_sub_type w)"
  by (auto simp: tested_def check_def required_def bad_request_def parse_category_def normal_to_addr_def
      parse_sub_type_def Let_def split: option.splits sum.splits)

definition ends_in :: "('a \<Rightarrow> bool) \<Rightarrow> ('a \<Rightarrow> db_error + 'b) \<Rightarrow> refusal + 'b \<Rightarrow> bool" where
  "ends_in ok last_step r \<longleftrightarrow> (\<exists>s. ok s \<and> r = lift_db (last_step s)) \<or> (\<exists>m. r = Inl (Refused (ApiBadRequest m)))"

lemma ends_in_bind:
  assumes "tested r" "\<And>x. r = Inr x \<Longrightarrow> ends_in ok last_step (f x)"
  shows "ends_in ok last_step (bind_res r f)"
  using assms by (cases r) (auto simp: tested_def ends_in_def)

lemma ends_in_last: "ok s \<Longrightarrow> r = lift_db (last_step s) \<Longrightarrow> ends_in ok last_step r"
  by (auto simp: ends_in_def)

lemma ends_in_map: "ends_in ok last_step r \<Longrightarrow>
    ends_in ok (\<lambda>s. map_sum (\<lambda>e. e) f (last_step s)) (bind_res r (\<lambda>x. Inr (f x)))"
  unfolding ends_in_def
proof (elim disjE exE conjE)
  fix s assume "ok s" "r = lift_db (last_step s)"
  then show "(\<exists>s. ok s \<and> bind_res r (\<lambda>x. Inr (f x)) = lift_db (map_sum (\<lambda>e. e) f (last_step s))) \<or>
      (\<exists>m. bind_res r (\<lambda>x. Inr (f x)) = Inl (Refused (ApiBadRequest m)))"
    by (intro disjI1 exI [of _ s]) (cases "last_step s"; simp)
qed simp

lemma tested_url [simp]: "tested (case r of Inl e \<Rightarrow> bad_request (g e) | Inr u \<Rightarrow> Inr ())"
  by (cases r) simp_all

lemma insert_shape:
  assumes "normal_to_addr w = Inr to_addr"
  shows "ends_in (accepted_row now body secret d) (\<lambda>s. add_subscription s d)
    (if typ = ''per_event'' then
       bind_res (check (cb_threshold_count body = None \<and> cb_threshold_window_secs body = None \<and>
           cb_debounce_secs body = None) m1) (\<lambda>_.
       lift_db (insert_alert_subscription now category to_addr (cb_webhook_url body) secret d))
     else
       bind_res (required m2 (cb_threshold_count body)) (\<lambda>count.
       bind_res (required m3 (cb_threshold_window_secs body)) (\<lambda>window.
       bind_res (required m4 (cb_debounce_secs body)) (\<lambda>debounce.
       bind_res (check (0 < count) (m5 count)) (\<lambda>_.
       bind_res (check (0 < window) (m6 window)) (\<lambda>_.
       bind_res (check (0 \<le> debounce) (m7 debounce)) (\<lambda>_.
       lift_db (insert_alert_subscription_rate now category to_addr (cb_webhook_url body)
         secret count window debounce d))))))))"
proof (cases "typ = ''per_event''")
  case True
  then show ?thesis
    by (simp only: if_True simp_thms, intro ends_in_bind tested_steps)
      (rule ends_in_last [rotated], simp add: insert_alert_subscription_def,
        use normal_to_addr_Inr [of w] assms in \<open>simp add: accepted_row_def rate_fields_chk_def\<close>)
next
  case False
  then show ?thesis
    by (simp only: if_False simp_thms, intro ends_in_bind tested_steps)
      (rule ends_in_last [rotated], simp add: insert_alert_subscription_rate_def,
        use normal_to_addr_Inr [of w] assms in \<open>simp add: accepted_row_def rate_fields_chk_def\<close>)
qed

lemma ends_in_mono:
  "ends_in ok last_step r \<Longrightarrow> (\<And>s. ok s \<Longrightarrow> ok' s) \<Longrightarrow> ends_in ok' last_step r"
  by (auto simp: ends_in_def)

lemma create_shape:
  assumes "admin_auth X key header = Inr ()"
  shows "ends_in (\<lambda>s. accepted_row now body (ax_hex_encode X buf) d s \<and>
       webhook_url_is_safe (ax_parse_url X) (cb_webhook_url body) = Inr () \<and>
       length (cb_webhook_url body) \<le> max_webhook_url_len)
     (\<lambda>s. map_sum (\<lambda>e. e) (\<lambda>(r, d'). (created_from r, d')) (add_subscription s d))
     (create_alert_subscription X key now (Some buf) header (Inr body) d)"
proof -
  have fst_last: "(\<lambda>(row, d'). Inr (created_from row, d')) = (\<lambda>x. Inr ((\<lambda>(r, d'). (created_from r, d')) x))"
    by (rule ext) (simp add: split_def)
  show ?thesis
    unfolding create_alert_subscription_def guarded_accepted [OF assms] extracted_simps bind_res_simps
      generate_signing_secret_def option.case fst_last
  proof ((rule ends_in_bind, rule tested_steps tested_url)+, rule ends_in_map, goal_cases)
    case (1 u v category to_addr knd)
    show ?case
      by (rule ends_in_mono [OF insert_shape [OF 1(4)]])
        (use 1(1,2) in \<open>auto simp: bad_request_def split: sum.splits\<close>)
  qed
qed

lemma add_subscription_cases:
  "add_subscription s d = Inr (s', d') \<longleftrightarrow> sub_row_ok s \<and> s' = s \<and>
     d' = d\<lparr>db_subs := db_subs d @ [s], db_seq_sub := db_seq_sub d + 1\<rparr>"
  "add_subscription s d = Inl e \<longleftrightarrow> \<not> sub_row_ok s \<and> e = Sqlx ''constraint violation''"
  by (auto simp: add_subscription_def)

text \<open>C31. A subscription that the API accepts can be delivered to. If the request succeeds, it was
  authenticated, the table has exactly one more row, an active one with a new id and a free ledger,
  whose address is in the normal form of the chain tables and whose rate fields pass the constraint
  of the table, and the alert tables stay consistent; the dispatcher's own check of the stored URL
  passes and it signs with the generated bytes. And a request that passes the validation is never
  refused by a constraint of the table (an internal error), as long as its URL has no NUL
  character.\<close>

theorem accepted_subscription_deliverable:
  assumes ok: "service_ok d" and hex: "\<forall>b. dx_hex_decode D (ax_hex_encode X b) = Some b"
    and url: "dx_parse_url D = ax_parse_url X"
    and chars: "text_ok (cb_webhook_url body)" "text_ok (ax_hex_encode X buf)"
  shows "case create_alert_subscription X key now (Some buf) header (Inr body) d of
      Inr (sc, d') \<Rightarrow> admin_auth X key header = Inr () \<and> service_ok d' \<and>
        (\<exists>s. db_subs d' = db_subs d @ [s] \<and> sc = created_from s \<and> sub_active s \<and>
           sub_id s \<notin> set (map sub_id (db_subs d)) \<and> (\<forall>h. ledger_view d' (sub_id s, h) = Free) \<and>
           (\<forall>a. sub_to_addr s = Some a \<longrightarrow> is_evm_address a \<and> to_ascii_lowercase a = a) \<and>
           rate_fields_chk s \<and>
           (\<forall>payload. request_plan D (sub_webhook_url s) (sub_signing_secret s) payload =
              Inr (signed_request (cb_webhook_url body) (sign_payload D buf payload) payload)))
    | Inl r \<Rightarrow> r = Refused ApiUnauthorized \<or> (\<exists>msg. r = Refused (ApiBadRequest msg))"
proof (cases "admin_auth X key header = Inr ()")
  case False
  show ?thesis
    unfolding create_alert_subscription_def guarded_refused [OF False] by simp
next
  case True
  from create_shape [OF this, of now body buf d] consider msg where
      "create_alert_subscription X key now (Some buf) header (Inr body) d = Inl (Refused (ApiBadRequest msg))"
    | s where "accepted_row now body (ax_hex_encode X buf) d s"
      "webhook_url_is_safe (ax_parse_url X) (cb_webhook_url body) = Inr ()"
      "create_alert_subscription X key now (Some buf) header (Inr body) d =
         lift_db (map_sum (\<lambda>e. e) (\<lambda>(r, d'). (created_from r, d')) (add_subscription s d))"
    unfolding ends_in_def by blast
  then show ?thesis
  proof cases
    case (2 s)
    then have row: "sub_row_ok s"
      using chars evm_address_text by (auto simp: accepted_row_def sub_row_ok_def opt_ok_def split: option.splits)
    let ?d' = "d\<lparr>db_subs := db_subs d @ [s], db_seq_sub := db_seq_sub d + 1\<rparr>"
    have add: "add_subscription s d = Inr (s, ?d')"
      using row by (simp add: add_subscription_cases)
    have new: "sub_id s \<notin> set (map sub_id (db_subs d))" "sub_id s = db_seq_sub d"
      using 2(1) ok by (force simp: accepted_row_def service_ok_def)+
    have free: "ledger_view ?d' (sub_id s, h) = Free" for h
    proof -
      have "db_deliveries d (sub_id s, h) = Some r \<Longrightarrow> sub_known d (sub_id s)" for r
        using ok unfolding service_ok_def by blast
      with new(1) have "db_deliveries d (sub_id s, h) = None"
        by (cases "db_deliveries d (sub_id s, h)") (auto simp: sub_known_def)
      then show ?thesis by (simp add: ledger_view_def)
    qed
    have plan: "request_plan D (sub_webhook_url s) (sub_signing_secret s) payload =
        Inr (signed_request (cb_webhook_url body) (sign_payload D buf payload) payload)" for payload
      using 2(1,2) hex url by (simp add: accepted_row_def request_plan_def)
    show ?thesis
      using 2(1) add True new free plan add_subscription_ok [OF add new(2) ok]
      unfolding 2(3) add by (simp add: accepted_row_def)
  qed simp
qed

section \<open>The diagnosis of a stored failure\<close>

definition without_id :: "trace_log \<Rightarrow> trace_log" where
  "without_id t = t\<lparr>tl_trace_id := 0\<rparr>"

lemma without_id_fields [simp]:
  "tl_error (without_id t) = tl_error t" "tl_call_depth (without_id t) = tl_call_depth t"
  "tl_input (without_id t) = tl_input t" "tl_tx_hash (without_id t) = tl_tx_hash t"
  by (simp_all add: without_id_def)

abbreviation numbered :: "int \<Rightarrow> trace_log list \<Rightarrow> trace_log list" where
  "numbered \<equiv> number_rows (\<lambda>i t. t\<lparr>tl_trace_id := i\<rparr>)"

lemma numbered_sorted: "sorted (map tl_trace_id (numbered i rs)) \<and> (\<forall>t\<in>set (numbered i rs). i \<le> tl_trace_id t)"
  by (induction rs arbitrary: i) fastforce+

lemma numbered_without_id: "\<forall>t\<in>set rs. tl_trace_id t = 0 \<Longrightarrow> map without_id (numbered i rs) = rs"
  by (induction rs arbitrary: i) (simp_all add: without_id_def)

text \<open>What the two readers return after the traces of a transaction were inserted.\<close>

lemma find_filter: "find P xs = (case filter P xs of [] \<Rightarrow> None | x # _ \<Rightarrow> Some x)"
  by (induction xs) simp_all

lemma find_map_without: "map_option without_id (find (\<lambda>t. tl_error t \<noteq> None) ts) =
    find (\<lambda>t. tl_error t \<noteq> None) (map without_id ts)"
  by (induction ts) simp_all

lemma filter_numbered:
  assumes "\<And>t. P (without_id t) = P t" "\<forall>t\<in>set rs. tl_trace_id t = 0"
  shows "map without_id (filter P (numbered i rs)) = filter P rs"
proof -
  have "map without_id (filter P (numbered i rs)) = filter P (map without_id (numbered i rs))"
    using assms(1) by (simp add: filter_map comp_def)
  then show ?thesis
    using assms(2) by (simp add: numbered_without_id)
qed

lemma traces_read_back:
  assumes "insert_trace_logs rows d = Inr (n, d')" "\<forall>t\<in>set rows. tl_trace_id t = 0"
    and "\<forall>t\<in>set (db_traces d). tl_tx_hash t \<noteq> h"
  shows "map without_id (traces_of h d') = filter (\<lambda>t. tl_tx_hash t = h) rows"
    and "text_ok h \<Longrightarrow> get_first_error_frame h d' = Inr (find (\<lambda>t. tl_error t \<noteq> None) (traces_of h d'))"
proof -
  have db: "db_traces d' = db_traces d @ numbered (db_seq_trace d) rows"
    using assms(1) by (auto simp: insert_trace_logs_def split: if_splits)
  have old: "filter (\<lambda>t. tl_tx_hash t = h \<and> P t) (db_traces d) = []" for P
    using assms(3) by (simp add: filter_empty_conv)
  have sorted: "sorted (map tl_trace_id (filter P (numbered (db_seq_trace d) rows)))" for P
    using numbered_sorted sorted_filter by blast
  have tr: "traces_of h d' = filter (\<lambda>t. tl_tx_hash t = h) (numbered (db_seq_trace d) rows)"
    using old [of "\<lambda>_. True"] by (simp add: traces_of_def db sort_key_id_if_sorted sorted)
  then show "map without_id (traces_of h d') = filter (\<lambda>t. tl_tx_hash t = h) rows"
    using assms(2) by (simp add: filter_numbered)
  have "filter (\<lambda>t. tl_tx_hash t = h \<and> tl_error t \<noteq> None) (db_traces d') =
      filter (\<lambda>t. tl_error t \<noteq> None) (traces_of h d')"
    unfolding db filter_append old append_Nil tr filter_filter by (rule refl)
  moreover have "sorted (map tl_trace_id (filter (\<lambda>t. tl_error t \<noteq> None) (traces_of h d')))"
    unfolding tr filter_filter by (rule sorted)
  ultimately show "text_ok h \<Longrightarrow> get_first_error_frame h d' = Inr (find (\<lambda>t. tl_error t \<noteq> None) (traces_of h d'))"
    by (simp only: get_first_error_frame_def text_param_def find_filter if_True sort_key_id_if_sorted)
qed

lemma process_failed_tx_rows:
  assumes "process_failed_tx X rv ts h = Ret (tr, fa)"
  shows "(\<forall>t\<in>set tr. tl_tx_hash t = h \<and> tl_trace_id t = 0) \<and> (\<forall>g\<in>set fa. ft_tx_hash g = h) \<and>
    (fa \<noteq> [] \<longrightarrow> tr \<noteq> [] \<and> tl_call_depth (hd tr) = 0)"
proof -
  have "\<exists>f fs. frames = f # fs \<and> ff_depth f = 0" if "parse_trace lc h j = Inr fl" "frames = fl_frames fl" for lc j fl frames
  proof -
    from that obtain g where "frames = pre_frame g 0"
      by (auto simp: parse_trace_def flatten_pre bind_res_Inr_iff)
    then show ?thesis by (cases g) (simp add: flat_of_def)
  qed
  with assms show ?thesis
    by (fastforce simp: process_failed_tx_def Let_def trace_row_def
        split: option.splits sum.splits geth_trace.splits outcome.splits list.splits prod.splits)
qed

lemma process_failed_txs_filter:
  assumes "process_failed_txs X rv ts hs = Ret (traces, failed)" "distinct hs" "h \<in> set hs"
    and "process_failed_tx X rv ts h = Ret (tr, fa)"
  shows "filter (\<lambda>t. tl_tx_hash t = h) traces = tr \<and> filter (\<lambda>g. ft_tx_hash g = h) failed = fa"
  using assms(1-3)
proof (induction hs arbitrary: traces failed)
  case (Cons k hs)
  then obtain t1 f1 t2 f2 where 1: "process_failed_tx X rv ts k = Ret (t1, f1)"
      and 2: "process_failed_txs X rv ts hs = Ret (t2, f2)" and app: "traces = t1 @ t2" "failed = f1 @ f2"
    by (auto split: outcome.splits)
  note own = process_failed_tx_rows [OF 1] and rest = process_failed_txs_hashes [OF 2]
  show ?case
  proof (cases "h = k")
    case True
    with Cons.prems have "h \<notin> set hs" by simp
    with rest have "filter (\<lambda>t. tl_tx_hash t = h) t2 = []" "filter (\<lambda>g. ft_tx_hash g = h) f2 = []"
      by (auto simp: filter_empty_conv)
    moreover have "filter (\<lambda>t. tl_tx_hash t = h) t1 = t1" "filter (\<lambda>g. ft_tx_hash g = h) f1 = f1"
      using own True by (simp_all add: filter_id_conv)
    moreover have "t1 = tr" "f1 = fa"
      using 1 True assms(4) by simp_all
    ultimately show ?thesis by (simp add: app)
  next
    case False
    with own have "filter (\<lambda>t. tl_tx_hash t = h) t1 = []" "filter (\<lambda>g. ft_tx_hash g = h) f1 = []"
      by (auto simp: filter_empty_conv)
    with Cons.IH [OF 2] Cons.prems False show ?thesis by (simp add: app)
  qed
qed simp

lemma process_failed_txs_ids:
  "process_failed_txs X rv ts hs = Ret (traces, failed) \<Longrightarrow> \<forall>t\<in>set traces. tl_trace_id t = 0"
proof (induction hs arbitrary: traces failed)
  case (Cons k hs)
  then obtain t1 f1 t2 f2 where "process_failed_tx X rv ts k = Ret (t1, f1)"
      "process_failed_txs X rv ts hs = Ret (t2, f2)" "traces = t1 @ t2"
    by (auto split: outcome.splits)
  with process_failed_tx_rows [OF this(1)] Cons.IH [OF this(2)] show ?case by auto
qed simp

lemma find_fresh_rows:
  "h \<notin> set ks \<Longrightarrow> find (\<lambda>r. key r = h) (fresh_rows key ks rs) = find (\<lambda>r. key r = h) rs"
  by (induction key ks rs rule: fresh_rows.induct) auto

lemma failed_read_back:
  assumes "insert_failed_transactions failed d = Inr (k, d')" "filter (\<lambda>g. ft_tx_hash g = h) failed = [f]"
    and "\<forall>g\<in>set (db_failed d). ft_tx_hash g \<noteq> h"
  shows "find (\<lambda>g. ft_tx_hash g = h) (db_failed d') = Some f \<and> failed_row_ok f \<and> db_traces d' = db_traces d"
proof -
  have f: "f \<in> set failed" "find (\<lambda>g. ft_tx_hash g = h) failed = Some f"
    using assms(2) by (auto simp: find_filter dest!: filter_eq_ConsD)
  then have "failed \<noteq> []" by auto
  with assms(1) have ok: "list_all failed_row_ok failed" and d':
      "d' = d\<lparr>db_failed := db_failed d @ fresh_rows ft_tx_hash (map ft_tx_hash (db_failed d)) failed\<rparr>"
    by (auto simp: insert_failed_transactions_def bind_res_Inr_iff insert_do_nothing_Inr)
  have new: "h \<notin> set (map ft_tx_hash (db_failed d))"
    using assms(3) by auto
  have "find (\<lambda>g. ft_tx_hash g = h) (xs @ ys) = find (\<lambda>g. ft_tx_hash g = h) ys"
    if "h \<notin> set (map ft_tx_hash xs)" for xs ys
    using that by (induction xs) auto
  note skip = this [OF new] find_fresh_rows [OF new, where key = ft_tx_hash and rs = failed]
  show ?thesis
    using f ok by (simp add: d' skip list_all_iff)
qed

lemma text_ok_take: "text_ok s \<Longrightarrow> text_ok (take n s)"
  unfolding text_ok_def by (metis append_take_drop_id list_all_append)

lemma text_ok_strip_0x: "text_ok s \<Longrightarrow> text_ok (strip_0x s)"
  by (auto simp: strip_0x_def text_ok_def strip_prefix_Some_iff split: option.splits)

lemma selector_of_ascii:
  assumes "list_all (\<lambda>c. char_code c < 128) i"
  shows "\<exists>s. extract_selector X i = Ret s"
proof -
  have "list_all (\<lambda>c. char_code c < 128) (strip_0x i)"
    using assms by (auto simp: strip_0x_def strip_prefix_Some_iff split: option.splits)
  then have "is_char_boundary (strip_0x i) 8" if "8 \<le> length (strip_0x i)"
    using that by (auto simp: is_char_boundary_def list_all_length dest: spec [of _ 8])
  then show ?thesis
    by (auto simp: extract_selector_def Let_def)
qed

lemma decode_root_cause_returns:
  assumes "\<And>i. Option.bind rc tl_input = Some i \<Longrightarrow> text_ok i \<and> list_all (\<lambda>c. char_code c < 128) i"
    and "\<forall>s. text_ok s \<longrightarrow> text_ok (ax_lowercase Y s)"
  shows "\<exists>x. decode_root_cause Y d rc = Inr x"
proof (cases "Option.bind rc tl_input")
  case None
  then show ?thesis by (simp add: decode_root_cause_def)
next
  case (Some i)
  with assms(1) have i: "text_ok i" "list_all (\<lambda>c. char_code c < 128) i" by blast+
  from selector_of_ascii [OF i(2), of Y] obtain s where s: "extract_selector Y i = Ret s" by blast
  have "text_ok (''0x'' @ ax_lowercase Y (take 8 (strip_0x i)))"
    using assms(2) text_ok_take [OF text_ok_strip_0x [OF i(1)]] by (simp add: text_ok_def char_code_def)
  then have "text_ok sel" if "s = Some sel" for sel
    using s that by (auto simp: extract_selector_def Let_def split: if_splits)
  with s show ?thesis
    by (cases s) (simp_all add: decode_root_cause_def Some get_function_signature_def text_param_def)
qed

lemma decode_failing_function_returns:
  "opt_ok (varchar_ok 100) (ft_failing_function f) \<Longrightarrow> \<exists>x. decode_failing_function Y d f ct = Inr x"
  by (cases "ft_failing_function f")
    (simp_all add: decode_failing_function_def get_function_signature_def text_param_def opt_ok_def varchar_ok_def)

lemma is_tx_hash_text: "is_tx_hash h \<Longrightarrow> text_ok h"
  using hexdigit_text
  by (fastforce simp: is_tx_hash_def strip_prefix_Some_iff text_ok_def char_code_def split: option.splits)

lemma detail_cut:
  "(if 2000 < length L then take (nat max_call_tree_frames) (take 2001 L) else take 2001 L) = take 2000 L"
  "max_call_tree_frames < int (length (take 2001 L)) \<longleftrightarrow> 2000 < length L"
  by (auto simp: max_call_tree_frames_def min_def)

lemma get_failed_tx_found:
  assumes wf: "is_tx_hash h" and found: "find (\<lambda>g. ft_tx_hash g = h) (db_failed d) = Some f" "failed_row_ok f"
    and err: "get_first_error_frame h d = Inr rc"
    and root: "\<And>i. Option.bind rc tl_input = Some i \<Longrightarrow> text_ok i \<and> list_all (\<lambda>c. char_code c < 128) i"
    and lower: "\<forall>s. text_ok s \<longrightarrow> text_ok (ax_lowercase Y s)"
  shows "\<exists>x y. get_failed_tx Y (Inr h) d = Inr \<lparr>fd_failed = f, fd_call_tree = take 2000 (traces_of h d),
      fd_call_tree_truncated = (2000 < length (traces_of h d)), fd_root_cause = rc,
      fd_failing_function_decoded = y, fd_root_cause_decoded = x,
      fd_diagnosis = map_option diagnosis_from (get_category_diagnosis (as_wire (ft_error_category f)) d)\<rparr>"
proof -
  note chars = is_tx_hash_text [OF wf]
  from decode_root_cause_returns [OF root lower] obtain x where x: "decode_root_cause Y d rc = Inr x"
    by blast
  have "opt_ok (varchar_ok 100) (ft_failing_function f)"
    using found(2) by (simp add: failed_row_ok_def)
  from decode_failing_function_returns [OF this] obtain y where
    y: "decode_failing_function Y d f (take 2000 (traces_of h d)) = Inr y" by blast
  have logs: "list_trace_logs_by_tx h (max_call_tree_frames + 1) d = Inr (take 2001 (traces_of h d))"
    using chars by (simp add: list_trace_logs_by_tx_def text_param_def page_def max_call_tree_frames_def)
  have fetched: "get_failed_transaction h d = Inr f"
    using chars found(1) by (simp add: get_failed_transaction_def text_param_def fetch_one_def)
  show ?thesis
    using wf by (intro exI) (simp only: get_failed_tx_def extracted_simps bind_res_simps check_def if_True fetched
        lift_db_simps logs Let_def detail_cut err y x)
qed

lemma get_failed_tx_missing:
  assumes "is_tx_hash h" "h \<notin> ft_tx_hash ` set (db_failed d)"
  shows "get_failed_tx Y (Inr h) d = not_found (''failed transaction '' @ h)"
proof -
  have "find (\<lambda>g. ft_tx_hash g = h) (db_failed d) = None"
    using assms(2) by (auto simp: find_None_iff)
  then show ?thesis
    using assms(1) is_tx_hash_text [OF assms(1)]
    by (simp add: get_failed_tx_def check_def get_failed_transaction_def text_param_def fetch_one_def not_found_def)
qed

text \<open>Where the first failing frame of the read rows comes from.\<close>

lemma first_error_of_rows:
  assumes rc: "map_option without_id rc = find (\<lambda>t. tl_error t \<noteq> None) tr" and "list_all trace_row_ok tr"
    and inputs: "\<forall>t\<in>set tr. \<forall>i. tl_input t = Some i \<longrightarrow> list_all (\<lambda>c. char_code c < 128) i"
    and i: "Option.bind rc tl_input = Some i"
  shows "text_ok i \<and> list_all (\<lambda>c. char_code c < 128) i"
proof -
  from i obtain c where c: "rc = Some c" and t: "tl_input (without_id c) = Some i"
    by (cases rc) auto
  then have "find (\<lambda>t. tl_error t \<noteq> None) tr = Some (without_id c)"
    using rc by simp
  then have "without_id c \<in> set tr"
    by (metis (no_types, lifting) find_Some_iff nth_mem)
  with t assms(2) inputs show ?thesis
    by (fastforce simp: list_all_iff trace_row_ok_def opt_ok_def)
qed

text \<open>C17. What the API says about a failed transaction is what the indexer saw. Let the traces and
  failures of a block's failed transactions be stored as the block task stores them, and let nothing
  be known of the transaction before. Then the diagnosis of its hash succeeds and shows the stored
  failure, the first 2000 frames of its call tree in pre-order (marked as truncated exactly when
  there are more), the diagnosis of its category, and as \<open>root_cause\<close> the first frame in pre-order
  that has an error. So whenever the root call itself carries an error, as that of a reverted
  transaction does, the root cause is the root of the tree and never the inner call that reverted.
  A well-formed hash that is not stored, such as the same hash in upper case, is not found.\<close>

theorem stored_failure_diagnosed:
  assumes batch: "process_failed_txs X rv ts hs = Ret (traces, failed)" "distinct hs" "h \<in> set hs"
    and one: "process_failed_tx X rv ts h = Ret (tr, [f])"
    and new: "\<forall>t\<in>set (db_traces d). tl_tx_hash t \<noteq> h" "\<forall>g\<in>set (db_failed d). ft_tx_hash g \<noteq> h"
    and stored: "insert_trace_logs traces d = Inr (n, d1)" "insert_failed_transactions failed d1 = Inr (k, d2)"
    and wf: "is_tx_hash h"
    and inputs: "\<forall>t\<in>set tr. \<forall>i. tl_input t = Some i \<longrightarrow> list_all (\<lambda>c. char_code c < 128) i"
    and lower: "\<forall>s. text_ok s \<longrightarrow> text_ok (ax_lowercase Y s)"
  shows "(\<exists>r. get_failed_tx Y (Inr h) d2 = Inr r \<and> fd_failed r = f \<and>
      map without_id (fd_call_tree r) = take 2000 tr \<and> (fd_call_tree_truncated r \<longleftrightarrow> 2000 < length tr) \<and>
      fd_diagnosis r = map_option diagnosis_from (get_category_diagnosis (as_wire (ft_error_category f)) d2) \<and>
      map_option without_id (fd_root_cause r) = find (\<lambda>t. tl_error t \<noteq> None) tr \<and>
      (tl_error (hd tr) \<noteq> None \<longrightarrow> (\<exists>c. fd_root_cause r = Some c \<and> tl_call_depth c = 0 \<and> without_id c = hd tr))) \<and>
    (\<forall>h'. is_tx_hash h' \<and> h' \<notin> ft_tx_hash ` set (db_failed d2) \<longrightarrow>
      get_failed_tx Y (Inr h') d2 = not_found (''failed transaction '' @ h'))"
proof -
  note rows = process_failed_tx_rows [OF one]
  note own = process_failed_txs_filter [OF batch(1,2,3) one]
  note readers = traces_read_back [OF stored(1) process_failed_txs_ids [OF batch(1)] new(1)]
  have "db_failed d1 = db_failed d"
    using stored(1) by (auto simp: insert_trace_logs_def split: if_splits)
  with failed_read_back [OF stored(2), of h f] own new(2)
  have failed: "find (\<lambda>g. ft_tx_hash g = h) (db_failed d2) = Some f" "failed_row_ok f" "db_traces d2 = db_traces d1"
    by simp_all
  have same: "traces_of h d2 = traces_of h d1" "get_first_error_frame h d2 = get_first_error_frame h d1"
    by (simp_all only: traces_of_def get_first_error_frame_def failed(3))
  have tree: "map without_id (traces_of h d2) = tr" "length (traces_of h d2) = length tr"
    using readers(1) own by (simp_all add: same) (metis length_map)
  let ?rc = "find (\<lambda>t. tl_error t \<noteq> None) (traces_of h d2)"
  have rc: "map_option without_id ?rc = find (\<lambda>t. tl_error t \<noteq> None) tr"
    by (simp only: find_map_without tree)
  have "list_all trace_row_ok traces" "set tr \<subseteq> set traces"
    using stored(1) own by (auto simp: insert_trace_logs_def split: if_splits)
  then have row_ok: "list_all trace_row_ok tr"
    by (auto simp: list_all_iff)
  have err: "get_first_error_frame h d2 = Inr ?rc"
    using readers(2) [OF is_tx_hash_text [OF wf]] by (simp add: same)
  note get = get_failed_tx_found [OF wf failed(1,2) err first_error_of_rows [OF rc row_ok inputs] lower]
  have "\<exists>c. ?rc = Some c \<and> tl_call_depth c = 0 \<and> without_id c = hd tr" if "tl_error (hd tr) \<noteq> None"
  proof -
    have depth: "tl_call_depth (hd tr) = 0" and "find (\<lambda>t. tl_error t \<noteq> None) tr = Some (hd tr)"
      using that rows by (cases tr, simp_all)+
    with rc obtain c where "?rc = Some c" "without_id c = hd tr" by auto
    with depth show ?thesis
      by (metis without_id_fields(2))
  qed
  with get rc tree get_failed_tx_missing show ?thesis
    by (auto simp: take_map [symmetric])
qed

section \<open>Instances\<close>

definition sample_api :: "unit api_ext" where
  "sample_api = \<lparr>ax_to_str = (\<lambda>b. Some (bytes_to_string b)), ax_ct_eq = (=), ax_hex_encode = bytes_to_string,
     ax_parse_url = dx_parse_url sample_ext, ax_from_rfc3339 = (\<lambda>_. None), ax_lowercase = (\<lambda>s. s),
     ax_collate = (\<lambda>_. []), ax_hash_iter = (\<lambda>ks. ks), ax_abi = sample_abi, ax_divide = div16, ax_probe = Inr ()\<rparr>"

lemma sample_api_fields [simp]:
  "ax_to_str sample_api b = Some (bytes_to_string b)" "ax_ct_eq sample_api = (=)"
  "ax_hex_encode sample_api = bytes_to_string" "ax_parse_url sample_api = dx_parse_url sample_ext"
  "ax_lowercase sample_api = (\<lambda>s. s)"
  by (simp_all add: sample_api_def)

definition sample_inputs :: inputs where
  "sample_inputs = \<lparr>in_create = Inl 422, in_label = Inl 422, in_page = Inl 400, in_swaps = Inl 400, in_limit = Inr None,
     in_failed = Inl 400, in_trend = Inl 400, in_by_label = Inl 400, in_dates = Inl 400,
     in_number = (\<lambda>_. Inl 400), in_ties = id\<rparr>"

lemma api_confinement_witness:
  "serve sample_api ''key'' 0 None POST [''v1'', ''contract-labels''] None sample_inputs (sample_service Map.empty) =
     ((401, PError ''unauthorized''), sample_service Map.empty)"
proof -
  have "build_router [''v1'', ''contract-labels''] = Some ([(POST, CreateLabel)], None)"
    by (simp add: build_router_def v1_router_def)
  then show ?thesis
    using api_confinement [of sample_api POST None "''key''" 0 None "[''v1'', ''contract-labels'']" sample_inputs
        "sample_service Map.empty"]
    by (auto simp: protected_routes_def)
qed

lemma string_to_bytes_inverse: "string_to_bytes (bytes_to_string bs) = bs"
proof (induction bs)
  case (Cons b bs)
  have "unat b < 256"
    using unsigned_less [of b, where ?'a = nat] by simp
  then have "char_code (char_of (unat b)) = unat b"
    by (simp add: char_code_def of_char_of)
  with Cons show ?case
    by (simp add: string_to_bytes_def bytes_to_string_def)
qed (simp add: string_to_bytes_def bytes_to_string_def)

definition sample_body :: create_body where
  "sample_body = \<lparr>cb_webhook_url = ''https://a.example/'', cb_error_category = Some ''UNKNOWN'',
     cb_to_addr = None, cb_sub_type = None, cb_threshold_count = None,
     cb_threshold_window_secs = None, cb_debounce_secs = None\<rparr>"

lemma accepted_subscription_deliverable_witness:
  "\<exists>sc d'. create_alert_subscription sample_api ''k'' 5 (Some [1, 2]) (Some (string_to_bytes ''Bearer k''))
      (Inr sample_body) (sample_service Map.empty) = Inr (sc, d') \<and> service_ok d' \<and>
      length (db_subs d') = 3 \<and> sc_error_category sc = Some Unknown"
proof -
  let ?D = "sample_ext\<lparr>dx_hex_decode := \<lambda>s. Some (string_to_bytes s)\<rparr>"
  let ?r = "create_alert_subscription sample_api ''k'' 5 (Some [1, 2]) (Some (string_to_bytes ''Bearer k''))
      (Inr sample_body) (sample_service Map.empty)"
  have auth: "admin_auth sample_api ''k'' (Some (string_to_bytes ''Bearer k'')) = Inr ()"
    by (simp add: admin_auth_def)
  have url: "webhook_url_is_safe (dx_parse_url sample_ext) ''https://a.example/'' = Inr ()"
    using sample_url_safe by (simp add: sample_sub_def)
  have "\<exists>sc d'. ?r = Inr (sc, d') \<and> sc_error_category sc = Some Unknown"
    unfolding create_alert_subscription_def guarded_accepted [OF auth]
    by (simp add: url sample_body_def check_def max_webhook_url_len_def parse_category_def error_category_from_str_def
        normal_to_addr_def parse_sub_type_def generate_signing_secret_def insert_alert_subscription_def
        add_subscription_def sub_row_ok_def opt_ok_def text_ok_def char_code_def rate_fields_chk_def
        bytes_to_string_def created_from_def)
  then obtain sc d' where r: "?r = Inr (sc, d')" "sc_error_category sc = Some Unknown" by blast
  have "statuses_ok (sample_service Map.empty)"
    by (simp add: statuses_ok_def)
  then have "service_ok (sample_service Map.empty)"
    by (intro sample_service_ok) simp_all
  moreover have "text_ok (ax_hex_encode sample_api [1, 2])" "text_ok (cb_webhook_url sample_body)"
    by (simp_all add: sample_body_def text_ok_def char_code_def bytes_to_string_def)
  ultimately show ?thesis
    using accepted_subscription_deliverable [of "sample_service Map.empty" ?D sample_api sample_body "[1, 2]" "''k''"
      "Some (string_to_bytes ''Bearer k'')" 5] r by (auto simp: string_to_bytes_inverse)
qed

text \<open>A transaction whose only call reverted.\<close>

definition reverted_view :: rpc_view where
  "reverted_view = sample_view\<lparr>rv_trace := (\<lambda>h. Inr (CallTracer (Inr (JObj
     [(''type'', JStr ''CALL''), (''output'', JStr ''0x08''), (''error'', JStr ''execution reverted'')]))))\<rparr>"

definition reverted_trace :: "string \<Rightarrow> trace_log" where
  "reverted_trace h = (sample_trace h)\<lparr>tl_error := Some ''execution reverted''\<rparr>"

lemma reverted_failed:
  "process_failed_tx sample_wx reverted_view ts h = Ret ([reverted_trace h], [sample_failure ts h])"
  by (simp add: process_failed_tx_def sample_wx_def reverted_view_def sample_view_def parse_trace_def
      parse_call_frame.simps get_str_def get_array_def parse_gas_def flat_of_def value_decimal_def
      root_reason_def strip_0x_def sample_reason_decodes failing_selector_def trace_row_def
      bd_or_zero_def Let_def as_i64_def sample_event_ext_def digit_value_def char_code_def
      to_ascii_lowercase_def ascii_lower_char_def classify_error_def contains_def starts_with_def
      worker_category_def reverted_trace_def sample_trace_def sample_failure_def)

definition some_hash :: string where
  "some_hash = ''0x'' @ replicate 64 (CHR ''a'')"

definition reverted_db :: service_db where
  "reverted_db = (sample_service Map.empty)\<lparr>db_txs := map (\<lambda>t. t\<lparr>tx_hash := some_hash\<rparr>) (db_txs sample_db)\<rparr>"

lemma stored_failure_diagnosed_witness:
  "\<exists>n d1 k d2 r. insert_trace_logs [reverted_trace some_hash] reverted_db = Inr (n, d1) \<and>
     insert_failed_transactions [sample_failure 7 some_hash] d1 = Inr (k, d2) \<and>
     get_failed_tx sample_api (Inr some_hash) d2 = Inr r \<and> length (fd_call_tree r) = 1 \<and>
     fd_failed r = sample_failure 7 some_hash \<and> (\<exists>c. fd_root_cause r = Some c \<and> tl_call_depth c = 0)"
proof -
  have chars: "is_tx_hash some_hash" "varchar_ok 66 some_hash"
    by (simp_all add: some_hash_def is_tx_hash_def is_ascii_hexdigit_def char_code_def varchar_ok_def text_ok_def
        char_count_def list_all_iff)
  have rows: "trace_row_ok (reverted_trace some_hash)" "failed_row_ok (sample_failure 7 some_hash)"
    using chars(2) by (simp_all add: reverted_trace_def sample_trace_def sample_failure_def trace_row_ok_def
        failed_row_ok_def opt_ok_def varchar_ok_def text_ok_def char_count_def char_code_def numeric_ok_def)
  have db: "db_traces reverted_db = []" "db_failed reverted_db = db_failed sample_db" "tx_known reverted_db some_hash"
    by (simp_all add: reverted_db_def sample_service_def tx_known_def) (simp add: sample_db_def empty_db_def)+
  have other: "some_hash \<noteq> ''t6''"
    by (simp add: some_hash_def)
  have hash: "tl_tx_hash (reverted_trace some_hash) = some_hash" "ft_tx_hash (sample_failure 7 some_hash) = some_hash"
    by (simp_all add: reverted_trace_def sample_trace_def sample_failure_def)
  obtain n d1 where i1: "insert_trace_logs [reverted_trace some_hash] reverted_db = Inr (n, d1)"
    using rows(1) db(3) by (simp add: insert_trace_logs_def hash)
  then have d1: "db_failed d1 = db_failed sample_db" "tx_known d1 some_hash"
    using rows(1) db by (auto simp: insert_trace_logs_def hash tx_known_def)
  obtain k d2 where i2: "insert_failed_transactions [sample_failure 7 some_hash] d1 = Inr (k, d2)"
    using rows(2) d1 other by (simp add: insert_failed_transactions_def insert_do_nothing_def hash Let_def)
  have "process_failed_txs sample_wx reverted_view 7 [some_hash] = Ret ([reverted_trace some_hash], [sample_failure 7 some_hash])"
    by (simp add: reverted_failed)
  from stored_failure_diagnosed [OF this _ _ reverted_failed _ _ i1 i2 chars(1), of sample_api] other hash i1 i2
  show ?thesis
    by (auto simp: db reverted_trace_def sample_trace_def)
qed

end
