(* ===== verification/Browse.thy ===== *)
theory Browse
  imports Tui_Laws Api_Laws
begin

text \<open>
  The terminal program and the REST server together: the query string of the client is what the
  extractor of the list handler reads, the response of the handler is what the client reads back,
  and turning the pages shows the failures that the database holds.
\<close>

section \<open>Requests on the side of the server\<close>

fun split_char :: "char \<Rightarrow> string \<Rightarrow> string list" where
  "split_char c [] = [[]]"
| "split_char c (x # xs) = (if x = c then [] # split_char c xs
     else (case split_char c xs of [] \<Rightarrow> [[x]] | s # ss \<Rightarrow> (x # s) # ss))"

definition path_segments :: "string \<Rightarrow> string list" where
  "path_segments p = filter (\<lambda>s. s \<noteq> []) (split_char (CHR ''/'') p)"

text \<open>\<open>i64::from_str\<close>.\<close>

definition i64_from_str :: "string \<Rightarrow> int option" where
  "i64_from_str s = (case s of
     [] \<Rightarrow> None
   | c # cs \<Rightarrow>
       let v = (if c = CHR ''-'' then (if cs = [] then None else map_option (\<lambda>n. - int n) (digits_value 10 0 cs))
                else if c = CHR ''+'' then (if cs = [] then None else map_option int (digits_value 10 0 cs))
                else map_option int (digits_value 10 0 s))
       in Option.bind v (\<lambda>n. if i64_ok n then Some n else None))"

text \<open>The derived \<open>Deserialize\<close> of \<open>FailedTxQuery\<close> on a query string: unknown keys are skipped, a
  repeated key or a number that does not parse is a rejection.\<close>

definition query_field :: "string \<Rightarrow> (string \<Rightarrow> 'a option) \<Rightarrow> (string \<times> string) list \<Rightarrow> nat + 'a option" where
  "query_field k r kvs = (case map snd (filter (\<lambda>kv. fst kv = k) kvs) of
     [] \<Rightarrow> Inr None
   | [v] \<Rightarrow> (case r v of Some x \<Rightarrow> Inr (Some x) | None \<Rightarrow> Inl 400)
   | _ \<Rightarrow> Inl 400)"

definition read_failed_query :: "(string \<times> string) list \<Rightarrow> nat + failed_tx_query" where
  "read_failed_query kvs =
     bind_res (query_field ''category'' Some kvs) (\<lambda>cat.
     bind_res (query_field ''from'' Some kvs) (\<lambda>since.
     bind_res (query_field ''to'' Some kvs) (\<lambda>until.
     bind_res (query_field ''limit'' i64_from_str kvs) (\<lambda>lim.
     bind_res (query_field ''offset'' i64_from_str kvs) (\<lambda>off.
     Inr \<lparr>fq_category = cat, fq_since = since, fq_until = until,
          fq_page = \<lparr>pp_limit = lim, pp_offset = off\<rparr>\<rparr>)))))"

definition query_inputs :: "tie_order \<Rightarrow> (string \<times> string) list \<Rightarrow> inputs" where
  "query_inputs ties kvs =
     \<lparr>in_create = Inl 415, in_label = Inl 415, in_page = Inl 400, in_swaps = Inl 400, in_limit = Inl 400,
      in_failed = read_failed_query kvs, in_trend = Inl 400, in_by_label = Inl 400, in_dates = Inl 400,
      in_number = (\<lambda>_. Inl 400), in_ties = ties\<rparr>"

fun fetch_request :: "fetch \<Rightarrow> get_request" where
  "fetch_request (FetchLatestBlock r) = r"
| "fetch_request (FetchAnalysis r) = r"
| "fetch_request (FetchFailedList r) = r"
| "fetch_request (FetchDetail r) = r"

text \<open>The server at \<open>base\<close> over the database \<open>d\<close>, while PostgreSQL orders rows with equal keys by
  \<open>ties\<close>; \<open>print\<close> prints JSON. A body that is no JSON is arbitrary.\<close>

definition api_serves :: "'ty api_ext \<Rightarrow> text_ext \<Rightarrow> (json \<Rightarrow> string) \<Rightarrow> string \<Rightarrow> string \<Rightarrow>
    tie_order \<Rightarrow> service_db \<Rightarrow> fetch \<Rightarrow> http_reply \<Rightarrow> bool" where
  "api_serves X T print key base ties d f r \<longleftrightarrow>
     (\<exists>path now rng header status p. strip_prefix base (gr_url (fetch_request f)) = Some path \<and>
        fst (serve X key now rng GET (path_segments path) header (query_inputs ties (gr_query (fetch_request f))) d) = (status, p) \<and>
        (\<exists>body. r = HttpReply status body \<and> (\<forall>j. payload_json T p = Some j \<longrightarrow> body = Some (print j))))"

section \<open>The list on both sides\<close>

lemma i64_from_int_to_dec: "i64_ok n \<Longrightarrow> i64_from_str (int_to_dec n) = Some n"
proof (cases "n < 0")
  case True
  then show "i64_ok n \<Longrightarrow> ?thesis"
    by (simp add: i64_from_str_def int_to_dec_def digits_value_dec)
next
  case False
  obtain c cs where s: "nat_to_dec (nat n) = c # cs"
    by (cases "nat_to_dec (nat n)") auto
  with nat_to_dec_hd_not_sign [OF s] digits_value_dec [of "nat n"] False show "i64_ok n \<Longrightarrow> ?thesis"
    by (simp add: i64_from_str_def int_to_dec_def)
qed

lemma query_read_back:
  assumes "i64_ok (fl_limit f)" "i64_ok (fl_offset f)"
  shows "read_failed_query (query_pairs T now f) = Inr
    \<lparr>fq_category = fl_category f, fq_since = start_iso T now (fl_window f), fq_until = None,
     fq_page = \<lparr>pp_limit = Some (fl_limit f), pp_offset = Some (fl_offset f)\<rparr>\<rparr>"
  using assms by (auto simp: read_failed_query_def query_field_def query_pairs_def i64_from_int_to_dec split: option.split)

text \<open>The failures that a filter matches, and a page of them, newest first.\<close>

definition category_of :: "string option \<Rightarrow> error_category option" where
  "category_of v = Option.bind v (\<lambda>s. case error_category_from_str s of Inr c \<Rightarrow> Some c | Inl _ \<Rightarrow> None)"

definition matching :: "string option \<Rightarrow> timestamp option \<Rightarrow> service_db \<Rightarrow> failed_transaction list" where
  "matching cat since d = failed_where (category_of cat) since None d"

definition shown_rows :: "tie_order \<Rightarrow> tx_filter \<Rightarrow> timestamp option \<Rightarrow> service_db \<Rightarrow> failed_transaction list" where
  "shown_rows ties f since d = take 20 (drop (nat (fl_offset f)) (order_by ties newest (matching (fl_category f) since d)))"

definition shown_page :: "text_ext \<Rightarrow> tie_order \<Rightarrow> tx_filter \<Rightarrow> timestamp option \<Rightarrow> service_db \<Rightarrow> tx_dto page_dto" where
  "shown_page T ties f since d =
     \<lparr>dp_data = map (tx_view T) (shown_rows ties f since d),
      dp_pagination = \<lparr>dm_limit = 20, dm_offset = fl_offset f, dm_count = int (length (shown_rows ties f since d)),
        dm_total = int (length (matching (fl_category f) since d))\<rparr>\<rparr>"

lemma parse_known_category:
  assumes "\<forall>c. v = Some c \<longrightarrow> c \<in> set categories"
  shows "parse_category name v = Inr (category_of v)"
proof (cases v)
  case (Some s)
  with assms obtain c where "s = as_wire c" by (auto simp: set_categories)
  moreover have "as_wire c \<noteq> []" by (cases c) simp_all
  ultimately show ?thesis
    by (simp add: Some parse_category_def category_of_def category_wire.dec_enc)
qed (simp add: parse_category_def category_of_def)

lemma list_handler:
  assumes "filter_ok f" "fl_offset f < 2 ^ 62" "start_iso T now (fl_window f) = map_option (te_rfc3339 T) since"
    and "parse_ts X (map_option (te_rfc3339 T) since) ''from'' = Inr since"
  shows "list_failed_tx X ties (read_failed_query (query_pairs T now f)) d =
    Inr (shown_rows ties f since d,
      \<lparr>pi_limit = 20, pi_offset = fl_offset f, pi_count = int (length (shown_rows ties f since d)),
       pm_total = int (length (matching (fl_category f) since d))\<rparr>)"
proof -
  have q: "read_failed_query (query_pairs T now f) = Inr
    \<lparr>fq_category = fl_category f, fq_since = map_option (te_rfc3339 T) since, fq_until = None,
     fq_page = \<lparr>pp_limit = Some 20, pp_offset = Some (fl_offset f)\<rparr>\<rparr>"
    using assms(1-3) query_read_back [of f T now] by (simp add: filter_ok_def i64_ok_def)
  have cat: "parse_category ''category'' (fl_category f) = Inr (category_of (fl_category f))"
    using assms(1) by (intro parse_known_category) (simp add: filter_ok_def)
  note since = assms(4)
  have until: "parse_ts X None ''to'' = Inr None"
    by (simp add: parse_ts_def)
  show ?thesis
    using assms(1) by (simp add: q list_failed_tx_def cat since until page_limit_def page_offset_def or_default_def
        clamp_def filter_ok_def Let_def list_failed_transactions_def page_def matching_def shown_rows_def count_failed_transactions_def)
qed


lemma get_json_read:
  "je_parse E body = Some j \<Longrightarrow> r j = Some v \<Longrightarrow> get_json E r (HttpReply 200 (Some body)) = Inr v"
  by (simp add: get_json_def)

text \<open>The reply of the server to the list request of a filter without a time window.\<close>

definition db_fits :: "service_db \<Rightarrow> bool" where
  "db_fits d \<longleftrightarrow> (\<forall>f\<in>set (db_failed d). tx_fits f) \<and> length (db_failed d) < 2 ^ 62"

lemma matching_subset: "set (matching cat since d) \<subseteq> set (db_failed d)" "length (matching cat since d) \<le> length (db_failed d)"
  by (auto simp: matching_def failed_where_def)

lemma list_path: "path_segments ''/v1/failed-tx'' = [''v1'', ''failed-tx'']"
  by (simp add: path_segments_def)

lemma list_request_served:
  assumes f: "filter_ok f" "fl_offset f < 2 ^ 62" "fl_window f = WindowAll" and d: "db_fits d"
    and E: "\<forall>rows m. je_parse E (print (total_paginated_json rows m)) = Some (total_paginated_json rows m)"
  shows "\<exists>r. api_serves X T print key (cl_base_url c) ties d
      (FetchFailedList (list_failed_tx_request c (query_pairs T now f))) r \<and>
    list_failed_tx_reply E r = Inr (shown_page T ties f None d)"
proof -
  let ?rows = "shown_rows ties f None d"
  let ?m = "\<lparr>pi_limit = 20, pi_offset = fl_offset f, pi_count = int (length ?rows),
       pm_total = int (length (matching (fl_category f) None d))\<rparr>"
  have start: "start_iso T now (fl_window f) = None"
    using f(3) by (simp add: start_iso_def)
  have handler: "list_failed_tx X ties (read_failed_query (query_pairs T now f)) d = Inr (?rows, ?m)"
    by (rule list_handler [OF f(1,2)]) (simp_all add: start parse_ts_def)
  have routed: "build_router [''v1'', ''failed-tx''] = Some ([(GET, ListFailed)], None)"
    by (simp add: build_router_def v1_router_def)
  have served: "serve X key 0 None GET [''v1'', ''failed-tx''] None (query_inputs ties (query_pairs T now f)) d =
      ((200, PFailed ?rows ?m), d)"
    by (simp add: serve_def routed run_handler_def query_inputs_def handler reading_def)
  have rows: "set ?rows \<subseteq> set (db_failed d)"
    using matching_subset(1) [of "fl_category f" None d] set_order_by [of ties newest "matching (fl_category f) None d"]
    unfolding shown_rows_def by (metis in_set_dropD in_set_takeD subset_iff)
  have "int (length ?rows) \<le> 20" by (simp add: shown_rows_def)
  moreover have "int (length (matching (fl_category f) None d)) < 2 ^ 62"
    using d matching_subset(2) [of "fl_category f" None d] by (simp add: db_fits_def)
  ultimately have meta: "meta_fits ?m"
    using f(1,2) by (simp only: meta_fits_def fits_def pagination_info.select_convs pagination_meta.select_convs
        filter_ok_def) simp
  have fits: "\<forall>x\<in>set ?rows. tx_fits x"
    using d rows unfolding db_fits_def by blast
  have reread: "read_page read_tx (total_paginated_json (map (failed_json T) ?rows) ?m) = Some (shown_page T ties f None d)"
    using meta_wire.dec_enc [OF meta] tx_wire.list_back [OF fits]
    by (simp add: read_page_def total_paginated_json_def shown_page_def meta_view_def Let_def del: read_list.simps)
  let ?r = "HttpReply 200 (Some (print (total_paginated_json (map (failed_json T) ?rows) ?m)))"
  have "list_failed_tx_reply E ?r = Inr (shown_page T ties f None d)"
    unfolding list_failed_tx_reply_def using E get_json_read [where r = "read_page read_tx", OF _ reread] by blast
  moreover have "api_serves X T print key (cl_base_url c) ties d
      (FetchFailedList (list_failed_tx_request c (query_pairs T now f))) ?r"
    unfolding api_serves_def
    by (intro exI [of _ "''/v1/failed-tx''"] exI [of _ 0] exI [of _ None] exI [of _ 200] exI [of _ "PFailed ?rows ?m"])
      (simp add: list_failed_tx_request_def get_request_for_def list_path served)
  ultimately show ?thesis by blast
qed


section \<open>Turning pages\<close>

definition at_rest :: "world \<Rightarrow> bool" where
  "at_rest w \<longleftrightarrow> w_tasks w = [] \<and> w_queue w = [] \<and> ap_inflight (w_app w) = 0 \<and>
     \<not> ap_should_quit (w_app w) \<and> \<not> ap_show_help (w_app w)"

text \<open>The list screen of a client of \<open>base\<close> at rest, with a filter.\<close>

definition list_at_rest :: "string \<Rightarrow> tx_filter \<Rightarrow> world \<Rightarrow> bool" where
  "list_at_rest base f w \<longleftrightarrow> at_rest w \<and> ap_screen (w_app w) = FailedTx \<and> ap_filter (w_app w) = f \<and>
     cl_base_url (ap_client (w_app w)) = base"

text \<open>A key is pressed, its fetch is answered, and the message is received.\<close>

definition pressed :: "text_ext \<Rightarrow> json_ext \<Rightarrow> (fetch \<Rightarrow> http_reply \<Rightarrow> bool) \<Rightarrow> timestamp \<Rightarrow> char \<Rightarrow> world \<Rightarrow> world \<Rightarrow> bool" where
  "pressed T E server now c w w' \<longleftrightarrow> (\<exists>u v. handle_event T now (KeyPress (key_of c)) w = Ret u \<and>
     tui_step T E server u v \<and> tui_step T E server v w' \<and> tui_step T E server w u)"

definition shown :: "world \<Rightarrow> tx_dto list" where
  "shown w = (case ap_failed (w_app w) of Loaded p \<Rightarrow> dp_data p | _ \<Rightarrow> [])"

lemma fetch_list:
  assumes w: "list_at_rest base f w" and g: "filter_ok g" "fl_offset g < 2 ^ 62" "fl_window g = WindowAll"
    and d: "db_fits d"
    and E: "\<forall>rows m. je_parse E (print (total_paginated_json rows m)) = Some (total_paginated_json rows m)"
    and key: "handle_event T now (KeyPress (key_of c)) w =
      run_transition (spawn_fetch_active T now ((w_app w)\<lparr>ap_filter := g\<rparr>)) w"
  shows "\<exists>w'. pressed T E (api_serves X T print key base ties d) now c w w' \<and> list_at_rest base g w' \<and>
    ap_failed (w_app w') = Loaded (shown_page T ties g None d)"
proof -
  let ?S = "api_serves X T print key base ties d" and ?a = "w_app w"
  let ?F = "FetchFailedList (list_failed_tx_request (ap_client ?a) (query_pairs T now g))"
  define b where "b = ?a\<lparr>ap_filter := g, ap_failed := begin_load (ap_failed ?a), ap_inflight := 1\<rparr>"
  from w have a: "w_tasks w = []" "w_queue w = []" "ap_inflight ?a = 0" "\<not> ap_should_quit ?a" "\<not> ap_show_help ?a"
    "ap_screen ?a = FailedTx" "cl_base_url (ap_client ?a) = base"
    by (simp_all add: list_at_rest_def at_rest_def)
  have u: "handle_event T now (KeyPress (key_of c)) w = Ret \<lparr>w_app = b, w_tasks = [?F], w_queue = []\<rparr>"
    unfolding key using a by (simp add: spawn_fetch_active_def with_fetches_def add_inflight_def run_transition_def b_def)
  from list_request_served [OF g d E, of X T key "ap_client ?a" ties now] a(7) obtain r where
    r: "?S ?F r" "list_failed_tx_reply E r = Inr (shown_page T ties g None d)" by blast
  let ?w' = "\<lparr>w_app = ingest now (answer E ?F r) b, w_tasks = [], w_queue = []\<rparr>"
  have "tui_step T E ?S w \<lparr>w_app = b, w_tasks = [?F], w_queue = []\<rparr>"
    using a(4) u by (rule tui_step.event)
  moreover have "tui_step T E ?S \<lparr>w_app = b, w_tasks = [?F], w_queue = []\<rparr>
      \<lparr>w_app = b, w_tasks = [], w_queue = [answer E ?F r]\<rparr>"
    using reply_first [of "\<lparr>w_app = b, w_tasks = [?F], w_queue = []\<rparr>" ?F "[]" ?S r T E] r(1) by simp
  moreover have "tui_step T E ?S \<lparr>w_app = b, w_tasks = [], w_queue = [answer E ?F r]\<rparr> ?w'"
    using receive_first [of "\<lparr>w_app = b, w_tasks = [], w_queue = [answer E ?F r]\<rparr>" "answer E ?F r" "[]" T E ?S now] a(4)
    by (simp add: b_def)
  ultimately have "pressed T E ?S now c w ?w'"
    unfolding pressed_def using u by blast
  moreover have "list_at_rest base g ?w'"
    using a by (simp add: list_at_rest_def at_rest_def b_def ingest_def clamp_selection_def Let_def)
  moreover have "ap_failed (w_app ?w') = Loaded (shown_page T ties g None d)"
    by (simp add: ingest_def clamp_selection_def Let_def r(2))
  ultimately show ?thesis by blast
qed


definition page_filter :: "tx_filter \<Rightarrow> nat \<Rightarrow> tx_filter" where
  "page_filter f i = f\<lparr>fl_offset := 20 * int i\<rparr>"

lemma page_filter_ok:
  assumes "filter_ok f" "fl_window f = WindowAll" "20 * i < 2 ^ 62"
  shows "filter_ok (page_filter f i)" "fl_offset (page_filter f i) < 2 ^ 62"
    "fl_window (page_filter f i) = WindowAll" "fl_category (page_filter f i) = fl_category f"
  using assms by (simp_all add: page_filter_def filter_ok_def)

lemma next_key:
  assumes w: "list_at_rest base (page_filter f i) w" "ap_failed (w_app w) = Loaded p" and f: "filter_ok f" "20 * i < 2 ^ 62"
  shows "handle_event T now (KeyPress (key_of (CHR ''n''))) w =
    (if 20 * int (Suc i) < dm_total (dp_pagination p)
     then run_transition (spawn_fetch_active T now ((w_app w)\<lparr>ap_filter := page_filter f (Suc i)\<rparr>)) w else Ret w)"
proof -
  have "ap_filter (w_app w) = page_filter f i" "\<not> ap_show_help (w_app w)" "ap_screen (w_app w) = FailedTx"
    using w(1) by (simp_all add: list_at_rest_def at_rest_def)
  moreover have "i64_ok (20 * int i + 20)" "fl_limit f = 20"
    using f by (simp_all add: i64_ok_def filter_ok_def)
  moreover have "(page_filter f i)\<lparr>fl_offset := 20 * int i + 20\<rparr> = page_filter f (Suc i)"
    "fl_offset (page_filter f i) = 20 * int i" "fl_limit (page_filter f i) = fl_limit f"
    by (simp_all add: page_filter_def)
  ultimately show ?thesis
    using w(2) by (simp add: map_key_next next_page_def Let_def run_transition_def stay_def algebra_simps)
qed

lemma refresh_key:
  assumes "list_at_rest base f w"
  shows "handle_event T now (KeyPress (key_of (CHR ''r''))) w =
    run_transition (spawn_fetch_active T now ((w_app w)\<lparr>ap_filter := f\<rparr>)) w"
proof -
  have "map_key (key_of (CHR ''r'')) False = RefreshNow"
    by (simp add: map_key_def key_of_def)
  moreover have "f = ap_filter (w_app w)"
    using assms by (simp add: list_at_rest_def)
  ultimately show ?thesis
    using assms by (simp add: list_at_rest_def at_rest_def)
qed

lemma walk_pages:
  assumes w: "list_at_rest base (page_filter f 0) w" and f: "filter_ok f" "fl_window f = WindowAll" and d: "db_fits d"
    and E: "\<forall>rows m. je_parse E (print (total_paginated_json rows m)) = Some (total_paginated_json rows m)"
    and k: "k = 0 \<or> 20 * k < length (matching (fl_category f) None d)"
  shows "\<exists>ws. length ws = Suc k \<and> pressed T E (api_serves X T print key base (ties 0) d) now (CHR ''r'') w (ws ! 0) \<and>
    (\<forall>i<k. pressed T E (api_serves X T print key base (ties (Suc i)) d) now (CHR ''n'') (ws ! i) (ws ! Suc i)) \<and>
    (\<forall>i\<le>k. list_at_rest base (page_filter f i) (ws ! i) \<and>
       ap_failed (w_app (ws ! i)) = Loaded (shown_page T (ties i) (page_filter f i) None d))"
  using k
proof (induction k)
  case 0
  have "fl_window (page_filter f 0) = WindowAll" "filter_ok (page_filter f 0)" "fl_offset (page_filter f 0) < 2 ^ 62"
    using page_filter_ok [OF f, of 0] by simp_all
  from fetch_list [OF w this(2,3,1) d E refresh_key [OF w], where X = X and key = key and ties = "ties 0"] obtain w'
    where "pressed T E (api_serves X T print key base (ties 0) d) now (CHR ''r'') w w'"
      "list_at_rest base (page_filter f 0) w'" "ap_failed (w_app w') = Loaded (shown_page T (ties 0) (page_filter f 0) None d)"
    by blast
  then show ?case by (intro exI [of _ "[w']"]) simp
next
  case (Suc k)
  let ?S = "\<lambda>i. api_serves X T print key base (ties i) d" and ?all = "matching (fl_category f) None d"
  have big: "20 * Suc k < length ?all" using Suc.prems by simp
  then have small: "20 * Suc k < 2 ^ 62" "20 * k < 2 ^ 62"
    using d matching_subset(2) [of "fl_category f" None d] by (simp_all add: db_fits_def)
  from big Suc.IH obtain ws where ws: "length ws = Suc k" "pressed T E (?S 0) now (CHR ''r'') w (ws ! 0)"
    "\<forall>i<k. pressed T E (?S (Suc i)) now (CHR ''n'') (ws ! i) (ws ! Suc i)"
    "\<forall>i\<le>k. list_at_rest base (page_filter f i) (ws ! i) \<and>
       ap_failed (w_app (ws ! i)) = Loaded (shown_page T (ties i) (page_filter f i) None d)" by auto
  note last_page = ws(4) [rule_format, of k, simplified]
  have tot: "dm_total (dp_pagination (shown_page T (ties k) (page_filter f k) None d)) = int (length ?all)"
    by (simp add: shown_page_def page_filter_ok(4) [OF f small(2)])
  have key: "handle_event T now (KeyPress (key_of (CHR ''n''))) (ws ! k) =
      run_transition (spawn_fetch_active T now ((w_app (ws ! k))\<lparr>ap_filter := page_filter f (Suc k)\<rparr>)) (ws ! k)"
    using next_key [OF conjunct1 [OF last_page] conjunct2 [OF last_page] f(1) small(2), of T now] big tot by simp
  from fetch_list [OF conjunct1 [OF last_page] page_filter_ok(1,2,3) [OF f small(1)] d E key, where X = X and key = key and ties = "ties (Suc k)"] obtain w'
    where w': "pressed T E (?S (Suc k)) now (CHR ''n'') (ws ! k) w'" "list_at_rest base (page_filter f (Suc k)) w'"
      "ap_failed (w_app w') = Loaded (shown_page T (ties (Suc k)) (page_filter f (Suc k)) None d)"
    by blast
  have "pressed T E (?S (Suc i)) now (CHR ''n'') ((ws @ [w']) ! i) ((ws @ [w']) ! Suc i)" if "i < Suc k" for i
    using that ws(1,3) w'(1) by (cases "i = k") (simp_all add: nth_append)
  moreover have "list_at_rest base (page_filter f i) ((ws @ [w']) ! i) \<and>
       ap_failed (w_app ((ws @ [w']) ! i)) = Loaded (shown_page T (ties i) (page_filter f i) None d)" if "i \<le> Suc k" for i
    using that ws(1,4) w'(2,3) by (cases "i = Suc k") (simp_all add: nth_append)
  moreover have "pressed T E (?S 0) now (CHR ''r'') w ((ws @ [w']) ! 0)"
    using ws(1,2) by (simp add: nth_append)
  ultimately show ?case
    using ws(1) by (intro exI [of _ "ws @ [w']"]) simp
qed


text \<open>C19. Turning the pages shows the failures. Let the terminal program be at rest on its list, with any
  category, no time window and the first page in its filter, and let the REST server answer it from a
  database that does not change, where PostgreSQL may order failures of equal timestamps differently
  for every page. Refreshing and then pressing \<open>n\<close> until the last page shows as many failures as
  the database holds for the category, at most 20 at a time and with their timestamps newest first;
  every failure whose timestamp no other has is shown exactly once, and without equal timestamps, or
  if all fit one page, exactly all of them are shown. Failures of one timestamp may be shown twice or
  not at all when they stand on two pages. Pressing \<open>n\<close> once more does nothing.\<close>

theorem browse_all_failures:
  assumes w: "list_at_rest base f w" "filter_ok f" "fl_offset f = 0" "fl_window f = WindowAll" and d: "db_fits d"
    and E: "\<forall>rows m. je_parse E (print (total_paginated_json rows m)) = Some (total_paginated_json rows m)"
  shows "let rows = failed_where (category_of (fl_category f)) None None d in
    \<exists>gs ws. length ws = Suc ((length rows - 1) div 20) \<and>
    pressed T E (api_serves X T print key base (ties 0) d) now (CHR ''r'') w (ws ! 0) \<and>
    (\<forall>i. Suc i < length ws \<longrightarrow>
       pressed T E (api_serves X T print key base (ties (Suc i)) d) now (CHR ''n'') (ws ! i) (ws ! Suc i)) \<and>
    concat (map shown ws) = map (tx_view T) gs \<and> set gs \<subseteq> set rows \<and>
    map ft_timestamp gs = rev (sort (map ft_timestamp rows)) \<and>
    (\<forall>g\<in>set rows. length (filter (\<lambda>h. ft_timestamp h = ft_timestamp g) rows) = 1 \<longrightarrow>
       filter (\<lambda>h. ft_timestamp h = ft_timestamp g) gs = [g]) \<and>
    (distinct (map ft_timestamp rows) \<or> length rows \<le> 20 \<longrightarrow> mset gs = mset rows) \<and>
    (\<forall>v\<in>set ws. length (shown v) \<le> 20) \<and>
    handle_event T now (KeyPress (key_of (CHR ''n''))) (last ws) = Ret (last ws)"
proof -
  let ?S = "\<lambda>i. api_serves X T print key base (ties i) d" and ?rows = "failed_where (category_of (fl_category f)) None None d"
  have rows: "matching (fl_category f) None d = ?rows" by (simp only: matching_def)
  define k where "k = (length ?rows - 1) div 20"
  have "page_filter f 0 = f"
    using w(3) by (simp add: page_filter_def)
  with w(1) have start: "list_at_rest base (page_filter f 0) w"
    by (simp only:)
  have k: "k = 0 \<or> 20 * k < length ?rows" "length ?rows \<le> Suc k * 20"
    unfolding k_def by presburger+
  from walk_pages [OF start w(2,4) d E k(1) [folded rows], where X = X and key = key and ties = ties] obtain ws where
    ws: "length ws = Suc k" "pressed T E (?S 0) now (CHR ''r'') w (ws ! 0)"
    "\<forall>i<k. pressed T E (?S (Suc i)) now (CHR ''n'') (ws ! i) (ws ! Suc i)"
    "\<forall>i\<le>k. list_at_rest base (page_filter f i) (ws ! i) \<and>
       ap_failed (w_app (ws ! i)) = Loaded (shown_page T (ties i) (page_filter f i) None d)" by blast
  have small: "20 * i < 2 ^ 62" if "i \<le> k" for i
    using that k(1) d matching_subset(2) [of "fl_category f" None d] by (auto simp: db_fits_def rows)
  have page: "shown (ws ! i) = map (tx_view T) (page_rows ties newest 20 ?rows i)" if "i \<le> k" for i
    using ws(4) that page_filter_ok(4) [OF w(2,4) small [OF that]]
    by (simp add: shown_def shown_page_def shown_rows_def page_rows_def rows)
      (simp add: page_filter_def nat_mult_distrib mult.commute)
  let ?gs = "read_pages ties newest 20 ?rows (Suc k)"
  have "map shown ws = map (\<lambda>i. map (tx_view T) (page_rows ties newest 20 ?rows i)) [0..<Suc k]"
    using ws(1) page by (intro nth_equalityI) (simp_all del: upt_Suc)
  then have all: "concat (map shown ws) = map (tx_view T) ?gs"
    by (simp only: read_pages_def map_concat map_map comp_def)
  have times: "map ft_timestamp ?gs = rev (sort (map ft_timestamp ?rows))"
    using newest_pages(1) [of ties 20 ?rows "Suc k"] k(2) by (simp only: take_all length_rev length_sort length_map)
  have exact: "mset ?gs = mset ?rows" if "distinct (map ft_timestamp ?rows) \<or> length ?rows \<le> 20"
  proof (rule newest_pages(4) [OF k(2)])
    show "distinct (map ft_timestamp ?rows) \<or> Suc k = 1"
      using that by (auto simp: k_def)
  qed
  have short: "\<forall>v\<in>set ws. length (shown v) \<le> 20"
    using ws(1) page by (auto simp: in_set_conv_nth page_rows_def)
  from ws(1) have "ws \<noteq> []" by auto
  then have end_page: "list_at_rest base (page_filter f k) (last ws)"
    "ap_failed (w_app (last ws)) = Loaded (shown_page T (ties k) (page_filter f k) None d)"
    using ws(4) [rule_format, of k] last_conv_nth [of ws] ws(1) by auto
  have "dm_total (dp_pagination (shown_page T (ties k) (page_filter f k) None d)) = int (length ?rows)"
    by (simp add: shown_page_def page_filter_ok(4) [OF w(2,4) small] rows)
  then have quiet: "handle_event T now (KeyPress (key_of (CHR ''n''))) (last ws) = Ret (last ws)"
    using next_key [OF end_page w(2) small, of T now] k(2) by simp
  have turns: "\<forall>i. Suc i < length ws \<longrightarrow> pressed T E (?S (Suc i)) now (CHR ''n'') (ws ! i) (ws ! Suc i)"
    using ws(1,3) by simp
  note once = newest_pages(3) [OF k(2)]
  have len: "length ws = Suc ((length ?rows - 1) div 20)" by (simp only: ws(1) k_def)
  show ?thesis
    unfolding Let_def
    using len ws(2) turns all read_pages_rows [of ties newest 20 ?rows "Suc k"] times once exact short quiet
    by (intro exI [of _ ?gs] exI [of _ ws]) blast
qed

text \<open>C32. What the server writes, the client reads. For a diagnosis and for a page of failures whose
  integers fit their types, deserialising the serialised response gives every field of the value
  back, in the client's own types; the message of an error response is read back too. The category
  that the client shows for a failure is the one that was stored, although the two sides spell it
  differently, and the categories that the client can ask for are exactly those that the server
  accepts.\<close>

theorem wire_read_back:
  assumes "detail_fits dt" "\<forall>f\<in>set rows. tx_fits f" "meta_fits m"
  shows "read_response read_detail (api_response_json (detail_json T dt)) = Some (detail_view T dt) \<and>
    read_page read_tx (total_paginated_json (map (failed_json T) rows) m) =
      Some \<lparr>dp_data = map (tx_view T) rows, dp_pagination = meta_view m\<rparr> \<and>
    read_error (error_json msg) = Some msg \<and>
    category_of (Some (normalize_category (dt_error_category (tx_view T g)))) = Some (ft_error_category g) \<and>
    (c \<in> set categories \<longleftrightarrow> category_of (Some c) \<noteq> None)"
proof -
  have "read_response read_detail (api_response_json (detail_json T dt)) = Some (detail_view T dt)"
    using detail_wire.dec_enc [OF assms(1)] by (simp add: read_response_def api_response_json_def)
  moreover have "read_page read_tx (total_paginated_json (map (failed_json T) rows) m) =
      Some \<lparr>dp_data = map (tx_view T) rows, dp_pagination = meta_view m\<rparr>"
    using meta_wire.dec_enc [OF assms(3)] tx_wire.list_back [OF assms(2)]
    by (simp add: read_page_def total_paginated_json_def del: read_list.simps)
  moreover have "c \<in> set categories \<longleftrightarrow> category_of (Some c) \<noteq> None"
    by (auto simp: set_categories category_of_def category_wire.dec_enc dest: category_wire.enc_dec split: sum.splits)
  ultimately show ?thesis
    by (simp add: read_error_def error_json_def tx_view_def category_of_def category_wire.dec_enc)
qed

section \<open>Instances\<close>

definition list_world :: world where
  "list_world = \<lparr>w_app = (app_new sample_config)\<lparr>ap_screen := FailedTx\<rparr>, w_tasks = [], w_queue = []\<rparr>"

lemma browse_all_failures_witness:
  "\<exists>ws. pressed sample_text sample_json (api_serves sample_api sample_text sample_print ''k''
        (cl_base_url (api_client_new sample_config)) id (sample_service Map.empty)) 0 (CHR ''r'') list_world (ws ! 0) \<and>
     length ws = 1 \<and> concat (map shown ws) = map (tx_view sample_text) (db_failed sample_db)"
proof -
  let ?f = "\<lparr>fl_category = None, fl_window = WindowAll, fl_limit = 20, fl_offset = 0\<rparr>"
  have w: "list_at_rest (cl_base_url (api_client_new sample_config)) ?f list_world"
    by (simp add: list_at_rest_def at_rest_def list_world_def app_new_def)
  have f: "filter_ok ?f" by (simp add: filter_ok_def)
  have d: "db_fits (sample_service Map.empty)"
    by (simp add: db_fits_def sample_db_def tx_fits_def fits_def)
  have rows: "failed_where (category_of None) None None (sample_service Map.empty) = db_failed sample_db"
    by (simp add: failed_where_def category_of_def in_period_def)
  from browse_all_failures [OF w f _ _ d, where E = sample_json and print = sample_print and T = sample_text
      and X = sample_api and key = "''k''" and now = 0 and ties = "\<lambda>_. id"]
  obtain gs ws where gs: "mset gs = mset (db_failed sample_db)" "length ws = 1"
    and ws: "concat (map shown ws) = map (tx_view sample_text) gs"
      "pressed sample_text sample_json (api_serves sample_api sample_text sample_print ''k''
        (cl_base_url (api_client_new sample_config)) id (sample_service Map.empty)) 0 (CHR ''r'') list_world (ws ! 0)"
    by (auto simp: Let_def rows)
  from gs have "gs = db_failed sample_db" by (simp add: sample_db_def)
  with ws gs(2) show ?thesis by blast
qed

lemma wire_read_back_witness:
  "read_response read_detail (api_response_json (detail_json sample_text
     \<lparr>fd_failed = hd (db_failed sample_db), fd_call_tree = [sample_trace ''t6''], fd_call_tree_truncated = False,
      fd_root_cause = None, fd_failing_function_decoded = None, fd_root_cause_decoded = None, fd_diagnosis = None\<rparr>)) \<noteq> None \<and>
   category_of (Some (normalize_category (dt_error_category (tx_view sample_text (hd (db_failed sample_db)))))) = Some Unknown"
proof -
  let ?dt = "\<lparr>fd_failed = hd (db_failed sample_db), fd_call_tree = [sample_trace ''t6''], fd_call_tree_truncated = False,
      fd_root_cause = None, fd_failing_function_decoded = None, fd_root_cause_decoded = None, fd_diagnosis = None\<rparr>"
  let ?m = "\<lparr>pi_limit = 20, pi_offset = 0, pi_count = 1, pm_total = 1\<rparr>"
  have "detail_fits ?dt" "\<forall>f\<in>set (db_failed sample_db). tx_fits f" "meta_fits ?m"
    by (simp_all add: detail_fits_def tx_fits_def trace_fits_def meta_fits_def fits_def sample_db_def sample_trace_def)
  from wire_read_back [OF this, of sample_text "[]" "hd (db_failed sample_db)" "[]"] show ?thesis
    by (simp add: sample_db_def)
qed

end
