(* ===== verification/Floats.thy ===== *)
theory Floats
  imports Bytes "HOL-Library.Log_Nat"
begin

text \<open>
  The \<open>f64\<close> arithmetic of the terminal program (\<open>src/crates/tui/src/format.rs\<close> and the screens), and
  the part of the standard library it uses. Only finite numbers occur: \<open>to_number\<close> maps the others
  to 0, every divisor is at least 1, and every product is below \<open>2 ^ 80\<close>. So a double is a sign (also
  of zero) and a rational magnitude, and the result of an operation is the exact one rounded to
  53 bits, ties to even. No theorem uses the exponent range except for the subnormal numbers.
\<close>

section \<open>Rounding\<close>

text \<open>To the nearest integer, ties to even.\<close>

definition round_even :: "rat \<Rightarrow> int" where
  "round_even x =
     (let f = \<lfloor>x\<rfloor>; r = x - of_int f in
      if r < 1 / 2 then f else if 1 / 2 < r then f + 1 else if even f then f else f + 1)"

text \<open>The exponent of the last bit: \<open>x\<close> has 53 bits above it, fewer at the lower end of the range.\<close>

definition ulp_exp :: "rat \<Rightarrow> int" where
  "ulp_exp x = (case quotient_of x of (p, q) \<Rightarrow>
     let e = bitlen p - bitlen q in
     max (- 1074) ((if x < 2 powi e then e else e + 1) - 53))"

definition round_double :: "rat \<Rightarrow> rat" where
  "round_double x =
     (if x = 0 then 0
      else let u = 2 powi ulp_exp x in of_int (round_even (x / u)) * u)"

lemma round_even_near: "\<bar>of_int (round_even x) - x\<bar> \<le> 1 / 2"
proof -
  have "of_int \<lfloor>x\<rfloor> \<le> x" "x < of_int \<lfloor>x\<rfloor> + 1" by linarith+
  then show ?thesis by (auto simp: round_even_def Let_def abs_le_iff)
qed

lemma round_even_int [simp]: "round_even (of_int n) = n"
  by (simp add: round_even_def)

lemma round_even_le: "x \<le> of_int n \<Longrightarrow> round_even x \<le> n"
proof -
  assume x: "x \<le> of_int n"
  show ?thesis
  proof (cases "x = of_int n")
    case False
    with x have "\<lfloor>x\<rfloor> < n" by (simp add: floor_less_iff)
    then show ?thesis by (simp add: round_even_def Let_def)
  qed simp
qed

lemma round_even_nonneg: "0 \<le> x \<Longrightarrow> 0 \<le> round_even x"
  by (simp add: round_even_def Let_def)

lemma round_even_eq:
  assumes "\<bar>x - of_int n\<bar> < 1 / 2"
  shows "round_even x = n"
proof -
  have "\<bar>of_int (round_even x) - of_int n :: rat\<bar> < 1"
    using round_even_near [of x] assms by linarith
  then have "\<bar>round_even x - n\<bar> < 1" by (metis of_int_abs of_int_diff of_int_less_1_iff)
  then show ?thesis by simp
qed

text \<open>The exponent is the right one.\<close>

lemma bitlen_ge:
  assumes "0 < p"
  shows "(2 :: rat) powi (bitlen p - 1) \<le> of_int p \<and> of_int p < (2 :: rat) powi bitlen p"
proof -
  from assms have pos: "0 < bitlen p"
    using bitlen_nonneg [of p] bitlen_eq_zero_iff [of p] by linarith
  note b = bitlen_bounds [OF assms]
  have "(2 :: rat) ^ nat (bitlen p - 1) \<le> of_int p"
    using conjunct1 [OF b] by (metis of_int_le_iff of_int_numeral of_int_power)
  moreover have "of_int p < (2 :: rat) ^ nat (bitlen p)"
    using conjunct2 [OF b] by (metis of_int_less_iff of_int_numeral of_int_power)
  ultimately show ?thesis using pos by (simp add: power_int_def)
qed

lemma ulp_exp_bounds:
  assumes "0 < x"
  shows "x < 2 powi (ulp_exp x + 53)" and "ulp_exp x = - 1074 \<or> 2 powi (ulp_exp x + 52) \<le> x"
proof -
  obtain p q where pq: "quotient_of x = (p, q)" by (cases "quotient_of x")
  then have q: "0 < q" and x: "x = of_int p / of_int q"
    by (simp_all add: quotient_of_denom_pos quotient_of_div)
  with assms have p: "0 < p" by (simp add: zero_less_divide_iff)
  define e where "e = bitlen p - bitlen q"
  note bp = bitlen_ge [OF p] and bq = bitlen_ge [OF q]
  have qq: "(0 :: rat) < of_int q" using q by simp
  have "x < 2 powi bitlen p / 2 powi (bitlen q - 1)"
    unfolding x using bp bq p qq by (intro frac_less) auto
  also have "\<dots> = 2 powi (e + 1)" by (simp add: e_def power_int_diff [symmetric] algebra_simps)
  finally have up: "x < 2 powi (e + 1)" .
  have "2 powi (bitlen p - 1) / 2 powi bitlen q < x"
    unfolding x using bp bq p qq by (intro frac_less2) auto
  moreover have "2 powi (bitlen p - 1) / 2 powi bitlen q = (2 :: rat) powi (e - 1)"
    by (simp add: e_def power_int_diff [symmetric] diff_diff_eq add.commute)
  ultimately have low: "2 powi (e - 1) \<le> x" by simp
  define f where "f = (if x < 2 powi e then e else e + 1)"
  have f: "x < 2 powi f" "2 powi (f - 1) \<le> x" using up low by (auto simp: f_def)
  have u: "ulp_exp x = max (- 1074) (f - 53)"
    by (simp add: ulp_exp_def pq f_def e_def Let_def)
  have "(2 :: rat) powi f \<le> 2 powi (ulp_exp x + 53)"
    by (intro power_int_increasing) (simp_all add: u)
  with f(1) show "x < 2 powi (ulp_exp x + 53)" by linarith
  show "ulp_exp x = - 1074 \<or> 2 powi (ulp_exp x + 52) \<le> x"
    using f(2) by (auto simp: u max_def)
qed

lemma round_double_nonneg: "0 \<le> x \<Longrightarrow> 0 \<le> round_double x"
  by (simp add: round_double_def Let_def round_even_nonneg)

text \<open>The relative error of a normal number.\<close>

lemma round_double_near:
  assumes "2 powi (- 1022) \<le> x"
  shows "\<bar>round_double x - x\<bar> \<le> x * 2 powi (- 53)"
proof -
  define u :: rat where "u = 2 powi ulp_exp x"
  have u: "0 < u" by (simp add: u_def)
  have "(0 :: rat) < 2 powi (- 1022)" by (rule zero_less_power_int) simp
  with assms have x: "0 < x" by linarith
  have "2 powi (ulp_exp x + 52) \<le> x"
    using ulp_exp_bounds(2) [OF x] assms by auto
  then have "u * 2 ^ 52 \<le> x" by (simp add: u_def power_int_add)
  moreover have "\<bar>of_int (round_even (x / u)) - x / u\<bar> * u \<le> 1 / 2 * u"
    using u round_even_near [of "x / u"] by (intro mult_right_mono) auto
  moreover have "\<bar>of_int (round_even (x / u)) - x / u\<bar> * u = \<bar>round_double x - x\<bar>"
  proof -
    have "(of_int (round_even (x / u)) - x / u) * u = round_double x - x"
      using x u by (simp add: round_double_def u_def [symmetric] Let_def left_diff_distrib)
    then show ?thesis using u by (metis abs_mult abs_of_pos)
  qed
  ultimately show ?thesis by (simp add: power_int_minus field_simps)
qed

text \<open>Integers below \<open>2 ^ 53\<close> are exact, and rounding does not cross them.\<close>

lemma small_ulp:
  assumes "0 < x" "x < 2 ^ 53"
  shows "\<exists>k. 2 powi ulp_exp x = (1 :: rat) / 2 ^ k"
proof -
  have "ulp_exp x + 52 < 53"
  proof (cases "ulp_exp x = - 1074")
    case False
    then have "2 powi (ulp_exp x + 52) \<le> x" using ulp_exp_bounds(2) [OF assms(1)] by simp
    with assms(2) have "\<not> (2 :: rat) powi 53 \<le> 2 powi (ulp_exp x + 52)" by simp
    then show ?thesis using power_int_increasing [of 53 "ulp_exp x + 52" "2 :: rat"] by linarith
  qed simp
  then have "ulp_exp x = - int (nat (- ulp_exp x))" by simp
  then have "(2 :: rat) powi ulp_exp x = 1 / 2 ^ nat (- ulp_exp x)"
    by (metis power_int_minus_divide power_int_of_nat)
  then show ?thesis by blast
qed

lemma round_double_le:
  assumes "0 < x" "x < 2 ^ 53" "x \<le> of_int n"
  shows "round_double x \<le> of_int n"
proof -
  obtain k where k: "2 powi ulp_exp x = (1 :: rat) / 2 ^ k" using small_ulp [OF assms(1,2)] by blast
  have "x * 2 ^ k \<le> of_int (n * 2 ^ k)" using assms(3) by simp
  then have "round_even (x * 2 ^ k) \<le> n * 2 ^ k" by (rule round_even_le)
  then have "(of_int (round_even (x * 2 ^ k)) :: rat) \<le> of_int (n * 2 ^ k)" by (simp only: of_int_le_iff)
  then show ?thesis using assms(1) by (simp add: round_double_def k field_simps)
qed

lemma round_double_int:
  assumes "0 \<le> n" "n < 2 ^ 53"
  shows "round_double (of_int n) = of_int n"
proof (cases "n = 0")
  case False
  then have "(0 :: rat) < of_int n" "(of_int n :: rat) < 2 ^ 53"
    using assms by (simp, metis of_int_less_iff of_int_numeral of_int_power)
  then obtain k where k: "2 powi ulp_exp (of_int n) = (1 :: rat) / 2 ^ k" using small_ulp by blast
  have "round_even (of_int n * 2 ^ k) = n * 2 ^ k"
    using round_even_int [of "n * 2 ^ k"] by simp
  then show ?thesis by (simp add: round_double_def k)
qed (simp add: round_double_def)

section \<open>Doubles\<close>

record double =
  db_neg :: bool
  db_mag :: rat

definition double_of_i64 :: "int \<Rightarrow> double" where
  "double_of_i64 n = \<lparr>db_neg = n < 0, db_mag = round_double (of_int \<bar>n\<bar>)\<rparr>"

definition double_div :: "double \<Rightarrow> double \<Rightarrow> double" where
  "double_div a b = \<lparr>db_neg = (db_neg a \<noteq> db_neg b), db_mag = round_double (db_mag a / db_mag b)\<rparr>"

definition double_mul :: "double \<Rightarrow> double \<Rightarrow> double" where
  "double_mul a b = \<lparr>db_neg = (db_neg a \<noteq> db_neg b), db_mag = round_double (db_mag a * db_mag b)\<rparr>"

text \<open>\<open>x.ceil() as i64\<close> and \<open>x.round() as usize\<close>: the casts saturate, \<open>round\<close> takes ties away from 0.\<close>

definition ceil_i64 :: "double \<Rightarrow> int" where
  "ceil_i64 v =
     max (- (2 ^ 63)) (min (2 ^ 63 - 1) (if db_neg v then - \<lfloor>db_mag v\<rfloor> else \<lceil>db_mag v\<rceil>))"

definition round_usize :: "double \<Rightarrow> nat" where
  "round_usize v = (if db_neg v then 0 else min (2 ^ 64 - 1) (nat \<lfloor>db_mag v + 1 / 2\<rfloor>))"

text \<open>\<open>{:.2}\<close>: the exact value to two decimals, ties to even.\<close>

definition fixed2 :: "double \<Rightarrow> string" where
  "fixed2 v =
     (let h = nat (round_even (db_mag v * 100)) in
      (if db_neg v then ''-'' else []) @ nat_to_dec (h div 100) @ ''.'' @
      [hex_char (h mod 100 div 10), hex_char (h mod 10)])"

section \<open>Parsing\<close>

text \<open>\<open>str::parse::<f64>\<close>: an optional sign, digits with an optional point (at least one digit), an
  optional exponent. \<open>inf\<close> and \<open>nan\<close> are not finite, so here they are rejected like an error. The
  literal is rounded once.\<close>

definition is_dec_digit :: "char \<Rightarrow> bool" where
  "is_dec_digit c \<longleftrightarrow> 48 \<le> char_code c \<and> char_code c \<le> 57"

definition split_sign :: "string \<Rightarrow> bool \<times> string" where
  "split_sign s = (case s of
     [] \<Rightarrow> (False, [])
   | c # cs \<Rightarrow> if c = CHR ''-'' then (True, cs) else if c = CHR ''+'' then (False, cs) else (False, s))"

definition parse_exponent :: "string \<Rightarrow> int option" where
  "parse_exponent s = (case s of
     [] \<Rightarrow> Some 0
   | c # cs \<Rightarrow>
       if c \<noteq> CHR ''e'' \<and> c \<noteq> CHR ''E'' then None
       else (case split_sign cs of (neg, ds) \<Rightarrow>
         if ds = [] \<or> \<not> list_all is_dec_digit ds then None
         else map_option (\<lambda>n. if neg then - int n else int n) (digits_value 10 0 ds)))"

definition parse_number :: "string \<Rightarrow> (bool \<times> rat) option" where
  "parse_number s = (case split_sign s of (neg, t) \<Rightarrow>
     let ip = takeWhile is_dec_digit t;
         rest = dropWhile is_dec_digit t;
         (fp, tail) = (case rest of
            c # cs \<Rightarrow> if c = CHR ''.'' then (takeWhile is_dec_digit cs, dropWhile is_dec_digit cs) else ([], rest)
          | [] \<Rightarrow> ([], []))
     in if ip @ fp = [] then None
        else (case (digits_value 10 0 (ip @ fp), parse_exponent tail) of
            (Some n, Some e) \<Rightarrow> Some (neg, of_nat n * 10 powi (e - int (length fp)))
          | _ \<Rightarrow> None))"

definition to_number :: "string \<Rightarrow> double" where
  "to_number s = (case parse_number (str_trim s) of
     None \<Rightarrow> \<lparr>db_neg = False, db_mag = 0\<rparr>
   | Some (neg, x) \<Rightarrow>
       let r = round_double x in
       if 2 ^ 1024 \<le> r then \<lparr>db_neg = False, db_mag = 0\<rparr> else \<lparr>db_neg = neg, db_mag = r\<rparr>)"

section \<open>Formatters\<close>

definition trim_end_char :: "char \<Rightarrow> string \<Rightarrow> string" where
  "trim_end_char c s = rev (dropWhile (\<lambda>x. x = c) (rev s))"

definition trim_zeros :: "string \<Rightarrow> string" where
  "trim_zeros s = (if CHR ''.'' \<in> set s then trim_end_char CHR ''.'' (trim_end_char CHR ''0'' s) else s)"

definition format_compact :: "double \<Rightarrow> string" where
  "format_compact n =
     (let (d, suffix) =
        (if 10 ^ 12 \<le> db_mag n then (10 ^ 12, ''T'') else if 10 ^ 9 \<le> db_mag n then (10 ^ 9, ''B'')
         else if 10 ^ 6 \<le> db_mag n then (10 ^ 6, ''M'') else if 10 ^ 3 \<le> db_mag n then (10 ^ 3, ''K'')
         else (1, [])) in
      trim_zeros (fixed2 (double_div n \<lparr>db_neg = False, db_mag = d\<rparr>)) @ suffix)"

definition format_pct_str :: "string \<Rightarrow> string" where
  "format_pct_str s = fixed2 (to_number s) @ ''%''"

section \<open>Laws\<close>

text \<open>Rounding a proper fraction \<open>a / b\<close> between \<open>q\<close> and \<open>q + 1\<close> does not reach \<open>q\<close>.\<close>

lemma rounded_fraction_above:
  fixes a b q :: int
  assumes "1 \<le> a" "a < 2 ^ 53" "0 < b" "b < 2 ^ 63" "b * q + 1 \<le> a"
  shows "of_int q < round_double (of_int a / of_int b)"
proof -
  let ?x = "of_int a / of_int b :: rat"
  have num: "(1 :: rat) \<le> of_int a" "(0 :: rat) < of_int b" "(of_int a :: rat) < 2 ^ 53" "(of_int b :: rat) < 2 ^ 63"
  proof -
    show "(1 :: rat) \<le> of_int a" "(0 :: rat) < of_int b" using assms(1,3) by simp_all
    show "(of_int a :: rat) < 2 ^ 53" "(of_int b :: rat) < 2 ^ 63"
      using assms(2,4) by (metis of_int_less_iff of_int_numeral of_int_power)+
  qed
  have "(of_int (b * q + 1) :: rat) \<le> of_int a" using assms(5) by (simp only: of_int_le_iff)
  then have "(of_int b * of_int q + 1) / of_int b \<le> ?x" using num(2) by (intro divide_right_mono) simp_all
  then have above: "of_int q + 1 / of_int b \<le> ?x" using num(2) by (simp add: add_divide_distrib)
  have "(2 :: rat) powi (- 1022) \<le> 2 powi (- 63)" by (intro power_int_increasing) simp_all
  also have "\<dots> \<le> 1 / of_int b" using num(2,4) by (simp add: power_int_minus field_simps)
  also have "\<dots> \<le> ?x" using num(1,2) by (intro divide_right_mono) simp_all
  finally have "\<bar>round_double ?x - ?x\<bar> \<le> ?x * 2 powi (- 53)" by (rule round_double_near)
  moreover have "?x * 2 powi (- 53) < 1 / of_int b"
    using num(2,3) by (simp add: power_int_minus field_simps)
  ultimately show ?thesis using above by linarith
qed

text \<open>The quotient of two small integers, rounded, has the same ceiling.\<close>

lemma ceiling_of_rounded_quotient:
  assumes "0 \<le> a" "a < 2 ^ 53" "0 < b" "b < 2 ^ 63"
  shows "\<lceil>round_double (of_int a / of_int b)\<rceil> = - ((- a) div b)"
proof (cases "b dvd a")
  case True
  then obtain q where q: "a = b * q" by (rule dvdE)
  have "0 \<le> q" using assms(1,3) q by (simp add: zero_le_mult_iff)
  then have "q \<le> a" using assms(3) q mult_right_mono [of 1 b q] by simp
  with assms(2) \<open>0 \<le> q\<close> have "round_double (of_int q) = of_int q" by (intro round_double_int) auto
  moreover have "(- a) div b = - q" using q assms(3) by (metis mult_minus_right nonzero_mult_div_cancel_left less_irrefl)
  ultimately show ?thesis using assms(3) by (simp add: q)
next
  case False
  let ?x = "of_int a / of_int b :: rat"
  define n where "n = \<lceil>?x\<rceil>"
  have a: "1 \<le> a" using False assms(1) by (cases "a = 0") auto
  have b: "(0 :: rat) < of_int b" "(1 :: rat) \<le> of_int b" using assms(3) by simp_all
  have n: "n = - ((- a) div b)" by (simp add: n_def ceiling_divide_eq_div)
  have "of_int (n - 1) < ?x" "?x \<le> of_int n" unfolding n_def by linarith+
  then have "of_int (b * (n - 1)) < (of_int a :: rat)" using b by (simp add: pos_less_divide_eq mult.commute)
  then have "b * (n - 1) + 1 \<le> a" by (simp only: of_int_less_iff)
  note above = rounded_fraction_above [OF a assms(2-4) this]
  have "?x \<le> of_int a" using a b by (simp add: pos_divide_le_eq)
  also have "\<dots> < 2 ^ 53" using assms(2) by (metis of_int_less_iff of_int_numeral of_int_power)
  finally have "round_double ?x \<le> of_int n"
    using a b \<open>?x \<le> of_int n\<close> by (intro round_double_le) simp_all
  with above have "\<lceil>round_double ?x\<rceil> = n" by (simp add: ceiling_eq_iff)
  then show ?thesis using n by simp
qed

text \<open>A number of hundredths survives parsing and printing.\<close>

lemma hundredths_survive:
  assumes "h < 2 ^ 52"
  shows "round_even (round_double (of_nat h / 100) * 100) = int h"
proof (cases "h = 0")
  case False
  let ?x = "of_nat h / 100 :: rat"
  have h: "(1 :: rat) \<le> of_nat h" "(of_nat h :: rat) < 2 ^ 52"
    using False by simp (use assms in \<open>metis of_nat_less_iff of_nat_numeral of_nat_power\<close>)
  have "(2 :: rat) powi (- 1022) \<le> 2 powi (- 7)" by (intro power_int_increasing) simp_all
  also have "\<dots> \<le> ?x" using h(1) by (simp add: power_int_minus)
  finally have "\<bar>round_double ?x - ?x\<bar> \<le> ?x * 2 powi (- 53)" by (rule round_double_near)
  then have "\<bar>round_double ?x - ?x\<bar> * 100 \<le> ?x * 2 powi (- 53) * 100" by simp
  also have "\<dots> < 1 / 2" using h(2) by (simp add: power_int_minus)
  finally have "\<bar>round_double ?x * 100 - of_int (int h)\<bar> < 1 / 2" by (simp add: abs_if split: if_splits)
  then show ?thesis by (rule round_even_eq)
qed (simp add: round_double_def round_even_def)

lemma white_space_ends:
  "w \<in> set white_space \<Longrightarrow> char_code (hd w) \<notin> {33..127} \<and> char_code (last w) \<notin> {33..127}"
  by (auto simp: white_space_def char_code_def)

lemma str_trim_visible:
  assumes "s \<noteq> []" "char_code (hd s) \<in> {33..127}" "char_code (last s) \<in> {33..127}"
  shows "str_trim s = s"
proof -
  have "\<not> starts_with s w" if w: "w \<in> set white_space" for w
  proof
    assume "starts_with s w"
    then obtain zs where "s = w @ zs" by (auto simp: str_simps prefix_def)
    then have "hd s = hd w" using white_space_nonempty [OF w] by simp
    then show False using white_space_ends [OF w] assms(2) by simp
  qed
  then have "ws_at_start s = None" by (auto simp: ws_at_start_def find_None_iff)
  moreover have "\<not> ends_with s w" if w: "w \<in> set white_space" for w
  proof
    assume "ends_with s w"
    then obtain zs where "s = zs @ w" by (auto simp: str_simps suffix_def)
    then have "last s = last w" using white_space_nonempty [OF w] by simp
    then show False using white_space_ends [OF w] assms(3) by simp
  qed
  then have "ws_at_end s = None" by (auto simp: ws_at_end_def find_None_iff)
  ultimately show ?thesis
    by (simp add: str_trim_def str_trim_start.simps [of s] str_trim_end.simps [of s])
qed

lemma hex_char_digit [simp]: "d < 10 \<Longrightarrow> is_dec_digit (hex_char d)"
  by (simp add: is_dec_digit_def hex_char_def)

lemma nat_to_dec_digits: "c \<in> set (nat_to_dec n) \<Longrightarrow> is_dec_digit c"
proof (induction n rule: nat_to_dec.induct)
  case (1 n)
  then show ?case by (cases "n < 10") (auto simp: nat_to_dec.simps [of n])
qed

text \<open>The text of a number of hundredths.\<close>

definition hundredths :: "nat \<Rightarrow> string" where
  "hundredths h = nat_to_dec (h div 100) @ ''.'' @ [hex_char (h mod 100 div 10), hex_char (h mod 10)]"

lemma parse_hundredths: "parse_number (hundredths h) = Some (False, of_nat h / 100)"
proof -
  let ?i = "nat_to_dec (h div 100)" and ?f = "[hex_char (h mod 100 div 10), hex_char (h mod 10)]"
  have dot: "\<not> is_dec_digit CHR ''.''" by (simp add: is_dec_digit_def char_code_def)
  have f: "\<forall>c\<in>set ?f. is_dec_digit c" by simp
  obtain d where "d < 10" "hd ?i = hex_char d" using hd_nat_to_dec by blast
  then have sign: "split_sign (hundredths h) = (False, hundredths h)"
    by (cases ?i) (auto simp: split_sign_def hundredths_def hex_char_not_plus hex_char_def char_code_def
        dest!: arg_cong [where f = char_code])
  have "takeWhile is_dec_digit (?i @ ''.'' @ ?f) = ?i @ takeWhile is_dec_digit (''.'' @ ?f)"
    by (rule takeWhile_append2) (rule nat_to_dec_digits)
  moreover have "dropWhile is_dec_digit (?i @ ''.'' @ ?f) = dropWhile is_dec_digit (''.'' @ ?f)"
    by (rule dropWhile_append2) (rule nat_to_dec_digits)
  ultimately have "takeWhile is_dec_digit (hundredths h) = ?i" "dropWhile is_dec_digit (hundredths h) = ''.'' @ ?f"
    using dot by (simp_all add: hundredths_def)
  moreover have "digits_value 10 0 (?i @ ?f) = Some h"
  proof -
    have "(h div 100 * 10 + h mod 100 div 10) * 10 + h mod 10 = h"
    proof -
      have "h mod 100 = 10 * (h mod 100 div 10) + h mod 10"
        using div_mult_mod_eq [of "h mod 100" 10] by (simp add: mod_mod_cancel)
      moreover have "(a * 10 + b) * 10 + c = a * 100 + (10 * b + c)" for a b c :: nat by simp
      ultimately show ?thesis using div_mult_mod_eq [of h 100] by metis
    qed
    then show ?thesis by (simp add: digits_value_append digits_value_dec)
  qed
  ultimately show ?thesis
    by (simp add: parse_number_def sign parse_exponent_def power_int_minus)
qed

lemma trim_hundredths: "str_trim (hundredths h) = hundredths h"
proof (rule str_trim_visible)
  obtain d where d: "d < 10" "hd (nat_to_dec (h div 100)) = hex_char d" using hd_nat_to_dec by blast
  then show "char_code (hd (hundredths h)) \<in> {33..127}"
    by (simp add: hundredths_def hex_char_def)
  show "char_code (last (hundredths h)) \<in> {33..127}" by (simp add: hundredths_def hex_char_def)
qed (simp add: hundredths_def)

text \<open>A percentage of two decimals is shown as it was served.\<close>

theorem format_pct_str_exact:
  assumes "h < 2 ^ 52"
  shows "format_pct_str (hundredths h) = hundredths h @ ''%''"
proof -
  let ?r = "round_double (of_nat h / 100)"
  have "?r < 2 ^ 1024"
  proof (cases "h = 0")
    case False
    have h: "(of_nat h :: rat) < 2 ^ 52" using assms by (metis of_nat_less_iff of_nat_numeral of_nat_power)
    then have "?r \<le> of_int (int h)" using False by (intro round_double_le) simp_all
    then have "?r < 2 ^ 52" using h by simp
    then show ?thesis by (rule less_le_trans) simp
  qed (simp add: round_double_def)
  then have "to_number (hundredths h) = \<lparr>db_neg = False, db_mag = ?r\<rparr>"
    by (simp add: to_number_def trim_hundredths parse_hundredths Let_def not_le)
  then show ?thesis
    using hundredths_survive [OF assms] by (simp add: format_pct_str_def fixed2_def hundredths_def Let_def)
qed

lemma hex_char_binary: "hex_char 0 = CHR ''0''" "hex_char (Suc 0) = CHR ''1''" by code_simp+

text \<open>Just below a million the rounding does not carry into the suffix: 999999 is shown as 1000K.\<close>

lemma compact_carry: "format_compact (to_number ''999999'') = ''1000K''"
proof -
  have t: "str_trim ''999999'' = ''999999''" by (rule str_trim_visible) (simp_all add: char_code_def)
  have n: "round_double 999999 = 999999" using round_double_int [of 999999] by simp
  have "parse_number ''999999'' = Some (False, 999999)"
    by (simp add: parse_number_def split_sign_def is_dec_digit_def char_code_def digit_value_def parse_exponent_def)
  then have v: "to_number ''999999'' = \<lparr>db_neg = False, db_mag = 999999\<rparr>"
    by (simp add: to_number_def t n)
  have "(2 :: rat) powi (- 1022) \<le> 2 powi 0" by (intro power_int_increasing) simp_all
  then have "\<bar>round_double (999999 / 1000) - 999999 / 1000\<bar> \<le> 999999 / 1000 * 2 powi (- 53)"
    by (intro round_double_near) simp
  also have "\<dots> \<le> (1 / 1000 :: rat)" by (simp add: power_int_minus)
  finally have "\<bar>round_double (999999 / 1000) * 100 - of_int 100000\<bar> < 1 / 2"
    unfolding abs_le_iff abs_less_iff by linarith
  then have "round_even (round_double (999999 / 1000) * 100) = 100000" by (rule round_even_eq)
  then show ?thesis
    by (simp add: format_compact_def v double_div_def fixed2_def Let_def nat_to_dec.simps hex_char_binary
        trim_zeros_def trim_end_char_def)
qed

end
