(* ===== verification/Screens.thy ===== *)
theory Screens
  imports Tui Floats
begin

text \<open>
  What the terminal program puts on its screens, \<open>src/crates/tui/src/ui\<close>: the cards and the distribution
  of the overview, the filter line, the rows and the footer of the list, the panel of the detail, the
  status line and the help, and the frame that \<open>draw\<close> assembles from them. The placement of the parts
  and the drawing itself belong to \<open>ratatui\<close>.
\<close>

text \<open>A panel shows its content, or a line in a color.\<close>

datatype 'a panel_body = Banner string color | Content 'a

definition short_dash :: string where "short_dash = map char_of [0xE2 :: nat, 0x80, 0x93]"
definition full_block :: string where "full_block = map char_of [0xE2 :: nat, 0x96, 0x88]"

section \<open>Overview\<close>

record card =
  cd_title :: string
  cd_value :: string
  cd_color :: color

definition latest_block_card :: "app \<Rightarrow> card" where
  "latest_block_card a =
     \<lparr>cd_title = ''Latest block'',
      cd_value = (case ap_latest_block a of
         Loaded (Some n) \<Rightarrow> group_thousands n
       | Loaded None \<Rightarrow> long_dash
       | LoadFailed _ \<Rightarrow> ''error''
       | _ \<Rightarrow> ellipsis),
      cd_color = Cyan\<rparr>"

text \<open>\<open>Iterator::sum\<close> on \<open>i64\<close>.\<close>

fun sum_i64 :: "int \<Rightarrow> int list \<Rightarrow> (unit, int) outcome" where
  "sum_i64 acc [] = Ret acc"
| "sum_i64 acc (n # ns) = (if i64_ok (acc + n) then sum_i64 (acc + n) ns else Panic)"

definition total_failed_card :: "app \<Rightarrow> (unit, card) outcome" where
  "total_failed_card a =
     (let card = (\<lambda>v c. \<lparr>cd_title = ''Total failed tx'', cd_value = v, cd_color = c\<rparr>) in
      case ap_analysis a of
        Loaded rows \<Rightarrow> (case sum_i64 0 (map dn_failure_count rows) of
            Ret n \<Rightarrow> Ret (card (group_thousands n) White)
          | _ \<Rightarrow> Panic)
      | LoadFailed _ \<Rightarrow> Ret (card ''error'' Red)
      | _ \<Rightarrow> Ret (card ellipsis DarkGray))"

text \<open>\<open>max_by_key\<close>: the last of the greatest.\<close>

fun max_by_key :: "('a \<Rightarrow> int) \<Rightarrow> 'a list \<Rightarrow> 'a option" where
  "max_by_key f [] = None"
| "max_by_key f (x # xs) = (case max_by_key f xs of
     None \<Rightarrow> Some x
   | Some y \<Rightarrow> if f x \<le> f y then Some y else Some x)"

definition top_category_card :: "app \<Rightarrow> card" where
  "top_category_card a =
     (let card = (\<lambda>v c. \<lparr>cd_title = ''Top category'', cd_value = v, cd_color = c\<rparr>) in
      case ap_analysis a of
        Loaded rows \<Rightarrow> (case max_by_key dn_failure_count rows of
            Some r \<Rightarrow> card (error_category_label (dn_error_category r)) (error_category_color (dn_error_category r))
          | None \<Rightarrow> card ''none'' DarkGray)
      | LoadFailed _ \<Rightarrow> card ''error'' Red
      | _ \<Rightarrow> card ellipsis DarkGray)"

definition label_w :: nat where "label_w = 24"
definition stats_w :: nat where "stats_w = 42"

text \<open>The length of a bar before it is clamped, computed on \<open>f64\<close>.\<close>

definition bar_length :: "int \<Rightarrow> int \<Rightarrow> nat \<Rightarrow> nat" where
  "bar_length n mx bar_w = round_usize
     (double_mul (double_div (double_of_i64 n) (double_of_i64 mx)) (double_of_i64 (int bar_w)))"

definition bar_line :: "(string \<Rightarrow> timestamp option) \<Rightarrow> timestamp \<Rightarrow> int \<Rightarrow> nat \<Rightarrow> analysis_dto \<Rightarrow> text_line" where
  "bar_line parse now mx bar_w r =
     (let cat = normalize_category (dn_error_category r);
          filled = max (if 0 < dn_failure_count r then 1 else 0) (min bar_w (bar_length (dn_failure_count r) mx bar_w)) in
      [(plain, padded label_w (error_category_label cat)),
       (colored (error_category_color cat), concat (replicate filled full_block)),
       (plain, '' '' @ int_to_dec (dn_failure_count r) @ '' ('' @ format_pct_str (dn_pct_of_total r) @ '') '' @ middle_dot @
          '' '' @ format_compact (to_number (dn_avg_gas_wasted r)) @ '' gas '' @ middle_dot @ '' '' @
          time_ago_at parse (dn_most_recent_failure r) now)])"

definition distribution_lines :: "(string \<Rightarrow> timestamp option) \<Rightarrow> timestamp \<Rightarrow> analysis_dto list \<Rightarrow>
    nat \<Rightarrow> text_line list" where
  "distribution_lines parse now rows width =
     (let mx = max (case rows of [] \<Rightarrow> 1 | _ \<Rightarrow> Max (set (map dn_failure_count rows))) 1;
          bar_w = max (width - (label_w + stats_w)) 1 in
      map (bar_line parse now mx bar_w) (sort_key (\<lambda>r. - dn_failure_count r) rows))"

definition distribution_panel :: "(string \<Rightarrow> timestamp option) \<Rightarrow> timestamp \<Rightarrow> nat \<Rightarrow> app \<Rightarrow>
    text_line list panel_body" where
  "distribution_panel parse now width a = (case ap_analysis a of
     Loaded rows \<Rightarrow> if rows \<noteq> [] then Content (distribution_lines parse now rows width)
       else Banner ''No failed transactions indexed yet.'' DarkGray
   | LoadFailed e \<Rightarrow> Banner (''Error: '' @ e) Red
   | _ \<Rightarrow> Banner (''Loading'' @ ellipsis) Yellow)"

section \<open>The list\<close>

definition filter_line :: "app \<Rightarrow> text_line" where
  "filter_line a =
     (let cat = (case fl_category (ap_filter a) of Some c \<Rightarrow> error_category_label c | None \<Rightarrow> ''ALL'') in
      [(label_style, '' Category: ''), (colored Cyan, ''['' @ cat @ '']''),
       (label_style, ''  Window: ''), (colored Cyan, ''['' @ window_label (fl_window (ap_filter a)) @ '']''),
       (label_style, ''   [c] category  [t] window'')])"

definition table_header :: "string list" where
  "table_header = [''tx hash'', ''category'', ''gas'', ''revert reason'', ''age'']"

definition table_row :: "(string \<Rightarrow> timestamp option) \<Rightarrow> timestamp \<Rightarrow> tx_dto \<Rightarrow> (unit, text_line) outcome" where
  "table_row parse now t =
     (let cat = normalize_category (dt_error_category t) in
      case truncate_hash (dt_tx_hash t) of
        Ret h \<Rightarrow> Ret [(plain, h), (colored (error_category_color cat), error_category_label cat),
          (plain, group_thousands (dt_gas_used t)), (plain, or_default (dt_revert_reason t) long_dash),
          (plain, time_ago_at parse (dt_timestamp t) now)]
      | _ \<Rightarrow> Panic)"

fun table_rows :: "(string \<Rightarrow> timestamp option) \<Rightarrow> timestamp \<Rightarrow> tx_dto list \<Rightarrow> (unit, text_line list) outcome" where
  "table_rows parse now [] = Ret []"
| "table_rows parse now (t # ts) = (case table_row parse now t of
     Ret r \<Rightarrow> (case table_rows parse now ts of Ret rs \<Rightarrow> Ret (r # rs) | _ \<Rightarrow> Panic)
   | _ \<Rightarrow> Panic)"

definition list_panel :: "(string \<Rightarrow> timestamp option) \<Rightarrow> timestamp \<Rightarrow> app \<Rightarrow>
    (unit, text_line list panel_body) outcome" where
  "list_panel parse now a = (case ap_failed a of
     Loaded p \<Rightarrow> if dp_data p \<noteq> []
       then (case table_rows parse now (dp_data p) of Ret rs \<Rightarrow> Ret (Content rs) | _ \<Rightarrow> Panic)
       else Ret (Banner ''No failed transactions match the current filter.'' DarkGray)
   | LoadFailed e \<Rightarrow> Ret (Banner (''Error: '' @ e) Red)
   | _ \<Rightarrow> Ret (Banner (''Loading'' @ ellipsis) Yellow))"

text \<open>The division of \<open>i64\<close> rounds towards zero.\<close>

definition quotient_i64 :: "int \<Rightarrow> int \<Rightarrow> int" where
  "quotient_i64 a b = (if 0 \<le> a then a div b else - (- a div b))"

text \<open>The number of pages, computed on \<open>f64\<close>.\<close>

definition page_count :: "int \<Rightarrow> int \<Rightarrow> int" where
  "page_count total_n limit = ceil_i64 (double_div (double_of_i64 total_n) (double_of_i64 limit))"

definition list_footer :: "app \<Rightarrow> (unit, string) outcome" where
  "list_footer a = (case ap_failed a of
     Loaded p \<Rightarrow>
       let pg = dp_pagination p;
           lim = max (dm_limit pg) 1;
           first = (if dm_total pg = 0 then 0 else dm_offset pg + 1);
           to = dm_offset pg + dm_count pg;
           pageno = quotient_i64 (dm_offset pg) lim + 1;
           pages = max (page_count (dm_total pg) lim) 1
       in if i64_ok first \<and> i64_ok to \<and> i64_ok pageno
          then Ret ('' page '' @ int_to_dec pageno @ ''/'' @ int_to_dec pages @ '' '' @ middle_dot @ '' showing '' @
            int_to_dec first @ short_dash @ int_to_dec to @ '' of '' @ int_to_dec (dm_total pg) @ '' '' @ middle_dot @
            '' [n] next  [b] prev'')
          else Panic
   | _ \<Rightarrow> Ret ('' '' @ long_dash))"

section \<open>The status line\<close>

definition spinner_frames :: "string list" where
  "spinner_frames = map (\<lambda>(a, b). map char_of [0xE2 :: nat, a, b])
     [(0xA0, 0x8B), (0xA0, 0x99), (0xA0, 0xB9), (0xA0, 0xB8), (0xA0, 0xBC),
      (0xA0, 0xB4), (0xA0, 0xA6), (0xA0, 0xA7), (0xA0, 0x87), (0xA0, 0x8F)]"

definition spinner_frame :: "u64 \<Rightarrow> string" where
  "spinner_frame tick = spinner_frames ! (unat tick mod length spinner_frames)"

definition updated_secs_ago :: "timestamp \<Rightarrow> app \<Rightarrow> int option" where
  "updated_secs_ago now a = map_option (\<lambda>t. (now - t) div 1000000) (ap_last_updated a)"

definition screen_hints :: "screen \<Rightarrow> string" where
  "screen_hints s = (let dot = '' '' @ middle_dot @ '' '' in case s of
     Overview \<Rightarrow> ''Tab switch'' @ dot @ ''r refresh'' @ dot @ ''p poll''
   | FailedTx \<Rightarrow> ''j/k move'' @ dot @ ''Enter detail'' @ dot @ ''c cat'' @ dot @ ''t window'' @ dot @ ''n/b page''
   | Detail \<Rightarrow> ''j/k scroll'' @ dot @ ''Esc back'')"

definition status_line :: "tui_config \<Rightarrow> timestamp \<Rightarrow> app \<Rightarrow> string" where
  "status_line config now a =
     (let dot = '' '' @ middle_dot @ '' '';
          spinner = (if is_busy a then spinner_frame (ap_tick a) @ '' '' else []);
          poll = (if ap_auto_poll a then ''poll on '' @ nat_to_dec (tc_refresh_interval_secs config) @ ''s''
                  else ''poll off'');
          updated = (case updated_secs_ago now a of
             Some s \<Rightarrow> ''updated '' @ int_to_dec s @ ''s ago''
           | None \<Rightarrow> long_dash)
      in spinner @ tc_api_url config @ dot @ poll @ dot @ updated @ dot @ screen_hints (ap_screen a) @ dot @
         ''? help'' @ dot @ ''q quit'')"

section \<open>The frame\<close>

definition detail_panel :: "(string \<Rightarrow> timestamp option) \<Rightarrow> (json \<Rightarrow> string) \<Rightarrow> timestamp \<Rightarrow> app \<Rightarrow>
    (unit, text_line list panel_body) outcome" where
  "detail_panel parse print now a = (case ap_detail a of
     Loaded d \<Rightarrow> (case detail_lines parse print now d of Ret ls \<Rightarrow> Ret (Content ls) | _ \<Rightarrow> Panic)
   | LoadFailed e \<Rightarrow> Ret (Banner (''Error: '' @ e) Red)
   | Loading \<Rightarrow> Ret (Banner (''Loading'' @ ellipsis) Yellow)
   | Idle \<Rightarrow> Ret (Banner ''Select a failed transaction (Enter on the Failed Tx tab).'' DarkGray))"

definition tab_titles :: "string list" where
  "tab_titles = [''[1] Overview'', ''[2] Failed Tx'', ''[3] Detail'']"

definition up_arrow :: string where "up_arrow = map char_of [0xE2 :: nat, 0x86, 0x91]"
definition down_arrow :: string where "down_arrow = map char_of [0xE2 :: nat, 0x86, 0x93]"

definition help_lines :: "string list" where
  "help_lines =
     [''amarillo-tui '' @ long_dash @ '' keys'', [],
      ''Tab / Shift+Tab    switch tab'',
      ''1 / 2 / 3          Overview / Failed Tx / Detail'',
      ''j / k  '' @ up_arrow @ '' / '' @ down_arrow @ ''       move selection / scroll'',
      ''Enter              open detail for selected row'',
      ''Esc                back'',
      ''c / t              cycle category / time window'',
      ''n / b              next / previous page'',
      ''r                  refresh now'',
      ''p                  toggle auto-poll'',
      ''? / Esc / q        close this help'',
      ''q / Ctrl+C         quit'']"

datatype screen_body =
    OverviewBody "card list" "text_line list panel_body"
  | ListBody text_line "text_line list panel_body" "nat option" string
  | DetailBody "text_line list panel_body" nat

record frame =
  fr_word_mark :: bool
  fr_tab :: string
  fr_body :: screen_body
  fr_status :: string
  fr_help :: "string list"

text \<open>The overview has the width of the terminal less two columns of border.\<close>

definition draw_body :: "(string \<Rightarrow> timestamp option) \<Rightarrow> (json \<Rightarrow> string) \<Rightarrow> timestamp \<Rightarrow> nat \<Rightarrow> app \<Rightarrow>
    (unit, screen_body) outcome" where
  "draw_body parse print now width a = (case ap_screen a of
     Overview \<Rightarrow> (case total_failed_card a of
         Ret c \<Rightarrow> Ret (OverviewBody [latest_block_card a, c, top_category_card a]
           (distribution_panel parse now (width - 2) a))
       | _ \<Rightarrow> Panic)
   | FailedTx \<Rightarrow> (case list_panel parse now a of
         Ret p \<Rightarrow> (case list_footer a of
             Ret f \<Rightarrow> Ret (ListBody (filter_line a) p (ap_selected a) f)
           | _ \<Rightarrow> Panic)
       | _ \<Rightarrow> Panic)
   | Detail \<Rightarrow> (case detail_panel parse print now a of
         Ret p \<Rightarrow> Ret (DetailBody p (ap_detail_scroll a))
       | _ \<Rightarrow> Panic))"

definition draw :: "tui_config \<Rightarrow> (string \<Rightarrow> timestamp option) \<Rightarrow> (json \<Rightarrow> string) \<Rightarrow> timestamp \<Rightarrow> nat \<Rightarrow> nat \<Rightarrow> app \<Rightarrow>
    (unit, frame) outcome" where
  "draw config parse print now width height a = (case draw_body parse print now width a of
     Ret b \<Rightarrow> Ret \<lparr>fr_word_mark = (18 \<le> height \<and> 34 \<le> width),
       fr_tab = tab_titles ! screen_index (ap_screen a), fr_body = b, fr_status = status_line config now a,
       fr_help = (if ap_show_help a then help_lines else [])\<rparr>
   | _ \<Rightarrow> Panic)"

section \<open>Laws\<close>

lemma max_by_key_None [simp]: "max_by_key f xs = None \<longleftrightarrow> xs = []"
  by (induction xs) (auto split: option.splits)

lemma max_by_key_greatest:
  "max_by_key f xs = Some x \<Longrightarrow> x \<in> set xs \<and> (\<forall>y\<in>set xs. f y \<le> f x)"
proof (induction xs arbitrary: x)
  case (Cons z zs)
  show ?case
  proof (cases "max_by_key f zs")
    case None
    with Cons.prems show ?thesis by simp
  next
    case (Some m)
    with Cons.IH have "m \<in> set zs" "\<forall>y\<in>set zs. f y \<le> f m" by simp_all
    with Some Cons.prems show ?thesis by (auto split: if_splits)
  qed
qed simp

lemma sum_i64_nonneg:
  assumes "list_all (\<lambda>n. 0 \<le> n) ns" "0 \<le> acc" "acc + sum_list ns < 2 ^ 63"
  shows "sum_i64 acc ns = Ret (acc + sum_list ns)"
  using assms
proof (induction ns arbitrary: acc)
  case (Cons n ns)
  then have "0 \<le> sum_list ns" by (intro sum_list_nonneg) (auto simp: list_all_iff)
  with Cons show ?case by (simp add: i64_ok_def add.assoc)
qed simp

lemma sum_i64_outcome: "sum_i64 acc ns = Panic \<or> (\<exists>n. sum_i64 acc ns = Ret n)"
  by (induction ns arbitrary: acc) auto

lemma truncate_hash_outcome: "truncate_hash s = Panic \<or> (\<exists>t. truncate_hash s = Ret t)"
  by (simp add: truncate_hash_def)

lemma table_row_outcome:
  "table_row parse now t = Panic \<longleftrightarrow> truncate_hash (dt_tx_hash t) = Panic"
  "table_row parse now t = Panic \<or> (\<exists>l. table_row parse now t = Ret l)"
  using truncate_hash_outcome [of "dt_tx_hash t"] by (auto simp: table_row_def Let_def)

lemma table_rows_outcome:
  "table_rows parse now ts = Panic \<longleftrightarrow> (\<exists>t\<in>set ts. truncate_hash (dt_tx_hash t) = Panic)"
  "table_rows parse now ts = Panic \<or> (\<exists>ls. table_rows parse now ts = Ret ls)"
proof (induction ts)
  case (Cons t ts)
  {
    case 1
    show ?case using Cons.IH table_row_outcome [of parse now t] by auto
  next
    case 2
    show ?case using Cons.IH table_row_outcome [of parse now t] by auto
  }
qed simp_all

lemma frame_line_outcome:
  "frame_line rid t = Panic \<longleftrightarrow> truncate_hash (dl_from_addr t) = Panic \<or>
     truncate_hash (or_default (dl_to_addr t) ''(create)'') = Panic"
  "frame_line rid t = Panic \<or> (\<exists>l. frame_line rid t = Ret l)"
  using truncate_hash_outcome [of "dl_from_addr t"]
    truncate_hash_outcome [of "or_default (dl_to_addr t) ''(create)''"] by (auto simp: frame_line_def)

lemma frame_lines_outcome:
  "frame_lines rid ts = Panic \<longleftrightarrow> (\<exists>t\<in>set ts. frame_line rid t = Panic)"
  "frame_lines rid ts = Panic \<or> (\<exists>ls. frame_lines rid ts = Ret ls)"
proof (induction ts)
  case (Cons t ts)
  {
    case 1
    show ?case using Cons.IH frame_line_outcome(2) [of rid t] by auto
  next
    case 2
    show ?case using Cons.IH frame_line_outcome(2) [of rid t] by auto
  }
qed simp_all

section \<open>What panics\<close>

text \<open>A text that \<open>truncate_hash\<close> cannot cut: a cut falls into a UTF-8 character.\<close>

definition cut_inside_char :: "string \<Rightarrow> bool" where
  "cut_inside_char s \<longleftrightarrow> 12 < length s \<and> \<not> (is_char_boundary s 6 \<and> is_char_boundary s (length s - 4))"

definition footer_overflows :: "meta_dto \<Rightarrow> bool" where
  "footer_overflows pg \<longleftrightarrow> \<not> (i64_ok (if dm_total pg = 0 then 0 else dm_offset pg + 1) \<and>
     i64_ok (dm_offset pg + dm_count pg) \<and> i64_ok (quotient_i64 (dm_offset pg) (max (dm_limit pg) 1) + 1))"

lemma truncate_hash_Panic: "truncate_hash s = Panic \<longleftrightarrow> cut_inside_char s"
  by (auto simp: truncate_hash_def cut_inside_char_def)

lemma cut_ascii: "list_all (\<lambda>c. char_code c < 128) s \<Longrightarrow> \<not> cut_inside_char s"
  by (auto simp: cut_inside_char_def is_char_boundary_def list_all_length
      dest: spec [of _ 6] spec [of _ "length s - 4"])

lemma list_footer_outcome:
  "list_footer a = Panic \<longleftrightarrow> (\<exists>p. ap_failed a = Loaded p \<and> footer_overflows (dp_pagination p))"
  "list_footer a = Panic \<or> (\<exists>t. list_footer a = Ret t)"
  by (cases "ap_failed a"; simp add: list_footer_def footer_overflows_def Let_def)+

lemma list_panel_outcome:
  "list_panel parse now a = Panic \<longleftrightarrow>
     (\<exists>p. ap_failed a = Loaded p \<and> (\<exists>t\<in>set (dp_data p). cut_inside_char (dt_tx_hash t)))"
  "list_panel parse now a = Panic \<or> (\<exists>b. list_panel parse now a = Ret b)"
proof -
  have "list_panel parse now a = Panic \<longleftrightarrow>
      (\<exists>p. ap_failed a = Loaded p \<and> dp_data p \<noteq> [] \<and> table_rows parse now (dp_data p) = Panic)"
    using table_rows_outcome(2) [of parse now]
    by (auto simp: list_panel_def split: loadable.split outcome.split) (metis outcome.distinct)+
  then show "list_panel parse now a = Panic \<longleftrightarrow>
      (\<exists>p. ap_failed a = Loaded p \<and> (\<exists>t\<in>set (dp_data p). cut_inside_char (dt_tx_hash t)))"
    unfolding table_rows_outcome(1) truncate_hash_Panic by (metis list.set_cases list.distinct(1))
  show "list_panel parse now a = Panic \<or> (\<exists>b. list_panel parse now a = Ret b)"
    by (auto simp: list_panel_def split: loadable.split outcome.split)
qed

lemma detail_panel_outcome:
  "detail_panel parse print now a = Panic \<longleftrightarrow> (\<exists>d. ap_detail a = Loaded d \<and> (\<exists>t\<in>set (dv_call_tree d).
     cut_inside_char (dl_from_addr t) \<or> cut_inside_char (or_default (dl_to_addr t) ''(create)'')))"
  "detail_panel parse print now a = Panic \<or> (\<exists>b. detail_panel parse print now a = Ret b)"
proof -
  have "detail_lines parse print now d = Panic \<longleftrightarrow> (\<exists>t\<in>set (dv_call_tree d).
     cut_inside_char (dl_from_addr t) \<or> cut_inside_char (or_default (dl_to_addr t) ''(create)''))" for d
    using frame_lines_outcome [of "map_option dl_trace_id (dv_root_cause d)" "dv_call_tree d"]
    unfolding frame_line_outcome(1) truncate_hash_Panic by (auto simp: detail_lines_def)
  moreover have "detail_lines parse print now d = Panic \<or> (\<exists>ls. detail_lines parse print now d = Ret ls)" for d
    by (simp add: detail_lines_def split: outcome.split)
  ultimately show "detail_panel parse print now a = Panic \<longleftrightarrow> (\<exists>d. ap_detail a = Loaded d \<and> (\<exists>t\<in>set (dv_call_tree d).
     cut_inside_char (dl_from_addr t) \<or> cut_inside_char (or_default (dl_to_addr t) ''(create)'')))"
    unfolding detail_panel_def by (cases "ap_detail a") (auto split: outcome.split, (metis outcome.distinct)+)
  show "detail_panel parse print now a = Panic \<or> (\<exists>b. detail_panel parse print now a = Ret b)"
    by (auto simp: detail_panel_def split: loadable.split outcome.split)
qed

lemma total_failed_card_outcome:
  "total_failed_card a = Panic \<longleftrightarrow>
     (\<exists>rows. ap_analysis a = Loaded rows \<and> sum_i64 0 (map dn_failure_count rows) = Panic)"
  "total_failed_card a = Panic \<or> (\<exists>c. total_failed_card a = Ret c)"
  using sum_i64_outcome [of 0] by (auto simp: total_failed_card_def Let_def split: loadable.split outcome.split)
    (metis outcome.distinct)+

text \<open>Exactly when drawing a frame panics, which ends the terminal program: on the overview, when the
  failure counts add up to more than an \<open>i64\<close> holds; on the list, when a transaction hash would be cut
  inside a UTF-8 character or a number of the footer does not fit; on the detail, when an address of
  the call tree would be cut inside a character. All of these come from the answers of the server; no
  ASCII hash or address can cause it.\<close>

theorem draw_panics_iff:
  "draw config parse print now width height a = Panic \<longleftrightarrow> (case ap_screen a of
     Overview \<Rightarrow> \<exists>rows. ap_analysis a = Loaded rows \<and> sum_i64 0 (map dn_failure_count rows) = Panic
   | FailedTx \<Rightarrow> \<exists>p. ap_failed a = Loaded p \<and>
       ((\<exists>t\<in>set (dp_data p). cut_inside_char (dt_tx_hash t)) \<or> footer_overflows (dp_pagination p))
   | Detail \<Rightarrow> \<exists>d. ap_detail a = Loaded d \<and> (\<exists>t\<in>set (dv_call_tree d).
       cut_inside_char (dl_from_addr t) \<or> cut_inside_char (or_default (dl_to_addr t) ''(create)'')))"
proof -
  have "draw_body parse print now width a \<noteq> Err u" for u
    by (simp add: draw_body_def split: screen.split outcome.split)
  then have "draw config parse print now width height a = Panic \<longleftrightarrow> draw_body parse print now width a = Panic"
    by (cases "draw_body parse print now width a") (simp_all add: draw_def)
  also have "\<dots> \<longleftrightarrow> (case ap_screen a of Overview \<Rightarrow> total_failed_card a = Panic
      | FailedTx \<Rightarrow> list_panel parse now a = Panic \<or> list_footer a = Panic
      | Detail \<Rightarrow> detail_panel parse print now a = Panic)"
    using total_failed_card_outcome(2) [of a] list_panel_outcome(2) [of parse now a] list_footer_outcome(2) [of a]
      detail_panel_outcome(2) [of parse print now a]
    by (cases "ap_screen a") (auto simp: draw_body_def)
  finally show ?thesis
    unfolding total_failed_card_outcome(1) list_panel_outcome(1) list_footer_outcome(1) detail_panel_outcome(1)
    by (cases "ap_screen a") (auto split: screen.split)
qed

section \<open>The footer\<close>

lemma page_count_exact:
  assumes "0 \<le> n" "n < 2 ^ 53" "0 < k" "k < 2 ^ 53"
  shows "page_count n k = - ((- n) div k)"
proof -
  have d: "double_of_i64 j = \<lparr>db_neg = False, db_mag = of_int j\<rparr>" if "0 \<le> j" "j < 2 ^ 53" for j
    using that round_double_int [OF that] by (simp add: double_of_i64_def)
  have "page_count n k = max (- (2 ^ 63)) (min (2 ^ 63 - 1) \<lceil>round_double (of_int n / of_int k)\<rceil>)"
    using assms by (simp add: page_count_def d double_div_def ceil_i64_def)
  moreover have "\<lceil>round_double (of_int n / of_int k)\<rceil> = - ((- n) div k)"
    using assms by (intro ceiling_of_rounded_quotient) auto
  moreover have "0 \<le> - ((- n) div k)" "- ((- n) div k) \<le> n"
  proof -
    show "0 \<le> - ((- n) div k)" using assms(1,3) by (simp add: div_nonpos_pos_le0)
    have "\<lceil>of_int n / of_int k :: rat\<rceil> \<le> n"
      using assms(1,3) by (simp add: ceiling_le_iff pos_divide_le_eq mult_le_cancel_left1 flip: of_int_mult)
    then show "- ((- n) div k) \<le> n" by (simp only: ceiling_divide_eq_div)
  qed
  ultimately show ?thesis using assms(2) by simp
qed

lemma div_before:
  fixes i k m :: int
  assumes "0 < k"
  shows "i div k + 1 \<le> m \<longleftrightarrow> i < k * m"
proof
  assume "i div k + 1 \<le> m"
  then have "k * (i div k + 1) \<le> k * m" using assms by (intro mult_left_mono) simp_all
  moreover have "i < k * (i div k + 1)"
    using mult_div_mod_eq [of k i] pos_mod_bound [OF assms, of i]
    by (simp only: distrib_left mult_1_right)
  ultimately show "i < k * m" by (rule less_le_trans [rotated])
next
  assume i: "i < k * m"
  show "i div k + 1 \<le> m"
  proof (rule ccontr)
    assume "\<not> i div k + 1 \<le> m"
    then have "k * m \<le> k * (i div k)" using assms by (intro mult_left_mono) simp_all
    also have "\<dots> \<le> i" using mult_div_mod_eq [of k i] pos_mod_sign [OF assms, of i] by linarith
    finally show False using i by simp
  qed
qed

text \<open>C34. The footer of the list is exact, although its page count is computed in floating point. For an
  offset that is not negative, also one beyond the end of the list, and fewer than \<open>2 ^ 53\<close> failures
  it shows: as the page the quotient of offset and limit, plus 1; as the number of pages the quotient
  of total and limit rounded up, at least 1; as the first row the one after the offset, or 0 in an
  empty list; as the last row and the total those of the answer. The page is one of the
  pages exactly if the offset lies before the end of the last page, in particular if it lies before
  the end of the list; for a list that shrinks below its offset between two polls the footer says, for
  instance, page 3/2.\<close>

theorem list_footer_exact:
  assumes "ap_failed a = Loaded p" "dp_pagination p = \<lparr>dm_limit = k, dm_offset = i, dm_count = c, dm_total = n\<rparr>"
    and "0 < k" "k < 2 ^ 53" "0 \<le> i" "i < 2 ^ 62" "0 \<le> n" "n < 2 ^ 53" "0 \<le> c" "c < 2 ^ 62"
  shows "list_footer a = Ret ('' page '' @ int_to_dec (i div k + 1) @ ''/'' @ int_to_dec (max 1 (- ((- n) div k))) @ '' '' @
      middle_dot @ '' showing '' @ int_to_dec (if n = 0 then 0 else i + 1) @ short_dash @ int_to_dec (i + c) @
      '' of '' @ int_to_dec n @ '' '' @ middle_dot @ '' [n] next  [b] prev'') \<and>
    (i div k + 1 \<le> max 1 (- ((- n) div k)) \<longleftrightarrow> i < k * max 1 (- ((- n) div k))) \<and>
    (i < n \<longrightarrow> i div k + 1 \<le> max 1 (- ((- n) div k)))"
proof -
  let ?P = "max 1 (- ((- n) div k))"
  have "0 \<le> i div k" using assms(3,5) by (simp add: pos_imp_zdiv_nonneg_iff)
  have "i div k \<le> i" using zdiv_mono2 [of i 1 k] assms(3,5) by simp
  have fits: "i64_ok (i + 1)" "i64_ok (i + c)" "i64_ok (i div k + 1)" "i64_ok 0"
    using \<open>0 \<le> i div k\<close> \<open>i div k \<le> i\<close> assms(5,6,9,10) by (simp_all add: i64_ok_def)
  have pages: "i div k + 1 \<le> ?P \<longleftrightarrow> i < k * ?P"
    by (rule div_before [OF assms(3)])
  have "- ((- n) div k) = \<lceil>of_int n / of_int k :: rat\<rceil>" by (simp add: ceiling_divide_eq_div)
  then have "of_int n / of_int k \<le> (of_int (- ((- n) div k)) :: rat)" by (simp only: le_of_int_ceiling)
  then have "(of_int n :: rat) \<le> of_int (- ((- n) div k)) * of_int k"
    using assms(3) by (simp only: pos_divide_le_eq of_int_0_less_iff)
  then have "n \<le> - ((- n) div k) * k" by (simp only: of_int_mult [symmetric] of_int_le_iff)
  moreover have "- ((- n) div k) * k \<le> k * ?P"
    using assms(3) by (simp only: mult.commute [of _ k]) (intro mult_left_mono, simp_all)
  ultimately have "i < k * ?P" if "i < n" using that by linarith
  then have inside: "i < n \<longrightarrow> i div k + 1 \<le> ?P" using pages by blast
  have "quotient_i64 i (max k 1) = i div k" "max k 1 = k" using assms(3,5) by (simp_all add: quotient_i64_def)
  moreover have "max (page_count n k) 1 = ?P"
    using page_count_exact [of n k] assms(3,4,7,8) by simp
  ultimately have "list_footer a = Ret ('' page '' @ int_to_dec (i div k + 1) @ ''/'' @ int_to_dec ?P @ '' '' @
      middle_dot @ '' showing '' @ int_to_dec (if n = 0 then 0 else i + 1) @ short_dash @ int_to_dec (i + c) @
      '' of '' @ int_to_dec n @ '' '' @ middle_dot @ '' [n] next  [b] prev'')"
    using fits assms(1,2) by (simp add: list_footer_def Let_def)
  with pages inside show ?thesis by blast
qed

lemma list_footer_exact_witness:
  "list_footer ((app_new \<lparr>tc_api_url = ''http://a'', tc_admin_api_key = None, tc_refresh_interval_secs = 5,
       tc_request_timeout_secs = 5, tc_log_dir = ''logs'', tc_log_filter = ''info''\<rparr>)
     \<lparr>ap_failed := Loaded \<lparr>dp_data = [], dp_pagination = \<lparr>dm_limit = 20, dm_offset = 40, dm_count = 0, dm_total = 25\<rparr>\<rparr>\<rparr>) =
   Ret ('' page '' @ int_to_dec 3 @ ''/'' @ int_to_dec 2 @ '' '' @ middle_dot @ '' showing '' @ int_to_dec 41 @ short_dash @
     int_to_dec 40 @ '' of '' @ int_to_dec 25 @ '' '' @ middle_dot @ '' [n] next  [b] prev'')"
  (is "list_footer ?a = _")
  using conjunct1 [OF list_footer_exact [of ?a "\<lparr>dp_data = [], dp_pagination = \<lparr>dm_limit = 20, dm_offset = 40, dm_count = 0, dm_total = 25\<rparr>\<rparr>"
    20 40 0 25]] by simp

end
