(* ===== verification/Report_Laws.thy ===== *)
theory Report_Laws
  imports Api
begin

text \<open>
  What the reports over the SQL views say about the tables: the failure analysis, the daily volumes
  and the statistics of a pool.
\<close>

section \<open>The failure analysis\<close>

lemma abs_scaled: "0 \<le> (n :: int) \<Longrightarrow> abs (x * m - y) * n = abs (x * n * m - y * n)"
proof -
  assume "0 \<le> n"
  moreover have "x * n * m - y * n = (x * m - y) * n" by (simp add: algebra_simps)
  ultimately show ?thesis by (simp add: abs_mult)
qed

text \<open>A quotient that has been rounded twice, first to some places and then further.\<close>

lemma rounded_twice:
  assumes P: "0 < (P :: int)" and n: "0 \<le> n"
    and first: "2 * abs (q * n - a * P) \<le> n" and second: "2 * abs (p * P - q) \<le> P"
  shows "2 * abs (p * n - a) * P \<le> (P + 1) * n"
proof -
  have tri: "abs (x - z) \<le> abs (x - y) + abs (y - z)" for x y z :: int by linarith
  have "abs (p * n - a) * P = abs (p * n * P - a * P)"
    using abs_scaled [of P p n a] P by (simp add: ac_simps)
  also have "\<dots> \<le> abs (p * n * P - q * n) + abs (q * n - a * P)" by (rule tri)
  also have "abs (p * n * P - q * n) = abs (p * P - q) * n"
    using abs_scaled [OF n, of p P q] by simp
  finally have "2 * (abs (p * n - a) * P) \<le> 2 * abs (p * P - q) * n + 2 * abs (q * n - a * P)"
    by simp
  also have "\<dots> \<le> P * n + n"
    using mult_right_mono [OF second n] first by (rule add_mono)
  finally show ?thesis by (simp add: algebra_simps)
qed

lemma division_rounded:
  assumes "divides_rounded dv" "0 < v" "dv (Numeric u s) (Numeric v t) = Numeric q r"
  shows "2 * abs (q * (v * 10 ^ s) - u * 10 ^ t * 10 ^ r) \<le> v * 10 ^ s"
    "abs (u * 10 ^ t) < 10 ^ 4 * (v * 10 ^ s) \<Longrightarrow> 12 \<le> r"
  using assms unfolding divides_rounded_def by (metis places.simps unscaled.simps)+

text \<open>The average is at most 0.55 away from the exact one.\<close>

lemma avg_bound:
  assumes dv: "divides_rounded dv" and n: "0 < n"
  shows "20 * abs (unscaled (round_to 0 (dv (Numeric a 0) (Numeric n 0))) * n - a) \<le> 11 * n"
proof -
  obtain q r where d: "dv (Numeric a 0) (Numeric n 0) = Numeric q r"
    by (cases "dv (Numeric a 0) (Numeric n 0)")
  have first: "2 * abs (q * n - a * 10 ^ r) \<le> n"
    using division_rounded(1) [OF dv n d] by simp
  show ?thesis
  proof (cases "r = 0")
    case True
    with first d n show ?thesis by simp
  next
    case False
    have P: "10 \<le> (10::int) ^ r"
      using False self_le_power [of "10::int" r] by simp
    have "2 * abs (round_half q (10 ^ r) * n - a) * 10 ^ r \<le> (10 ^ r + 1) * n"
      using n by (intro rounded_twice [OF _ _ first round_half_bound]) simp_all
    then have "20 * abs (round_half q (10 ^ r) * n - a) * 10 ^ r \<le> 10 * n * 10 ^ r + 10 * n"
      by (simp add: algebra_simps)
    also have "\<dots> \<le> 11 * n * 10 ^ r"
      using mult_right_mono [OF P, of n] n by (simp add: algebra_simps)
    finally show ?thesis using d False by simp
  qed
qed

text \<open>The percentage, in hundredths.\<close>

lemma pct_bound:
  assumes dv: "divides_rounded dv" and n: "0 \<le> n" "n \<le> m" and m: "0 < m"
  shows "2 * 10 ^ 10 * abs (unscaled (round_to 2 (dv (Numeric (1000 * n) 1) (Numeric m 0))) * m - 10 ^ 4 * n)
    \<le> (10 ^ 10 + 1) * m"
proof -
  obtain q r where d: "dv (Numeric (1000 * n) 1) (Numeric m 0) = Numeric q r"
    by (cases "dv (Numeric (1000 * n) 1) (Numeric m 0)")
  have "12 \<le> r"
    using division_rounded(2) [OF dv m d] n m by simp
  then obtain k where k: "r = k + 12"
    by (metis add.commute le_Suc_ex)
  define P where "P = (10::int) ^ (k + 10)"
  have P: "10 ^ 10 \<le> P" by (simp add: P_def power_add)
  have "(10::int) ^ r = 100 * P" by (simp add: P_def k power_add)
  then have first: "2 * abs (q * (m * 10) - 1000 * n * (100 * P)) \<le> m * 10"
    using division_rounded(1) [OF dv m d] by simp
  have "abs (q * (m * 10) - 1000 * n * (100 * P)) = 10 * abs (q * m - 10 ^ 4 * n * P)"
  proof -
    have "q * (m * 10) - 1000 * n * (100 * P) = 10 * (q * m - 10 ^ 4 * n * P)" by simp
    then show ?thesis by (simp only: abs_mult abs_numeral)
  qed
  with first have "2 * (10 * abs (q * m - 10 ^ 4 * n * P)) \<le> m * 10" by (simp only:)
  then have "2 * abs (q * m - 10 ^ 4 * n * P) \<le> m" by simp
  then have *: "2 * abs (round_half q P * m - 10 ^ 4 * n) * P \<le> (P + 1) * m"
    using P m by (intro rounded_twice [OF _ _ _ round_half_bound]) simp_all
  have "2 * 10 ^ 10 * abs (round_half q P * m - 10 ^ 4 * n) * P =
      10 ^ 10 * (2 * abs (round_half q P * m - 10 ^ 4 * n) * P)" by simp
  also have "\<dots> \<le> 10 ^ 10 * ((P + 1) * m)"
    using * by (intro mult_left_mono) simp_all
  also have "\<dots> \<le> (10 ^ 10 + 1) * m * P"
    using mult_right_mono [OF P, of m] m by (simp add: algebra_simps)
  finally have "2 * 10 ^ 10 * abs (round_half q P * m - 10 ^ 4 * n) \<le> (10 ^ 10 + 1) * m"
    using P by (simp only: mult_le_cancel_right) simp
  moreover have "round_to 2 (Numeric q r) = Numeric (round_half q P) 2"
    by (simp add: k P_def add.commute)
  ultimately show ?thesis using d by simp
qed

lemma few_categories: "distinct cs \<Longrightarrow> length cs \<le> 10" for cs :: "error_category list"
proof -
  assume "distinct cs"
  then have "length cs = card (pg_rank ` set cs)"
    by (simp add: distinct_card card_image inj_on_def pg_rank_inject)
  also have "pg_rank ` set cs \<subseteq> {..<10}"
  proof -
    have "pg_rank c < 10" for c by (cases c) simp_all
    then show ?thesis by blast
  qed
  then have "card (pg_rank ` set cs) \<le> 10"
    using card_mono [of "{..<10::nat}" "pg_rank ` set cs"] by simp
  finally show ?thesis .
qed

text \<open>Percentages that are each off by a little more than half a hundredth add up to 100 within
  0.05, as there are ten categories.\<close>

lemma pct_sum:
  assumes m: "0 < m" and len: "length rs \<le> 10" and all: "sum_list (map n rs) = (m :: int)"
    and each: "\<And>r. r \<in> set rs \<Longrightarrow> 2 * 10 ^ 10 * abs (p r * m - 10 ^ 4 * n r) \<le> (10 ^ 10 + 1) * m"
  shows "abs (sum_list (map p rs) - 10 ^ 4) \<le> 5"
proof -
  have "2 * 10 ^ 10 * abs (sum_list (map p xs) * m - 10 ^ 4 * sum_list (map n xs))
      \<le> int (length xs) * ((10 ^ 10 + 1) * m)" if "set xs \<subseteq> set rs" for xs
    using that
  proof (induction xs)
    case (Cons x xs)
    have "abs ((p x + sum_list (map p xs)) * m - 10 ^ 4 * (n x + sum_list (map n xs))) \<le>
        abs (p x * m - 10 ^ 4 * n x) + abs (sum_list (map p xs) * m - 10 ^ 4 * sum_list (map n xs))"
      using abs_triangle_ineq [of "p x * m - 10 ^ 4 * n x" "sum_list (map p xs) * m - 10 ^ 4 * sum_list (map n xs)"]
      by (simp add: algebra_simps)
    moreover have "2 * 10 ^ 10 * abs (p x * m - 10 ^ 4 * n x) \<le> (10 ^ 10 + 1) * m"
      using Cons.prems by (intro each) simp
    ultimately show ?case
      using Cons by (simp add: algebra_simps)
  qed simp
  from this [of rs] all have "2 * 10 ^ 10 * abs (sum_list (map p rs) * m - 10 ^ 4 * m)
      \<le> int (length rs) * ((10 ^ 10 + 1) * m)" by simp
  also have "\<dots> \<le> 10 * ((10 ^ 10 + 1) * m)"
    using len m by (intro mult_right_mono) simp_all
  also have "abs (sum_list (map p rs) * m - 10 ^ 4 * m) = abs (sum_list (map p rs) - 10 ^ 4) * m"
    using m abs_scaled [of m "sum_list (map p rs)" 1 "10 ^ 4"] by simp
  finally have "2 * 10 ^ 10 * abs (sum_list (map p rs) - 10 ^ 4) * m \<le> 10 * (10 ^ 10 + 1) * m"
    by (simp add: ac_simps)
  then have "2 * 10 ^ 10 * abs (sum_list (map p rs) - 10 ^ 4) \<le> 10 * (10 ^ 10 + 1)"
    using m by (simp only: mult_le_cancel_right)
  then show ?thesis by simp
qed

lemma failed_where_category:
  "failed_where (Some c) None None d = filter (\<lambda>f. ft_error_category f = c) (db_failed d)"
  by (auto simp: failed_where_def in_period_def intro: filter_cong)

lemma failed_where_all [simp]: "failed_where None None None d = db_failed d"
  by (simp add: failed_where_def in_period_def)

lemma sum_sort_key: "sum_list (map (g :: 'r \<Rightarrow> int) (sort_key f xs)) = sum_list (map g xs)"
  by (metis mset_map mset_sort sum_mset_sum_list)

lemma distinct_sort_key: "distinct (map g xs) \<Longrightarrow> distinct (map g (sort_key f xs))"
  by (metis distinct_map distinct_sort set_sort)

lemma analysis_group_fields [simp]:
  "an_error_category (analysis_group dv m (c, fs)) = c"
  "an_failure_count (analysis_group dv m (c, fs)) = int (length fs)"
  "an_avg_gas_wasted (analysis_group dv m (c, fs)) =
     round_to 0 (dv (Numeric (sum_list (map ft_gas_used fs)) 0) (Numeric (int (length fs)) 0))"
  "an_pct_of_total (analysis_group dv m (c, fs)) =
     round_to 2 (dv (Numeric (1000 * int (length fs)) 1) (Numeric (max m 1) 0))"
  "an_most_recent_failure (analysis_group dv m (c, fs)) = Max (set (map ft_timestamp fs))"
  by (simp_all add: analysis_group_def Let_def)

lemma analysis_categories:
  "map an_error_category (map (analysis_group dv m) (group_rows ft_error_category fs)) =
     remdups (map ft_error_category fs)"
  by (simp add: group_rows_def o_def)

lemma analysis_row:
  "r \<in> set (vw_failed_tx_analysis ties dv d) \<longleftrightarrow> (\<exists>c \<in> ft_error_category ` set (db_failed d).
     r = analysis_group dv (int (length (db_failed d))) (c, failed_where (Some c) None None d))"
  by (auto simp: vw_failed_tx_analysis_def group_rows_def failed_where_category)

lemma analysis_total:
  "sum_list (map an_failure_count (vw_failed_tx_analysis ties dv d)) = int (length (db_failed d))"
proof -
  have "map an_failure_count (map (analysis_group dv m) gs) = map (\<lambda>(k, g). int (length g)) gs"
    for m gs by (induction gs) auto
  then show ?thesis
    by (simp only: vw_failed_tx_analysis_def sum_order_by group_lengths)
qed

lemma analysis_row_count:
  "r \<in> set (vw_failed_tx_analysis ties dv d) \<Longrightarrow>
   an_failure_count r = count_failed_transactions (Some (an_error_category r)) None None d"
  by (auto simp: analysis_row count_failed_transactions_def)

lemma analysis_row_size:
  assumes "r \<in> set (vw_failed_tx_analysis ties dv d)"
  shows "0 < an_failure_count r" "an_failure_count r \<le> int (length (db_failed d))"
  using assms by (auto simp: analysis_row failed_where_category filter_empty_conv)

lemma analysis_order: "sorted (map (\<lambda>r. - an_failure_count r) (vw_failed_tx_analysis ties dv d))"
  by (simp add: vw_failed_tx_analysis_def)

lemma analysis_distinct: "distinct (map an_error_category (vw_failed_tx_analysis ties dv d))"
  unfolding vw_failed_tx_analysis_def
  by (rule distinct_order_by) (simp only: analysis_categories distinct_remdups)

lemma analysis_covers:
  "set (map an_error_category (vw_failed_tx_analysis ties dv d)) = ft_error_category ` set (db_failed d)"
  by (force simp: analysis_row)

lemma count_all: "count_failed_transactions None None None d = int (length (db_failed d))"
  by (simp add: count_failed_transactions_def)

lemma analysis_row_figures:
  assumes dv: "divides_rounded dv" and r: "r \<in> set (vw_failed_tx_analysis ties dv d)"
  defines "m \<equiv> count_failed_transactions None None None d"
    and "fs \<equiv> failed_where (Some (an_error_category r)) None None d"
  shows "0 < m"
    and "an_most_recent_failure r = Max (ft_timestamp ` set fs)"
    and "20 * abs (unscaled (an_avg_gas_wasted r) * an_failure_count r - sum_list (map ft_gas_used fs))
      \<le> 11 * an_failure_count r"
    and "2 * 10 ^ 10 * abs (unscaled (an_pct_of_total r) * m - 10 ^ 4 * an_failure_count r)
      \<le> (10 ^ 10 + 1) * m"
proof -
  note size = analysis_row_size [OF r, folded count_all [of d], folded m_def]
  then show m: "0 < m" by linarith
  show "an_most_recent_failure r = Max (ft_timestamp ` set fs)"
    using r by (auto simp: analysis_row fs_def)
  show "20 * abs (unscaled (an_avg_gas_wasted r) * an_failure_count r - sum_list (map ft_gas_used fs))
      \<le> 11 * an_failure_count r"
    using avg_bound [OF dv size(1)] r by (auto simp: analysis_row fs_def)
  from r have "unscaled (an_pct_of_total r) =
      unscaled (round_to 2 (dv (Numeric (1000 * an_failure_count r) 1) (Numeric (max m 1) 0)))"
    by (auto simp: analysis_row m_def count_all)
  then show "2 * 10 ^ 10 * abs (unscaled (an_pct_of_total r) * m - 10 ^ 4 * an_failure_count r)
      \<le> (10 ^ 10 + 1) * m"
    using pct_bound [OF dv _ size(2) m] size m max.absorb1 [of 1 m] by simp
qed

text \<open>C28. The failure analysis is exact. Its rows are the categories that occur, each once, the most
  frequent first; the count of a row is what the list of failures counts for its category, and all
  rows together count every failure; the latest failure is the latest; the average gas is at most
  0.55 away from the exact average, each percentage is within 0.005 of the exact one up to the
  rounding of the division, and all percentages add up to 100 within 0.05. This holds for every
  division that rounds correctly at enough places.\<close>

lemma failure_analysis_exact:
  assumes dv: "divides_rounded dv"
  shows "let rows = get_failed_tx_analysis ties dv d; m = count_failed_transactions None None None d in
    distinct (map an_error_category rows) \<and>
    set (map an_error_category rows) = ft_error_category ` set (db_failed d) \<and>
    sorted (map (\<lambda>r. - an_failure_count r) rows) \<and>
    sum_list (map an_failure_count rows) = m \<and>
    (\<forall>r\<in>set rows. let fs = failed_where (Some (an_error_category r)) None None d in
      an_failure_count r = count_failed_transactions (Some (an_error_category r)) None None d \<and>
      an_most_recent_failure r = Max (ft_timestamp ` set fs) \<and>
      20 * abs (unscaled (an_avg_gas_wasted r) * an_failure_count r - sum_list (map ft_gas_used fs))
        \<le> 11 * an_failure_count r \<and>
      2 * 10 ^ 10 * abs (unscaled (an_pct_of_total r) * m - 10 ^ 4 * an_failure_count r)
        \<le> (10 ^ 10 + 1) * m) \<and>
    (rows \<noteq> [] \<longrightarrow> abs (sum_list (map (\<lambda>r. unscaled (an_pct_of_total r)) rows) - 10 ^ 4) \<le> 5)"
proof -
  let ?rows = "vw_failed_tx_analysis ties dv d" and ?m = "count_failed_transactions None None None d"
  have "abs (sum_list (map (\<lambda>r. unscaled (an_pct_of_total r)) ?rows) - 10 ^ 4) \<le> 5"
    if ne: "?rows \<noteq> []"
  proof (rule pct_sum [OF _ _ _ analysis_row_figures(4) [OF dv]])
    from ne obtain r where "r \<in> set ?rows" by (cases ?rows) auto
    then show "0 < ?m" by (rule analysis_row_figures(1) [OF dv])
    show "length ?rows \<le> 10" using few_categories [OF analysis_distinct [of ties dv d]] by simp
    show "sum_list (map an_failure_count ?rows) = ?m" by (simp add: count_all analysis_total)
  qed
  then show ?thesis
    unfolding Let_def get_failed_tx_analysis_def
    by (intro conjI ballI impI)
      (assumption | rule analysis_distinct analysis_covers analysis_order analysis_row_count
        analysis_row_figures [OF dv] trans [OF analysis_total count_all [symmetric]])+
qed

definition three_failures :: chain_db where
  "three_failures = empty_db\<lparr>db_failed := map (\<lambda>(c, g, t).
     \<lparr>ft_tx_hash = [], ft_error_category = c, ft_revert_reason = None, ft_failing_function = None,
      ft_gas_used = g, ft_timestamp = t\<rparr>)
     [(Unknown, 21000, 3), (SlippageExceeded, 90000, 1), (Unknown, 30001, 2)]\<rparr>"

lemma failure_analysis_exact_witness:
  "set (map an_error_category (get_failed_tx_analysis id div16 three_failures)) = {Unknown, SlippageExceeded} \<and>
   sum_list (map an_failure_count (get_failed_tx_analysis id div16 three_failures)) = 3 \<and>
   abs (sum_list (map (\<lambda>r. unscaled (an_pct_of_total r)) (get_failed_tx_analysis id div16 three_failures)) - 10 ^ 4) \<le> 5"
proof -
  note * = failure_analysis_exact [OF div16_rounded, of id three_failures, unfolded Let_def]
  have f: "ft_error_category ` set (db_failed three_failures) = {Unknown, SlippageExceeded}"
    "count_failed_transactions None None None three_failures = 3"
    by (auto simp: three_failures_def empty_db_def count_all)
  with * have "get_failed_tx_analysis id div16 three_failures \<noteq> []" by auto
  with * f show ?thesis by metis
qed

section \<open>Daily volumes\<close>

lemma pooled_swaps_iff:
  "(s, p) \<in> set (pooled_swaps d) \<longleftrightarrow>
     s \<in> set (db_swaps d) \<and> p \<in> set (db_pools d) \<and> sw_pool_address s = pool_address p"
  by (auto simp: pooled_swaps_def)

lemma one_pool:
  "distinct (map pool_address ps) \<Longrightarrow>
   map (\<lambda>_. x) (filter (\<lambda>p. a = pool_address p) ps) = (if a \<in> set (map pool_address ps) then [x] else [])"
  by (induction ps) (auto simp: filter_empty_conv)

lemma pooled_swaps_known:
  assumes "distinct (map pool_address (db_pools d))"
  shows "map fst (pooled_swaps d) = filter (\<lambda>s. pool_known d (sw_pool_address s)) (db_swaps d)"
proof -
  have "map fst (concat (map (\<lambda>s. concat (map (\<lambda>p. if sw_pool_address s = pool_address p then [(s, p)] else [])
      (db_pools d))) ss)) = filter (\<lambda>s. pool_known d (sw_pool_address s)) ss" for ss
    by (induction ss) (simp_all add: concat_if_filter pool_known_def o_def one_pool [OF assms])
  then show ?thesis by (simp add: pooled_swaps_def)
qed

lemma same_pool:
  "distinct (map pool_address ps) \<Longrightarrow> p \<in> set ps \<Longrightarrow> q \<in> set ps \<Longrightarrow>
   pool_address p = pool_address q \<Longrightarrow> p = q"
  by (simp add: distinct_map inj_on_def)

lemma volume_key_simp [simp]:
  "volume_key (s, p) = (sw_pool_address s, pool_pair_name p, day_of (sw_timestamp s))"
  by (simp add: volume_key_def)

lemma volume_group:
  assumes dist: "distinct (map pool_address (db_pools d))"
    and g: "((a, n, day), g) \<in> set (group_rows volume_key (pooled_swaps d))"
  shows "map fst g = filter (\<lambda>s. sw_pool_address s = a \<and> day_of (sw_timestamp s) = day) (db_swaps d)"
    and "\<exists>p\<in>set (db_pools d). pool_address p = a \<and> pool_pair_name p = n"
proof -
  from g have "(a, n, day) \<in> volume_key ` set (pooled_swaps d)" by (simp add: group_of)
  then obtain s0 p0 where "(s0, p0) \<in> set (pooled_swaps d)" "volume_key (s0, p0) = (a, n, day)"
    by (metis imageE prod.exhaust)
  then have p0: "p0 \<in> set (db_pools d)" "pool_address p0 = a" "pool_pair_name p0 = n"
    by (simp_all add: pooled_swaps_iff)
  then show "\<exists>p\<in>set (db_pools d). pool_address p = a \<and> pool_pair_name p = n" by blast
  let ?on = "\<lambda>s. sw_pool_address s = a \<and> day_of (sw_timestamp s) = day"
  have key: "volume_key sp = (a, n, day) \<longleftrightarrow> (?on \<circ> fst) sp" if "sp \<in> set (pooled_swaps d)" for sp
  proof -
    obtain s p where "sp = (s, p)" by (rule prod.exhaust)
    with that have sp: "sp = (s, p)" "p \<in> set (db_pools d)" "sw_pool_address s = pool_address p"
      by (simp_all only: pooled_swaps_iff)
    moreover have "p = p0" if "pool_address p = a"
      using same_pool [OF dist sp(2) p0(1)] that p0(2) by simp
    ultimately show ?thesis using p0 by auto
  qed
  have "g = filter (\<lambda>sp. volume_key sp = (a, n, day)) (pooled_swaps d)"
    using g by (simp only: group_of)
  also have "\<dots> = filter (?on \<circ> fst) (pooled_swaps d)"
    using key by (rule filter_cong [OF refl])
  finally have "g = filter (?on \<circ> fst) (pooled_swaps d)" .
  then have "map fst g = filter ?on (map fst (pooled_swaps d))"
    by (simp add: filter_map o_def)
  also have "\<dots> = filter ?on (db_swaps d)"
    using p0 by (simp add: pooled_swaps_known [OF dist])
      (intro filter_cong refl, auto simp: pool_known_def)
  finally show "map fst g = filter ?on (db_swaps d)" .
qed

lemma volume_row_fields [simp]:
  "sv_pool_address (volume_row ((a, n, day), g)) = a"
  "sv_pair_name (volume_row ((a, n, day), g)) = n"
  "sv_swap_date (volume_row ((a, n, day), g)) = day"
  "sv_swap_count (volume_row ((a, n, day), g)) = int (length g)"
  "sv_total_amount_in (volume_row ((a, n, day), g)) = sum_list (map (sw_amount_in \<circ> fst) g)"
  "sv_total_amount_out (volume_row ((a, n, day), g)) = sum_list (map (sw_amount_out \<circ> fst) g)"
  by (simp_all add: volume_row_def)

lemma volume_totals:
  assumes dist: "distinct (map pool_address (db_pools d))"
  defines "known \<equiv> filter (\<lambda>s. pool_known d (sw_pool_address s)) (db_swaps d)"
  shows "sum_list (map sv_swap_count (vw_daily_swap_volume d)) = int (length known)"
    and "sum_list (map sv_total_amount_in (vw_daily_swap_volume d)) = sum_list (map sw_amount_in known)"
    and "sum_list (map sv_total_amount_out (vw_daily_swap_volume d)) = sum_list (map sw_amount_out known)"
proof -
  have k: "known = map fst (pooled_swaps d)" by (simp add: known_def pooled_swaps_known [OF dist])
  have f: "map sv_swap_count (map volume_row gs) = map (\<lambda>(k, g). int (length g)) gs"
    "map sv_total_amount_in (map volume_row gs) = map (\<lambda>(k, g). sum_list (map (sw_amount_in \<circ> fst) g)) gs"
    "map sv_total_amount_out (map volume_row gs) = map (\<lambda>(k, g). sum_list (map (sw_amount_out \<circ> fst) g)) gs"
    for gs by (simp_all add: volume_row_def split_def)
  have amounts: "map (h \<circ> fst) (pooled_swaps d) = map h known" for h
    by (simp add: k)
  show "sum_list (map sv_swap_count (vw_daily_swap_volume d)) = int (length known)"
    by (simp only: vw_daily_swap_volume_def sum_sort_key f group_lengths k length_map)
  show "sum_list (map sv_total_amount_in (vw_daily_swap_volume d)) = sum_list (map sw_amount_in known)"
    by (simp only: vw_daily_swap_volume_def sum_sort_key f group_sums amounts)
  show "sum_list (map sv_total_amount_out (vw_daily_swap_volume d)) = sum_list (map sw_amount_out known)"
    by (simp only: vw_daily_swap_volume_def sum_sort_key f group_sums amounts)
qed

lemma volume_rows_distinct:
  assumes dist: "distinct (map pool_address (db_pools d))"
  shows "distinct (map (\<lambda>r. (sv_pool_address r, sv_swap_date r)) (vw_daily_swap_volume d))"
  unfolding vw_daily_swap_volume_def
proof (rule distinct_sort_key)
  let ?keys = "remdups (map volume_key (pooled_swaps d))"
  have same: "n = n'" if in_keys: "(a, n, day) \<in> set ?keys" "(a, n', day) \<in> set ?keys" for a n n' day
  proof -
    have "\<exists>p\<in>set (db_pools d). pool_address p = a \<and> pool_pair_name p = m"
      if "(a, m, day) \<in> set ?keys" for m
      using that volume_group(2) [OF dist] by (simp add: group_of)
    with in_keys show ?thesis using same_pool [OF dist] by metis
  qed
  have "inj_on (\<lambda>(a, n, day). (a, day)) (set ?keys)"
  proof (rule inj_onI)
    fix x y
    assume xy: "x \<in> set ?keys" "y \<in> set ?keys"
      "(\<lambda>(a, n, day). (a, day)) x = (\<lambda>(a, n, day). (a, day)) y"
    obtain a n day where x: "x = (a, n, day)" by (rule prod_cases3)
    obtain b n' day' where y: "y = (b, n', day')" by (rule prod_cases3)
    from xy(3) have "b = a" "day' = day" by (simp_all add: x y)
    with same [of a n day n'] xy(1,2) show "x = y" by (simp only: x y)
  qed
  moreover have "map (\<lambda>r. (sv_pool_address r, sv_swap_date r)) (map volume_row gs) =
      map (\<lambda>(a, n, day). (a, day)) (map fst gs)" for gs
    by (auto simp: volume_row_def)
  ultimately show "distinct (map (\<lambda>r. (sv_pool_address r, sv_swap_date r))
      (map volume_row (group_rows volume_key (pooled_swaps d))))"
    by (simp only: group_keys distinct_map distinct_remdups)
qed

lemma volume_rows_sorted: "sorted (map (\<lambda>r. - sv_swap_date r) (vw_daily_swap_volume d))"
proof -
  have "sorted (map (\<lambda>r. (- sv_swap_date r, - sv_swap_count r)) (vw_daily_swap_volume d))"
    by (simp add: vw_daily_swap_volume_def)
  then show ?thesis
    unfolding sorted_map by (rule sorted_wrt_mono_rel [rotated]) (auto simp: less_eq_prod_def)
qed

lemma volume_row_group:
  assumes dist: "distinct (map pool_address (db_pools d))" and r: "r \<in> set (vw_daily_swap_volume d)"
  defines "on \<equiv> filter (\<lambda>s. sw_pool_address s = sv_pool_address r \<and>
    day_of (sw_timestamp s) = sv_swap_date r) (db_swaps d)"
  shows "sv_swap_count r = int (length on)" and "0 < sv_swap_count r"
    and "sv_total_amount_in r = sum_list (map sw_amount_in on)"
    and "sv_total_amount_out r = sum_list (map sw_amount_out on)"
proof -
  from r obtain kg where "kg \<in> set (group_rows volume_key (pooled_swaps d))" "r = volume_row kg"
    by (auto simp: vw_daily_swap_volume_def)
  then obtain a n day g where g: "((a, n, day), g) \<in> set (group_rows volume_key (pooled_swaps d))"
      and r: "r = volume_row ((a, n, day), g)"
    by (metis prod.exhaust)
  have on: "on = map fst g" using volume_group(1) [OF dist g] by (simp add: on_def r)
  show "sv_swap_count r = int (length on)" "0 < sv_swap_count r"
    "sv_total_amount_in r = sum_list (map sw_amount_in on)"
    "sv_total_amount_out r = sum_list (map sw_amount_out on)"
    using group_nonempty [OF g] by (simp_all add: on r)
qed

lemma daily_volume_pages:
  fixes d :: "'a chain_db_scheme" and p :: pagination_params
  assumes "distinct (map pool_address (db_pools d))" "opt_ok text_ok pool"
  defines "mine \<equiv> filter (\<lambda>r. pool = None \<or> pool = Some (sv_pool_address r)) (vw_daily_swap_volume d)"
  shows "\<exists>shown. daily_volume ties (Inr (pool, p)) d = Inr (shown,
      \<lparr>pi_limit = page_limit p, pi_offset = page_offset p, pi_count = int (length shown)\<rparr>) \<and>
    mset shown \<subseteq># mset mine \<and>
    map sv_swap_date shown = take (nat (page_limit p)) (drop (nat (page_offset p)) (map sv_swap_date mine)) \<and>
    (pool \<noteq> None \<longrightarrow> shown = take (nat (page_limit p)) (drop (nat (page_offset p)) mine))"
proof -
  let ?all = "order_by ties (\<lambda>r. - sv_swap_date r) mine"
  let ?shown = "take (nat (page_limit p)) (drop (nat (page_offset p)) ?all)"
  have sorted: "sorted (map (\<lambda>r. - sv_swap_date r) mine)"
    unfolding mine_def by (rule sorted_filter [OF volume_rows_sorted])
  have "0 \<le> page_limit p" "0 \<le> page_offset p"
    by (simp_all add: page_limit_def page_offset_def clamp_def)
  then have page: "daily_volume ties (Inr (pool, p)) d = Inr (?shown,
      \<lparr>pi_limit = page_limit p, pi_offset = page_offset p, pi_count = int (length ?shown)\<rparr>)"
    using assms(2) by (simp add: daily_volume_def paginated_def get_daily_swap_volume_def page_def extracted_def mine_def)
  have "map (\<lambda>r. - sv_swap_date r) ?all = map (\<lambda>r. - sv_swap_date r) mine"
    unfolding map_order_by_key by (rule sorted_sort_id [OF sorted])
  then have "map uminus (map (\<lambda>r. - sv_swap_date r) ?all) = map uminus (map (\<lambda>r. - sv_swap_date r) mine)"
    by (simp only:)
  then have "map sv_swap_date ?all = map sv_swap_date mine" by (simp add: comp_def)
  then have days: "map sv_swap_date ?shown = take (nat (page_limit p)) (drop (nat (page_offset p)) (map sv_swap_date mine))"
    by (simp only: take_map [symmetric] drop_map [symmetric])
  have "?all = mine" if pool: "pool \<noteq> None"
  proof -
    have keys: "inj_on (\<lambda>r. (sv_pool_address r, sv_swap_date r)) (set (vw_daily_swap_volume d))"
      using volume_rows_distinct [OF assms(1)] by (simp add: distinct_map)
    have "inj_on (\<lambda>r. - sv_swap_date r) (set mine)"
    proof (rule inj_onI)
      fix r r' assume "r \<in> set mine" "r' \<in> set mine" "- sv_swap_date r = - sv_swap_date r'"
      with pool inj_onD [OF keys, of r r'] show "r = r'" by (auto simp: mine_def)
    qed
    then show ?thesis
      using sorted by (simp add: order_by_unique sort_key_id_if_sorted)
  qed
  with page days mset_piece [of _ _ ?all] show ?thesis
    by (intro exI [of _ ?shown]) simp
qed

text \<open>C29. The daily volumes lose nothing but unknown pools. As the address is the key of the pools,
  each pool has one row per day on which it was used, the newest days first; a row counts and sums
  exactly the swaps of its pool on its day, so all rows together count and sum every swap of a
  registered pool once (the foreign key on the pool was dropped, so a swap may name a pool that is
  not registered; it is in no row). The answers of the API, in whatever order PostgreSQL puts the pools of
  one day, hold rows of this list, none more than once, and their days are those of the piece that was asked
  for; filtered by a pool they are exactly that piece.\<close>

lemma daily_volume_conserves:
  assumes dist: "distinct (map pool_address (db_pools d))"
  shows "let rows = vw_daily_swap_volume d;
      known = filter (\<lambda>s. pool_known d (sw_pool_address s)) (db_swaps d) in
    distinct (map (\<lambda>r. (sv_pool_address r, sv_swap_date r)) rows) \<and>
    sorted (map (\<lambda>r. - sv_swap_date r) rows) \<and>
    sum_list (map sv_swap_count rows) = int (length known) \<and>
    sum_list (map sv_total_amount_in rows) = sum_list (map sw_amount_in known) \<and>
    sum_list (map sv_total_amount_out rows) = sum_list (map sw_amount_out known) \<and>
    (\<forall>r\<in>set rows. let on = filter (\<lambda>s. sw_pool_address s = sv_pool_address r \<and>
         day_of (sw_timestamp s) = sv_swap_date r) (db_swaps d) in
       sv_swap_count r = int (length on) \<and> 0 < sv_swap_count r \<and>
       sv_total_amount_in r = sum_list (map sw_amount_in on) \<and>
       sv_total_amount_out r = sum_list (map sw_amount_out on)) \<and>
    (\<forall>ties pool p. opt_ok text_ok pool \<longrightarrow>
       (let mine = filter (\<lambda>r. pool = None \<or> pool = Some (sv_pool_address r)) rows in
        \<exists>shown. daily_volume ties (Inr (pool, p)) d = Inr (shown,
            \<lparr>pi_limit = page_limit p, pi_offset = page_offset p, pi_count = int (length shown)\<rparr>) \<and>
          mset shown \<subseteq># mset mine \<and>
          map sv_swap_date shown = take (nat (page_limit p)) (drop (nat (page_offset p)) (map sv_swap_date mine)) \<and>
          (pool \<noteq> None \<longrightarrow> shown = take (nat (page_limit p)) (drop (nat (page_offset p)) mine))))"
  unfolding Let_def
  by (intro conjI ballI allI impI)
    (assumption | rule volume_rows_distinct [OF dist] volume_rows_sorted volume_totals [OF dist]
      volume_row_group [OF dist] daily_volume_pages [OF dist])+

definition two_pools :: chain_db where
  "two_pools = empty_db\<lparr>
     db_pools := map (\<lambda>(a, n). \<lparr>pool_address = a, pool_pair_name = n, pool_token0_address = ''t0'',
       pool_token1_address = ''t1'', pool_fee_tier = 500, pool_created_at = 0\<rparr>) [(''a'', ''A/B''), (''b'', ''C/D'')],
     db_swaps := map (\<lambda>(a, v, t). \<lparr>sw_pool_address = a, sw_tx_hash = ''h'', sw_sender = ''s'',
       sw_recipient = ''r'', sw_amount0 = v, sw_amount1 = - v, sw_amount_in = v, sw_amount_out = v,
       sw_sqrt_price_x96 = 0, sw_liquidity = 0, sw_tick = 0, sw_log_index = t,
       sw_timestamp = seconds (86400 * t), sw_event_id = t\<rparr>) [(''a'', 5, 1), (''x'', 7, 1), (''a'', 6, 2)]\<rparr>"

lemma two_pools_simps:
  "distinct (map pool_address (db_pools two_pools))"
  "length (filter (\<lambda>s. pool_known two_pools (sw_pool_address s)) (db_swaps two_pools)) = 2"
  "sum_list (map sw_amount_in (filter (\<lambda>s. pool_known two_pools (sw_pool_address s)) (db_swaps two_pools))) = 11"
  by (simp_all add: two_pools_def pool_known_def)

lemma daily_volume_conserves_witness:
  "sum_list (map sv_swap_count (vw_daily_swap_volume two_pools)) = 2 \<and>
   sum_list (map sv_total_amount_in (vw_daily_swap_volume two_pools)) = 11"
  using daily_volume_conserves [OF two_pools_simps(1), unfolded Let_def two_pools_simps] by simp

section \<open>Pool statistics\<close>

lemma volume_sums_if:
  fixes d :: "'a chain_db_scheme" and Q :: "string \<Rightarrow> int \<Rightarrow> bool"
  assumes dist: "distinct (map pool_address (db_pools d))"
  defines "of_rows f \<equiv> sum_list (map (f :: daily_swap_volume \<Rightarrow> int)
      (filter (\<lambda>r. Q (sv_pool_address r) (sv_swap_date r)) (vw_daily_swap_volume d)))"
    and "chosen \<equiv> filter (\<lambda>s. pool_known d (sw_pool_address s) \<and>
      Q (sw_pool_address s) (day_of (sw_timestamp s))) (db_swaps d)"
  shows "of_rows sv_swap_count = int (length chosen)"
    and "of_rows sv_total_amount_in = sum_list (map sw_amount_in chosen)"
proof -
  let ?Q = "\<lambda>(a, n, day). Q a day" and ?gs = "group_rows volume_key (pooled_swaps d)"
  have chosen: "map fst (filter (\<lambda>sp. ?Q (volume_key sp)) (pooled_swaps d)) = chosen"
  proof -
    have "map fst (filter (\<lambda>sp. ?Q (volume_key sp)) sps) =
        filter (\<lambda>s. Q (sw_pool_address s) (day_of (sw_timestamp s))) (map fst sps)" for sps
      by (induction sps) auto
    then show ?thesis
      by (simp add: pooled_swaps_known [OF dist] chosen_def conj_commute)
  qed
  have rows: "of_rows f = sum_list (map (\<lambda>kg. if ?Q (fst kg) then f (volume_row kg) else 0) ?gs)" for f
    unfolding of_rows_def vw_daily_swap_volume_def sum_list_map_filter' sum_sort_key
    by (simp add: o_def split_def volume_row_def cong: if_cong)
  have "of_rows sv_swap_count = sum_list (map (\<lambda>(k, g). if ?Q k then sum_list (map (\<lambda>_. 1) g) else 0) ?gs)"
    unfolding rows by (simp add: split_def volume_row_def sum_list_triv cong: if_cong)
  then show "of_rows sv_swap_count = int (length chosen)"
    by (simp add: group_sums_if flip: chosen int_length_sum)
  have "of_rows sv_total_amount_in =
      sum_list (map (\<lambda>(k, g). if ?Q k then sum_list (map (sw_amount_in \<circ> fst) g) else 0) ?gs)"
    unfolding rows by (simp add: split_def volume_row_def cong: if_cong)
  then show "of_rows sv_total_amount_in = sum_list (map sw_amount_in chosen)"
    by (simp add: group_sums_if flip: chosen)
qed

lemma le_div_iff:
  assumes K: "0 < (K :: int)"
  shows "x \<le> t div K \<longleftrightarrow> x * K \<le> t"
proof
  assume "x \<le> t div K"
  then have "x * K \<le> t div K * K" using K by (intro mult_right_mono) simp_all
  also have "\<dots> \<le> t" using div_mult_mod_eq [of t K] pos_mod_sign [OF K, of t] by linarith
  finally show "x * K \<le> t" .
next
  assume "x * K \<le> t"
  then show "x \<le> t div K" using zdiv_mono1 [of "x * K" t K] K by simp
qed

lemma day_bounds:
  "x \<le> day_of t \<longleftrightarrow> seconds (86400 * x) \<le> t" "day_of t \<le> y \<longleftrightarrow> t \<le> seconds (86400 * (y + 1)) - 1"
proof -
  have *: "x \<le> day_of t \<longleftrightarrow> seconds (86400 * x) \<le> t" for x
    using le_div_iff [of "seconds 86400" x t] by (simp add: day_of_def seconds_def mult.commute)
  then show "x \<le> day_of t \<longleftrightarrow> seconds (86400 * x) \<le> t" .
  show "day_of t \<le> y \<longleftrightarrow> t \<le> seconds (86400 * (y + 1)) - 1"
    using * [of "y + 1"] by linarith
qed

lemma pool_swaps_days:
  "pool_swaps a (seconds (86400 * x)) (seconds (86400 * (y + 1)) - 1) d =
     filter (\<lambda>s. sw_pool_address s = a \<and> x \<le> day_of (sw_timestamp s) \<and> day_of (sw_timestamp s) \<le> y) (db_swaps d)"
  by (simp only: pool_swaps_def day_bounds)

text \<open>The rows of a pool between two days.\<close>

definition volume_between :: "string \<Rightarrow> int \<Rightarrow> int \<Rightarrow> 'a chain_db_scheme \<Rightarrow> daily_swap_volume list" where
  "volume_between a x y d = filter (\<lambda>r. sv_pool_address r = a \<and> x \<le> sv_swap_date r \<and> sv_swap_date r \<le> y)
     (vw_daily_swap_volume d)"

lemma volume_between_sums:
  fixes d :: "'a chain_db_scheme" and a :: string and x y :: int
  assumes dist: "distinct (map pool_address (db_pools d))"
  defines "ss \<equiv> if pool_known d a then pool_swaps a (seconds (86400 * x)) (seconds (86400 * (y + 1)) - 1) d else []"
  shows "sum_list (map sv_swap_count (volume_between a x y d)) = int (length ss)"
    and "sum_list (map sv_total_amount_in (volume_between a x y d)) = sum_list (map sw_amount_in ss)"
    and "volume_between a x y d = [] \<longleftrightarrow> ss = []"
proof -
  have ss: "ss = filter (\<lambda>s. pool_known d (sw_pool_address s) \<and> (sw_pool_address s = a \<and>
      x \<le> day_of (sw_timestamp s) \<and> day_of (sw_timestamp s) \<le> y)) (db_swaps d)"
    unfolding ss_def pool_swaps_days
    by (cases "pool_known d a") (auto simp: filter_empty_conv intro: filter_cong)
  note sums = volume_sums_if [OF dist, of "\<lambda>b t. b = a \<and> x \<le> t \<and> t \<le> y", folded ss volume_between_def]
  show count: "sum_list (map sv_swap_count (volume_between a x y d)) = int (length ss)"
    by (rule sums(1))
  show "sum_list (map sv_total_amount_in (volume_between a x y d)) = sum_list (map sw_amount_in ss)"
    by (rule sums(2))
  have "0 < sum_list (map sv_swap_count rs)" if "rs \<noteq> []" "\<forall>r\<in>set rs. 0 < sv_swap_count r" for rs
    using that by (induction rs) (auto, fastforce)
  moreover have "\<forall>r\<in>set (volume_between a x y d). 0 < sv_swap_count r"
    using volume_row_group(2) [OF dist] by (simp add: volume_between_def)
  ultimately show "volume_between a x y d = [] \<longleftrightarrow> ss = []"
    using count by (metis length_greater_0_conv list.simps(8) of_nat_0_less_iff order_less_irrefl sum_list.Nil)
qed

lemma pool_stats_known:
  fixes dv :: "numeric \<Rightarrow> numeric \<Rightarrow> numeric" and since until :: timestamp
  assumes "text_ok a"
  defines "reply \<equiv> \<lambda>d. pool_stats_handler dv (Inr a) (Inr (since, until)) d"
  shows "\<not> pool_known d a \<Longrightarrow> reply d = not_found (''pool stats for '' @ a)"
    and "pool_known d a \<Longrightarrow> pool_swaps a since until d = [] \<Longrightarrow>
      reply d = Inl (Refused (ApiInternal ''database error''))"
    and "pool_known d a \<Longrightarrow> pool_swaps a since until d \<noteq> [] \<Longrightarrow> (\<exists>st. reply d = Inr st \<and>
      st_swap_count st = int (length (pool_swaps a since until d)) \<and>
      st_total_volume_in st = Numeric (sum_list (map sw_amount_in (pool_swaps a since until d))) 0 \<and>
      st_unique_traders st = int (card (sw_sender ` set (pool_swaps a since until d))))"
proof -
  note defs = reply_def pool_stats_handler_def get_pool_stats_def text_param_def assms(1)
    fn_get_pool_stats_def
  have ps: "filter (\<lambda>p. pool_address p = a) (db_pools d) = [] \<longleftrightarrow> \<not> pool_known d a"
    by (auto simp: pool_known_def filter_empty_conv)
  show "\<not> pool_known d a \<Longrightarrow> reply d = not_found (''pool stats for '' @ a)"
    by (simp add: defs ps [symmetric] not_found_def)
  assume "pool_known d a"
  then obtain p ps' where p: "filter (\<lambda>p. pool_address p = a) (db_pools d) = p # ps'"
    using ps by (cases "filter (\<lambda>p. pool_address p = a) (db_pools d)") auto
  then show "reply d = Inl (Refused (ApiInternal ''database error''))"
    if "pool_swaps a since until d = []" using that by (simp add: defs decode_pool_stats_def Let_def)
  from p show "\<exists>st. reply d = Inr st \<and> st_swap_count st = int (length (pool_swaps a since until d)) \<and>
      st_total_volume_in st = Numeric (sum_list (map sw_amount_in (pool_swaps a since until d))) 0 \<and>
      st_unique_traders st = int (card (sw_sender ` set (pool_swaps a since until d)))"
    if "pool_swaps a since until d \<noteq> []"
    using that by (simp add: defs decode_pool_stats_def Let_def length_remdups_card_conv)
qed

text \<open>C30. The statistics of a pool agree with its daily volumes, or fail. Over whole days, the handler
  answers 200 exactly when the daily volumes have a row for the pool in the period, and then its
  number of swaps and its volume are the sums over these rows. An unregistered pool is 404. For a
  registered pool without a swap in the period the sums are NULL, which the row struct cannot hold,
  so the answer is 500 instead of zeros.\<close>

lemma pool_stats_answer:
  assumes dist: "distinct (map pool_address (db_pools d))" and a: "text_ok a"
  shows "let rows = volume_between a x y d;
      reply = pool_stats_handler dv (Inr a) (Inr (seconds (86400 * x), seconds (86400 * (y + 1)) - 1)) d in
    case reply of
      Inl r \<Rightarrow> rows = [] \<and> fst (answer_refusal r) = (if pool_known d a then 500 else 404)
    | Inr st \<Rightarrow> rows \<noteq> [] \<and> pool_known d a \<and> st_swap_count st = sum_list (map sv_swap_count rows) \<and>
        st_total_volume_in st = Numeric (sum_list (map sv_total_amount_in rows)) 0 \<and>
        1 \<le> st_unique_traders st \<and> st_unique_traders st \<le> st_swap_count st"
proof -
  let ?ss = "pool_swaps a (seconds (86400 * x)) (seconds (86400 * (y + 1)) - 1) d"
  note known = pool_stats_known [OF a, where dv = dv and since = "seconds (86400 * x)"
      and until = "seconds (86400 * (y + 1)) - 1" and d = d]
  note sums = volume_between_sums [OF dist, where a = a and x = x and y = y]
  consider "\<not> pool_known d a" | "pool_known d a" "?ss = []" | "pool_known d a" "?ss \<noteq> []" by blast
  then show ?thesis
  proof cases
    case 1
    with known(1) sums(3) show ?thesis by (simp add: not_found_def answer_refusal_def)
  next
    case 2
    with known(2) sums(3) show ?thesis by (simp add: answer_refusal_def)
  next
    case 3
    have "card (sw_sender ` set ?ss) \<le> length ?ss"
      using card_image_le [of "set ?ss" sw_sender] card_length [of ?ss] by simp
    moreover have "0 < card (sw_sender ` set ?ss)" using 3 by (simp add: card_gt_0_iff)
    moreover obtain st where st: "pool_stats_handler dv (Inr a)
        (Inr (seconds (86400 * x), seconds (86400 * (y + 1)) - 1)) d = Inr st"
      "st_swap_count st = int (length ?ss)" "st_total_volume_in st = Numeric (sum_list (map sw_amount_in ?ss)) 0"
      "st_unique_traders st = int (card (sw_sender ` set ?ss))"
      using known(3) [OF 3] by blast
    moreover have "?ss = (if pool_known d a then ?ss else [])" using 3 by simp
    ultimately show ?thesis
      unfolding Let_def st(1) sum.case st(2,3,4) sums if_P [OF 3(1)] using 3 by auto
  qed
qed

lemma pool_stats_answer_witness:
  "(case pool_stats_handler div16 (Inr ''b'') (Inr (seconds 86400, seconds (86400 * 3) - 1)) two_pools of
      Inl r \<Rightarrow> fst (answer_refusal r) | Inr st \<Rightarrow> 200) = (500 :: nat)"
proof -
  have b: "text_ok ''b''" by code_simp
  have "pool_known two_pools ''b''" "pool_swaps ''b'' (seconds 86400) (seconds (86400 * 3) - 1) two_pools = []"
    by (simp_all add: pool_known_def two_pools_def pool_swaps_def)
  moreover from this have "volume_between ''b'' 1 2 two_pools = []"
    using volume_between_sums(3) [OF two_pools_simps(1), of "''b''" 1 2] by simp
  ultimately show ?thesis
    using pool_stats_answer [OF two_pools_simps(1) b, of 1 2 div16]
    by (simp add: Let_def split: sum.splits)
qed

end
