(* ===== verification/Consistency.thy ===== *)
theory Consistency
  imports Browse Screens Report_Laws
begin

text \<open>
  The overview of the terminal program against the database: the failure analysis goes from the SQL
  view through the API and its JSON to the cards on the screen.
\<close>

section \<open>The two requests of the overview\<close>

lemma analysis_fits:
  assumes "db_fits d" "r \<in> set (get_failed_tx_analysis ties (ax_divide X) d)"
  shows "fits 64 (an_failure_count r)"
  using analysis_row_size [of r ties "ax_divide X" d] assms by (simp add: get_failed_tx_analysis_def db_fits_def fits_def)

lemma analysis_served:
  fixes d :: service_db and X :: "'ty api_ext" and ties :: tie_order
  assumes d: "db_fits d" and E: "\<forall>kvs. je_parse E (print (JObj kvs)) = Some (JObj kvs)"
  defines "rows \<equiv> get_failed_tx_analysis ties (ax_divide X) d"
  shows "\<exists>r. api_serves X T print key (cl_base_url c) ties d
      (FetchAnalysis (failed_tx_analysis_request c)) r \<and>
    failed_tx_analysis E r = Inr (map (analysis_view T) rows)"
proof -
  let ?j = "api_response_json (JArr (map (analysis_json T) rows))"
  let ?path = "[''v1'', ''analytics'', ''failed-tx'']"
  let ?r = "HttpReply 200 (Some (print ?j))"
  have path: "path_segments ''/v1/analytics/failed-tx'' = ?path" by (simp add: path_segments_def)
  have routed: "build_router ?path = Some ([(GET, FailedAnalysis)], None)"
    by (simp add: build_router_def v1_router_def)
  have served: "serve X key 0 None GET ?path None (query_inputs ties []) d = ((200, PAnalysis rows), d)"
    by (simp add: serve_def routed run_handler_def reading_def failed_tx_analysis_handler_def query_inputs_def rows_def)
  have "api_serves X T print key (cl_base_url c) ties d
      (FetchAnalysis (failed_tx_analysis_request c)) ?r"
    unfolding api_serves_def
    by (intro exI [of _ "''/v1/analytics/failed-tx''"] exI [of _ 0] exI [of _ None] exI [of _ 200]
        exI [of _ "PAnalysis rows"])
      (simp add: failed_tx_analysis_request_def get_request_for_def path served rows_def)
  moreover have "read_response (read_list read_analysis) ?j = Some (map (analysis_view T) rows)"
    using analysis_wire.list_back [of rows T] analysis_fits [OF d, where X = X]
    by (simp add: read_response_def api_response_json_def rows_def del: read_list.simps)
  then have "failed_tx_analysis E ?r = Inr (map (analysis_view T) rows)"
    unfolding failed_tx_analysis_def using E by (intro get_json_read) (simp_all add: api_response_json_def)
  ultimately show ?thesis by blast
qed

text \<open>The newest block, or the error on an empty table.\<close>

lemma latest_served:
  assumes d: "\<forall>b\<in>set (db_blocks d). fits 64 (blk_number b)"
    and E: "\<forall>kvs. je_parse E (print (JObj kvs)) = Some (JObj kvs)"
  shows "\<exists>r. api_serves X T print key (cl_base_url c) ties d (FetchLatestBlock (latest_block_request c)) r \<and>
    (if db_blocks d = [] then \<exists>e. latest_block E r = Inl e
     else latest_block E r = Inr (Some (Max (blk_number ` set (db_blocks d)))))"
proof -
  let ?path = "[''v1'', ''blocks'', ''latest'']" and ?max = "Max (blk_number ` set (db_blocks d))"
  have path: "path_segments ''/v1/blocks/latest'' = ?path" by (simp add: path_segments_def)
  have routed: "build_router ?path = Some ([(GET, LatestBlock)], None)"
    by (simp add: build_router_def v1_router_def)
  define resp :: "nat \<times> payload" where "resp = (if db_blocks d = [] then (500, PError ''database error'') else (200, PLatest (Some ?max)))"
  have served: "fst (serve X key 0 None GET ?path None (query_inputs ties []) d) = resp"
    by (simp add: serve_def routed run_handler_def reading_def get_latest_block_handler_def get_latest_block_number_def answer_refusal_def resp_def)
  let ?r = "HttpReply (fst resp) (Some (print (the (payload_json T (snd resp)))))"
  have "api_serves X T print key (cl_base_url c) ties d (FetchLatestBlock (latest_block_request c)) ?r"
    unfolding api_serves_def
    by (intro exI [of _ "''/v1/blocks/latest''"] exI [of _ 0] exI [of _ None] exI [of _ "fst resp"]
        exI [of _ "snd resp"])
      (simp add: latest_block_request_def get_request_for_def path served)
  moreover have "if db_blocks d = [] then \<exists>e. latest_block E ?r = Inl e
     else latest_block E ?r = Inr (Some ?max)"
  proof (cases "db_blocks d = []")
    case True
    then show ?thesis by (simp add: resp_def latest_block_def get_json_def Let_def)
  next
    case False
    then have "?max \<in> blk_number ` set (db_blocks d)" by (intro Max_in) simp_all
    then obtain b where "?max = blk_number b" "b \<in> set (db_blocks d)" by (rule imageE)
    with d have "fits 64 ?max" by simp
    then have "read_opt_response (read_int 64) (api_response_json (opt_json int_json (Some ?max))) = Some (Some ?max)"
      by (simp add: read_opt_response_def api_response_json_def opt_json_def read_opt_def int_json_def fits_def)
    then show ?thesis
      using False E unfolding latest_block_def
      by (simp add: resp_def, intro get_json_read) (simp_all add: api_response_json_def)
  qed
  ultimately show ?thesis by blast
qed

section \<open>The cards\<close>

lemma overview_run:
  assumes w0: "run_start T now config = Ret w0"
    and L: "server (FetchLatestBlock (latest_block_request (api_client_new config))) rl"
    and A: "server (FetchAnalysis (failed_tx_analysis_request (api_client_new config))) ra"
  shows "\<exists>w. (tui_step T E server ^^ 4) w0 w \<and> at_rest w \<and>
    ap_filter (w_app w) = ap_filter (app_new config) \<and>
    ap_latest_block (w_app w) = settle_load (map_sum tui_error_text (\<lambda>v. v) (latest_block E rl)) \<and>
    ap_analysis (w_app w) = settle_load (map_sum tui_error_text (\<lambda>v. v) (failed_tx_analysis E ra))"
proof -
  let ?S = "tui_step T E server" and ?a = "app_new config"
  let ?F = "FetchLatestBlock (latest_block_request (ap_client ?a))"
  let ?G = "FetchAnalysis (failed_tx_analysis_request (ap_client ?a))"
  define b where "b = ?a\<lparr>ap_latest_block := Loading, ap_analysis := Loading, ap_inflight := Suc (Suc 0)\<rparr>"
  have w0: "w0 = \<lparr>w_app = b, w_tasks = [?F, ?G], w_queue = []\<rparr>"
    using w0 by (simp add: run_start_def spawn_fetch_active_def with_fetches_def add_inflight_def
        run_transition_def b_def app_new_def)
  define w1 where "w1 = \<lparr>w_app = b, w_tasks = [?G], w_queue = [answer E ?F rl]\<rparr>"
  define w2 where "w2 = \<lparr>w_app = b, w_tasks = [], w_queue = [answer E ?F rl, answer E ?G ra]\<rparr>"
  define w3 where "w3 = \<lparr>w_app = ingest now (answer E ?F rl) b, w_tasks = [], w_queue = [answer E ?G ra]\<rparr>"
  define w4 where "w4 = \<lparr>w_app = ingest now (answer E ?G ra) (ingest now (answer E ?F rl) b), w_tasks = [],
    w_queue = []\<rparr>"
  have run: "\<not> ap_should_quit b" by (simp add: b_def app_new_def)
  have "?S w0 w1"
    using reply_first [of w0 ?F "[?G]" server rl T E] L by (simp add: w0 w1_def app_new_def)
  moreover have "?S w1 w2"
    using reply_first [of w1 ?G "[]" server ra T E] A by (simp add: w2_def w1_def app_new_def)
  moreover have "?S w2 w3"
    using receive_first [of w2 "answer E ?F rl" "[answer E ?G ra]" T E server now] run by (simp add: w2_def w3_def)
  moreover have "?S w3 w4"
    using receive_first [of w3 "answer E ?G ra" "[]" T E server now] run by (simp add: w3_def w4_def)
  ultimately have "(?S ^^ 4) w0 w4" by (auto simp: numeral_eq_Suc)
  moreover have "at_rest w4" using run by (simp add: at_rest_def w4_def ingest_def b_def app_new_def)
  ultimately show ?thesis
    by (intro exI [of _ w4]) (simp add: w4_def ingest_def b_def)
qed

lemma total_card:
  assumes a: "ap_analysis a = Loaded (map (analysis_view T) (get_failed_tx_analysis ties (ax_divide X) d))" and d: "db_fits d"
  shows "total_failed_card a = Ret \<lparr>cd_title = ''Total failed tx'',
    cd_value = group_thousands (count_failed_transactions None None None d), cd_color = White\<rparr>"
proof -
  let ?rows = "get_failed_tx_analysis ties (ax_divide X) d"
  have counts: "map dn_failure_count (map (analysis_view T) ?rows) = map an_failure_count ?rows"
    by (simp add: analysis_view_def)
  have "0 \<le> an_failure_count r" if "r \<in> set ?rows" for r
    using analysis_row_size(1) [of r ties "ax_divide X" d] that by (simp add: get_failed_tx_analysis_def)
  then have "list_all (\<lambda>n. 0 \<le> n) (map an_failure_count ?rows)"
    by (simp add: list_all_iff)
  moreover have "sum_list (map an_failure_count ?rows) = count_failed_transactions None None None d"
    by (simp add: get_failed_tx_analysis_def analysis_total count_all)
  moreover have "count_failed_transactions None None None d < 2 ^ 63"
    using d by (simp add: count_all db_fits_def)
  ultimately have "sum_i64 0 (map dn_failure_count (map (analysis_view T) ?rows)) =
      Ret (count_failed_transactions None None None d)"
    unfolding counts using sum_i64_nonneg [of "map an_failure_count ?rows" 0] by simp
  then show ?thesis by (simp only: total_failed_card_def a Let_def loadable.case outcome.case)
qed

lemma top_card:
  assumes a: "ap_analysis a = Loaded (map (analysis_view T) (get_failed_tx_analysis ties (ax_divide X) d))"
  shows "if db_failed d = [] then cd_value (top_category_card a) = ''none''
    else \<exists>c. cd_value (top_category_card a) = error_category_label (as_wire c) \<and>
      (\<forall>c'. count_failed_transactions (Some c') None None d \<le> count_failed_transactions (Some c) None None d)"
proof -
  let ?rows = "get_failed_tx_analysis ties (ax_divide X) d" and ?count = "\<lambda>c. count_failed_transactions (Some c) None None d"
  have covers: "an_error_category ` set ?rows = ft_error_category ` set (db_failed d)"
    using analysis_covers [of ties "ax_divide X" d] by (simp add: get_failed_tx_analysis_def)
  show ?thesis
  proof (cases "max_by_key dn_failure_count (map (analysis_view T) ?rows)")
    case None
    then have "db_failed d = []" using covers by simp
    with None show ?thesis by (simp add: top_category_card_def a Let_def)
  next
    case (Some x)
    from max_by_key_greatest [OF this] obtain r where r: "r \<in> set ?rows" "x = analysis_view T r"
      and best: "\<forall>q\<in>set ?rows. an_failure_count q \<le> an_failure_count r"
      by (auto simp: analysis_view_def)
    have row_count: "an_failure_count q = ?count (an_error_category q)" if "q \<in> set ?rows" for q
      using that analysis_row_count [of q ties "ax_divide X" d] by (simp add: get_failed_tx_analysis_def)
    have "?count c' \<le> ?count (an_error_category r)" for c'
    proof (cases "c' \<in> ft_error_category ` set (db_failed d)")
      case True
      then obtain q where "q \<in> set ?rows" "an_error_category q = c'" using covers by (metis imageE)
      with best row_count r(1) show ?thesis by metis
    next
      case False
      then have "?count c' = 0"
        by (auto simp: count_failed_transactions_def failed_where_category filter_empty_conv)
      then show ?thesis by (simp add: count_failed_transactions_def)
    qed
    moreover have "cd_value (top_category_card a) = error_category_label (as_wire (an_error_category r))"
      using Some r(2) by (simp add: top_category_card_def a Let_def analysis_view_def error_category_label_def)
    moreover have "db_failed d \<noteq> []" using r(1) covers by auto
    ultimately show ?thesis by auto
  qed
qed

text \<open>C20. The first screen tells what the database holds. When the terminal program starts against the
  REST server of a database, it can come to rest with both requests answered in four steps, and then
  the card of the failures shows the number of failures in the database, the card of the categories
  one that no category exceeds (or none), and the card of the blocks the highest block (or, on an
  empty table, an error), whatever order PostgreSQL gives to equally frequent categories. The number of failures is also the total of the list without a filter. The
  division and the printing of numbers are arbitrary.\<close>

theorem overview_shows_database:
  assumes w0: "run_start T now config = Ret w0" and d: "db_fits d"
    and blocks: "\<forall>b\<in>set (db_blocks d). fits 64 (blk_number b)"
    and E: "\<forall>kvs. je_parse E (print (JObj kvs)) = Some (JObj kvs)"
  shows "\<exists>w. (tui_step T E (api_serves X T print key
        (cl_base_url (api_client_new config)) ties d) ^^ 4) w0 w \<and> at_rest w \<and>
    total_failed_card (w_app w) = Ret \<lparr>cd_title = ''Total failed tx'',
      cd_value = group_thousands (count_failed_transactions None None None d), cd_color = White\<rparr> \<and>
    (if db_failed d = [] then cd_value (top_category_card (w_app w)) = ''none''
     else \<exists>c. cd_value (top_category_card (w_app w)) = error_category_label (as_wire c) \<and>
       (\<forall>c'. count_failed_transactions (Some c') None None d \<le> count_failed_transactions (Some c) None None d)) \<and>
    cd_value (latest_block_card (w_app w)) = (if db_blocks d = [] then ''error''
      else group_thousands (Max (blk_number ` set (db_blocks d)))) \<and>
    dm_total (dp_pagination (shown_page T ties (ap_filter (w_app w)) None d)) = count_failed_transactions None None None d"
proof -
  let ?c = "api_client_new config"
  let ?S = "api_serves X T print key (cl_base_url ?c) ties d"
  obtain rl where rl: "?S (FetchLatestBlock (latest_block_request ?c)) rl"
    "if db_blocks d = [] then \<exists>e. latest_block E rl = Inl e
     else latest_block E rl = Inr (Some (Max (blk_number ` set (db_blocks d))))"
    using latest_served [OF blocks E] by blast
  obtain ra where ra: "?S (FetchAnalysis (failed_tx_analysis_request ?c)) ra"
    "failed_tx_analysis E ra = Inr (map (analysis_view T) (get_failed_tx_analysis ties (ax_divide X) d))"
    using analysis_served [OF d E] by blast
  from overview_run [OF w0 rl(1) ra(1)] obtain w where w: "(tui_step T E ?S ^^ 4) w0 w" "at_rest w"
    "ap_filter (w_app w) = ap_filter (app_new config)"
    "ap_latest_block (w_app w) = settle_load (map_sum tui_error_text (\<lambda>v. v) (latest_block E rl))"
    "ap_analysis (w_app w) = settle_load (map_sum tui_error_text (\<lambda>v. v) (failed_tx_analysis E ra))"
    by blast
  from ra(2) w(5) have "ap_analysis (w_app w) = Loaded (map (analysis_view T) (get_failed_tx_analysis ties (ax_divide X) d))"
    by simp
  note cards = total_card [OF this d] top_card [OF this]
  have "cd_value (latest_block_card (w_app w)) = (if db_blocks d = [] then ''error''
      else group_thousands (Max (blk_number ` set (db_blocks d))))"
    using rl(2) w(4) by (auto simp: latest_block_card_def split: if_splits)
  moreover have "dm_total (dp_pagination (shown_page T ties (ap_filter (w_app w)) None d)) =
      count_failed_transactions None None None d"
    by (simp add: w(3) app_new_def shown_page_def Let_def matching_def category_of_def count_all)
  ultimately show ?thesis
    using w(1,2) cards by blast
qed

lemma overview_shows_database_witness:
  "\<exists>w0 w. run_start sample_text 0 sample_config = Ret w0 \<and>
     (tui_step sample_text sample_json (api_serves sample_api sample_text sample_print ''k''
        (cl_base_url (api_client_new sample_config)) id (sample_service Map.empty)) ^^ 4) w0 w \<and>
     total_failed_card (w_app w) = Ret \<lparr>cd_title = ''Total failed tx'', cd_value = ''1'', cd_color = White\<rparr> \<and>
     cd_value (top_category_card (w_app w)) = ''Unknown''"
proof -
  let ?d = "sample_service Map.empty"
  obtain w0 where w0: "run_start sample_text 0 sample_config = Ret w0"
    using sample_start by blast
  have d: "db_fits ?d"
    by (simp add: db_fits_def sample_db_def tx_fits_def fits_def)
  have b: "\<forall>b\<in>set (db_blocks ?d). fits 64 (blk_number b)"
    by (simp add: sample_service_def service_of_def sample_db_def fits_def)
  have count: "count_failed_transactions None None None ?d = 1"
    "count_failed_transactions (Some c) None None ?d = (if c = Unknown then 1 else 0)" for c
    by (auto simp: count_failed_transactions_def failed_where_def in_period_def sample_db_def)
  from overview_shows_database [OF w0 d b, where E = sample_json and print = sample_print and X = sample_api
      and key = "''k''" and ties = id, unfolded count]
  obtain w c where w: "(tui_step sample_text sample_json (api_serves sample_api sample_text sample_print ''k''
      (cl_base_url (api_client_new sample_config)) id ?d) ^^ 4) w0 w"
    "total_failed_card (w_app w) = Ret \<lparr>cd_title = ''Total failed tx'', cd_value = group_thousands 1, cd_color = White\<rparr>"
    "cd_value (top_category_card (w_app w)) = error_category_label (as_wire c)"
    "\<forall>c'. (if c' = Unknown then 1 else 0 :: int) \<le> (if c = Unknown then 1 else 0)"
    by (auto simp: sample_db_def)
  from w(4) have "c = Unknown" by (auto split: if_splits)
  then have "error_category_label (as_wire c) = ''Unknown''"
    by (simp add: error_category_label_def normalize_category_def)
  moreover have "group_thousands 1 = ''1''" by code_simp
  ultimately show ?thesis using w0 w by (intro exI [of _ w0] exI [of _ w]) simp
qed

end
