(* ===== verification/Spec2Isabelle.thy ===== *)
theory Spec2Isabelle
  imports Classifier Trace Abi Events Ranges Fork Chain_Db Block_Laws
    Follow_Laws Dispatch_Loop Triggers Consistency
begin

text \<open>
  Verification of amarillo, a service that explains failed Ethereum transactions. An indexer reads
  blocks, receipts and call traces from a node and stores them in PostgreSQL; a dispatcher sends
  webhooks about the failures it finds there; a REST server answers queries about them; a terminal
  program is a client of the server.

  \<^bold>\<open>How the parts interact.\<close> The crates \<open>indexer\<close> and \<open>api\<close> share nothing but the database, through the
  functions of \<open>src/crates/db/src/queries.rs\<close>. The indexer calls the pure functions of \<open>decoder\<close> on
  what the node returns and writes one statement per table and block; its checkpoint and its
  rollback are statements too. The dispatcher reads the stored failures, and claims and records
  deliveries in a ledger table, which is all that keeps several dispatchers apart. The server reads
  the tables, and writes subscriptions and labels. The terminal program \<open>tui\<close> has its own data types
  and knows the server by its JSON only. So the model has one database state
  (\<open>chain_db\<close> of \<open>Schema\<close>, extended by \<open>service_db\<close> of \<open>Alerts_Db\<close>), one function per statement, and the
  programs as functions or transition systems over it.

  \<^bold>\<open>Theories and sources.\<close>
  \<^item> \<open>Prelude\<close>, \<open>Bytes\<close>: the Rust standard library as far as the program uses it (strings as lists of
    bytes, saturating and wrapping arithmetic, decimal and hexadecimal text, UTF-8); the result type
    \<open>outcome\<close> of code that may panic; invariants of transition systems as a locale.
  \<^item> \<open>Models\<close>: \<open>src/crates/db/src/models.rs\<close> and \<open>error.rs\<close>. One record per struct, one datatype per enum.
  \<^item> \<open>Classifier\<close>, \<open>Trace\<close>, \<open>Abi\<close>, \<open>Events\<close>: the files of \<open>src/crates/decoder/src\<close> of the same names:
    revert reasons to categories, \<open>callTracer\<close> JSON to a call tree and to rows, call arguments,
    and Uniswap V3 events.
  \<^item> \<open>Schema\<close>, \<open>Chain_Db\<close>: the tables of \<open>src/migrations\<close> with their constraints, and the indexer's part of
    \<open>queries.rs\<close>: inserts, checkpoint, block hashes, rollback.
  \<^item> \<open>Alerts_Db\<close>, \<open>Queries\<close>, \<open>Analytics\<close>: the other statements of \<open>queries.rs\<close>: subscriptions, ledger and
    matchers; the read queries and the labels; the views and the function of \<open>src/sql\<close> that the
    Rust code reads, with price snapshots and user profiles.
  \<^item> \<open>Ranges\<close>, \<open>Fork\<close>, \<open>Process\<close>, \<open>Indexer\<close>: \<open>src/crates/indexer/src/worker.rs\<close> (with \<open>config.rs\<close> and the
    decisions of \<open>main.rs\<close>): which blocks to index next, the search for a reorg, the statements of
    one block, and the concurrent chunks and the follow loop as step relations \<open>chunk_step\<close> and
    \<open>follow_step\<close>, with the laws of whole cycles in \<open>Follow_Laws\<close>.
  \<^item> \<open>Validators\<close>: \<open>src/crates/db/src/validators.rs\<close>, which webhooks are allowed.
  \<^item> \<open>Dispatch\<close>, \<open>Delivery\<close>, \<open>Dispatch_Loop\<close>: \<open>src/crates/indexer/src/alerts.rs\<close>: one alert from claim to
    record, the pool of tasks, any number of interleaved dispatchers as the step relation
    \<open>dispatch_step\<close>, and the loop of one dispatcher over its cycles.
  \<^item> \<open>Api\<close>: \<open>src/crates/api/src\<close>: configuration, authentication, one definition per handler, and the router.
  \<^item> \<open>Wire\<close>, \<open>Client\<close>, \<open>Tui_Text\<close>, \<open>Floats\<close>, \<open>Screens\<close>, \<open>Tui\<close>: \<open>src/crates/tui/src\<close>: what the server serialises
    and \<open>dto.rs\<close> reads, \<open>client.rs\<close> and \<open>config.rs\<close>, the texts of \<open>format.rs\<close> (on \<open>f64\<close> in \<open>Floats\<close>), the frame that
    \<open>ui/\<close> draws, and \<open>app.rs\<close> and \<open>event.rs\<close>
    as a state machine with the step relation \<open>tui_step\<close>.
  \<^item> \<open>Triggers\<close>: \<open>src/sql/triggers\<close>, and the indexer on a database that has them.

  \<^bold>\<open>What is shown.\<close> \<open>Block_Laws\<close>: a block is stored if and only if its rows fit their columns, and what a
  second run changes. \<open>Indexer\<close>: under every interleaving, crash and restart, the checkpoint never
  runs ahead of the stored blocks unless a rollback moves it; chunks end. \<open>Follow_Laws\<close>: a cycle of the
  follow loop ends, indexes exactly its range, and from every state the loop can catch up. \<open>Fork\<close>: a reported fork is
  real, and the lazy search finds what a full scan finds. \<open>Chain_Db\<close>: a rollback removes exactly the
  blocks from the fork on. \<open>Ledger\<close>: the alert statements refine an abstract ledger, and the matchers
  return exactly the due alerts. \<open>Delivery\<close>: when an alert is delivered at most once, and when not; which
  alerts one dispatcher never attempts (\<open>lone_step\<close>).
  \<open>Dispatch_Loop\<close>: with receivers that answer the loop delivers every waiting alert.
  \<open>Api_Laws\<close>: who can write and who can see secrets; accepted subscriptions can be delivered to;
  what was stored about a failure is what is answered. \<open>Queries\<close>, \<open>Report_Laws\<close>: the reports agree with
  the tables and with each other. \<open>Tui_Laws\<close>: the terminal program keeps its state well-formed and comes
  to rest. \<open>Floats\<close>, \<open>Screens\<close>: when drawing panics, and which numbers are shown exactly. \<open>Browse\<close>,
  \<open>Consistency\<close>: client and server together, through query strings and JSON: turning
  the pages shows the failures (each once, if timestamps differ), and the overview shows what the database holds.
  \<open>Trace\<close>, \<open>Abi\<close>, \<open>Validators\<close>, \<open>Classifier\<close>, \<open>Ranges\<close>, \<open>Events\<close>, \<open>Dispatch\<close>: exact characterisations and round
  trips of the pure functions. Some theorems state defects: what panics, what is stored twice,
  skipped, starved, dropped by a trigger or answered by an error.

  \<^bold>\<open>Interfaces.\<close> Locales state what a component may assume of another: \<open>wire_codec\<close> (enums and their text),
  \<open>invariant_system\<close> (step relations with an invariant), \<open>idempotent_insert\<close> (inserts that skip known
  keys), \<open>delivery_ledger\<close> (claims and records), \<open>json_wire\<close> (writers and readers of JSON). Each is
  interpreted on the definitions that provide it.

  \<^bold>\<open>Bounds.\<close> No definition runs on fuel: every recursion terminates and the loops that may go on for
  ever are step relations. \<open>u64\<close> and \<open>usize\<close> are 64-bit words where they can overflow; \<open>i64\<close> counters of the
  server and the client are integers with their range checked where the code would panic. Theorems
  about numbers that pass through an \<open>i64\<close> assume fewer than \<open>2 ^ 62\<close> rows, through an \<open>f64\<close> fewer than \<open>2 ^ 53\<close>.

  \<^bold>\<open>External code\<close> is an argument: the node (\<open>rpc_view\<close>, \<open>rpc\<close>), the network (\<open>http_answer\<close>, \<open>http_reply\<close>),
  the clock, random bytes, and the crates \<open>alloy\<close>, \<open>hex\<close>, \<open>hmac\<close>, \<open>url\<close>, \<open>chrono\<close>, \<open>bigdecimal\<close>, \<open>serde_json\<close>
  (records \<open>worker_ext\<close>, \<open>event_ext\<close>, \<open>abi_ext\<close>, \<open>dispatch_ext\<close>, \<open>api_ext\<close>, \<open>text_ext\<close>, \<open>json_ext\<close>), Unicode lower
  case, and the division of \<open>NUMERIC\<close> values. PostgreSQL is modelled by its documented semantics of
  the statements used. The order of rows whose \<open>ORDER BY\<close> keys are equal is an argument of each query
  (\<open>order_by\<close> of \<open>Alerts_Db\<close>, which covers every such order), and the theorems hold for every choice, also
  when it changes from query to query.

  \<^bold>\<open>Not modelled.\<close> \<open>src/crates/db/src/lib.rs\<close>, \<open>tui/src/terminal.rs\<close> and the \<open>main\<close> functions construct
  connections, clients and terminals and have no logic beyond the decisions in \<open>Ranges\<close> and \<open>Client\<close>;
  \<open>rpc_with_retry\<close> and \<open>spawn_head_ticks\<close> wrap crates (a call that fails after its retries, a tick and the
  end of the subscription are answers of the node here), and durations are not part of the model; the CORS and trace layers belong to \<open>tower-http\<close>; layout and
  drawing belong to \<open>ratatui\<close>. The seed rows of the migrations are data. The views and procedures of \<open>src/sql\<close> that no Rust code uses,
  \<open>src/web\<close> and \<open>src/examples\<close> are outside the implementation verified here.
\<close>

end
